(* ===== verification/Cfe_Prelude.thy ===== *)
theory Cfe_Prelude
  imports Main "HOL-Library.Word" "HOL-Library.Monad_Syntax" "HOL-Library.Char_ord"
begin

text \<open>
  Shared vocabulary of the libcfe development.

  Undefined behaviour of the C code (a load or a store through a pointer to no live object, a call
  through a NULL function pointer, a shift by a bad amount, an unlock of a lock nobody holds) and
  non-termination (a loop that never leaves, a lock that is never granted) are the value \<open>None\<close> of
  an option type; every operation that returns is \<open>Some\<close> of its return value and the new state. A C
  \<open>int\<close> used as a return code is an \<^typ>\<open>int\<close>; integers whose width matters are words.
  Addresses are 64 bit (LP64, the data model of both platforms the build files know).
\<close>

subsection \<open>Addresses, errno values\<close>

type_synonym addr = "64 word"
type_synonym uint16 = "16 word"
type_synonym uint32 = "32 word"
type_synonym uint64 = "64 word"
type_synonym size_t = "64 word"
type_synonym cint = "32 word"
type_synonym bytes = "8 word list"

abbreviation NULL :: addr where "NULL \<equiv> 0"

named_theorems errno_defs "values of the errno constants"
named_theorems cfe_defs "definitions of the operations of a component, for unfolding"

text \<open>The numbers of Linux; the code uses the names only.\<close>

definition EINVAL :: int where [errno_defs]: "EINVAL = 22"
definition EBUSY :: int where [errno_defs]: "EBUSY = 16"
definition ENOSYS :: int where [errno_defs]: "ENOSYS = 38"
definition ENOMEM :: int where [errno_defs]: "ENOMEM = 12"
definition ENOENT :: int where [errno_defs]: "ENOENT = 2"
definition ENOSPC :: int where [errno_defs]: "ENOSPC = 28"

subsection \<open>C strings\<close>

text \<open>
  A C string is modelled by the characters stored from its address on; the end of the HOL list
  stands for a terminator. A NUL inside the list ends the string too, so \<open>cstr\<close> is the string that
  the library functions see.
\<close>

abbreviation NUL :: char where "NUL \<equiv> CHR 0x00"

definition cstr :: "string \<Rightarrow> string" where
  "cstr s = takeWhile (\<lambda>c. c \<noteq> NUL) s"

text \<open>\<open>strcmp\<close> and \<open>strncmp\<close> of the C library: the difference of the first bytes that differ.\<close>

fun strcmp :: "string \<Rightarrow> string \<Rightarrow> int" where
  "strcmp [] [] = 0"
| "strcmp [] (d # t) = - of_char d"
| "strcmp (c # s) [] = of_char c"
| "strcmp (c # s) (d # t) =
     (if c \<noteq> d then of_char c - of_char d else if c = NUL then 0 else strcmp s t)"

fun strncmp :: "string \<Rightarrow> string \<Rightarrow> nat \<Rightarrow> int" where
  "strncmp s t 0 = 0"
| "strncmp [] [] (Suc n) = 0"
| "strncmp [] (d # t) (Suc n) = - of_char d"
| "strncmp (c # s) [] (Suc n) = of_char c"
| "strncmp (c # s) (d # t) (Suc n) =
     (if c \<noteq> d then of_char c - of_char d else if c = NUL then 0 else strncmp s t n)"

lemma cstr_Nil [simp]: "cstr [] = []"
  by (simp add: cstr_def)

lemma cstr_Cons [simp]: "cstr (c # s) = (if c = NUL then [] else c # cstr s)"
  by (simp add: cstr_def)

lemma of_char_eq_0 [simp]: "(of_char c :: int) = 0 \<longleftrightarrow> c = NUL"
proof -
  have "(of_char c :: int) = 0 \<longleftrightarrow> (of_char c :: int) = of_char NUL" by simp
  then show ?thesis by (simp only: of_char_eq_iff)
qed

lemma of_char_diff_eq_0 [simp]: "(of_char c - of_char d :: int) = 0 \<longleftrightarrow> c = d"
  by simp

lemma strcmp_eq_0_iff: "strcmp s t = 0 \<longleftrightarrow> cstr s = cstr t"
  by (induction s t rule: strcmp.induct) auto

lemma strncmp_eq_0_iff: "strncmp s t n = 0 \<longleftrightarrow> take n (cstr s) = take n (cstr t)"
  by (induction s t n rule: strncmp.induct) auto

subsection \<open>Read-write locks\<close>

text \<open>
  A POSIX read-write lock as one thread sees it: free, held for reading so many times, held for
  writing. Taking a lock that is held in a conflicting way never returns, releasing a free lock is
  undefined: both are \<open>None\<close>.
\<close>

datatype rwlock = Unlocked | RdLocked nat | WrLocked

fun rwlock_wrlock :: "rwlock \<Rightarrow> rwlock option" where
  "rwlock_wrlock Unlocked = Some WrLocked"
| "rwlock_wrlock (RdLocked n) = None"
| "rwlock_wrlock WrLocked = None"

fun rwlock_rdlock :: "rwlock \<Rightarrow> rwlock option" where
  "rwlock_rdlock Unlocked = Some (RdLocked 1)"
| "rwlock_rdlock (RdLocked n) = Some (RdLocked (Suc n))"
| "rwlock_rdlock WrLocked = None"

fun rwlock_unlock :: "rwlock \<Rightarrow> rwlock option" where
  "rwlock_unlock Unlocked = None"
| "rwlock_unlock (RdLocked n) = Some (if n \<le> 1 then Unlocked else RdLocked (n - 1))"
| "rwlock_unlock WrLocked = Some Unlocked"

lemma wrlock_unlock: "rwlock_wrlock l = Some l' \<Longrightarrow> rwlock_unlock l' = Some l"
  by (cases l) auto

subsection \<open>Words\<close>

lemma word_add_left_inj: "inj (\<lambda>t. t + (off :: 'a::len word))"
  by (simp add: inj_def)

lemma unat_power2:
  assumes "n < LENGTH('a)"
  shows "unat (2 ^ n :: 'a::len word) = 2 ^ n"
proof -
  have "unat (of_nat (2 ^ n) :: 'a word) = 2 ^ n mod 2 ^ LENGTH('a)" by (rule unat_of_nat)
  also have "\<dots> = 2 ^ n" using assms by (intro mod_less power_strict_increasing) auto
  finally show ?thesis by simp
qed

lemma unat_ucast_le: "unat (ucast (x :: 'a::len word) :: 'b::len word) \<le> unat x"
  by (simp add: unsigned_ucast_eq take_bit_nat_eq_self_iff)

text \<open>Clearing the low bits of a word rounds it down to a multiple of a power of two.\<close>

lemma unat_round: "unat (push_bit k (drop_bit k x)) = 2 ^ k * (unat x div 2 ^ k)"
  for x :: "'a::len word"
proof -
  have "unat x < 2 ^ LENGTH('a)" by (rule unsigned_less)
  then have "2 ^ k * (unat x div 2 ^ k) < 2 ^ LENGTH('a)"
    by (meson le_less_trans times_div_less_eq_dividend)
  then show ?thesis
    by (simp only: unsigned_push_bit_eq unsigned_drop_bit_eq)
       (simp add: push_bit_eq_mult drop_bit_eq_div take_bit_nat_eq_self mult.commute)
qed

lemma and_not_mask_round: "and x (not (mask k)) = push_bit k (drop_bit k x)"
  for x :: "'a::len word"
  by (rule bit_word_eqI) (auto simp: bit_simps)

lemma unat_ucast_up:
  "LENGTH('a::len) \<le> LENGTH('b::len) \<Longrightarrow> unat (ucast (x :: 'a word) :: 'b word) = unat x"
  by (simp add: unsigned_ucast_eq take_bit_nat_eq_self_iff)
     (meson le_less_trans less_le_trans order_refl power_increasing unsigned_less one_le_numeral)

lemma ucast_size_t [simp]: "ucast (ucast (x :: uint32) :: size_t) = x"
  by (rule bit_word_eqI) (simp add: bit_simps)

lemma list_all2_member: "list_all2 P xs ys \<Longrightarrow> x \<in> set xs \<Longrightarrow> \<exists>y \<in> set ys. P x y"
  by (induction rule: list_all2_induct) auto

end
