(* ===== verification/Cfe_Atomic.thy ===== *)
theory Cfe_Atomic
  imports Cfe_Prelude
begin

text \<open>
  \<^verbatim>\<open>include/cfe/atomic.h\<close> and \<^verbatim>\<open>include/cfe/ref.h\<close>: an atomic counter is a C \<open>long\<close> (64 bit) that
  the inline functions set, read, add to and subtract from through an \<open>int\<close> (32 bit); a reference
  count is an object that holds one counter and calls a release function when it drops to zero.
  The lemmas say what a reader sees of a counter and follow a reference count through any sequence
  of gets and puts.
\<close>

subsection \<open>Counters\<close>

type_synonym cfe_atomic_t = "64 word"

text \<open>\<open>val\<close> is sign extended to the \<open>long\<close>; the previous value is overwritten.\<close>

definition cfe_atomic_set :: "cfe_atomic_t \<Rightarrow> cint \<Rightarrow> cfe_atomic_t" where
  "cfe_atomic_set v val = scast val"

text \<open>The \<open>long\<close> is returned as an \<open>int\<close>: the low 32 bits.\<close>

definition cfe_atomic_get :: "cfe_atomic_t \<Rightarrow> cint" where
  "cfe_atomic_get v = ucast v"

definition cfe_atomic_add :: "cfe_atomic_t \<Rightarrow> cint \<Rightarrow> cfe_atomic_t" where
  "cfe_atomic_add v count = v + scast count"

definition cfe_atomic_sub :: "cfe_atomic_t \<Rightarrow> cint \<Rightarrow> cfe_atomic_t" where
  "cfe_atomic_sub v count = v - scast count"

definition cfe_atomic_inc :: "cfe_atomic_t \<Rightarrow> cfe_atomic_t" where
  "cfe_atomic_inc v = cfe_atomic_add v 1"

definition cfe_atomic_dec :: "cfe_atomic_t \<Rightarrow> cfe_atomic_t" where
  "cfe_atomic_dec v = cfe_atomic_sub v 1"

text \<open>The truth value and the new counter.\<close>

definition cfe_atomic_sub_and_test :: "cfe_atomic_t \<Rightarrow> cint \<Rightarrow> bool \<times> cfe_atomic_t" where
  "cfe_atomic_sub_and_test v count = (v - scast count = 0, v - scast count)"

lemma scast_one [simp]: "(scast (1 :: cint) :: cfe_atomic_t) = 1"
  by simp

lemma atomic_set_1 [simp]: "cfe_atomic_set v 1 = 1"
  by (simp add: cfe_atomic_set_def)

lemma atomic_inc_eq [simp]: "cfe_atomic_inc v = v + 1"
  by (simp add: cfe_atomic_inc_def cfe_atomic_add_def)

lemma atomic_dec_eq [simp]: "cfe_atomic_dec v = v - 1"
  by (simp add: cfe_atomic_dec_def cfe_atomic_sub_def)

lemma atomic_get_of_nat: "cfe_atomic_get (of_nat n) = of_nat n"
  unfolding cfe_atomic_get_def by transfer simp

lemma atomic_get_1 [simp]: "cfe_atomic_get 1 = 1"
  by (simp add: cfe_atomic_get_def)

lemma atomic_get_numeral [simp]: "cfe_atomic_get (numeral n) = numeral n"
  using atomic_get_of_nat [of "numeral n"] by simp

text \<open>A counter of at most $2^{32}$ reads 1 exactly when it is 1.\<close>

lemma atomic_get_eq_1_iff:
  assumes "unat v < 2 ^ 32"
  shows "cfe_atomic_get v = 1 \<longleftrightarrow> v = 1"
proof -
  have "unat (cfe_atomic_get v) = unat v"
    using assms by (simp add: cfe_atomic_get_def unsigned_ucast_eq take_bit_nat_eq_self_iff)
  then show ?thesis by (auto simp: word_unat_eq_iff)
qed

subsection \<open>Reference counts\<close>

record cfe_ref =
  refcount :: cfe_atomic_t

text \<open>
  The objects that hold a \<open>struct cfe_ref\<close>, by address. A release function is given the address and
  may free the object, as \<open>free\<close> in \<^verbatim>\<open>tests/check_ref.c\<close> does.
\<close>

type_synonym ref_heap = "addr \<rightharpoonup> cfe_ref"
type_synonym release_fn = "addr \<Rightarrow> ref_heap \<Rightarrow> ref_heap option"

definition cfe_ref_init :: "addr \<Rightarrow> ref_heap \<Rightarrow> ref_heap option" where
  "cfe_ref_init ref h = do {
     r \<leftarrow> h ref;
     Some (h(ref \<mapsto> r\<lparr>refcount := cfe_atomic_set (refcount r) 1\<rparr>))
   }"

definition cfe_ref_get :: "addr \<Rightarrow> ref_heap \<Rightarrow> ref_heap option" where
  "cfe_ref_get ref h = do {
     r \<leftarrow> h ref;
     Some (h(ref \<mapsto> r\<lparr>refcount := cfe_atomic_inc (refcount r)\<rparr>))
   }"

definition cfe_ref_sub :: "addr \<Rightarrow> cint \<Rightarrow> release_fn \<Rightarrow> ref_heap \<Rightarrow> (int \<times> ref_heap) option" where
  "cfe_ref_sub ref count release h = do {
     r \<leftarrow> h ref;
     let (zero, c) = cfe_atomic_sub_and_test (refcount r) count;
     let h = h(ref \<mapsto> r\<lparr>refcount := c\<rparr>);
     if zero then do {
       h \<leftarrow> release ref h;
       Some (1, h)
     } else Some (0, h)
   }"

definition cfe_ref_put :: "addr \<Rightarrow> release_fn \<Rightarrow> ref_heap \<Rightarrow> (int \<times> ref_heap) option" where
  "cfe_ref_put ref release h = cfe_ref_sub ref 1 release h"

text \<open>
  A client's sequence of calls on one object. It stops at the first put that returned 1: the client
  has given up its last reference. The result is the number of calls left to do and the heap.
\<close>

datatype ref_op = Get | Put

fun ref_run :: "addr \<Rightarrow> release_fn \<Rightarrow> ref_op list \<Rightarrow> ref_heap \<Rightarrow> (ref_op list \<times> ref_heap) option" where
  "ref_run ref release [] h = Some ([], h)"
| "ref_run ref release (Get # ops) h = do {
     h \<leftarrow> cfe_ref_get ref h;
     ref_run ref release ops h
   }"
| "ref_run ref release (Put # ops) h = do {
     (ret, h) \<leftarrow> cfe_ref_put ref release h;
     if ret = 1 then Some (ops, h) else ref_run ref release ops h
   }"

text \<open>
  The specification: how many references are held after a sequence of calls that starts with \<open>n\<close>,
  and the calls left when the last one was given up.
\<close>

fun references :: "nat \<Rightarrow> ref_op list \<Rightarrow> nat \<times> ref_op list" where
  "references n [] = (n, [])"
| "references n (Get # ops) = references (Suc n) ops"
| "references n (Put # ops) = (if n \<le> 1 then (0, ops) else references (n - 1) ops)"

lemma ref_get_count:
  "h ref = Some \<lparr>refcount = of_nat n\<rparr> \<Longrightarrow>
    cfe_ref_get ref h = Some (h(ref \<mapsto> \<lparr>refcount = of_nat (Suc n)\<rparr>))"
  by (simp add: cfe_ref_get_def add.commute)

lemma of_nat_cfe_atomic_0_iff:
  "n < 2 ^ 64 \<Longrightarrow> (of_nat n :: cfe_atomic_t) = 0 \<longleftrightarrow> n = 0"
  by (simp add: word_of_nat_eq_0_iff nat_dvd_not_less)
     (metis dvd_0_right nat_dvd_not_less neq0_conv)

lemma ref_put_count:
  assumes "h ref = Some \<lparr>refcount = of_nat n\<rparr>" and "1 < n" and "n < 2 ^ 64"
  shows "cfe_ref_put ref release h = Some (0, h(ref \<mapsto> \<lparr>refcount = of_nat (n - 1)\<rparr>))"
proof -
  have eq: "(of_nat n :: cfe_atomic_t) - 1 = of_nat (n - 1)" using assms(2) by simp
  moreover have "(of_nat (n - 1) :: cfe_atomic_t) \<noteq> 0"
    using assms by (subst of_nat_cfe_atomic_0_iff) auto
  ultimately have "(of_nat n :: cfe_atomic_t) \<noteq> 1" by auto
  with eq assms(1) show ?thesis
    by (simp add: cfe_ref_put_def cfe_ref_sub_def cfe_atomic_sub_and_test_def Let_def)
qed

lemma ref_put_last:
  assumes "h ref = Some \<lparr>refcount = 1\<rparr>" and "\<And>g. release ref g = Some (g(ref := None))"
  shows "cfe_ref_put ref release h = Some (1, h(ref := None))"
  using assms by (simp add: cfe_ref_put_def cfe_ref_sub_def cfe_atomic_sub_and_test_def)

text \<open>C27: A reference counted object, through any sequence of cfe_ref_get and cfe_ref_put calls of a client that stops
  when a put answers 1: the put that gives up the last reference, and no other, calls the release
  function and answers 1; until then the object is alive and its counter is the number of references
  held.\<close>

theorem ref_run_references:
  assumes "h ref = Some \<lparr>refcount = of_nat n\<rparr>" and "0 < n" and "n + length ops < 2 ^ 64"
    and rel: "\<And>g. release ref g = Some (g(ref := None))"
  shows "ref_run ref release ops h =
    Some (snd (references n ops),
      h(ref := if fst (references n ops) = 0 then None
               else Some \<lparr>refcount = of_nat (fst (references n ops))\<rparr>))"
  using assms(1-3)
proof (induction n ops arbitrary: h rule: references.induct)
  case (1 n)
  then show ?case by (auto simp: fun_eq_iff)
next
  case (2 n ops)
  then show ?case by (auto simp: ref_get_count fun_eq_iff simp del: of_nat_Suc)
next
  case (3 n ops)
  show ?case
  proof (cases "n \<le> 1")
    case True
    with "3.prems" have "n = 1" by simp
    with "3.prems"(1) ref_put_last [of h ref release] rel show ?thesis
      by (simp add: fun_eq_iff)
  next
    case False
    let ?h = "h(ref \<mapsto> \<lparr>refcount = of_nat (n - 1)\<rparr>)"
    have "cfe_ref_put ref release h = Some (0, ?h)"
      using False "3.prems" by (intro ref_put_count) auto
    then have "ref_run ref release (Put # ops) h = ref_run ref release ops ?h"
      by simp
    also have "\<dots> = Some (snd (references (n - 1) ops),
        ?h(ref := if fst (references (n - 1) ops) = 0 then None
                  else Some \<lparr>refcount = of_nat (fst (references (n - 1) ops))\<rparr>))"
      using False "3.prems" by (intro "3.IH") auto
    finally show ?thesis using False by (simp only: references.simps fun_upd_upd if_False)
  qed
qed

theorem ref_run_references_witness:
  "ref_run 64 (\<lambda>ref g. Some (g(ref := None))) [Get, Put, Put, Get] [64 \<mapsto> \<lparr>refcount = 1\<rparr>] = Some ([Get], Map.empty)"
proof -
  have "ref_run 64 (\<lambda>ref g. Some (g(ref := None))) [Get, Put, Put, Get] [64 \<mapsto> \<lparr>refcount = of_nat 1\<rparr>] =
    Some (snd (references 1 [Get, Put, Put, Get]),
      [64 \<mapsto> \<lparr>refcount = of_nat 1\<rparr>](64 := if fst (references 1 [Get, Put, Put, Get]) = 0 then None
        else Some \<lparr>refcount = of_nat (fst (references 1 [Get, Put, Put, Get]))\<rparr>))"
    by (rule ref_run_references) simp_all
  then show ?thesis by (simp add: fun_eq_iff)
qed

end
