(* ===== verification/Cfe_List.thy ===== *)
theory Cfe_List
  imports Cfe_Prelude
begin

text \<open>
  \<^verbatim>\<open>include/cfe/list.h\<close>: intrusive circular doubly linked lists. A \<open>struct list_head\<close> is a pair of
  pointers embedded in another object; the model keeps all of them in one map from addresses, the
  operations are the sequences of stores of the inline functions, in their order, and fail on an
  address that holds no node. \<open>dlist h head xs\<close> says that the nodes reachable from \<open>head\<close> are \<open>xs\<close>,
  in both directions; each operation is shown to be the expected operation on \<open>xs\<close>, with a frame: no
  node but the named ones changes.
\<close>

subsection \<open>Nodes and single stores\<close>

record list_head =
  lh_next :: addr
  lh_prev :: addr

type_synonym lheap = "addr \<rightharpoonup> list_head"

definition set_next :: "addr \<Rightarrow> addr \<Rightarrow> lheap \<Rightarrow> lheap option" where
  "set_next a v h = do { n \<leftarrow> h a; Some (h(a \<mapsto> n\<lparr>lh_next := v\<rparr>)) }"

definition set_prev :: "addr \<Rightarrow> addr \<Rightarrow> lheap \<Rightarrow> lheap option" where
  "set_prev a v h = do { n \<leftarrow> h a; Some (h(a \<mapsto> n\<lparr>lh_prev := v\<rparr>)) }"

definition get_next :: "addr \<Rightarrow> lheap \<Rightarrow> addr option" where
  "get_next a h = map_option lh_next (h a)"

definition get_prev :: "addr \<Rightarrow> lheap \<Rightarrow> addr option" where
  "get_prev a h = map_option lh_prev (h a)"

subsection \<open>The operations\<close>

definition INIT_LIST_HEAD :: "addr \<Rightarrow> lheap \<Rightarrow> lheap option" where
  "INIT_LIST_HEAD list h = do {
     h \<leftarrow> set_next list list h;
     set_prev list list h
   }"

text \<open>The four stores of \<open>__list_add\<close>.\<close>

definition list_add_between :: "addr \<Rightarrow> addr \<Rightarrow> addr \<Rightarrow> lheap \<Rightarrow> lheap option" where
  "list_add_between new prev nxt h = do {
     h \<leftarrow> set_prev nxt new h;
     h \<leftarrow> set_next new nxt h;
     h \<leftarrow> set_prev new prev h;
     set_next prev new h
   }"

definition list_add :: "addr \<Rightarrow> addr \<Rightarrow> lheap \<Rightarrow> lheap option" where
  "list_add new head h = do {
     n \<leftarrow> get_next head h;
     list_add_between new head n h
   }"

definition list_add_tail :: "addr \<Rightarrow> addr \<Rightarrow> lheap \<Rightarrow> lheap option" where
  "list_add_tail new head h = do {
     p \<leftarrow> get_prev head h;
     list_add_between new p head h
   }"

text \<open>The two stores of \<open>__list_del\<close>.\<close>

definition list_del_between :: "addr \<Rightarrow> addr \<Rightarrow> lheap \<Rightarrow> lheap option" where
  "list_del_between prev nxt h = do {
     h \<leftarrow> set_prev nxt prev h;
     set_next prev nxt h
   }"

definition list_del :: "addr \<Rightarrow> lheap \<Rightarrow> lheap option" where
  "list_del entry h =
     (if entry = NULL then Some h
      else do {
        p \<leftarrow> get_prev entry h;
        n \<leftarrow> get_next entry h;
        h \<leftarrow> list_del_between p n h;
        h \<leftarrow> set_next entry NULL h;
        set_prev entry NULL h
      })"

definition list_del_init :: "addr \<Rightarrow> lheap \<Rightarrow> lheap option" where
  "list_del_init entry h = do {
     p \<leftarrow> get_prev entry h;
     n \<leftarrow> get_next entry h;
     h \<leftarrow> list_del_between p n h;
     INIT_LIST_HEAD entry h
   }"

definition list_move :: "addr \<Rightarrow> addr \<Rightarrow> lheap \<Rightarrow> lheap option" where
  "list_move list head h = do {
     p \<leftarrow> get_prev list h;
     n \<leftarrow> get_next list h;
     h \<leftarrow> list_del_between p n h;
     list_add list head h
   }"

definition list_move_tail :: "addr \<Rightarrow> addr \<Rightarrow> lheap \<Rightarrow> lheap option" where
  "list_move_tail list head h = do {
     p \<leftarrow> get_prev list h;
     n \<leftarrow> get_next list h;
     h \<leftarrow> list_del_between p n h;
     list_add_tail list head h
   }"

definition list_empty :: "addr \<Rightarrow> lheap \<Rightarrow> bool option" where
  "list_empty head h = do {
     n \<leftarrow> get_next head h;
     Some (n = head)
   }"

text \<open>\<open>__list_splice\<close> reads its three pointers first, then makes four stores.\<close>

definition list_splice_nonempty :: "addr \<Rightarrow> addr \<Rightarrow> lheap \<Rightarrow> lheap option" where
  "list_splice_nonempty list head h = do {
     first \<leftarrow> get_next list h;
     last \<leftarrow> get_prev list h;
     at \<leftarrow> get_next head h;
     h \<leftarrow> set_prev first head h;
     h \<leftarrow> set_next head first h;
     h \<leftarrow> set_next last at h;
     set_prev at last h
   }"

definition list_splice :: "addr \<Rightarrow> addr \<Rightarrow> lheap \<Rightarrow> lheap option" where
  "list_splice list head h = do {
     e \<leftarrow> list_empty list h;
     if e then Some h else list_splice_nonempty list head h
   }"

definition list_splice_init :: "addr \<Rightarrow> addr \<Rightarrow> lheap \<Rightarrow> lheap option" where
  "list_splice_init list head h = do {
     e \<leftarrow> list_empty list h;
     if e then Some h
     else do {
       h \<leftarrow> list_splice_nonempty list head h;
       INIT_LIST_HEAD list h
     }
   }"

text \<open>
  \<open>list_entry\<close> (and \<open>container_of\<close>): from the address of the embedded node to the address of the
  object around it, \<open>off\<close> bytes before.
\<close>

definition list_entry :: "addr \<Rightarrow> addr \<Rightarrow> addr" where
  "list_entry ptr off = ptr - off"

definition list_first_entry :: "addr \<Rightarrow> addr \<Rightarrow> lheap \<Rightarrow> addr option" where
  "list_first_entry ptr off h = do {
     n \<leftarrow> get_next ptr h;
     Some (list_entry n off)
   }"

text \<open>
  \<open>list_for_each\<close>: the body is given the cursor and returns a value to leave the enclosing function
  with, or none to go on. The loop runs until it is back at the head, which it may never be on a
  malformed list.
\<close>

partial_function (option) list_for_each_from ::
  "(addr \<Rightarrow> 'r option option) \<Rightarrow> lheap \<Rightarrow> addr \<Rightarrow> addr \<Rightarrow> 'r option option" where
  "list_for_each_from body h head pos =
     (if pos = head then Some None
      else do {
        r \<leftarrow> body pos;
        (case r of
           Some v \<Rightarrow> Some (Some v)
         | None \<Rightarrow> do {
             n \<leftarrow> get_next pos h;
             list_for_each_from body h head n
           })
      })"

definition list_for_each :: "(addr \<Rightarrow> 'r option option) \<Rightarrow> lheap \<Rightarrow> addr \<Rightarrow> 'r option option" where
  "list_for_each body h head = do {
     pos \<leftarrow> get_next head h;
     list_for_each_from body h head pos
   }"

partial_function (option) list_for_each_prev_from ::
  "(addr \<Rightarrow> 'r option option) \<Rightarrow> lheap \<Rightarrow> addr \<Rightarrow> addr \<Rightarrow> 'r option option" where
  "list_for_each_prev_from body h head pos =
     (if pos = head then Some None
      else do {
        r \<leftarrow> body pos;
        (case r of
           Some v \<Rightarrow> Some (Some v)
         | None \<Rightarrow> do {
             n \<leftarrow> get_prev pos h;
             list_for_each_prev_from body h head n
           })
      })"

definition list_for_each_prev ::
  "(addr \<Rightarrow> 'r option option) \<Rightarrow> lheap \<Rightarrow> addr \<Rightarrow> 'r option option" where
  "list_for_each_prev body h head = do {
     pos \<leftarrow> get_prev head h;
     list_for_each_prev_from body h head pos
   }"

text \<open>
  \<open>list_for_each_safe\<close>: the body may change the list (it is given the heap and returns it), the
  successor is read before the body runs.
\<close>

partial_function (option) list_for_each_safe_from ::
  "(addr \<Rightarrow> lheap \<Rightarrow> lheap option) \<Rightarrow> addr \<Rightarrow> addr \<Rightarrow> addr \<Rightarrow> lheap \<Rightarrow> lheap option" where
  "list_for_each_safe_from body head pos n h =
     (if pos = head then Some h
      else do {
        h \<leftarrow> body pos h;
        n' \<leftarrow> get_next n h;
        list_for_each_safe_from body head n n' h
      })"

definition list_for_each_safe ::
  "(addr \<Rightarrow> lheap \<Rightarrow> lheap option) \<Rightarrow> addr \<Rightarrow> lheap \<Rightarrow> lheap option" where
  "list_for_each_safe body head h = do {
     pos \<leftarrow> get_next head h;
     n \<leftarrow> get_next pos h;
     list_for_each_safe_from body head pos n h
   }"

text \<open>
  The two loops over the objects that the nodes are embedded in, \<open>off\<close> bytes after their beginning: the
  cursor is the object, and the test compares the address of its node with the head.
\<close>

partial_function (option) list_for_each_entry_from ::
  "(addr \<Rightarrow> 'r option option) \<Rightarrow> lheap \<Rightarrow> addr \<Rightarrow> addr \<Rightarrow> addr \<Rightarrow> 'r option option" where
  "list_for_each_entry_from body h head off pos =
     (if pos + off = head then Some None
      else do {
        r \<leftarrow> body pos;
        (case r of
           Some v \<Rightarrow> Some (Some v)
         | None \<Rightarrow> do {
             n \<leftarrow> get_next (pos + off) h;
             list_for_each_entry_from body h head off (list_entry n off)
           })
      })"

definition list_for_each_entry ::
  "(addr \<Rightarrow> 'r option option) \<Rightarrow> lheap \<Rightarrow> addr \<Rightarrow> addr \<Rightarrow> 'r option option" where
  "list_for_each_entry body h head off = do {
     n \<leftarrow> get_next head h;
     list_for_each_entry_from body h head off (list_entry n off)
   }"

partial_function (option) list_for_each_entry_safe_from ::
  "(addr \<Rightarrow> lheap \<Rightarrow> lheap option) \<Rightarrow> addr \<Rightarrow> addr \<Rightarrow> addr \<Rightarrow> addr \<Rightarrow> lheap \<Rightarrow> lheap option" where
  "list_for_each_entry_safe_from body head off pos n h =
     (if pos + off = head then Some h
      else do {
        h \<leftarrow> body pos h;
        n' \<leftarrow> get_next (n + off) h;
        list_for_each_entry_safe_from body head off n (list_entry n' off) h
      })"

definition list_for_each_entry_safe ::
  "(addr \<Rightarrow> lheap \<Rightarrow> lheap option) \<Rightarrow> addr \<Rightarrow> addr \<Rightarrow> lheap \<Rightarrow> lheap option" where
  "list_for_each_entry_safe body head off h = do {
     p \<leftarrow> get_next head h;
     let pos = list_entry p off;
     n \<leftarrow> get_next (pos + off) h;
     list_for_each_entry_safe_from body head off pos (list_entry n off) h
   }"

subsection \<open>Stores as heap updates\<close>

definition upd_next :: "addr \<Rightarrow> addr \<Rightarrow> lheap \<Rightarrow> lheap" where
  "upd_next a v h = h(a := map_option (\<lambda>n. n\<lparr>lh_next := v\<rparr>) (h a))"

definition upd_prev :: "addr \<Rightarrow> addr \<Rightarrow> lheap \<Rightarrow> lheap" where
  "upd_prev a v h = h(a := map_option (\<lambda>n. n\<lparr>lh_prev := v\<rparr>) (h a))"

lemma dom_upd [simp]: "dom (upd_next a v h) = dom h" "dom (upd_prev a v h) = dom h"
  by (auto simp: upd_next_def upd_prev_def dom_def)

lemma set_next_upd [simp]: "a \<in> dom h \<Longrightarrow> set_next a v h = Some (upd_next a v h)"
  by (auto simp: set_next_def upd_next_def)

lemma set_prev_upd [simp]: "a \<in> dom h \<Longrightarrow> set_prev a v h = Some (upd_prev a v h)"
  by (auto simp: set_prev_def upd_prev_def)

lemma get_upd [simp]:
  "get_next b (upd_next a v h) = (if b = a \<and> a \<in> dom h then Some v else get_next b h)"
  "get_prev b (upd_next a v h) = get_prev b h"
  "get_prev b (upd_prev a v h) = (if b = a \<and> a \<in> dom h then Some v else get_prev b h)"
  "get_next b (upd_prev a v h) = get_next b h"
  by ((cases "h a"; force simp: get_next_def get_prev_def upd_next_def upd_prev_def)+)

lemma upd_other [simp]:
  "b \<noteq> a \<Longrightarrow> upd_next a v h b = h b" "b \<noteq> a \<Longrightarrow> upd_prev a v h b = h b"
  by (simp_all add: upd_next_def upd_prev_def)

lemma get_next_dom: "get_next a h = Some b \<Longrightarrow> a \<in> dom h"
  and get_prev_dom: "get_prev a h = Some b \<Longrightarrow> a \<in> dom h"
  by (auto simp: get_next_def get_prev_def)

subsection \<open>Segments and lists\<close>

definition link :: "lheap \<Rightarrow> addr \<Rightarrow> addr \<Rightarrow> bool" where
  "link h a b \<longleftrightarrow> get_next a h = Some b \<and> get_prev b h = Some a"

text \<open>From \<open>a\<close>, through the nodes \<open>xs\<close>, to \<open>b\<close>, every pair of neighbours linked both ways.\<close>

fun dseg :: "lheap \<Rightarrow> addr \<Rightarrow> addr list \<Rightarrow> addr \<Rightarrow> bool" where
  "dseg h a [] b \<longleftrightarrow> link h a b"
| "dseg h a (x # xs) b \<longleftrightarrow> link h a x \<and> dseg h x xs b"

definition dlist :: "lheap \<Rightarrow> addr \<Rightarrow> addr list \<Rightarrow> bool" where
  "dlist h head xs \<longleftrightarrow> distinct (head # xs) \<and> dseg h head xs head"

lemma dseg_append: "dseg h a (xs @ y # ys) b \<longleftrightarrow> dseg h a xs y \<and> dseg h y ys b"
  by (induction xs arbitrary: a) auto

lemma dseg_snoc: "dseg h a (xs @ [y]) b \<longleftrightarrow> dseg h a xs y \<and> link h y b"
  by (simp add: dseg_append)

lemma dseg_cong:
  assumes "\<And>c. c \<in> set (a # xs) \<Longrightarrow> get_next c h' = get_next c h"
    and "\<And>c. c \<in> set (xs @ [b]) \<Longrightarrow> get_prev c h' = get_prev c h"
  shows "dseg h' a xs b = dseg h a xs b"
  using assms by (induction xs arbitrary: a) (auto simp: link_def)

lemma dseg_get_next: "dseg h a xs b \<Longrightarrow> get_next a h = Some (hd (xs @ [b]))"
  by (cases xs) (auto simp: link_def)

lemma dseg_get_prev: "dseg h a xs b \<Longrightarrow> get_prev b h = Some (last (a # xs))"
  by (cases xs rule: rev_cases) (auto simp: link_def dseg_snoc)

lemma dseg_dom: "dseg h a xs b \<Longrightarrow> c \<in> set (a # xs) \<union> {b} \<Longrightarrow> c \<in> dom h"
  by (induction xs arbitrary: a) (auto simp: link_def dest!: get_next_dom get_prev_dom)

lemma dlist_get_next: "dlist h head xs \<Longrightarrow> get_next head h = Some (hd (xs @ [head]))"
  and dlist_get_prev: "dlist h head xs \<Longrightarrow> get_prev head h = Some (last (head # xs))"
  unfolding dlist_def by (blast intro: dseg_get_next dseg_get_prev)+

lemma dlist_dom: "dlist h head xs \<Longrightarrow> c \<in> set (head # xs) \<Longrightarrow> c \<in> dom h"
  using dseg_dom [of h head xs head c] by (simp add: dlist_def)

lemma dlist_distinct: "dlist h head xs \<Longrightarrow> distinct (head # xs)"
  by (simp add: dlist_def)

text \<open>A list does not depend on nodes outside it.\<close>

lemma dlist_frame:
  assumes "\<And>c. c \<in> set (head # xs) \<Longrightarrow> h' c = h c"
  shows "dlist h' head xs = dlist h head xs"
proof -
  have "dseg h' head xs head = dseg h head xs head"
    using assms by (intro dseg_cong) (auto simp: get_next_def get_prev_def)
  then show ?thesis by (simp add: dlist_def)
qed

text \<open>The nodes of a list are determined by the heap.\<close>

lemma dseg_unique:
  "dseg h a xs b \<Longrightarrow> dseg h a ys b \<Longrightarrow> b \<notin> set xs \<Longrightarrow> b \<notin> set ys \<Longrightarrow> xs = ys"
proof (induction xs arbitrary: a ys)
  case Nil
  then show ?case by (cases ys) (auto simp: link_def)
next
  case (Cons x xs)
  then show ?case by (cases ys) (auto simp: link_def)
qed

lemma dlist_unique: "dlist h head xs \<Longrightarrow> dlist h head ys \<Longrightarrow> xs = ys"
  by (auto simp: dlist_def intro: dseg_unique)

subsection \<open>Insertion\<close>

lemma dlist_INIT:
  assumes "list \<in> dom h"
  shows "INIT_LIST_HEAD list h = Some (upd_prev list list (upd_next list list h))"
    and "dlist (upd_prev list list (upd_next list list h)) list []"
  using assms by (auto simp: INIT_LIST_HEAD_def dlist_def link_def)

definition add_between :: "addr \<Rightarrow> addr \<Rightarrow> addr \<Rightarrow> lheap \<Rightarrow> lheap" where
  "add_between new p n h = upd_next p new (upd_prev new p (upd_next new n (upd_prev n new h)))"

lemma list_add_between_eq:
  "{new, p, n} \<subseteq> dom h \<Longrightarrow> list_add_between new p n h = Some (add_between new p n h)"
  by (simp add: list_add_between_def add_between_def)

lemma add_between_other: "c \<notin> {new, p, n} \<Longrightarrow> add_between new p n h c = h c"
  by (simp add: add_between_def)

lemma dom_add_between [simp]: "dom (add_between new p n h) = dom h"
  by (simp add: add_between_def)

lemma get_add_between:
  assumes "{new, p, n} \<subseteq> dom h" and "new \<noteq> p" and "new \<noteq> n"
  shows "get_next c (add_between new p n h) =
      (if c = p then Some new else if c = new then Some n else get_next c h)"
    and "get_prev c (add_between new p n h) =
      (if c = n then Some new else if c = new then Some p else get_prev c h)"
  using assms by (auto simp: add_between_def)

text \<open>A new node between two linked neighbours, whether or not the ends of the list are one node.\<close>

lemma dseg_add_between:
  assumes "dseg h head (us @ vs) head" and "distinct (head # us @ vs)"
    and new: "new \<in> dom h" "new \<notin> set (head # us @ vs)"
    and p: "p = last (head # us)" and n: "n = hd (vs @ [head])"
  shows "dseg (add_between new p n h) head (us @ new # vs) head"
proof -
  let ?h = "add_between new p n h"
  have d: "{new, p, n} \<subseteq> dom h"
    using assms(1) new p n by (auto intro!: dseg_dom [OF assms(1)] simp: hd_append)
  have ne: "new \<noteq> p" "new \<noteq> n"
    using new p n by (auto simp: hd_append split: if_splits)
  have out: "n \<notin> set us" "p \<notin> set vs"
    using assms(2) p n by (cases vs; auto simp: last_in_set split: if_splits dest: last_in_set)+
  note g = get_add_between [OF d ne]
  have left: "dseg ?h head us new"
  proof (cases us rule: rev_cases)
    case Nil
    then have "p = head" using p by simp
    then show ?thesis using Nil g(1) [of p] g(2) [of new] ne by (simp add: link_def)
  next
    case (snoc ws q)
    with p have q: "q = p" by simp
    have "dseg h head ws p" using assms(1) snoc q by (simp add: dseg_append)
    moreover have "dseg ?h head ws p = dseg h head ws p"
      using assms(2) new(2) out snoc q
      by (intro dseg_cong) (auto simp: g)
    ultimately show ?thesis using snoc q ne by (simp add: dseg_snoc link_def g)
  qed
  have right: "dseg ?h new vs head"
  proof (cases vs)
    case Nil
    then have "n = head" using n by simp
    then show ?thesis using Nil g(1) [of new] g(2) [of n] ne by (simp add: link_def)
  next
    case (Cons m ws)
    with n have m: "m = n" by simp
    have "dseg h n ws head" using assms(1) Cons m by (simp add: dseg_append)
    moreover have "dseg ?h n ws head = dseg h n ws head"
      using assms(2) new(2) out Cons m
      by (intro dseg_cong) (auto simp: g)
    ultimately show ?thesis using Cons m ne by (simp add: link_def g)
  qed
  from left right show ?thesis by (simp add: dseg_append)
qed

text \<open>What an insertion leaves alone, and the two ends at which the code inserts.\<close>

definition frame :: "addr set \<Rightarrow> lheap \<Rightarrow> lheap \<Rightarrow> bool" where
  "frame A h h' \<longleftrightarrow> dom h' = dom h \<and> (\<forall>c. c \<notin> A \<longrightarrow> h' c = h c)"

lemma frame_dom: "frame A h h' \<Longrightarrow> dom h' = dom h"
  and frame_eq: "frame A h h' \<Longrightarrow> c \<notin> A \<Longrightarrow> h' c = h c"
  by (simp_all add: frame_def)

lemma frame_mono: "frame A h h' \<Longrightarrow> A \<subseteq> B \<Longrightarrow> frame B h h'"
  by (auto simp: frame_def)

lemma frame_trans: "frame A h h' \<Longrightarrow> frame A h' h'' \<Longrightarrow> frame A h h''"
  by (simp add: frame_def)

lemma dlist_other:
  assumes "frame A h h'" and "A \<inter> set (head # xs) = {}"
  shows "dlist h' head xs = dlist h head xs"
  using assms by (intro dlist_frame) (auto simp: frame_def)

lemma list_add_dlist:
  assumes "dlist h head xs" and "new \<in> dom h" and "new \<notin> set (head # xs)"
  shows "\<exists>h'. list_add new head h = Some h' \<and> dlist h' head (new # xs) \<and>
    frame (insert new (set (head # xs))) h h'"
proof -
  let ?n = "hd (xs @ [head])"
  have "?n \<in> set (head # xs)" by (cases xs) auto
  then have d: "{new, head, ?n} \<subseteq> dom h"
    using assms(2) dlist_dom [OF assms(1)] by auto
  have "list_add new head h = Some (add_between new head ?n h)"
    using dlist_get_next [OF assms(1)] list_add_between_eq [OF d] by (simp add: list_add_def)
  moreover have "dlist (add_between new head ?n h) head (new # xs)"
    using assms dseg_add_between [of h head "[]" xs new head ?n] by (auto simp: dlist_def)
  moreover have "frame (insert new (set (head # xs))) h (add_between new head ?n h)"
    using \<open>?n \<in> set (head # xs)\<close> by (auto simp: frame_def intro!: add_between_other)
  ultimately show ?thesis by blast
qed

lemma list_add_tail_dlist:
  assumes "dlist h head xs" and "new \<in> dom h" and "new \<notin> set (head # xs)"
  shows "\<exists>h'. list_add_tail new head h = Some h' \<and> dlist h' head (xs @ [new]) \<and>
    frame (insert new (set (head # xs))) h h'"
proof -
  let ?p = "last (head # xs)"
  have "?p \<in> set (head # xs)" by (rule last_in_set) simp
  then have d: "{new, ?p, head} \<subseteq> dom h"
    using assms(2) dlist_dom [OF assms(1)] by auto
  have "list_add_tail new head h = Some (add_between new ?p head h)"
    using dlist_get_prev [OF assms(1)] list_add_between_eq [OF d]
    by (simp only: list_add_tail_def bind.bind_lunit)
  moreover have "dlist (add_between new ?p head h) head (xs @ [new])"
    using assms dseg_add_between [of h head xs "[]" new ?p head] by (auto simp: dlist_def)
  moreover have "frame (insert new (set (head # xs))) h (add_between new ?p head h)"
    using \<open>?p \<in> set (head # xs)\<close> by (auto simp: frame_def intro!: add_between_other)
  ultimately show ?thesis by blast
qed

subsection \<open>Deletion\<close>

definition del_between :: "addr \<Rightarrow> addr \<Rightarrow> lheap \<Rightarrow> lheap" where
  "del_between p n h = upd_next p n (upd_prev n p h)"

lemma list_del_between_eq:
  "{p, n} \<subseteq> dom h \<Longrightarrow> list_del_between p n h = Some (del_between p n h)"
  by (simp add: list_del_between_def del_between_def)

lemma dom_del_between [simp]: "dom (del_between p n h) = dom h"
  by (simp add: del_between_def)

lemma del_between_other: "c \<notin> {p, n} \<Longrightarrow> del_between p n h c = h c"
  by (simp add: del_between_def)

lemma get_del_between:
  assumes "{p, n} \<subseteq> dom h"
  shows "get_next c (del_between p n h) = (if c = p then Some n else get_next c h)"
    and "get_prev c (del_between p n h) = (if c = n then Some p else get_prev c h)"
  using assms by (auto simp: del_between_def)

lemma dseg_del_between:
  assumes "dseg h head (us @ e # vs) head" and dist: "distinct (head # us @ e # vs)"
    and p: "p = last (head # us)" and n: "n = hd (vs @ [head])"
  shows "dseg (del_between p n h) head (us @ vs) head"
proof -
  let ?h = "del_between p n h"
  have "p \<in> set (head # us)" "n \<in> set (vs @ [head])"
    unfolding p n by (rule last_in_set, simp, rule hd_in_set, simp)
  then have d: "{p, n} \<subseteq> dom h"
    by (auto intro!: dseg_dom [OF assms(1)])
  note g = get_del_between [OF d]
  from assms(1) have segs: "dseg h head us e" "dseg h e vs head" by (simp_all add: dseg_append)
  show ?thesis
  proof (cases us rule: rev_cases)
    case Nil
    then have ph: "p = head" using p by simp
    show ?thesis
    proof (cases vs)
      case Nil
      then have "n = head" using n by simp
      then show ?thesis using \<open>us = []\<close> Nil ph g(1) [of p] g(2) [of n] by (simp add: link_def)
    next
      case (Cons m ws)
      then have m: "m = n" using n by simp
      have "p \<notin> set vs" using dist ph by simp
      then have "dseg ?h n ws head = dseg h n ws head"
        using dist Cons m by (intro dseg_cong) (auto simp: g)
      then show ?thesis using \<open>us = []\<close> Cons m ph segs g(1) [of p] g(2) [of n]
        by (simp add: link_def)
    qed
  next
    case (snoc qs q)
    then have q: "q = p" using p by simp
    have left: "dseg h head qs p" using segs(1) snoc q by (simp add: dseg_append)
    have nq: "n \<notin> set us" using dist n by (cases vs) auto
    have "dseg ?h head qs p = dseg h head qs p"
      using dist snoc q nq by (intro dseg_cong) (auto simp: g)
    with left have left': "dseg ?h head qs p" by simp
    have pn: "link ?h p n" by (simp add: link_def g)
    show ?thesis
    proof (cases vs)
      case Nil
      then show ?thesis using snoc q left' pn n by (simp add: dseg_append)
    next
      case (Cons m ws)
      then have m: "m = n" using n by simp
      have "dseg ?h n ws head = dseg h n ws head"
        using dist Cons m snoc q by (intro dseg_cong) (auto simp: g)
      then show ?thesis using Cons m snoc q left' pn segs(2) by (simp add: dseg_append)
    qed
  qed
qed

text \<open>
  The loads and stores all deletions share: they unlink \<open>e\<close>, whatever the list, and leave the
  pointers inside \<open>e\<close> alone.
\<close>

lemma unlink_dlist:
  assumes "dlist h head xs" and "e \<in> set xs"
  shows "\<exists>p n. get_prev e h = Some p \<and> get_next e h = Some n \<and>
    list_del_between p n h = Some (del_between p n h) \<and>
    dlist (del_between p n h) head (remove1 e xs) \<and> frame (set (head # xs) - {e}) h (del_between p n h)"
proof -
  from assms(2) obtain us vs where xs: "xs = us @ e # vs" and "e \<notin> set us"
    by (meson split_list_first)
  then have r: "remove1 e xs = us @ vs" by (simp add: remove1_append)
  let ?p = "last (head # us)" and ?n = "hd (vs @ [head])"
  have pn: "?p \<in> set (head # us)" "?n \<in> set (vs @ [head])"
    by (rule last_in_set, simp, rule hd_in_set, simp)
  then have sub: "{?p, ?n} \<subseteq> set (head # xs) - {e}"
    using assms(1) xs by (auto simp: dlist_def)
  then have d: "{?p, ?n} \<subseteq> dom h" using dlist_dom [OF assms(1)] by blast
  have "dseg h head us e" "dseg h e vs head"
    using assms(1) xs by (simp_all add: dlist_def dseg_append)
  then have "get_prev e h = Some ?p" "get_next e h = Some ?n"
    by (blast intro: dseg_get_prev dseg_get_next)+
  moreover have "dlist (del_between ?p ?n h) head (us @ vs)"
    using assms(1) xs dseg_del_between [of h head us e vs] by (auto simp: dlist_def)
  moreover have "frame (set (head # xs) - {e}) h (del_between ?p ?n h)"
    using sub by (auto simp: frame_def intro!: del_between_other)
  ultimately show ?thesis using list_del_between_eq [OF d] r by metis
qed

lemma list_del_init_dlist:
  assumes "dlist h head xs" and "e \<in> set xs"
  shows "\<exists>h'. list_del_init e h = Some h' \<and> dlist h' head (remove1 e xs) \<and> dlist h' e [] \<and>
    frame (set (head # xs)) h h'"
proof -
  obtain p n where u: "get_prev e h = Some p" "get_next e h = Some n"
      "list_del_between p n h = Some (del_between p n h)"
    and l: "dlist (del_between p n h) head (remove1 e xs)"
    and f: "frame (set (head # xs) - {e}) h (del_between p n h)"
    using unlink_dlist [OF assms] by blast
  let ?h = "del_between p n h"
  let ?h' = "upd_prev e e (upd_next e e ?h)"
  have e: "e \<in> dom ?h" using dlist_dom [OF assms(1)] assms(2) by simp
  have f': "frame {e} ?h ?h'" by (auto simp: frame_def)
  have "e \<notin> set (head # remove1 e xs)"
    using assms by (auto simp: dlist_def set_remove1_eq)
  then have "dlist ?h' head (remove1 e xs)"
    using l dlist_other [OF f'] by auto
  moreover have "frame (set (head # xs)) h ?h'"
    using f f' assms(2) by (auto intro: frame_trans frame_mono)
  ultimately show ?thesis
    using u dlist_INIT [OF e] by (simp add: list_del_init_def)
qed

lemma list_del_dlist:
  assumes "dlist h head xs" and "e \<in> set xs" and "e \<noteq> NULL"
  shows "\<exists>h'. list_del e h = Some h' \<and> dlist h' head (remove1 e xs) \<and>
    get_next e h' = Some NULL \<and> get_prev e h' = Some NULL \<and> frame (set (head # xs)) h h'"
proof -
  obtain p n where u: "get_prev e h = Some p" "get_next e h = Some n"
      "list_del_between p n h = Some (del_between p n h)"
    and l: "dlist (del_between p n h) head (remove1 e xs)"
    and f: "frame (set (head # xs) - {e}) h (del_between p n h)"
    using unlink_dlist [OF assms(1,2)] by blast
  let ?h = "del_between p n h"
  let ?h' = "upd_prev e NULL (upd_next e NULL ?h)"
  have e: "e \<in> dom ?h" using dlist_dom [OF assms(1)] assms(2) by simp
  have f': "frame {e} ?h ?h'" by (auto simp: frame_def)
  have "e \<notin> set (head # remove1 e xs)"
    using assms by (auto simp: dlist_def set_remove1_eq)
  then have "dlist ?h' head (remove1 e xs)"
    using l dlist_other [OF f'] by auto
  moreover have "frame (set (head # xs)) h ?h'"
    using f f' assms(2) by (auto intro: frame_trans frame_mono)
  ultimately show ?thesis
    using u e assms(3) by (simp add: list_del_def)
qed

text \<open>Deleting a node that is its own list (a node deleted before) changes nothing.\<close>

lemma list_del_init_self:
  assumes "dlist h e []"
  shows "list_del_init e h = Some h"
proof -
  from assms have g: "get_next e h = Some e" "get_prev e h = Some e"
    by (simp_all add: dlist_def link_def)
  then obtain n where n: "h e = Some n" "lh_next n = e" "lh_prev n = e"
    by (auto simp: get_next_def get_prev_def)
  then have "n\<lparr>lh_next := e\<rparr> = n" "n\<lparr>lh_prev := e\<rparr> = n" by simp_all
  then have "upd_next e e h = h" "upd_prev e e h = h"
    using n by (simp_all add: upd_next_def upd_prev_def fun_upd_idem)
  moreover have "e \<in> dom h" using n by auto
  ultimately show ?thesis
    using g by (simp add: list_del_init_def list_del_between_def INIT_LIST_HEAD_def)
qed

subsection \<open>Moves\<close>

lemma list_move_between:
  assumes "dlist h from xs" and "e \<in> set xs"
    and "dlist h head ys" and "set (from # xs) \<inter> set (head # ys) = {}"
  shows "\<exists>h'. list_move e head h = Some h' \<and> dlist h' from (remove1 e xs) \<and>
      dlist h' head (e # ys) \<and> frame (set (from # xs) \<union> set (head # ys)) h h'"
    and "\<exists>h'. list_move_tail e head h = Some h' \<and> dlist h' from (remove1 e xs) \<and>
      dlist h' head (ys @ [e]) \<and> frame (set (from # xs) \<union> set (head # ys)) h h'"
proof -
  obtain p n where u: "get_prev e h = Some p" "get_next e h = Some n"
      "list_del_between p n h = Some (del_between p n h)"
    and l: "dlist (del_between p n h) from (remove1 e xs)"
    and f: "frame (set (from # xs) - {e}) h (del_between p n h)"
    using unlink_dlist [OF assms(1,2)] by blast
  let ?h = "del_between p n h"
  have e: "e \<in> dom ?h" "e \<notin> set (head # ys)" "e \<notin> set (from # remove1 e xs)"
    using dlist_dom [OF assms(1)] assms by (auto simp: dlist_def set_remove1_eq)
  have ys: "dlist ?h head ys"
    using dlist_other [OF f, of head ys] assms(3,4) by auto
  have sub: "insert e (set (head # ys)) \<inter> set (from # remove1 e xs) = {}"
    using e(3) assms(4) set_remove1_subset [of e xs] by auto
  have keep: "frame (insert e (set (head # ys))) ?h h' \<Longrightarrow>
      dlist h' from (remove1 e xs) \<and> frame (set (from # xs) \<union> set (head # ys)) h h'" for h'
    using l dlist_other [OF _ sub] f assms(2) by (auto intro: frame_trans frame_mono)
  show "\<exists>h'. list_move e head h = Some h' \<and> dlist h' from (remove1 e xs) \<and>
      dlist h' head (e # ys) \<and> frame (set (from # xs) \<union> set (head # ys)) h h'"
    using list_add_dlist [OF ys e(1,2)] u keep by (auto simp: list_move_def)
  show "\<exists>h'. list_move_tail e head h = Some h' \<and> dlist h' from (remove1 e xs) \<and>
      dlist h' head (ys @ [e]) \<and> frame (set (from # xs) \<union> set (head # ys)) h h'"
    using list_add_tail_dlist [OF ys e(1,2)] u keep by (auto simp: list_move_tail_def)
qed

lemma list_move_within:
  assumes "dlist h head xs" and "e \<in> set xs"
  shows "\<exists>h'. list_move e head h = Some h' \<and> dlist h' head (e # remove1 e xs) \<and>
      frame (set (head # xs)) h h'"
    and "\<exists>h'. list_move_tail e head h = Some h' \<and> dlist h' head (remove1 e xs @ [e]) \<and>
      frame (set (head # xs)) h h'"
proof -
  obtain p n where u: "get_prev e h = Some p" "get_next e h = Some n"
      "list_del_between p n h = Some (del_between p n h)"
    and l: "dlist (del_between p n h) head (remove1 e xs)"
    and f: "frame (set (head # xs) - {e}) h (del_between p n h)"
    using unlink_dlist [OF assms] by blast
  let ?h = "del_between p n h"
  have e: "e \<in> dom ?h" "e \<notin> set (head # remove1 e xs)"
    using dlist_dom [OF assms(1)] assms by (auto simp: dlist_def set_remove1_eq)
  have "insert e (set (head # remove1 e xs)) \<subseteq> set (head # xs)"
    using assms(2) set_remove1_subset [of e xs] by auto
  then have keep: "frame (insert e (set (head # remove1 e xs))) ?h h' \<Longrightarrow>
      frame (set (head # xs)) h h'" for h'
    using f by (meson Diff_subset frame_mono frame_trans)
  show "\<exists>h'. list_move e head h = Some h' \<and> dlist h' head (e # remove1 e xs) \<and>
      frame (set (head # xs)) h h'"
    using list_add_dlist [OF l e] u keep by (auto simp: list_move_def)
  show "\<exists>h'. list_move_tail e head h = Some h' \<and> dlist h' head (remove1 e xs @ [e]) \<and>
      frame (set (head # xs)) h h'"
    using list_add_tail_dlist [OF l e] u keep by (auto simp: list_move_tail_def)
qed

subsection \<open>Joining lists\<close>

lemma list_empty_dlist: "dlist h head xs \<Longrightarrow> list_empty head h = Some (xs = [])"
  by (cases xs) (auto simp: list_empty_def dlist_get_next dlist_distinct dest: dlist_distinct)

lemma list_splice_nonempty_dlist:
  assumes ys: "dlist h list ys" and xs: "dlist h head xs"
    and disj: "set (list # ys) \<inter> set (head # xs) = {}" and ne: "ys \<noteq> []"
  shows "\<exists>h'. list_splice_nonempty list head h = Some h' \<and> dlist h' head (ys @ xs) \<and>
    frame (set ys \<union> set (head # xs)) h h'"
proof -
  let ?f = "hd ys" and ?l = "last ys" and ?at = "hd (xs @ [head])"
  let ?h = "upd_prev ?at ?l (upd_next ?l ?at (upd_next head ?f (upd_prev ?f head h)))"
  have mem: "?f \<in> set ys" "?l \<in> set ys" "?at \<in> set (head # xs)"
    using ne by (auto simp: hd_append)
  have dom: "{?f, ?l, ?at, head} \<subseteq> dom h"
    using dlist_dom [OF ys] dlist_dom [OF xs] mem by auto
  have neq: "?at \<noteq> ?f" "?l \<noteq> head" "?at \<noteq> ?l" "?f \<noteq> head" using mem disj by auto
  have g: "get_next c ?h = (if c = ?l then Some ?at else if c = head then Some ?f else get_next c h)"
    "get_prev c ?h = (if c = ?at then Some ?l else if c = ?f then Some head else get_prev c h)" for c
    using dom by auto
  obtain us where us: "ys = us @ [?l]" using ne by (metis append_butlast_last_id)
  have dys: "distinct ys" "dseg h list us ?l"
    using ys us dseg_snoc [of h list us ?l list] by (simp_all add: dlist_def)
  have left: "dseg ?h head us ?l"
  proof (cases us)
    case Nil
    with us have "?f = ?l" by (metis append_Nil list.sel(1))
    then show ?thesis using Nil neq dom by (simp add: link_def)
  next
    case (Cons m ws)
    with us have m: "m = ?f" by (metis append_Cons list.sel(1))
    have "dseg ?h m ws ?l = dseg h m ws ?l"
    proof (rule dseg_cong)
      fix c assume "c \<in> set (m # ws)"
      then have "c \<in> set us" using Cons by simp
      then have "c \<in> set ys" "c \<noteq> ?l" using us dys(1) by (metis UnI1 set_append,
          metis distinct_append disjoint_iff list.set_intros(1))
      then show "get_next c ?h = get_next c h" using disj by (auto simp: g)
    next
      fix c assume "c \<in> set (ws @ [?l])"
      then have "c \<in> set (tl ys)" using Cons us by (metis append_Cons list.sel(3))
      then have "c \<in> set ys" "c \<noteq> ?f"
        using dys(1) by (cases ys; auto)+
      then show "get_prev c ?h = get_prev c h" using mem(3) disj by (auto simp: g)
    qed
    then show ?thesis using Cons m dys(2) neq dom by (simp add: link_def)
  qed
  have right: "dseg ?h ?l xs head"
  proof (cases xs)
    case Nil
    then show ?thesis using neq dom by (simp add: link_def)
  next
    case (Cons m ws)
    have "dseg ?h m ws head = dseg h m ws head"
      using xs Cons mem disj by (intro dseg_cong) (auto simp: g dlist_def)
    then show ?thesis using xs Cons neq dom by (simp add: link_def dlist_def)
  qed
  have split: "ys @ xs = us @ ?l # xs" using us by (metis append.assoc append_Cons append_Nil)
  have seg: "dseg ?h head (ys @ xs) head"
    unfolding split dseg_append using left right by blast
  have "dlist ?h head (ys @ xs)" using seg xs ys disj by (auto simp: dlist_def)
  moreover have "list_splice_nonempty list head h = Some ?h"
    using dlist_get_next [OF ys] dlist_get_prev [OF ys] dlist_get_next [OF xs] dom ne
    by (simp add: list_splice_nonempty_def)
  moreover have "frame {?f, ?l, ?at, head} h ?h" by (auto simp: frame_def)
  then have "frame (set ys \<union> set (head # xs)) h ?h"
    by (rule frame_mono) (use mem in auto)
  ultimately show ?thesis by blast
qed

lemma list_splice_dlist:
  assumes "dlist h list ys" and "dlist h head xs" and "set (list # ys) \<inter> set (head # xs) = {}"
  shows "\<exists>h'. list_splice list head h = Some h' \<and> dlist h' head (ys @ xs) \<and>
    frame (set ys \<union> set (head # xs)) h h'"
  using list_splice_nonempty_dlist [OF assms] assms(2)
  by (cases "ys = []") (auto simp: list_splice_def list_empty_dlist [OF assms(1)] frame_def)

text \<open>C33: Splicing one list into another puts all its nodes, in order, before the nodes of the other, empties the
  first, and touches no node outside the two lists; splicing an empty list changes nothing.\<close>

theorem list_splice_init_dlist:
  assumes "dlist h list ys" and "dlist h head xs" and disj: "set (list # ys) \<inter> set (head # xs) = {}"
  shows "\<exists>h'. list_splice_init list head h = Some h' \<and> dlist h' head (ys @ xs) \<and>
    dlist h' list [] \<and> frame (set (list # ys) \<union> set (head # xs)) h h'"
proof (cases "ys = []")
  case True
  then show ?thesis
    using assms by (simp add: list_splice_init_def list_empty_dlist frame_def)
next
  case False
  obtain g where g: "list_splice_nonempty list head h = Some g" "dlist g head (ys @ xs)"
      "frame (set ys \<union> set (head # xs)) h g"
    using list_splice_nonempty_dlist [OF assms False] by blast
  have l: "list \<in> dom g" using dlist_dom [OF assms(1)] frame_dom [OF g(3)] by simp
  let ?h = "upd_prev list list (upd_next list list g)"
  have f: "frame {list} g ?h" by (auto simp: frame_def)
  have "list \<notin> set (head # ys @ xs)" using assms(1) disj by (auto simp: dlist_def)
  then have "dlist ?h head (ys @ xs)" using dlist_other [OF f] g(2) by auto
  moreover have "frame (set (list # ys) \<union> set (head # xs)) h ?h"
    using g(3) f by (auto intro: frame_trans frame_mono)
  ultimately show ?thesis
    using False g(1) dlist_INIT [OF l]
    by (simp add: list_splice_init_def list_empty_dlist [OF assms(1)])
qed

subsection \<open>Loops over a list\<close>

text \<open>The specification of a loop that may leave early: the first element the body returns a value for.\<close>

fun scan :: "(addr \<Rightarrow> 'r option option) \<Rightarrow> addr list \<Rightarrow> 'r option option" where
  "scan body [] = Some None"
| "scan body (x # xs) = do {
     r \<leftarrow> body x;
     (case r of Some v \<Rightarrow> Some (Some v) | None \<Rightarrow> scan body xs)
   }"

lemma list_for_each_from_dseg:
  "dseg h a xs head \<Longrightarrow> head \<notin> set xs \<Longrightarrow>
    list_for_each_from body h head (hd (xs @ [head])) = scan body xs"
proof (induction xs arbitrary: a)
  case Nil
  then show ?case by (simp add: list_for_each_from.simps)
next
  case (Cons x xs)
  then have n: "get_next x h = Some (hd (xs @ [head]))"
    by (simp add: dseg_get_next)
  have IH: "list_for_each_from body h head (hd (xs @ [head])) = scan body xs"
    using Cons by auto
  from Cons.prems have "x \<noteq> head" by auto
  then have "list_for_each_from body h head x =
      do { r \<leftarrow> body x; (case r of Some v \<Rightarrow> Some (Some v) | None \<Rightarrow> scan body xs) }"
    by (subst list_for_each_from.simps) (simp add: n IH cong: option.case_cong)
  then show ?case by simp
qed

lemma list_for_each_dlist: "dlist h head xs \<Longrightarrow> list_for_each body h head = scan body xs"
  using list_for_each_from_dseg [of h head xs head body]
  by (simp add: list_for_each_def dlist_get_next dlist_def dseg_get_next)

lemma list_for_each_prev_from_dseg:
  "dseg h head xs b \<Longrightarrow> head \<notin> set xs \<Longrightarrow>
    list_for_each_prev_from body h head (last (head # xs)) = scan body (rev xs)"
proof (induction xs arbitrary: b rule: rev_induct)
  case Nil
  then show ?case by (simp add: list_for_each_prev_from.simps)
next
  case (snoc x xs)
  then have n: "get_prev x h = Some (last (head # xs))"
    using dseg_get_prev [of h head xs x] by (simp add: dseg_snoc)
  have IH: "list_for_each_prev_from body h head (last (head # xs)) = scan body (rev xs)"
    using snoc.IH [of x] snoc.prems by (simp add: dseg_snoc)
  from snoc.prems have "x \<noteq> head" by auto
  then have "list_for_each_prev_from body h head x =
      do { r \<leftarrow> body x; (case r of Some v \<Rightarrow> Some (Some v) | None \<Rightarrow> scan body (rev xs)) }"
    by (subst list_for_each_prev_from.simps) (simp only: n IH bind.bind_lunit if_False)
  then show ?case by simp
qed

lemma list_for_each_prev_dlist:
  assumes "dlist h head xs"
  shows "list_for_each_prev body h head = scan body (rev xs)"
  using list_for_each_prev_from_dseg [of h head xs head body] dlist_get_prev [OF assms] assms
  by (simp only: list_for_each_prev_def bind.bind_lunit dlist_def) simp

text \<open>
  A body that looks a key up: \<open>scan\<close> of a test that does not fail is \<^const>\<open>List.find\<close>.
\<close>

lemma scan_find:
  assumes "\<And>x. x \<in> set xs \<Longrightarrow> body x = Some (if P x then Some (f x) else None)"
  shows "scan body xs = Some (map_option f (List.find P xs))"
  using assms by (induction xs) auto

text \<open>
  The loop that may delete: with a body that deletes (\<open>list_del_init\<close>) the nodes that satisfy a
  predicate and leaves the others alone, what stays is the filtered list, in order.
\<close>

definition delete_if :: "(addr \<Rightarrow> bool) \<Rightarrow> addr \<Rightarrow> lheap \<Rightarrow> lheap option" where
  "delete_if P pos h = (if P pos then list_del_init pos h else Some h)"

lemma delete_if_dlist:
  assumes "dlist h head (us @ x # vs)"
  shows "\<exists>h'. delete_if P x h = Some h' \<and> dlist h' head (us @ (if P x then vs else x # vs))"
proof (cases "P x")
  case True
  have "x \<notin> set us" using assms by (simp add: dlist_def)
  then have "remove1 x (us @ x # vs) = us @ vs" by (simp add: remove1_append)
  then show ?thesis
    using True list_del_init_dlist [OF assms, of x] by (auto simp: delete_if_def)
qed (use assms in \<open>simp add: delete_if_def\<close>)

lemma list_for_each_safe_from_filter:
  assumes "dlist h head (us @ vs)" and "vs \<noteq> [] \<Longrightarrow> n = hd (tl vs @ [head])"
  shows "\<exists>h'. list_for_each_safe_from (delete_if P) head (hd (vs @ [head])) n h = Some h' \<and>
    dlist h' head (us @ filter (\<lambda>x. \<not> P x) vs)"
  using assms
proof (induction vs arbitrary: us h n)
  case Nil
  then show ?case by (simp add: list_for_each_safe_from.simps)
next
  case (Cons x vs)
  let ?us = "us @ (if P x then [] else [x])"
  obtain g where g: "delete_if P x h = Some g" "dlist g head (?us @ vs)"
    using delete_if_dlist [OF Cons.prems(1), of P] by (auto split: if_splits)
  have n: "n = hd (vs @ [head])" using Cons.prems(2) by simp
  have "n \<in> dom g"
    using dlist_dom [OF g(2), of n] n by (cases vs) auto
  then obtain m where m: "get_next n g = Some m" by (auto simp: get_next_def)
  have "m = hd (tl vs @ [head])" if "vs \<noteq> []"
  proof -
    from that obtain y ws where vs: "vs = y # ws" by (cases vs) auto
    with g(2) have "dseg g head (?us @ y # ws) head" by (simp add: dlist_def)
    then have "dseg g y ws head" unfolding dseg_append [of _ _ ?us] by blast
    with m n vs show ?thesis by (simp add: dseg_get_next)
  qed
  from Cons.IH [OF g(2) this]
  have "\<exists>h'. list_for_each_safe_from (delete_if P) head n m g = Some h' \<and>
      dlist h' head (?us @ filter (\<lambda>x. \<not> P x) vs)"
    by (simp add: n)
  moreover have "x \<noteq> head" using Cons.prems(1) by (auto simp: dlist_def)
  ultimately show ?case
    using g(1) m by (subst list_for_each_safe_from.simps) auto
qed

text \<open>C31: A list_for_each_safe loop whose body takes nodes off the list (those that satisfy a predicate) terminates
  on every well-formed list and leaves exactly the other nodes, in order.\<close>

theorem list_for_each_safe_filter:
  assumes "dlist h head xs"
  shows "\<exists>h'. list_for_each_safe (delete_if P) head h = Some h' \<and>
    dlist h' head (filter (\<lambda>x. \<not> P x) xs)"
proof -
  let ?p = "hd (xs @ [head])"
  have "?p \<in> dom h" using dlist_dom [OF assms, of ?p] by (cases xs) auto
  then obtain n where n: "get_next ?p h = Some n" by (auto simp: get_next_def)
  have "n = hd (tl xs @ [head])" if "xs \<noteq> []"
  proof -
    from that obtain y ws where xs: "xs = y # ws" by (cases xs) auto
    with assms have "dseg h y ws head" by (simp add: dlist_def)
    with n xs show ?thesis by (simp add: dseg_get_next)
  qed
  from list_for_each_safe_from_filter [of h head "[]" xs, simplified, OF assms this]
  show ?thesis
    using n dlist_get_next [OF assms] by (simp add: list_for_each_safe_def)
qed

subsection \<open>From nodes to the objects around them\<close>

lemma list_entry_add [simp]: "list_entry (t + off) off = t"
  by (simp add: list_entry_def)

lemma list_entry_eq_iff: "list_entry pos off = t \<longleftrightarrow> pos = t + off"
  by (auto simp: list_entry_def)

lemma list_entry_off [simp]: "list_entry n off + off = n"
  by (simp add: list_entry_def)

text \<open>The loops over objects are the loops over nodes, step by step, on well-formed and other heaps.\<close>

lemma entry_from_imp:
  "list_for_each_entry_from body h head off pos = Some r \<Longrightarrow>
    list_for_each_from (\<lambda>p. body (list_entry p off)) h head (pos + off) = Some r"
proof (induction rule: list_for_each_entry_from.raw_induct [rotated, consumes 1, case_names 1])
  case (1 f body h head off pos r)
  then show ?case
    by (subst list_for_each_from.simps)
       (auto split: if_splits option.splits Option.bind_splits dest: 1(1))
qed

lemma from_entry_imp:
  "list_for_each_from body' h head pos = Some r \<Longrightarrow> body' = (\<lambda>p. body (list_entry p off)) \<Longrightarrow>
    list_for_each_entry_from body h head off (list_entry pos off) = Some r"
proof (induction rule: list_for_each_from.raw_induct [rotated, consumes 1, case_names 1])
  case (1 f body' h head pos r)
  then show ?case
    by (subst list_for_each_entry_from.simps)
       (auto split: if_splits option.splits Option.bind_splits dest: 1(1))
qed

lemma entry_safe_from_imp:
  "list_for_each_entry_safe_from body head off pos n h = Some r \<Longrightarrow>
    list_for_each_safe_from (\<lambda>p. body (list_entry p off)) head (pos + off) (n + off) h = Some r"
proof (induction rule: list_for_each_entry_safe_from.raw_induct [rotated, consumes 1, case_names 1])
  case (1 f body head off pos n h r)
  then show ?case
    by (subst list_for_each_safe_from.simps)
       (auto split: if_splits Option.bind_splits dest: 1(1))
qed

lemma safe_from_entry_imp:
  "list_for_each_safe_from body' head pos n h = Some r \<Longrightarrow> body' = (\<lambda>p. body (list_entry p off)) \<Longrightarrow>
    list_for_each_entry_safe_from body head off (list_entry pos off) (list_entry n off) h = Some r"
proof (induction rule: list_for_each_safe_from.raw_induct [rotated, consumes 1, case_names 1])
  case (1 f body' head pos n h r)
  then show ?case
    by (subst list_for_each_entry_safe_from.simps)
       (auto split: if_splits Option.bind_splits dest: 1(1))
qed

lemma option_eq_by_Some: "(\<And>r. x = Some r \<Longrightarrow> y = Some r) \<Longrightarrow> (\<And>r. y = Some r \<Longrightarrow> x = Some r) \<Longrightarrow> x = y"
  by (cases x; cases y) auto

lemma entry_from_eq:
  "list_for_each_entry_from body h head off (list_entry n off) =
    list_for_each_from (\<lambda>p. body (list_entry p off)) h head n"
  by (rule option_eq_by_Some) (auto dest: entry_from_imp from_entry_imp [OF _ refl])

lemma entry_safe_from_eq:
  "list_for_each_entry_safe_from body head off (list_entry pos off) (list_entry n off) h =
    list_for_each_safe_from (\<lambda>p. body (list_entry p off)) head pos n h"
  by (rule option_eq_by_Some) (auto dest: entry_safe_from_imp safe_from_entry_imp [OF _ refl])

text \<open>C32: The loops over embedded objects (list_for_each_entry and list_for_each_entry_safe) are the loops over
  their nodes, on every heap: they visit, end, leave early or run into an undefined access on the same
  nodes. On a well-formed list of embedded nodes the first visits exactly the objects, in order, and
  terminates.\<close>

theorem list_for_each_entry_equiv:
  "list_for_each_entry body h head off = list_for_each (\<lambda>p. body (list_entry p off)) h head \<and>
   list_for_each_entry_safe body' head off h = list_for_each_safe (\<lambda>p. body' (list_entry p off)) head h \<and>
   (dlist h head (map (\<lambda>t. t + off) ts) \<longrightarrow> list_for_each_entry body h head off = scan body ts)"
proof -
  have scan: "scan (\<lambda>p. body (list_entry p off)) (map (\<lambda>t. t + off) ts) = scan body ts"
    by (induction ts) (simp_all cong: option.case_cong)
  have e: "list_for_each_entry body h head off = list_for_each (\<lambda>p. body (list_entry p off)) h head"
    by (simp add: list_for_each_entry_def list_for_each_def entry_from_eq)
  moreover have "list_for_each_entry_safe body' head off h = list_for_each_safe (\<lambda>p. body' (list_entry p off)) head h"
    by (simp add: list_for_each_entry_safe_def list_for_each_safe_def entry_safe_from_eq)
  ultimately show ?thesis
    using list_for_each_dlist [of h head "map (\<lambda>t. t + off) ts" "\<lambda>p. body (list_entry p off)"] scan by simp
qed

lemma list_first_entry_dlist:
  "dlist h head (map (\<lambda>t. t + off) (t # ts)) \<Longrightarrow> list_first_entry head off h = Some t"
  by (simp add: list_first_entry_def dlist_get_next)

subsection \<open>Any sequence of calls\<close>

text \<open>
  The calls of a client of one list, and what they mean for the sequence of its nodes. A client adds
  only initialised nodes that are not on the list, and deletes and moves only nodes that are.
\<close>

datatype list_call = Add addr | Add_tail addr | Del_init addr | Move addr | Move_tail addr

fun call_ok :: "addr set \<Rightarrow> addr \<Rightarrow> addr list \<Rightarrow> list_call \<Rightarrow> bool" where
  "call_ok D head xs (Add n) = (n \<in> D \<and> n \<notin> set (head # xs))"
| "call_ok D head xs (Add_tail n) = (n \<in> D \<and> n \<notin> set (head # xs))"
| "call_ok D head xs (Del_init n) = (n \<in> set xs)"
| "call_ok D head xs (Move n) = (n \<in> set xs)"
| "call_ok D head xs (Move_tail n) = (n \<in> set xs)"

fun call_spec :: "list_call \<Rightarrow> addr list \<Rightarrow> addr list" where
  "call_spec (Add n) xs = n # xs"
| "call_spec (Add_tail n) xs = xs @ [n]"
| "call_spec (Del_init n) xs = remove1 n xs"
| "call_spec (Move n) xs = n # remove1 n xs"
| "call_spec (Move_tail n) xs = remove1 n xs @ [n]"

fun calls_spec :: "addr set \<Rightarrow> addr \<Rightarrow> list_call list \<Rightarrow> addr list \<Rightarrow> addr list option" where
  "calls_spec D head [] xs = Some xs"
| "calls_spec D head (c # cs) xs = (if call_ok D head xs c then calls_spec D head cs (call_spec c xs) else None)"

fun call_run :: "addr \<Rightarrow> list_call \<Rightarrow> lheap \<Rightarrow> lheap option" where
  "call_run head (Add n) h = list_add n head h"
| "call_run head (Add_tail n) h = list_add_tail n head h"
| "call_run head (Del_init n) h = list_del_init n h"
| "call_run head (Move n) h = list_move n head h"
| "call_run head (Move_tail n) h = list_move_tail n head h"

fun calls_run :: "addr \<Rightarrow> list_call list \<Rightarrow> lheap \<Rightarrow> lheap option" where
  "calls_run head [] h = Some h"
| "calls_run head (c # cs) h = do { h \<leftarrow> call_run head c h; calls_run head cs h }"

lemma call_refines:
  assumes "dlist h head xs" and "call_ok (dom h) head xs c"
  shows "\<exists>h'. call_run head c h = Some h' \<and> dlist h' head (call_spec c xs) \<and> dom h' = dom h"
proof (cases c)
  case (Add n)
  then show ?thesis using list_add_dlist [OF assms(1), of n] assms(2) by (auto dest: frame_dom)
next
  case (Add_tail n)
  then show ?thesis using list_add_tail_dlist [OF assms(1), of n] assms(2) by (auto dest: frame_dom)
next
  case (Del_init n)
  then show ?thesis using list_del_init_dlist [OF assms(1), of n] assms(2) by (auto dest: frame_dom)
next
  case (Move n)
  then show ?thesis using list_move_within(1) [OF assms(1), of n] assms(2) by (auto dest: frame_dom)
next
  case (Move_tail n)
  then show ?thesis using list_move_within(2) [OF assms(1), of n] assms(2) by (auto dest: frame_dom)
qed

text \<open>C18: The doubly linked list refines the sequence of its nodes: any sequence of list_add, list_add_tail,
  list_del_init, list_move and list_move_tail calls that keeps the rules runs without an undefined access,
  ends in a well-formed list with the nodes that the specification says, and a list_for_each loop and a
  list_for_each_prev loop then visit exactly these nodes, forwards and backwards, and terminate.\<close>

theorem list_calls_refine:
  assumes "dlist h head xs" and "calls_spec (dom h) head cs xs = Some ys"
  shows "\<exists>h'. calls_run head cs h = Some h' \<and> dlist h' head ys \<and>
    (\<forall>body. list_for_each body h' head = scan body ys) \<and>
    (\<forall>body. list_for_each_prev body h' head = scan body (rev ys))"
  using assms
proof (induction cs arbitrary: h xs)
  case Nil
  then show ?case using list_for_each_dlist list_for_each_prev_dlist by auto
next
  case (Cons c cs)
  then have ok: "call_ok (dom h) head xs c" "calls_spec (dom h) head cs (call_spec c xs) = Some ys"
    by (auto split: if_splits)
  obtain h1 where h1: "call_run head c h = Some h1" "dlist h1 head (call_spec c xs)" "dom h1 = dom h"
    using call_refines [OF Cons.prems(1) ok(1)] by blast
  show ?case using Cons.IH [OF h1(2)] ok(2) h1(1,3) by simp
qed

text \<open>A head at 16 and three nodes.\<close>

definition demo_nodes :: lheap where
  "demo_nodes = (\<lambda>_. None)(16 \<mapsto> \<lparr>lh_next = 16, lh_prev = 16\<rparr>, 32 \<mapsto> \<lparr>lh_next = NULL, lh_prev = NULL\<rparr>,
     48 \<mapsto> \<lparr>lh_next = NULL, lh_prev = NULL\<rparr>, 64 \<mapsto> \<lparr>lh_next = NULL, lh_prev = NULL\<rparr>)"

lemma demo_nodes_dlist: "dlist demo_nodes 16 []" and demo_nodes_dom: "dom demo_nodes = {16, 32, 48, 64}"
  by (auto simp: demo_nodes_def dlist_def link_def get_next_def get_prev_def)

theorem list_calls_refine_witness:
  "\<exists>h'. calls_run 16 [Add 32, Add_tail 48, Add 64, Del_init 32, Move_tail 64] demo_nodes = Some h' \<and> dlist h' 16 [48, 64]"
  using list_calls_refine [OF demo_nodes_dlist, of "[Add 32, Add_tail 48, Add 64, Del_init 32, Move_tail 64]"]
  by (auto simp: demo_nodes_dom)

lemma demo_nodes_two:
  "\<exists>h. calls_run 16 [Add 32, Add_tail 48] demo_nodes = Some h \<and> dlist h 16 [32, 48] \<and> 64 \<in> dom h"
proof -
  obtain h1 where h1: "list_add 32 16 demo_nodes = Some h1" "dlist h1 16 [32]" "dom h1 = dom demo_nodes"
    using call_refines [OF demo_nodes_dlist, of "Add 32"] by (auto simp: demo_nodes_dom)
  obtain h2 where "list_add_tail 48 16 h1 = Some h2" "dlist h2 16 [32, 48]" "dom h2 = dom demo_nodes"
    using call_refines [OF h1(2), of "Add_tail 48"] h1(3) by (auto simp: demo_nodes_dom)
  then show ?thesis using h1(1) by (simp add: demo_nodes_dom)
qed

theorem list_for_each_entry_equiv_witness:
  "\<exists>h. calls_run 16 [Add 32, Add_tail 48] demo_nodes = Some h \<and>
    list_for_each_entry (\<lambda>pos. Some (if pos = 40 then Some pos else None)) h 16 8 = Some (Some 40)"
proof -
  obtain h where h: "calls_run 16 [Add 32, Add_tail 48] demo_nodes = Some h" "dlist h 16 [32, 48]"
    using demo_nodes_two by blast
  have "list_for_each_entry (\<lambda>pos. Some (if pos = 40 then Some pos else None)) h 16 8 =
      scan (\<lambda>pos. Some (if pos = 40 then Some pos else None)) [24, 40]"
    using list_for_each_entry_equiv [of "\<lambda>pos. Some (if pos = 40 then Some pos else None)" h 16 8 undefined "[24, 40]"] h(2)
    by (elim conjE mp) simp
  then show ?thesis using h(1) by simp
qed

theorem list_for_each_safe_filter_witness:
  "\<exists>h h'. calls_run 16 [Add 32, Add_tail 48] demo_nodes = Some h \<and>
    list_for_each_safe (delete_if (\<lambda>x. x = 32)) 16 h = Some h' \<and> dlist h' 16 [48]"
proof -
  obtain h where h: "calls_run 16 [Add 32, Add_tail 48] demo_nodes = Some h" "dlist h 16 [32, 48]"
    using demo_nodes_two by blast
  then show ?thesis using list_for_each_safe_filter [OF h(2), of "\<lambda>x. x = 32"] by auto
qed

theorem list_splice_init_dlist_witness:
  "\<exists>h h1 h'. calls_run 16 [Add 32, Add_tail 48] demo_nodes = Some h \<and> INIT_LIST_HEAD 64 h = Some h1 \<and>
    list_splice_init 16 64 h1 = Some h' \<and> dlist h' 64 [32, 48] \<and> dlist h' 16 []"
proof -
  obtain h where h: "calls_run 16 [Add 32, Add_tail 48] demo_nodes = Some h" "dlist h 16 [32, 48]" "64 \<in> dom h"
    using demo_nodes_two by blast
  let ?h1 = "upd_prev 64 64 (upd_next 64 64 h)"
  have i: "INIT_LIST_HEAD 64 h = Some ?h1" "dlist ?h1 64 []" using dlist_INIT [OF h(3)] by simp_all
  have "dlist ?h1 16 [32, 48]"
    by (subst dlist_frame [of 16 "[32, 48]" ?h1 h]) (auto simp: h(2))
  from list_splice_init_dlist [OF this i(2)] show ?thesis using h(1) i(1) by auto
qed

end
