(* ===== verification/Cfe_Utils.thy ===== *)
theory Cfe_Utils
  imports Cfe_Prelude
begin

text \<open>
  \<^verbatim>\<open>include/cfe/utils.h\<close> and \<^verbatim>\<open>include/cfe/macros.h\<close>: rounding up to a power of two with
  \<open>__builtin_clz\<close>, and the two comparisons. A shift by a negative amount or by the width or more, and
  a count of the leading zeros of 0, are undefined: \<open>None\<close>.
\<close>

subsection \<open>Shifts and leading zeros\<close>

definition shift_left :: "'a::len word \<Rightarrow> int \<Rightarrow> 'a word option" where
  "shift_left w n = (if 0 \<le> n \<and> n < int LENGTH('a) then Some (push_bit (nat n) w) else None)"

fun clz_below :: "'a::len word \<Rightarrow> nat \<Rightarrow> nat" where
  "clz_below w 0 = 0"
| "clz_below w (Suc n) = (if bit w n then 0 else Suc (clz_below w n))"

definition builtin_clz :: "'a::len word \<Rightarrow> nat option" where
  "builtin_clz (w :: 'a word) = (if w = 0 then None else Some (clz_below w LENGTH('a)))"

subsection \<open>The code\<close>

text \<open>A \<open>uint16_t\<close> is promoted to a 32 bit \<open>int\<close> before the subtraction and the count.\<close>

definition next_pow2_16 :: "uint16 \<Rightarrow> uint16 option" where
  "next_pow2_16 num =
     (if num \<le> 2 then Some num
      else do {
        z \<leftarrow> builtin_clz (ucast num - 1 :: uint32);
        r \<leftarrow> shift_left (1 :: uint32) (16 - int z);
        Some (ucast r)
      })"

definition next_pow2_32 :: "uint32 \<Rightarrow> uint32 option" where
  "next_pow2_32 num =
     (if num \<le> 2 then Some num
      else do {
        z \<leftarrow> builtin_clz (num - 1);
        shift_left 1 (32 - int z)
      })"

definition next_pow2_64 :: "uint64 \<Rightarrow> uint64 option" where
  "next_pow2_64 num =
     (if num \<le> 2 then Some num
      else do {
        z \<leftarrow> builtin_clz (num - 1);
        shift_left 1 (64 - int z)
      })"

definition MIN_macro :: "'a::linorder \<Rightarrow> 'a \<Rightarrow> 'a" where
  "MIN_macro a b = (if a \<le> b then a else b)"

definition MAX_macro :: "'a::linorder \<Rightarrow> 'a \<Rightarrow> 'a" where
  "MAX_macro a b = (if a \<ge> b then a else b)"

subsection \<open>What the count says\<close>

lemma bit_below_power:
  assumes "unat (w :: 'a::len word) < 2 ^ Suc n"
  shows "bit w n \<longleftrightarrow> 2 ^ n \<le> unat w"
proof -
  have "bit w n \<longleftrightarrow> bit (unat w) n"
    by (metis bit_imp_le_length bit_unsigned_iff bit_word_iff_drop_bit_and
          bit_unsigned_iff exp_eq_0_imp_not_bit possible_bit_nat)
  also have "\<dots> \<longleftrightarrow> odd (unat w div 2 ^ n)" by (simp add: bit_iff_odd)
  also have "\<dots> \<longleftrightarrow> 2 ^ n \<le> unat w"
  proof (cases "2 ^ n \<le> unat w")
    case True
    have "unat w div 2 ^ n = 1"
      using True assms by (intro div_nat_eqI) simp_all
    with True show ?thesis by simp
  qed simp
  finally show ?thesis .
qed

lemma clz_below_spec:
  assumes "w \<noteq> 0" and "unat (w :: 'a::len word) < 2 ^ n"
  shows "clz_below w n < n \<and> 2 ^ (n - 1 - clz_below w n) \<le> unat w \<and> unat w < 2 ^ (n - clz_below w n)"
  using assms(2)
proof (induction n)
  case 0
  with assms(1) show ?case by (simp add: unat_eq_zero)
next
  case (Suc n)
  show ?case
  proof (cases "2 ^ n \<le> unat w")
    case True
    then show ?thesis using Suc.prems by (simp add: bit_below_power)
  next
    case False
    then have "clz_below w n < n \<and> 2 ^ (n - 1 - clz_below w n) \<le> unat w \<and>
        unat w < 2 ^ (n - clz_below w n)"
      by (intro Suc.IH) simp
    with False show ?thesis using Suc.prems by (auto simp: bit_below_power)
  qed
qed

lemma builtin_clz_spec:
  assumes "(w :: 'a::len word) \<noteq> 0"
  obtains z where "builtin_clz w = Some z" and "z < LENGTH('a)"
    and "2 ^ (LENGTH('a) - 1 - z) \<le> unat w" and "unat w < 2 ^ (LENGTH('a) - z)"
  using assms clz_below_spec [OF assms, of "LENGTH('a)"] by (simp add: builtin_clz_def)

subsection \<open>The least power of two that is not smaller\<close>

definition is_next_pow2 :: "nat \<Rightarrow> nat \<Rightarrow> bool" where
  "is_next_pow2 n r \<longleftrightarrow> (\<exists>k. r = 2 ^ k) \<and> n \<le> r \<and> (\<forall>j. n \<le> 2 ^ j \<longrightarrow> r \<le> 2 ^ j)"

lemma is_next_pow2_unique: "is_next_pow2 n r \<Longrightarrow> is_next_pow2 n s \<Longrightarrow> r = s"
  by (auto simp: is_next_pow2_def intro: le_antisym)

lemma is_next_pow2_1: "is_next_pow2 1 1"
  by (auto simp: is_next_pow2_def intro: exI [of _ 0])

lemma is_next_pow2_2: "is_next_pow2 2 2"
proof -
  have "2 \<le> (2 :: nat) ^ j \<longrightarrow> 2 \<le> (2 :: nat) ^ j" for j by simp
  then show ?thesis by (auto simp: is_next_pow2_def intro: exI [of _ 1])
qed

text \<open>The computation of the 32 and the 64 bit functions, at any width.\<close>

lemma shift_clz:
  assumes "2 < unat (num :: 'a::len word)"
  shows "unat num \<le> 2 ^ (LENGTH('a) - 1) \<Longrightarrow>
      \<exists>r. do { z \<leftarrow> builtin_clz (num - 1); shift_left (1 :: 'a word) (int LENGTH('a) - int z) } = Some r \<and>
        is_next_pow2 (unat num) (unat r)"
    and "2 ^ (LENGTH('a) - 1) < unat num \<Longrightarrow>
      do { z \<leftarrow> builtin_clz (num - 1); shift_left (1 :: 'a word) (int LENGTH('a) - int z) } = None"
proof -
  have "num \<noteq> 0" using assms by auto
  then have m: "unat (num - 1) = unat num - 1" by (simp add: unat_minus_one)
  then have "num - 1 \<noteq> 0" using assms by auto
  then obtain z where z: "builtin_clz (num - 1) = Some z" "z < LENGTH('a)"
      "2 ^ (LENGTH('a) - 1 - z) \<le> unat num - 1" "unat num - 1 < 2 ^ (LENGTH('a) - z)"
    unfolding m [symmetric] by (rule builtin_clz_spec)
  show "\<exists>r. do { z \<leftarrow> builtin_clz (num - 1); shift_left (1 :: 'a word) (int LENGTH('a) - int z) } = Some r \<and>
        is_next_pow2 (unat num) (unat r)"
    if le: "unat num \<le> 2 ^ (LENGTH('a) - 1)"
  proof -
    have "2 ^ (LENGTH('a) - 1 - z) < (2 :: nat) ^ (LENGTH('a) - 1)"
      using z(3) le assms by linarith
    then have z0: "0 < z" by (cases z) auto
    let ?e = "LENGTH('a) - z"
    have e: "nat (int LENGTH('a) - int z) = ?e" "?e < LENGTH('a)" "LENGTH('a) - 1 - z = ?e - 1"
      using z0 z(2) by auto
    have r: "unat (push_bit ?e (1 :: 'a word)) = 2 ^ ?e"
      using e(2) unat_power2 [of ?e, where 'a = 'a] by (simp add: push_bit_eq_mult)
    have least: "2 ^ ?e \<le> (2 :: nat) ^ j" if "unat num \<le> 2 ^ j" for j
    proof -
      have "2 ^ (?e - 1) < (2 :: nat) ^ j" using z(3) that assms unfolding e(3) by linarith
      then have "?e - 1 < j" by (simp add: power_less_imp_less_exp)
      then show ?thesis by (intro power_increasing) auto
    qed
    have "unat num \<le> 2 ^ ?e" using z(4) by linarith
    then have "is_next_pow2 (unat num) (unat (push_bit ?e (1 :: 'a word)))"
      unfolding r is_next_pow2_def using least by blast
    then show ?thesis using z(1,2) e(1) z0 by (simp add: shift_left_def)
  qed
  show "do { z \<leftarrow> builtin_clz (num - 1); shift_left (1 :: 'a word) (int LENGTH('a) - int z) } = None"
    if gt: "2 ^ (LENGTH('a) - 1) < unat num"
  proof -
    have "2 ^ (LENGTH('a) - 1) < (2 :: nat) ^ (LENGTH('a) - z)"
      using z(4) gt by linarith
    then have "LENGTH('a) - 1 < LENGTH('a) - z" by (simp add: power_less_imp_less_exp)
    then have "z = 0" using z(2) by linarith
    then show ?thesis using z(1) by (simp add: shift_left_def)
  qed
qed

subsection \<open>Properties\<close>

text \<open>C39: The 32 and the 64 bit functions give, for every positive argument up to the greatest power of two of
  their width, the least power of two that is not smaller; above it the shift is by the whole width, which
  is undefined; 0 is answered for 0.\<close>

theorem next_pow2_least:
  "(if num32 = 0 then next_pow2_32 num32 = Some 0
    else if unat num32 \<le> 2 ^ 31 then \<exists>r. next_pow2_32 num32 = Some r \<and> is_next_pow2 (unat num32) (unat r)
    else next_pow2_32 num32 = None) \<and>
   (if num64 = 0 then next_pow2_64 num64 = Some 0
    else if unat num64 \<le> 2 ^ 63 then \<exists>r. next_pow2_64 num64 = Some r \<and> is_next_pow2 (unat num64) (unat r)
    else next_pow2_64 num64 = None)"
proof -
  have small: "num = 1 \<or> num = 2" if "num \<noteq> 0" "unat num \<le> 2" for num :: "'w::len word"
  proof -
    have "unat num = 1 \<or> unat num = 2" using that by (auto simp: unat_eq_zero le_Suc_eq numeral_2_eq_2)
    moreover have e: "(of_nat (unat num) :: 'w word) = num" by simp
    ultimately show ?thesis
    proof (elim disjE)
      assume u: "unat num = 1"
      have "num = of_nat 1" using e unfolding u by (rule sym)
      then show ?thesis by simp
    next
      assume u: "unat num = 2"
      have "num = of_nat 2" using e unfolding u by (rule sym)
      then show ?thesis by simp
    qed
  qed
  have "if num32 = 0 then next_pow2_32 num32 = Some 0
    else if unat num32 \<le> 2 ^ 31 then \<exists>r. next_pow2_32 num32 = Some r \<and> is_next_pow2 (unat num32) (unat r)
    else next_pow2_32 num32 = None"
  proof (cases "num32 \<le> 2")
    case True
    then have "unat num32 \<le> 2" by (simp add: word_le_nat_alt)
    then show ?thesis using True small [of num32] is_next_pow2_1 is_next_pow2_2 by (auto simp: next_pow2_32_def)
  next
    case False
    then have "2 < unat num32" by (simp add: word_less_nat_alt not_le)
    then show ?thesis using False shift_clz [of num32] by (auto simp: next_pow2_32_def not_le)
  qed
  moreover have "if num64 = 0 then next_pow2_64 num64 = Some 0
    else if unat num64 \<le> 2 ^ 63 then \<exists>r. next_pow2_64 num64 = Some r \<and> is_next_pow2 (unat num64) (unat r)
    else next_pow2_64 num64 = None"
  proof (cases "num64 \<le> 2")
    case True
    then have "unat num64 \<le> 2" by (simp add: word_le_nat_alt)
    then show ?thesis using True small [of num64] is_next_pow2_1 is_next_pow2_2 by (auto simp: next_pow2_64_def)
  next
    case False
    then have "2 < unat num64" by (simp add: word_less_nat_alt not_le)
    then show ?thesis using False shift_clz [of num64] by (auto simp: next_pow2_64_def not_le)
  qed
  ultimately show ?thesis by blast
qed

text \<open>C40: The 16 bit function counts the leading zeros of a 32 bit value but subtracts them from 16: for no argument
  above 2 is its result the next power of two. Up to 2^15 the shift is by a negative amount, which is
  undefined, and above it the result is 1.\<close>

theorem next_pow2_16_broken:
  "next_pow2_16 num = (if num \<le> 2 then Some num else if unat num \<le> 2 ^ 15 then None else Some 1)"
proof (cases "num \<le> 2")
  case False
  then have gt: "2 < unat num" by (simp add: word_less_nat_alt not_le)
  have u: "unat (ucast num :: uint32) = unat num" by (simp add: unat_ucast_up)
  have lt: "unat num < 2 ^ 16" using unsigned_less [of num, where 'a=nat] by simp
  have "(ucast num :: uint32) \<noteq> 0" using u gt by auto
  then have m: "unat (ucast num - 1 :: uint32) = unat num - 1" using u by (simp add: unat_minus_one)
  then have "(ucast num - 1 :: uint32) \<noteq> 0" using gt by auto
  then obtain z where z: "builtin_clz (ucast num - 1 :: uint32) = Some z" "z < 32"
      "2 ^ (31 - z) \<le> unat num - 1" "unat num - 1 < 2 ^ (32 - z)"
    unfolding m [symmetric] by (rule builtin_clz_spec) simp
  have "2 ^ (31 - z) < (2 :: nat) ^ 16" using z(3) lt by linarith
  then have z16: "16 \<le> z" using power_less_imp_less_exp [of "2 :: nat" "31 - z" 16] by simp
  show ?thesis
  proof (cases "unat num \<le> 2 ^ 15")
    case True
    then have "2 ^ (31 - z) < (2 :: nat) ^ 15" using z(3) gt by linarith
    then have "16 < z" using power_less_imp_less_exp [of "2 :: nat" "31 - z" 15] by simp
    then show ?thesis using False True z(1) by (simp add: next_pow2_16_def shift_left_def)
  next
    case F: False
    have "z = 16"
    proof (rule ccontr)
      assume "z \<noteq> 16"
      then have "32 - z \<le> 15" using z16 by simp
      then have "(2 :: nat) ^ (32 - z) \<le> 2 ^ 15" by (intro power_increasing) auto
      then show False using z(4) F by linarith
    qed
    then show ?thesis using False F z(1) by (simp add: next_pow2_16_def shift_left_def)
  qed
qed (simp add: next_pow2_16_def)

end
