(* ===== verification/Cfe_World.thy ===== *)
theory Cfe_World
  imports Cfe_Atomic Cfe_List Cfe_Utils
begin

text \<open>
  The data of the library: the structs of \<^verbatim>\<open>include/crypto\<close> and \<^verbatim>\<open>include/fs\<close> as records, the
  global state (every registry, every heap object, \<open>errno\<close>) as one record \<open>world\<close>, and the code
  that is not in the repository (the C library, the kernel, OpenSSL) as a record \<open>env\<close> of functions
  that every operation that needs it takes as a parameter.

  An object embedded in another (a \<open>struct list_head\<close>, a \<open>struct cfe_hash_ctx\<close>) has its own address,
  the address of the enclosing object plus the offset of the field; \<open>container_of\<close> subtracts it.
  A function pointer is a constructor that names the function, or an extension (\<open>Ext\<close>) for a
  function of the application; NULL is \<open>None\<close>.
\<close>

subsection \<open>Registered types\<close>

datatype evp_md = EVP_sha1 | EVP_sha224 | EVP_sha256 | EVP_sha384 | EVP_sha512

datatype evp_cipher =
    EVP_aes_128_cbc | EVP_aes_192_cbc | EVP_aes_256_cbc
  | EVP_aes_128_gcm | EVP_aes_192_gcm | EVP_aes_256_gcm

datatype pbkdf_derive_fn =
    Fn_openssl_pbkdf_sha1 | Fn_openssl_pbkdf_sha224 | Fn_openssl_pbkdf_sha256
  | Fn_openssl_pbkdf_sha384 | Fn_openssl_pbkdf_sha512 | Ext_derive nat

datatype rand_get_fn = Fn_openssl_rand_get | Ext_get nat

datatype hash_alloc_fn =
    Fn_openssl_sha1_alloc_ctx | Fn_openssl_sha224_alloc_ctx | Fn_openssl_sha256_alloc_ctx
  | Fn_openssl_sha384_alloc_ctx | Fn_openssl_sha512_alloc_ctx | Ext_hash_alloc nat

datatype cipher_alloc_fn =
    Fn_openssl_aes_cbc128_alloc_ctx | Fn_openssl_aes_cbc192_alloc_ctx
  | Fn_openssl_aes_cbc256_alloc_ctx | Fn_openssl_aes_gcm128_alloc_ctx
  | Fn_openssl_aes_gcm192_alloc_ctx | Fn_openssl_aes_gcm256_alloc_ctx | Ext_cipher_alloc nat

datatype header_alloc_fn = Fn_cfe_header_v1_alloc | Ext_header_alloc nat

datatype writer_alloc_fn = Fn_cfe_filewriter_v1_alloc | Ext_writer_alloc nat

text \<open>\<open>char name[16]\<close> is an array inside the struct, \<open>const char *name\<close> a pointer that may be NULL.\<close>

record cfe_pbkdf_type =
  pt_name :: string
  pt_refcnt :: cfe_atomic_t
  pt_derive :: "pbkdf_derive_fn option"

record cfe_rand_type =
  rt_name :: "string option"
  rt_refcnt :: cfe_atomic_t
  rt_get :: "rand_get_fn option"

record cfe_hash_type =
  ht_name :: "string option"
  ht_digestsize :: uint32
  ht_refcnt :: cfe_atomic_t
  ht_alloc_ctx :: "hash_alloc_fn option"

record cfe_cipher_type =
  ct_name :: string
  ct_flags :: cint
  ct_ivsize :: size_t
  ct_keysize :: size_t
  ct_blocksize :: uint32
  ct_refcnt :: cfe_atomic_t
  ct_alloc_ctx :: "cipher_alloc_fn option"

record cfe_header_type =
  hdt_version :: uint16
  hdt_refcnt :: cfe_atomic_t
  hdt_alloc :: "header_alloc_fn option"

record cfe_filewriter_type =
  fwt_version :: uint32
  fwt_refcnt :: cfe_atomic_t
  fwt_alloc :: "writer_alloc_fn option"

text \<open>
  A registry: the lock, the address of the static list head, every \<open>struct list_head\<close> of its list
  (the head and the \<open>next\<close> fields of the type objects), and the type objects.
\<close>

record 't registry =
  rg_lock :: rwlock
  rg_head :: addr
  rg_nodes :: lheap
  rg_types :: "addr \<rightharpoonup> 't"

subsection \<open>Contexts, headers, writers, files\<close>

datatype hash_ops = Openssl_generic_ctx_ops | Ext_hash_ops nat

datatype cipher_ops = Openssl_generic_aead_ctx_ops | Ext_cipher_ops nat

datatype header_ops = Cfe_header_v1_ops | Ext_header_ops nat

datatype writer_ops = Cfe_filewriter_v1_ops | Ext_writer_ops nat

record cfe_hash_ctx =
  hc_ops :: "hash_ops option"
  hc_type :: addr

record openssl_hash_ctx =
  oh_md :: "evp_md option"
  oh_mdctx :: bytes

record cfe_cipher_ctx =
  cc_ops :: "cipher_ops option"
  cc_type :: addr

record openssl_cipher_ctx =
  oc_cipher :: "evp_cipher option"
  oc_ctx :: bytes

text \<open>
  The struct of a versioned header embeds the base struct at offset 0, as record extension does; a
  lock inside an object is \<open>None\<close> while it is not initialised.
\<close>

record cfe_header =
  hd_lock :: "rwlock option"
  hd_type :: addr
  hd_ops :: "header_ops option"

record cfe_header_v1 = cfe_header +
  hd_mapping :: addr
  hd_msize :: size_t

record cfe_filewriter =
  fw_blocksize :: uint32
  fw_lock :: "rwlock option"
  fw_key :: addr
  fw_keysize :: size_t
  fw_cipher :: addr
  fw_type :: addr
  fw_ops :: "writer_ops option"

record cfe_file =
  f_header :: addr
  f_writer :: addr
  f_refcnt :: cfe_atomic_t

text \<open>The tables of functions of the two key stores, and of one of the application.\<close>

datatype keystore_ops = Ks_linux_ops | Ks_darwin_ops | Ext_ks_ops nat

record cfe_keystore_type =
  ks_name :: string
  ks_ops :: "keystore_ops option"

subsection \<open>The global state\<close>

text \<open>
  Beside the library's own data: heap blocks of other kinds, the live mappings, the sizes of the
  files and the open descriptors (the effects of the kernel calls that matter here), what was
  written to \<open>stderr\<close>, and the state of the random number generator of OpenSSL.
\<close>

record world =
  errno :: int
  w_pbkdf :: "cfe_pbkdf_type registry"
  w_rand :: "cfe_rand_type registry"
  w_hash :: "cfe_hash_type registry"
  w_cipher :: "cfe_cipher_type registry"
  w_header :: "cfe_header_type registry"
  header_default :: addr
  w_writer :: "cfe_filewriter_type registry"
  writer_default :: addr
  w_hash_ctxs :: "addr \<rightharpoonup> cfe_hash_ctx"
  w_hash_octxs :: "addr \<rightharpoonup> openssl_hash_ctx"
  w_cipher_ctxs :: "addr \<rightharpoonup> cfe_cipher_ctx"
  w_cipher_octxs :: "addr \<rightharpoonup> openssl_cipher_ctx"
  w_headers :: "addr \<rightharpoonup> cfe_header_v1"
  w_writers :: "addr \<rightharpoonup> cfe_filewriter"
  w_files :: "addr \<rightharpoonup> cfe_file"
  keystore :: addr
  w_ks_types :: "addr \<rightharpoonup> cfe_keystore_type"
  w_blocks :: "addr \<rightharpoonup> bytes"
  w_maps :: "addr \<rightharpoonup> size_t"
  w_fsize :: "int \<Rightarrow> uint64"
  w_fds :: "int set"
  w_stderr :: string
  w_rng :: nat

subsection \<open>The environment\<close>

text \<open>
  Every function of OpenSSL returns its \<open>int\<close> and what it wrote; the state of an \<open>EVP_MD_CTX\<close> and an
  \<open>EVP_CIPHER_CTX\<close> is the bytes of the struct; the cipher functions may leave the output length unset
  when they fail, which is \<open>None\<close>. \<open>e_calloc\<close> is the address that the allocator answers
  for a number of bytes in a state, NULL when it is out of memory. The kernel functions answer an
  error number, 0 for success; \<open>e_have_posix_fallocate\<close> is the result of the test of the configure
  script.
\<close>

record libc =
  e_malloc :: "size_t \<Rightarrow> world \<Rightarrow> addr"
  e_calloc :: "size_t \<Rightarrow> world \<Rightarrow> addr"
  e_realloc :: "addr \<Rightarrow> size_t \<Rightarrow> world \<Rightarrow> addr"
  e_pagesize :: uint64
  e_have_posix_fallocate :: bool
  e_posix_fallocate :: "int \<Rightarrow> uint64 \<Rightarrow> uint64 \<Rightarrow> world \<Rightarrow> int"
  e_fcntl_preallocate :: "int \<Rightarrow> uint64 \<Rightarrow> uint64 \<Rightarrow> world \<Rightarrow> int"
  e_mmap :: "size_t \<Rightarrow> int \<Rightarrow> world \<Rightarrow> addr + int"
  e_munmap :: "addr \<Rightarrow> size_t \<Rightarrow> world \<Rightarrow> int"
  e_fstat :: "int \<Rightarrow> world \<Rightarrow> int"
  e_isreg :: "int \<Rightarrow> world \<Rightarrow> bool"
  e_strerror :: "int \<Rightarrow> string"
  e_close :: "int \<Rightarrow> world \<Rightarrow> int"

record openssl_evp =
  e_sizeof_EVP_MD_CTX :: size_t
  e_DigestInit_ex :: "bytes \<Rightarrow> evp_md option \<Rightarrow> int \<times> bytes"
  e_DigestUpdate :: "bytes \<Rightarrow> bytes \<Rightarrow> size_t \<Rightarrow> int \<times> bytes"
  e_DigestFinal :: "bytes \<Rightarrow> int \<times> bytes \<times> bytes"
  e_PKCS5_PBKDF2_HMAC ::
    "bytes \<Rightarrow> cint \<Rightarrow> bytes \<Rightarrow> cint \<Rightarrow> cint \<Rightarrow> evp_md \<Rightarrow> cint \<Rightarrow> int \<times> bytes"
  e_RAND_bytes :: "nat \<Rightarrow> cint \<Rightarrow> int \<times> bytes \<times> nat"
  e_ENGINE_by_id_rdrand :: bool
  e_ENGINE_init :: int
  e_ENGINE_set_default_RAND :: int

record openssl_cipher =
  e_sizeof_EVP_CIPHER_CTX :: size_t
  e_CIPHER_key_length :: "evp_cipher option \<Rightarrow> cint"
  e_CipherInit_ex ::
    "bytes \<Rightarrow> evp_cipher option \<Rightarrow> bytes option \<Rightarrow> bytes option \<Rightarrow> int \<Rightarrow> int \<times> bytes"
  e_CipherUpdate :: "bytes \<Rightarrow> bytes \<Rightarrow> cint \<Rightarrow> bool \<Rightarrow> int \<times> bytes \<times> bytes \<times> cint option"
  e_CipherFinal_ex :: "bytes \<Rightarrow> int \<times> bytes \<times> bytes \<times> cint option"
  e_set_padding :: "bytes \<Rightarrow> int \<Rightarrow> int \<times> bytes"
  e_GCM_SET_IVLEN :: "bytes \<Rightarrow> cint \<Rightarrow> int \<times> bytes"
  e_GCM_GET_TAG :: "bytes \<Rightarrow> cint \<Rightarrow> int \<times> bytes \<times> bytes"
  e_GCM_SET_TAG :: "bytes \<Rightarrow> cint \<Rightarrow> bytes \<Rightarrow> int \<times> bytes"

record application =
  e_ext_derive ::
    "nat \<Rightarrow> uint32 \<Rightarrow> bytes \<Rightarrow> size_t \<Rightarrow> bytes \<Rightarrow> size_t \<Rightarrow> size_t \<Rightarrow> world \<Rightarrow>
      (int \<times> bytes \<times> world) option"
  e_ext_get :: "nat \<Rightarrow> size_t \<Rightarrow> world \<Rightarrow> (int \<times> bytes \<times> world) option"
  e_ext_header_alloc :: "nat \<Rightarrow> int \<Rightarrow> size_t \<Rightarrow> world \<Rightarrow> (addr \<times> world) option"
  e_ext_header_free :: "nat \<Rightarrow> addr \<Rightarrow> world \<Rightarrow> world option"
  e_ext_writer_alloc :: "nat \<Rightarrow> addr \<Rightarrow> uint32 \<Rightarrow> world \<Rightarrow> (addr \<times> world) option"

record app_hash =
  e_ext_hash_alloc :: "nat \<Rightarrow> world \<Rightarrow> (addr \<times> world) option"
  e_ext_hash_init :: "nat \<Rightarrow> addr \<Rightarrow> world \<Rightarrow> (int \<times> world) option"
  e_ext_hash_update :: "nat \<Rightarrow> addr \<Rightarrow> bytes \<Rightarrow> size_t \<Rightarrow> world \<Rightarrow> (int \<times> world) option"
  e_ext_hash_finalize :: "nat \<Rightarrow> addr \<Rightarrow> world \<Rightarrow> (int \<times> bytes \<times> world) option"
  e_ext_hash_destroy :: "nat \<Rightarrow> addr \<Rightarrow> world \<Rightarrow> world option"

record app_cipher =
  e_ext_cipher_alloc :: "nat \<Rightarrow> world \<Rightarrow> (addr \<times> world) option"
  e_ext_cipher_init ::
    "nat \<Rightarrow> addr \<Rightarrow> int \<Rightarrow> bytes option \<Rightarrow> size_t \<Rightarrow> bytes option \<Rightarrow> size_t \<Rightarrow> world \<Rightarrow> (int \<times> world) option"
  e_ext_cipher_update ::
    "nat \<Rightarrow> addr \<Rightarrow> bytes \<Rightarrow> size_t \<Rightarrow> size_t \<Rightarrow> world \<Rightarrow> (int \<times> bytes \<times> size_t \<times> world) option"
  e_ext_cipher_finalize ::
    "nat \<Rightarrow> addr \<Rightarrow> size_t \<Rightarrow> world \<Rightarrow> (int \<times> bytes \<times> size_t \<times> world) option"
  e_ext_cipher_set_padding :: "nat \<Rightarrow> addr \<Rightarrow> int \<Rightarrow> world \<Rightarrow> (int \<times> world) option"
  e_ext_cipher_set_aad :: "nat \<Rightarrow> addr \<Rightarrow> bytes \<Rightarrow> size_t \<Rightarrow> world \<Rightarrow> (int \<times> world) option"
  e_ext_cipher_set_tag :: "nat \<Rightarrow> addr \<Rightarrow> bytes \<Rightarrow> size_t \<Rightarrow> world \<Rightarrow> (int \<times> world) option"
  e_ext_cipher_get_tag :: "nat \<Rightarrow> addr \<Rightarrow> size_t \<Rightarrow> world \<Rightarrow> (int \<times> bytes \<times> world) option"
  e_ext_cipher_destroy :: "nat \<Rightarrow> addr \<Rightarrow> world \<Rightarrow> world option"

text \<open>\<open>sym\<close> is the address the linker gave to a static object.\<close>

record env =
  libc :: libc
  evp :: openssl_evp
  evpc :: openssl_cipher
  app :: application
  apph :: app_hash
  appc :: app_cipher
  sym :: "string \<Rightarrow> addr"

text \<open>
  A block of \<open>n\<close> bytes that the allocator may answer: not NULL, inside the address space, and no live
  object in it (an object at \<open>x\<close> lies in the block when the offset \<open>x - a\<close> is less than \<open>n\<close>).
\<close>

definition block_free :: "addr \<Rightarrow> size_t \<Rightarrow> addr set \<Rightarrow> bool" where
  "block_free a n X \<longleftrightarrow> (\<forall>x \<in> X. \<not> x - a < n)"

definition fresh :: "world \<Rightarrow> addr \<Rightarrow> size_t \<Rightarrow> bool" where
  "fresh w a n \<longleftrightarrow> a \<noteq> NULL \<and> unat a + unat n \<le> 2 ^ 64 \<and>
     block_free a n (dom (w_hash_ctxs w)) \<and> block_free a n (dom (w_hash_octxs w)) \<and>
     block_free a n (dom (w_cipher_ctxs w)) \<and> block_free a n (dom (w_cipher_octxs w)) \<and>
     block_free a n (dom (w_headers w)) \<and> block_free a n (dom (w_writers w)) \<and>
     block_free a n (dom (w_files w)) \<and> block_free a n (dom (w_blocks w))"

text \<open>What the C standard says of \<open>calloc\<close>.\<close>

definition calloc_ok :: "env \<Rightarrow> bool" where
  "calloc_ok E \<longleftrightarrow> (\<forall>n w. e_calloc (libc E) n w = NULL \<or> fresh w (e_calloc (libc E) n w) n)"

lemma block_freeD: "block_free a n X \<Longrightarrow> i < n \<Longrightarrow> a + i \<notin> X"
  unfolding block_free_def by (metis add_diff_cancel_left')

lemma freshD:
  assumes "fresh w a n" and "0 < n"
  shows "a \<noteq> NULL" and "w_headers w a = None" and "w_writers w a = None" and "w_files w a = None"
  using assms block_freeD [OF _ assms(2), of a] by (force simp: fresh_def)+

lemma block_free_nonnull:
  assumes "a \<noteq> NULL" and "unat a + unat n \<le> 2 ^ 64" and "i < n"
  shows "a + i \<noteq> NULL"
proof -
  have "unat i < unat n" using assms(3) by (simp add: word_less_nat_alt)
  then have "unat (a + i) = unat a + unat i"
    using assms(2) by (subst unat_add_lem [symmetric]) simp
  moreover have "unat a \<noteq> 0" using assms(1) by (simp add: unat_eq_zero)
  ultimately show ?thesis by (metis add_is_0 unat_0)
qed

subsection \<open>Steps on a registry\<close>

definition reg_wrlock :: "'t registry \<Rightarrow> 't registry option" where
  "reg_wrlock R = map_option (\<lambda>l. R\<lparr>rg_lock := l\<rparr>) (rwlock_wrlock (rg_lock R))"

definition reg_rdlock :: "'t registry \<Rightarrow> 't registry option" where
  "reg_rdlock R = map_option (\<lambda>l. R\<lparr>rg_lock := l\<rparr>) (rwlock_rdlock (rg_lock R))"

definition reg_unlock :: "'t registry \<Rightarrow> 't registry option" where
  "reg_unlock R = map_option (\<lambda>l. R\<lparr>rg_lock := l\<rparr>) (rwlock_unlock (rg_lock R))"

text \<open>A list operation on the nodes; a store to a field of a type object.\<close>

definition reg_list :: "(lheap \<Rightarrow> lheap option) \<Rightarrow> 't registry \<Rightarrow> 't registry option" where
  "reg_list f R = map_option (\<lambda>n. R\<lparr>rg_nodes := n\<rparr>) (f (rg_nodes R))"

definition reg_store :: "addr \<Rightarrow> ('t \<Rightarrow> 't) \<Rightarrow> 't registry \<Rightarrow> 't registry option" where
  "reg_store t f R = do {
     ty \<leftarrow> rg_types R t;
     Some (R\<lparr>rg_types := (rg_types R)(t \<mapsto> f ty)\<rparr>)
   }"

subsection \<open>The load image\<close>

text \<open>
  A registry before any constructor has run: \<open>LIST_HEAD\<close> links the head to itself,
  \<open>PTHREAD_RWLOCK_INITIALIZER\<close> is a free lock, and the static type objects of the library (and of the
  application) hold their initialisers, their list nodes zero.
\<close>

definition load_registry :: "addr \<Rightarrow> addr \<Rightarrow> (addr \<times> 't) list \<Rightarrow> 't registry" where
  "load_registry head off objs =
     \<lparr>rg_lock = Unlocked, rg_head = head,
      rg_nodes = (map_of (map (\<lambda>(t, ty). (t + off, \<lparr>lh_next = NULL, lh_prev = NULL\<rparr>)) objs))
        (head \<mapsto> \<lparr>lh_next = head, lh_prev = head\<rparr>),
      rg_types = map_of objs\<rparr>"

text \<open>A process in which nothing is registered, allocated, mapped or open.\<close>

definition blank_world :: world where
  "blank_world =
     \<lparr>errno = 0, w_pbkdf = load_registry 16 0 [], w_rand = load_registry 32 0 [],
      w_hash = load_registry 48 0 [], w_cipher = load_registry 64 0 [],
      w_header = load_registry 80 0 [], header_default = NULL,
      w_writer = load_registry 96 0 [], writer_default = NULL,
      w_hash_ctxs = Map.empty, w_hash_octxs = Map.empty,
      w_cipher_ctxs = Map.empty, w_cipher_octxs = Map.empty,
      w_headers = Map.empty, w_writers = Map.empty, w_files = Map.empty,
      keystore = NULL, w_ks_types = Map.empty,
      w_blocks = Map.empty, w_maps = Map.empty, w_fsize = (\<lambda>_. 0), w_fds = {0, 1, 2},
      w_stderr = [], w_rng = 0\<rparr>"

end
