(* ===== verification/Cfe_Registry.thy ===== *)
theory Cfe_Registry
  imports Cfe_World
begin

text \<open>
  Six files of the library (\<^verbatim>\<open>hash.c\<close>, \<^verbatim>\<open>cipher.c\<close>, \<^verbatim>\<open>pbkdf.c\<close>, \<^verbatim>\<open>rand.c\<close>, \<^verbatim>\<open>header.c\<close>, \<^verbatim>\<open>filewriter.c\<close>)
  hold a registry each: a list of type objects, looked up by a name or a version, with a reference
  count per type. This theory has the two interfaces between them and their clients:
  \<^item> the locale \<open>type_registry\<close>, the contract: what a lookup, a registration, a deregistration, taking
    and dropping a reference do to an abstract list of types, with the lemmas a client needs;
  \<^item> the locale \<open>type_layout\<close>, what a file has to say of its struct (where the list node is, how a
    name is compared, where the reference count is) for the common shape of the six files to satisfy
    that contract, which is proved once, as a sublocale.
  Each file's functions are written out from its source in the theory of that file; they are shown
  equal to the common shape there, and inherit the contract.
\<close>

text \<open>Several registrations in a row, as the constructors do them: the return codes and the world.\<close>

primrec register_each ::
  "(addr \<Rightarrow> world \<Rightarrow> (int \<times> world) option) \<Rightarrow> addr list \<Rightarrow> world \<Rightarrow> (int list \<times> world) option" where
  "register_each f [] w = Some ([], w)"
| "register_each f (t # ts) w = do {
     (r, w) \<leftarrow> f t w;
     (rs, w) \<leftarrow> register_each f ts w;
     Some (r # rs, w)
   }"

subsection \<open>The contract\<close>

locale type_registry =
  fixes repr :: "world \<Rightarrow> addr list \<Rightarrow> bool"
    and keyof :: "world \<Rightarrow> addr \<Rightarrow> 'k option"
    and refs :: "world \<Rightarrow> addr \<Rightarrow> cfe_atomic_t option"
    and body :: "world \<Rightarrow> addr \<Rightarrow> 'b option"
    and pinned :: "world \<Rightarrow> addr \<Rightarrow> bool"
    and frame_of :: "world \<Rightarrow> world \<Rightarrow> bool"
    and canon :: "'n \<Rightarrow> 'k"
    and find :: "'n \<Rightarrow> world \<Rightarrow> addr option"
    and register :: "addr \<Rightarrow> world \<Rightarrow> (int \<times> world) option"
    and unregister :: "addr \<Rightarrow> world \<Rightarrow> (int \<times> world) option"
    and acquire :: "'n \<Rightarrow> world \<Rightarrow> (addr \<times> world) option"
    and release :: "addr \<Rightarrow> world \<Rightarrow> world option"
  assumes repr_distinct: "repr w xs \<Longrightarrow> distinct (map (keyof w) xs)"
    and repr_keyed: "repr w xs \<Longrightarrow> t \<in> set xs \<Longrightarrow> keyof w t \<noteq> None"
    and repr_nonnull: "repr w xs \<Longrightarrow> NULL \<notin> set xs"
    and repr_unique: "repr w xs \<Longrightarrow> repr w ys \<Longrightarrow> xs = ys"
    and refs_keyof: "keyof w t \<noteq> None \<Longrightarrow> refs w t \<noteq> None"
    and find_key: "repr w xs \<Longrightarrow> find n w =
      Some (case List.find (\<lambda>t. keyof w t = Some (canon n)) xs of Some t \<Rightarrow> t | None \<Rightarrow> NULL)"
    and register_new: "repr w xs \<Longrightarrow> keyof w t = Some k \<Longrightarrow> Some k \<notin> keyof w ` set xs \<Longrightarrow>
      \<exists>w'. register t w = Some (0, w') \<and> repr w' (xs @ [t]) \<and> keyof w' = keyof w \<and> body w' = body w \<and>
        refs w' = (refs w)(t \<mapsto> 1) \<and> errno w' = errno w \<and> frame_of w w'"
    and register_busy: "repr w xs \<Longrightarrow> keyof w t = Some k \<Longrightarrow> Some k \<in> keyof w ` set xs \<Longrightarrow>
      register t w = Some (1, w\<lparr>errno := EBUSY\<rparr>)"
    and unregister_busy: "repr w xs \<Longrightarrow> refs w t = Some c \<Longrightarrow> pinned w t \<or> cfe_atomic_get c \<noteq> 1 \<Longrightarrow>
      unregister t w = Some (1, w\<lparr>errno := EBUSY\<rparr>)"
    and unregister_free: "repr w xs \<Longrightarrow> t \<in> set xs \<Longrightarrow> refs w t = Some c \<Longrightarrow> \<not> pinned w t \<Longrightarrow>
      cfe_atomic_get c = 1 \<Longrightarrow>
      \<exists>w'. unregister t w = Some (0, w') \<and> repr w' (remove1 t xs) \<and> keyof w' = keyof w \<and> body w' = body w \<and>
        refs w' = refs w \<and> errno w' = errno w \<and> frame_of w w' \<and> unregister t w' = Some (0, w')"
    and acquire_found: "repr w xs \<Longrightarrow> t \<in> set xs \<Longrightarrow> keyof w t = Some (canon n) \<Longrightarrow> refs w t = Some c \<Longrightarrow>
      \<exists>w'. acquire n w = Some (t, w') \<and> repr w' xs \<and> keyof w' = keyof w \<and> body w' = body w \<and>
        refs w' = (refs w)(t \<mapsto> c + 1) \<and> errno w' = errno w \<and> frame_of w w' \<and> release t w' = Some w"
    and acquire_missing: "repr w xs \<Longrightarrow> Some (canon n) \<notin> keyof w ` set xs \<Longrightarrow>
      acquire n w = Some (NULL, w)"
    and release_dec: "repr w xs \<Longrightarrow> t \<noteq> NULL \<Longrightarrow> refs w t = Some c \<Longrightarrow>
      \<exists>w'. release t w = Some w' \<and> repr w' xs \<and> keyof w' = keyof w \<and> body w' = body w \<and>
        refs w' = (refs w)(t \<mapsto> c - 1) \<and> errno w' = errno w \<and> frame_of w w'"
    and frame_self: "frame_of w w"
    and frame_then: "frame_of u v \<Longrightarrow> frame_of v w \<Longrightarrow> frame_of u w"
    and repr_errno: "repr (w\<lparr>errno := e\<rparr>) xs = repr w xs"
    and keyof_errno: "keyof (w\<lparr>errno := e\<rparr>) = keyof w"
    and refs_errno: "refs (w\<lparr>errno := e\<rparr>) = refs w"
begin

lemma repr_key_inj:
  "repr w xs \<Longrightarrow> s \<in> set xs \<Longrightarrow> t \<in> set xs \<Longrightarrow> keyof w s = keyof w t \<Longrightarrow> s = t"
  using repr_distinct [of w xs] by (auto simp: distinct_map inj_on_def)

lemma find_member:
  assumes "repr w xs" and "t \<in> set xs" and "keyof w t = Some (canon n)"
  shows "find n w = Some t"
proof -
  have "List.find (\<lambda>t. keyof w t = Some (canon n)) xs = Some t"
  proof (cases "List.find (\<lambda>t. keyof w t = Some (canon n)) xs")
    case None
    then show ?thesis using assms by (auto simp: find_None_iff)
  next
    case (Some s)
    then have "s \<in> set xs" "keyof w s = Some (canon n)"
      by (auto simp: find_Some_iff)
    then show ?thesis using Some repr_key_inj [OF assms(1)] assms(2,3) by metis
  qed
  then show ?thesis using find_key [OF assms(1)] by simp
qed

lemma find_missing:
  assumes "repr w xs" and "Some (canon n) \<notin> keyof w ` set xs"
  shows "find n w = Some NULL"
proof -
  have "List.find (\<lambda>t. keyof w t = Some (canon n)) xs = None"
    using assms(2) by (force simp: find_None_iff)
  then show ?thesis using find_key [OF assms(1)] by simp
qed

text \<open>A registered type is found; registering it again is refused; other lookups do not change.\<close>

lemma register_find:
  assumes "repr w xs" and "keyof w t = Some (canon n)" and "Some (canon n) \<notin> keyof w ` set xs"
  shows "\<exists>w'. register t w = Some (0, w') \<and> find n w' = Some t \<and>
    register t w' = Some (1, w'\<lparr>errno := EBUSY\<rparr>) \<and>
    (\<forall>m. canon m \<noteq> canon n \<longrightarrow> find m w' = find m w)"
proof -
  obtain w' where w': "register t w = Some (0, w')" "repr w' (xs @ [t])" "keyof w' = keyof w"
    using register_new [OF assms] by blast
  have "find m w' = find m w" if "canon m \<noteq> canon n" for m
    unfolding find_key [OF w'(2)] find_key [OF assms(1)] w'(3)
    using that assms(2) by (induction xs) auto
  moreover have "find n w' = Some t"
    using find_member [OF w'(2), of t n] w'(3) assms(2) by simp
  moreover have "register t w' = Some (1, w'\<lparr>errno := EBUSY\<rparr>)"
    using register_busy [OF w'(2), of t "canon n"] w'(3) assms(2) by auto
  ultimately show ?thesis using w'(1) by blast
qed

text \<open>Types whose keys are new and differ are all registered, in their order.\<close>

lemma register_each_new:
  assumes "repr w xs" and "\<forall>t \<in> set ts. keyof w t \<noteq> None" and "distinct (map (keyof w) (xs @ ts))"
  shows "\<exists>w'. register_each register ts w = Some (map (\<lambda>_. 0) ts, w') \<and> repr w' (xs @ ts) \<and>
    keyof w' = keyof w \<and> body w' = body w \<and> (\<forall>t \<in> set ts. refs w' t = Some 1) \<and>
    (\<forall>t. t \<notin> set ts \<longrightarrow> refs w' t = refs w t) \<and> errno w' = errno w \<and> frame_of w w'"
  using assms
proof (induction ts arbitrary: w xs)
  case Nil
  then show ?case by (simp add: frame_self)
next
  case (Cons t ts)
  then obtain k where k: "keyof w t = Some k" "Some k \<notin> keyof w ` set xs" by auto
  obtain v where v: "register t w = Some (0, v)" "repr v (xs @ [t])" "keyof v = keyof w" "body v = body w"
      "refs v = (refs w)(t \<mapsto> 1)" "errno v = errno w" "frame_of w v"
    using register_new [OF Cons.prems(1) k] by blast
  have "t \<notin> set ts" using Cons.prems(3) by (auto simp: distinct_map)
  obtain u where u: "register_each register ts v = Some (map (\<lambda>_. 0) ts, u)"
      "repr u ((xs @ [t]) @ ts)" "keyof u = keyof v" "body u = body v" "\<forall>t \<in> set ts. refs u t = Some 1"
      "\<forall>t. t \<notin> set ts \<longrightarrow> refs u t = refs v t" "errno u = errno v" "frame_of v u"
    using Cons.IH [OF v(2)] Cons.prems(2,3) v(3) by auto
  show ?case
    using v u \<open>t \<notin> set ts\<close> frame_then [OF v(7) u(8)] by (intro exI [of _ u]) auto
qed

text \<open>A type that was deregistered is not found, and can be registered again, at the end.\<close>

lemma unregister_find:
  assumes "repr w xs" and "t \<in> set xs" and "keyof w t = Some (canon n)" and "refs w t = Some c"
    and "\<not> pinned w t" and "cfe_atomic_get c = 1"
  shows "\<exists>w'. unregister t w = Some (0, w') \<and> find n w' = Some NULL \<and>
    (\<exists>w''. register t w' = Some (0, w'') \<and> repr w'' (remove1 t xs @ [t]))"
proof -
  obtain w' where w': "unregister t w = Some (0, w')" "repr w' (remove1 t xs)" "keyof w' = keyof w"
    using unregister_free [OF assms(1,2,4,5,6)] by blast
  have "distinct xs" using repr_distinct [OF assms(1)] by (simp add: distinct_map)
  then have gone: "Some (canon n) \<notin> keyof w' ` set (remove1 t xs)"
    using repr_key_inj [OF assms(1) assms(2)] assms(3) w'(3) by (auto simp: set_remove1_eq)
  then have "find n w' = Some NULL" by (rule find_missing [OF w'(2)])
  moreover have "keyof w' t = Some (canon n)" using w'(3) assms(3) by simp
  ultimately show ?thesis
    using w'(1) register_new [OF w'(2) _ gone] by blast
qed

text \<open>While a reference is held the type stays: deregistration is refused until it is dropped.\<close>

lemma acquire_protects:
  assumes "repr w xs" and "t \<in> set xs" and "keyof w t = Some (canon n)" and "refs w t = Some 1"
  shows "\<exists>w'. acquire n w = Some (t, w') \<and> unregister t w' = Some (1, w'\<lparr>errno := EBUSY\<rparr>) \<and>
    release t w' = Some w"
proof -
  obtain w' where w': "acquire n w = Some (t, w')" "repr w' xs" "refs w' = (refs w)(t \<mapsto> 1 + 1)"
      "release t w' = Some w"
    using acquire_found [OF assms] by blast
  have "unregister t w' = Some (1, w'\<lparr>errno := EBUSY\<rparr>)"
    by (rule unregister_busy [OF w'(2), of t 2]) (simp_all add: w'(3))
  then show ?thesis using w' by blast
qed

end

subsection \<open>The common shape of the six files\<close>

text \<open>
  What differs from file to file: the registry inside the world; the offset of the list node in the
  struct; the checks that \<open>register\<close> makes first; the field
  that a lookup compares and how; the reference count; what \<open>register\<close> does after the insertion; what
  \<open>unregister\<close> refuses beside a type in use.
\<close>

record ('t, 'k, 'n) layout =
  ly_get :: "world \<Rightarrow> 't registry"
  ly_put :: "'t registry \<Rightarrow> world \<Rightarrow> world"
  ly_off :: addr
  ly_valid :: "'t \<Rightarrow> bool"
  ly_name :: "'t \<Rightarrow> 'n option"
  ly_canon :: "'n \<Rightarrow> 'k"
  ly_match :: "'n \<Rightarrow> 't \<Rightarrow> bool option"
  ly_refcnt :: "'t \<Rightarrow> cfe_atomic_t"
  ly_refcnt_upd :: "(cfe_atomic_t \<Rightarrow> cfe_atomic_t) \<Rightarrow> 't \<Rightarrow> 't"
  ly_post :: "addr \<Rightarrow> world \<Rightarrow> world option"
  ly_pinned :: "world \<Rightarrow> addr \<Rightarrow> bool"
  ly_inv :: "world \<Rightarrow> addr list \<Rightarrow> bool"
  ly_frame :: "world \<Rightarrow> world \<Rightarrow> bool"

definition on_reg ::
  "('t, 'k, 'n) layout \<Rightarrow> ('t registry \<Rightarrow> 't registry option) \<Rightarrow> world \<Rightarrow> world option" where
  "on_reg L f w = map_option (\<lambda>R. ly_put L R w) (f (ly_get L w))"

definition tmpl_find :: "('t, 'k, 'n) layout \<Rightarrow> 'n \<Rightarrow> world \<Rightarrow> addr option" where
  "tmpl_find L n w = do {
     r \<leftarrow> list_for_each
       (\<lambda>pos. let tmp = list_entry pos (ly_off L) in do {
          ty \<leftarrow> rg_types (ly_get L w) tmp;
          eq \<leftarrow> ly_match L n ty;
          Some (if eq then Some tmp else None)
        })
       (rg_nodes (ly_get L w)) (rg_head (ly_get L w));
     Some (case r of Some tmp \<Rightarrow> tmp | None \<Rightarrow> NULL)
   }"

definition tmpl_register :: "('t, 'k, 'n) layout \<Rightarrow> addr \<Rightarrow> world \<Rightarrow> (int \<times> world) option" where
  "tmpl_register L type w = do {
     ty \<leftarrow> rg_types (ly_get L w) type;
     if \<not> ly_valid L ty then Some (1, w\<lparr>errno := EINVAL\<rparr>)
     else do {
       w \<leftarrow> on_reg L reg_wrlock w;
       n \<leftarrow> ly_name L ty;
       tmp \<leftarrow> tmpl_find L n w;
       (ret, w) \<leftarrow>
         (if tmp \<noteq> NULL then Some (1, w\<lparr>errno := EBUSY\<rparr>)
          else do {
            w \<leftarrow> on_reg L (reg_store type (ly_refcnt_upd L (\<lambda>v. cfe_atomic_set v 1))) w;
            w \<leftarrow> on_reg L (reg_list (list_add_tail (type + ly_off L) (rg_head (ly_get L w)))) w;
            w \<leftarrow> ly_post L type w;
            Some (0, w)
          });
       w \<leftarrow> on_reg L reg_unlock w;
       Some (ret, w)
     }
   }"

definition tmpl_unregister :: "('t, 'k, 'n) layout \<Rightarrow> addr \<Rightarrow> world \<Rightarrow> (int \<times> world) option" where
  "tmpl_unregister L type w = do {
     w \<leftarrow> on_reg L reg_wrlock w;
     (ret, w) \<leftarrow>
       (if ly_pinned L w type then Some (1, w\<lparr>errno := EBUSY\<rparr>)
        else do {
          ty \<leftarrow> rg_types (ly_get L w) type;
          (if cfe_atomic_get (ly_refcnt L ty) \<noteq> 1 then Some (1, w\<lparr>errno := EBUSY\<rparr>)
           else do {
             w \<leftarrow> on_reg L (reg_list (list_del_init (type + ly_off L))) w;
             Some (0, w)
           })
        });
     w \<leftarrow> on_reg L reg_unlock w;
     Some (ret, w)
   }"

text \<open>The lookup under the read lock that takes a reference, and dropping it.\<close>

definition tmpl_acquire :: "('t, 'k, 'n) layout \<Rightarrow> 'n \<Rightarrow> world \<Rightarrow> (addr \<times> world) option" where
  "tmpl_acquire L n w = do {
     w \<leftarrow> on_reg L reg_rdlock w;
     type \<leftarrow> tmpl_find L n w;
     w \<leftarrow> (if type \<noteq> NULL then on_reg L (reg_store type (ly_refcnt_upd L cfe_atomic_inc)) w else Some w);
     w \<leftarrow> on_reg L reg_unlock w;
     Some (type, w)
   }"

definition tmpl_release :: "('t, 'k, 'n) layout \<Rightarrow> addr \<Rightarrow> world \<Rightarrow> world option" where
  "tmpl_release L type w = on_reg L (reg_store type (ly_refcnt_upd L cfe_atomic_dec)) w"

subsection \<open>What the contract's observations are\<close>

definition reg_key :: "('t, 'k, 'n) layout \<Rightarrow> 't registry \<Rightarrow> addr \<Rightarrow> 'k option" where
  "reg_key L R t =
     (case rg_types R t of
        None \<Rightarrow> None
      | Some ty \<Rightarrow> if ly_valid L ty then map_option (ly_canon L) (ly_name L ty) else None)"

text \<open>
  The list in memory is the nodes of the types \<open>xs\<close>, whose keys are set and differ; every type object
  has its own node, none of them is the list head; nothing lives at NULL.
\<close>

definition reg_ok :: "('t, 'k, 'n) layout \<Rightarrow> 't registry \<Rightarrow> addr list \<Rightarrow> bool" where
  "reg_ok L R xs \<longleftrightarrow>
     dlist (rg_nodes R) (rg_head R) (map (\<lambda>t. t + ly_off L) xs) \<and>
     (\<forall>t \<in> dom (rg_types R). t + ly_off L \<in> dom (rg_nodes R) \<and> t + ly_off L \<noteq> rg_head R) \<and>
     NULL \<notin> dom (rg_types R) \<and>
     (\<forall>t \<in> set xs. reg_key L R t \<noteq> None) \<and>
     distinct (map (reg_key L R) xs)"

definition tmpl_repr :: "('t, 'k, 'n) layout \<Rightarrow> world \<Rightarrow> addr list \<Rightarrow> bool" where
  "tmpl_repr L w xs \<longleftrightarrow> rg_lock (ly_get L w) = Unlocked \<and> reg_ok L (ly_get L w) xs \<and> ly_inv L w xs"

definition tmpl_key :: "('t, 'k, 'n) layout \<Rightarrow> world \<Rightarrow> addr \<Rightarrow> 'k option" where
  "tmpl_key L w = reg_key L (ly_get L w)"

text \<open>A type object but for its counter.\<close>

definition tmpl_body :: "('t, 'k, 'n) layout \<Rightarrow> world \<Rightarrow> addr \<Rightarrow> 't option" where
  "tmpl_body L w t = map_option (ly_refcnt_upd L (\<lambda>_. 0)) (rg_types (ly_get L w) t)"

definition tmpl_refs :: "('t, 'k, 'n) layout \<Rightarrow> world \<Rightarrow> addr \<Rightarrow> cfe_atomic_t option" where
  "tmpl_refs L w t = map_option (ly_refcnt L) (rg_types (ly_get L w) t)"

lemma load_registry_simps [simp]:
  "rg_lock (load_registry head off objs) = Unlocked"
  "rg_head (load_registry head off objs) = head"
  "rg_types (load_registry head off objs) = map_of objs"
  by (simp_all add: load_registry_def)

lemma dom_load_nodes:
  "dom (rg_nodes (load_registry head off objs)) = insert head ((\<lambda>t. t + off) ` fst ` set objs)"
proof -
  have "fst ` set (map (\<lambda>(t, ty). (t + off, \<lparr>lh_next = NULL, lh_prev = NULL\<rparr>)) objs) =
      (\<lambda>t. t + off) ` fst ` set objs"
    by (simp add: image_image split_beta)
  then show ?thesis by (simp add: load_registry_def dom_map_of_conv_image_fst)
qed

lemma load_registry_ok:
  assumes "NULL \<notin> fst ` set objs" and "\<And>t. t \<in> fst ` set objs \<Longrightarrow> t + ly_off L \<noteq> head"
  shows "reg_ok L (load_registry head (ly_off L) objs) []"
proof -
  have "dlist (rg_nodes (load_registry head (ly_off L) objs)) head []"
    by (simp add: load_registry_def dlist_def link_def get_next_def get_prev_def)
  then show ?thesis
    using assms by (auto simp: reg_ok_def dom_load_nodes dom_map_of_conv_image_fst)
qed

text \<open>The keys of the objects in the load image, read off their initialisers.\<close>

lemma load_keys:
  assumes "ly_get L w = load_registry head off objs" and "distinct (map fst objs)"
  shows "map (tmpl_key L w) (map fst objs) =
    map (\<lambda>(_, ty). if ly_valid L ty then map_option (ly_canon L) (ly_name L ty) else None) objs"
proof -
  have "tmpl_key L w a = (if ly_valid L ty then map_option (ly_canon L) (ly_name L ty) else None)"
    if "(a, ty) \<in> set objs" for a ty
    using that assms by (simp add: tmpl_key_def reg_key_def)
  then show ?thesis by auto
qed

lemma reg_ok_key_dom: "reg_key L R t \<noteq> None \<Longrightarrow> t \<in> dom (rg_types R)"
  by (auto simp: reg_key_def split: option.splits)

lemma reg_ok_nonnull: "reg_ok L R xs \<Longrightarrow> NULL \<notin> set xs"
  using reg_ok_key_dom by (fastforce simp: reg_ok_def)

lemma reg_ok_node:
  assumes "reg_ok L R xs" and "t \<in> dom (rg_types R)"
  shows "t + ly_off L \<in> dom (rg_nodes R)" and "t \<notin> set xs \<Longrightarrow>
    t + ly_off L \<notin> set (rg_head R # map (\<lambda>t. t + ly_off L) xs)"
  using assms by (auto simp: reg_ok_def)

lemma reg_key_lock [simp]: "reg_key L (R\<lparr>rg_lock := l\<rparr>) = reg_key L R"
  by (simp add: reg_key_def fun_eq_iff)

lemma reg_ok_lock [simp]: "reg_ok L (R\<lparr>rg_lock := l\<rparr>) xs = reg_ok L R xs"
  by (simp add: reg_ok_def)

lemma reg_key_nodes [simp]: "reg_key L (R\<lparr>rg_nodes := h\<rparr>) = reg_key L R"
  by (simp add: reg_key_def fun_eq_iff)

lemma reg_lock_steps:
  "rg_lock R = Unlocked \<Longrightarrow> reg_wrlock R = Some (R\<lparr>rg_lock := WrLocked\<rparr>)"
  "rg_lock R = Unlocked \<Longrightarrow> reg_rdlock R = Some (R\<lparr>rg_lock := RdLocked 1\<rparr>)"
  "rg_lock R = WrLocked \<Longrightarrow> reg_unlock R = Some (R\<lparr>rg_lock := Unlocked\<rparr>)"
  "rg_lock R = RdLocked 1 \<Longrightarrow> reg_unlock R = Some (R\<lparr>rg_lock := Unlocked\<rparr>)"
  by (simp_all add: reg_wrlock_def reg_rdlock_def reg_unlock_def)

lemma distinct_map_remove1: "distinct (map f xs) \<Longrightarrow> distinct (map f (remove1 t xs))"
  by (induction xs) (auto simp: image_iff dest: subsetD [OF set_remove1_subset])

lemma lock_restore_types:
  "rg_lock R = Unlocked \<Longrightarrow> R\<lparr>rg_types := X, rg_lock := Unlocked\<rparr> = R\<lparr>rg_types := X\<rparr>"
  by (cases R) simp

lemma lock_restore: "rg_lock R = Unlocked \<Longrightarrow> R\<lparr>rg_lock := Unlocked\<rparr> = R"
  by simp

subsection \<open>The common shape satisfies the contract\<close>

locale type_layout =
  fixes L :: "('t, 'k, 'n) layout"
  assumes get_put [simp]: "ly_get L (ly_put L R w) = R"
    and put_put [simp]: "ly_put L R (ly_put L S w) = ly_put L R w"
    and put_get [simp]: "ly_put L (ly_get L w) w = w"
    and get_errno [simp]: "ly_get L (w\<lparr>errno := e\<rparr>) = ly_get L w"
    and put_errno [simp]: "ly_put L R (w\<lparr>errno := e\<rparr>) = (ly_put L R w)\<lparr>errno := e\<rparr>"
    and errno_put [simp]: "errno (ly_put L R w) = errno w"
    and match: "ly_match L n ty = map_option (\<lambda>m. ly_canon L n = ly_canon L m) (ly_name L ty)"
    and name_upd [simp]: "ly_name L (ly_refcnt_upd L f ty) = ly_name L ty"
    and valid_upd [simp]: "ly_valid L (ly_refcnt_upd L f ty) = ly_valid L ty"
    and refcnt_upd [simp]: "ly_refcnt L (ly_refcnt_upd L f ty) = f (ly_refcnt L ty)"
    and upd_upd [simp]: "ly_refcnt_upd L f (ly_refcnt_upd L g ty) = ly_refcnt_upd L (\<lambda>v. f (g v)) ty"
    and upd_id [simp]: "ly_refcnt_upd L (\<lambda>v. v) ty = ty"
    and upd_const [simp]: "ly_refcnt_upd L (\<lambda>_. ly_refcnt L ty) ty = ty"
    and valid_named: "ly_valid L ty \<Longrightarrow> ly_name L ty \<noteq> None"
    and pinned_put [simp]: "ly_pinned L (ly_put L R w) = ly_pinned L w"
    and inv_put: "reg_key L R = reg_key L (ly_get L w) \<Longrightarrow> ly_inv L (ly_put L R w) xs = ly_inv L w xs"
    and inv_remove: "ly_inv L w xs \<Longrightarrow> t \<in> set xs \<Longrightarrow> \<not> ly_pinned L w t \<Longrightarrow> ly_inv L w (remove1 t xs)"
    and post: "ly_inv L w xs \<Longrightarrow> reg_ok L (ly_get L w) (xs @ [t]) \<Longrightarrow>
      \<exists>w'. ly_post L t w = Some w' \<and> ly_get L w' = ly_get L w \<and> errno w' = errno w \<and>
        ly_inv L w' (xs @ [t]) \<and> ly_frame L w w'"
    and frame_trans: "ly_frame L w w' \<Longrightarrow> ly_frame L w' w'' \<Longrightarrow> ly_frame L w w''"
    and frame_put: "ly_frame L w (ly_put L R w)"
    and inv_errno: "ly_inv L (w\<lparr>errno := e\<rparr>) xs = ly_inv L w xs"
begin

lemma on_reg_eq: "f (ly_get L w) = Some R \<Longrightarrow> on_reg L f w = Some (ly_put L R w)"
  by (simp add: on_reg_def)

lemma key_store [simp]:
  "rg_types R t = Some ty \<Longrightarrow>
    reg_key L (R\<lparr>rg_types := (rg_types R)(t \<mapsto> ly_refcnt_upd L f ty)\<rparr>) = reg_key L R"
  by (auto simp: reg_key_def fun_eq_iff)

lemma ok_store:
  "rg_types R t = Some ty \<Longrightarrow>
    reg_ok L (R\<lparr>rg_types := (rg_types R)(t \<mapsto> ly_refcnt_upd L f ty)\<rparr>) xs = reg_ok L R xs"
  by (auto simp: reg_ok_def)

lemma find_scan:
  assumes "\<forall>t \<in> set xs. reg_key L R t \<noteq> None"
  shows "scan (\<lambda>pos. let tmp = list_entry pos (ly_off L) in do {
          ty \<leftarrow> rg_types R tmp;
          eq \<leftarrow> ly_match L n ty;
          Some (if eq then Some tmp else None)
        }) (map (\<lambda>t. t + ly_off L) xs) =
    Some (List.find (\<lambda>t. reg_key L R t = Some (ly_canon L n)) xs)"
  using assms
proof (induction xs)
  case Nil
  then show ?case by simp
next
  case (Cons t xs)
  then obtain ty m where "rg_types R t = Some ty" "ly_valid L ty" "ly_name L ty = Some m"
    using valid_named by (auto simp: reg_key_def split: option.splits if_splits)
  then show ?case using Cons by (auto simp: reg_key_def match)
qed

lemma find_ok:
  assumes "reg_ok L (ly_get L w) xs"
  shows "tmpl_find L n w = Some (case List.find (\<lambda>t. reg_key L (ly_get L w) t = Some (ly_canon L n)) xs of
    Some t \<Rightarrow> t | None \<Rightarrow> NULL)"
proof -
  have "dlist (rg_nodes (ly_get L w)) (rg_head (ly_get L w)) (map (\<lambda>t. t + ly_off L) xs)"
    and "\<forall>t \<in> set xs. reg_key L (ly_get L w) t \<noteq> None"
    using assms by (simp_all add: reg_ok_def)
  then show ?thesis
    unfolding tmpl_find_def by (simp only: list_for_each_dlist find_scan bind.bind_lunit)
qed

lemma find_ok_null:
  assumes "reg_ok L (ly_get L w) xs"
  shows "tmpl_find L n w = Some NULL \<longleftrightarrow> Some (ly_canon L n) \<notin> reg_key L (ly_get L w) ` set xs"
  using reg_ok_nonnull [OF assms]
  by (auto simp: find_ok [OF assms] find_None_iff find_Some_iff image_iff split: option.splits)
     (metis nth_mem)+

lemma repr_ok: "tmpl_repr L w xs \<Longrightarrow> reg_ok L (ly_get L w) xs"
  and repr_lock: "tmpl_repr L w xs \<Longrightarrow> rg_lock (ly_get L w) = Unlocked"
  and repr_inv: "tmpl_repr L w xs \<Longrightarrow> ly_inv L w xs"
  by (simp_all add: tmpl_repr_def)

lemma key_valid:
  assumes "tmpl_key L w t = Some k"
  obtains ty n where "rg_types (ly_get L w) t = Some ty" and "ly_valid L ty"
    and "ly_name L ty = Some n" and "ly_canon L n = k"
  using assms by (auto simp: tmpl_key_def reg_key_def split: option.splits if_splits)

lemma wrlock_step:
  "tmpl_repr L w xs \<Longrightarrow>
    on_reg L reg_wrlock w = Some (ly_put L ((ly_get L w)\<lparr>rg_lock := WrLocked\<rparr>) w)"
  by (simp add: on_reg_def reg_lock_steps repr_lock)

lemma rdlock_step:
  "tmpl_repr L w xs \<Longrightarrow>
    on_reg L reg_rdlock w = Some (ly_put L ((ly_get L w)\<lparr>rg_lock := RdLocked 1\<rparr>) w)"
  by (simp add: on_reg_def reg_lock_steps repr_lock)

lemma unlock_step:
  "rg_lock (ly_get L w) \<in> {WrLocked, RdLocked 1} \<Longrightarrow>
    on_reg L reg_unlock w = Some (ly_put L ((ly_get L w)\<lparr>rg_lock := Unlocked\<rparr>) w)"
  by (auto simp: on_reg_def reg_lock_steps)

text \<open>Taking a lock and giving it back at once leaves the world as it was.\<close>

lemma put_unlocked:
  "rg_lock (ly_get L w) = Unlocked \<Longrightarrow> ly_put L ((ly_get L w)\<lparr>rg_lock := Unlocked\<rparr>) w = w"
  by (simp add: lock_restore)

lemma find_locked:
  "tmpl_repr L w xs \<Longrightarrow>
    tmpl_find L n (ly_put L ((ly_get L w)\<lparr>rg_lock := l\<rparr>) w) = tmpl_find L n w"
  by (simp add: tmpl_find_def)

text \<open>A store to the reference count keeps the registry.\<close>

lemma store_repr:
  assumes "tmpl_repr L w xs" and ty: "rg_types (ly_get L w) t = Some ty"
    and w': "w' = ly_put L ((ly_get L w)\<lparr>rg_types := (rg_types (ly_get L w))(t \<mapsto> ly_refcnt_upd L f ty)\<rparr>) w"
  shows "tmpl_repr L w' xs" and "tmpl_key L w' = tmpl_key L w"
    and "tmpl_refs L w' = (tmpl_refs L w)(t \<mapsto> f (ly_refcnt L ty))"
    and "errno w' = errno w" and "ly_frame L w w'" and "tmpl_body L w' = tmpl_body L w"
  using assms(1) ty
  by (simp_all add: w' tmpl_repr_def ok_store inv_put tmpl_key_def frame_put tmpl_refs_def tmpl_body_def
      fun_eq_iff)

lemma body_refs:
  assumes "tmpl_body L w t = Some b" and "tmpl_refs L w t = Some c"
  shows "rg_types (ly_get L w) t = Some (ly_refcnt_upd L (\<lambda>_. c) b)"
  using assms by (auto simp: tmpl_body_def tmpl_refs_def)

lemma register_new:
  assumes r: "tmpl_repr L w xs" and k: "tmpl_key L w t = Some k"
    and new: "Some k \<notin> tmpl_key L w ` set xs"
  shows "\<exists>w'. tmpl_register L t w = Some (0, w') \<and> tmpl_repr L w' (xs @ [t]) \<and>
    tmpl_key L w' = tmpl_key L w \<and> tmpl_body L w' = tmpl_body L w \<and> tmpl_refs L w' = (tmpl_refs L w)(t \<mapsto> 1) \<and>
    errno w' = errno w \<and> ly_frame L w w'"
proof -
  let ?R = "ly_get L w" and ?off = "ly_off L" and ?head = "rg_head (ly_get L w)"
  obtain ty n where ty: "rg_types ?R t = Some ty" "ly_valid L ty" "ly_name L ty = Some n"
      "ly_canon L n = k"
    using k by (rule key_valid)
  have ok: "reg_ok L ?R xs" using r by (rule repr_ok)
  have nf: "tmpl_find L n w = Some NULL"
    using new ty(4) by (simp add: find_ok_null [OF ok] tmpl_key_def)
  let ?S = "?R\<lparr>rg_lock := WrLocked,
    rg_types := (rg_types ?R)(t \<mapsto> ly_refcnt_upd L (\<lambda>v. cfe_atomic_set v 1) ty)\<rparr>"
  have keyS: "reg_key L ?S = reg_key L ?R"
    using key_store [of "?R\<lparr>rg_lock := WrLocked\<rparr>" t ty] ty(1) by simp
  have "t \<notin> set xs" using new k by (auto simp: image_iff)
  then have d: "t + ?off \<in> dom (rg_nodes ?R)"
      "t + ?off \<notin> set (?head # map (\<lambda>t. t + ?off) xs)"
    using reg_ok_node [OF ok, of t] ty(1) by blast+
  then obtain h where h: "list_add_tail (t + ?off) ?head (rg_nodes ?R) = Some h"
      "dlist h ?head (map (\<lambda>t. t + ?off) xs @ [t + ?off])" "dom h = dom (rg_nodes ?R)"
    using list_add_tail_dlist [of "rg_nodes ?R" ?head "map (\<lambda>t. t + ?off) xs" "t + ?off"] ok
    by (auto simp: reg_ok_def frame_def)
  let ?T = "?S\<lparr>rg_nodes := h\<rparr>"
  have keyT: "reg_key L ?T = reg_key L ?R" using keyS reg_key_nodes by metis
  have kt: "reg_key L ?R t = Some k" using k by (simp add: tmpl_key_def)
  have domT: "dom (rg_types ?T) = dom (rg_types ?R)" using ty(1) by auto
  have okT: "reg_ok L ?T (xs @ [t])"
    using ok h(2,3) new kt unfolding reg_ok_def keyT domT by (simp add: tmpl_key_def)
  have "ly_inv L (ly_put L ?T w) xs" using repr_inv [OF r] inv_put [of ?T w] keyT by simp
  then obtain v where v: "ly_post L t (ly_put L ?T w) = Some v" "ly_get L v = ?T"
      "errno v = errno w" "ly_inv L v (xs @ [t])" "ly_frame L (ly_put L ?T w) v"
    using post [of "ly_put L ?T w" xs t] okT by auto
  let ?v = "ly_put L (?T\<lparr>rg_lock := Unlocked\<rparr>) v"
  have "tmpl_register L t w = Some (0, ?v)"
    using ty(1-3) nf h(1) v(1,2)
    by (simp add: tmpl_register_def repr_lock [OF r] find_locked [OF r] on_reg_def
          reg_store_def reg_list_def reg_lock_steps)
  moreover have "tmpl_repr L ?v (xs @ [t])"
  proof -
    have "reg_ok L (?T\<lparr>rg_lock := Unlocked\<rparr>) (xs @ [t])"
      using okT by (simp only: reg_ok_lock)
    moreover have "ly_inv L ?v (xs @ [t])"
      using v(4) by (subst inv_put) (simp_all only: reg_key_lock v(2))
    ultimately show ?thesis unfolding tmpl_repr_def get_put by simp
  qed
  moreover have "tmpl_key L ?v = tmpl_key L w"
    unfolding tmpl_key_def get_put reg_key_lock by (rule keyT)
  moreover have "tmpl_refs L ?v = (tmpl_refs L w)(t \<mapsto> 1)"
    by (simp add: tmpl_refs_def fun_eq_iff)
  moreover have "tmpl_body L ?v = tmpl_body L w"
    using ty(1) by (simp add: tmpl_body_def fun_eq_iff)
  moreover have "ly_frame L w ?v"
    using frame_trans frame_put v(5) by blast
  ultimately show ?thesis using v(3) errno_put by metis
qed

lemma register_busy:
  assumes r: "tmpl_repr L w xs" and k: "tmpl_key L w t = Some k"
    and old: "Some k \<in> tmpl_key L w ` set xs"
  shows "tmpl_register L t w = Some (1, w\<lparr>errno := EBUSY\<rparr>)"
proof -
  obtain ty n where ty: "rg_types (ly_get L w) t = Some ty" "ly_valid L ty" "ly_name L ty = Some n"
      "ly_canon L n = k"
    using k by (rule key_valid)
  obtain u where u: "tmpl_find L n w = Some u" "u \<noteq> NULL"
    using old ty(4) find_ok [OF repr_ok [OF r]] find_ok_null [OF repr_ok [OF r], of n]
    by (auto simp: tmpl_key_def)
  then show ?thesis
    using ty(1-3) repr_lock [OF r]
    by (simp add: tmpl_register_def wrlock_step [OF r] find_locked [OF r] unlock_step lock_restore)
qed

lemma unregister_busy:
  assumes r: "tmpl_repr L w xs" and c: "tmpl_refs L w t = Some c"
    and "ly_pinned L w t \<or> cfe_atomic_get c \<noteq> 1"
  shows "tmpl_unregister L t w = Some (1, w\<lparr>errno := EBUSY\<rparr>)"
  using c assms(3) repr_lock [OF r]
  by (auto simp: tmpl_unregister_def wrlock_step [OF r] tmpl_refs_def unlock_step lock_restore)

lemma unregister_self:
  assumes r: "tmpl_repr L w xs" and c: "tmpl_refs L w t = Some c" and "\<not> ly_pinned L w t"
    and "cfe_atomic_get c = 1" and self: "dlist (rg_nodes (ly_get L w)) (t + ly_off L) []"
  shows "tmpl_unregister L t w = Some (0, w)"
  using c assms(3,4) repr_lock [OF r] list_del_init_self [OF self]
  by (auto simp: tmpl_unregister_def tmpl_refs_def on_reg_def reg_list_def reg_lock_steps
        lock_restore)

lemma unregister_free:
  assumes r: "tmpl_repr L w xs" and t: "t \<in> set xs" and c: "tmpl_refs L w t = Some c"
    and np: "\<not> ly_pinned L w t" and one: "cfe_atomic_get c = 1"
  shows "\<exists>w'. tmpl_unregister L t w = Some (0, w') \<and> tmpl_repr L w' (remove1 t xs) \<and>
    tmpl_key L w' = tmpl_key L w \<and> tmpl_body L w' = tmpl_body L w \<and> tmpl_refs L w' = tmpl_refs L w \<and> errno w' = errno w \<and>
    ly_frame L w w' \<and> tmpl_unregister L t w' = Some (0, w')"
proof -
  let ?R = "ly_get L w" and ?off = "ly_off L"
  have ok: "reg_ok L ?R xs" using r by (rule repr_ok)
  let ?ns = "map (\<lambda>t. t + ?off) xs"
  obtain h where h: "list_del_init (t + ?off) (rg_nodes ?R) = Some h"
      "dlist h (rg_head ?R) (remove1 (t + ?off) ?ns)" "dlist h (t + ?off) []" "dom h = dom (rg_nodes ?R)"
    using list_del_init_dlist [of "rg_nodes ?R" "rg_head ?R" ?ns "t + ?off"] ok t
    by (auto simp: reg_ok_def frame_def)
  have rm: "remove1 (t + ?off) ?ns = map (\<lambda>t. t + ?off) (remove1 t xs)"
    by (induction xs) auto
  let ?T = "?R\<lparr>rg_nodes := h\<rparr>"
  have "distinct (map (reg_key L ?R) (remove1 t xs))"
    using ok by (auto simp: reg_ok_def intro: distinct_map_remove1)
  then have okT: "reg_ok L ?T (remove1 t xs)"
    using ok h(2,4) rm set_remove1_subset [of t xs] by (auto simp: reg_ok_def)
  let ?w = "ly_put L ?T w"
  have "tmpl_unregister L t w = Some (0, ?w)"
    using c np one h(1) repr_lock [OF r]
    by (auto simp: tmpl_unregister_def tmpl_refs_def on_reg_def reg_list_def reg_lock_steps
        lock_restore)
  moreover have rT: "tmpl_repr L ?w (remove1 t xs)"
    using okT repr_lock [OF r] inv_put [of ?T w] inv_remove [OF repr_inv [OF r] t np]
    by (simp add: tmpl_repr_def)
  moreover have refs: "tmpl_refs L ?w = tmpl_refs L w"
    by (simp add: tmpl_refs_def fun_eq_iff)
  moreover have "tmpl_unregister L t ?w = Some (0, ?w)"
    by (rule unregister_self [OF rT, of t c]) (use c np one h(3) refs in simp_all)
  ultimately show ?thesis by (simp add: tmpl_key_def tmpl_body_def fun_eq_iff frame_put)
qed

lemma acquire_found:
  assumes r: "tmpl_repr L w xs" and t: "t \<in> set xs"
    and k: "tmpl_key L w t = Some (ly_canon L n)" and c: "tmpl_refs L w t = Some c"
  shows "\<exists>w'. tmpl_acquire L n w = Some (t, w') \<and> tmpl_repr L w' xs \<and>
    tmpl_key L w' = tmpl_key L w \<and> tmpl_body L w' = tmpl_body L w \<and> tmpl_refs L w' = (tmpl_refs L w)(t \<mapsto> c + 1) \<and>
    errno w' = errno w \<and> ly_frame L w w' \<and> tmpl_release L t w' = Some w"
proof -
  let ?R = "ly_get L w"
  have ok: "reg_ok L ?R xs" using r by (rule repr_ok)
  obtain ty where ty: "rg_types ?R t = Some ty" "ly_refcnt L ty = c"
    using c by (auto simp: tmpl_refs_def)
  have "List.find (\<lambda>t. reg_key L ?R t = Some (ly_canon L n)) xs = Some t"
  proof (cases "List.find (\<lambda>t. reg_key L ?R t = Some (ly_canon L n)) xs")
    case None
    then show ?thesis using t k by (auto simp: find_None_iff tmpl_key_def)
  next
    case (Some s)
    then have "s \<in> set xs" "reg_key L ?R s = Some (ly_canon L n)" by (auto simp: find_Some_iff)
    then have "s = t"
      using ok t k by (auto simp: reg_ok_def distinct_map inj_on_def tmpl_key_def)
    with Some show ?thesis by simp
  qed
  then have f: "tmpl_find L n w = Some t" by (simp add: find_ok [OF ok])
  have nn: "t \<noteq> NULL" using reg_ok_nonnull [OF ok] t by auto
  let ?w = "ly_put L (?R\<lparr>rg_types := (rg_types ?R)(t \<mapsto> ly_refcnt_upd L cfe_atomic_inc ty)\<rparr>) w"
  have "tmpl_acquire L n w = Some (t, ?w)"
    using ty(1) f nn repr_lock [OF r]
    by (simp add: tmpl_acquire_def repr_lock [OF r] find_locked [OF r] on_reg_def reg_store_def
          reg_lock_steps lock_restore)
  moreover have "tmpl_release L t ?w = Some w"
    using ty(1) by (simp add: tmpl_release_def on_reg_def reg_store_def fun_upd_idem)
  ultimately show ?thesis using store_repr [OF r ty(1) refl, of cfe_atomic_inc] ty(2) by auto
qed

lemma acquire_missing:
  assumes r: "tmpl_repr L w xs" and "Some (ly_canon L n) \<notin> tmpl_key L w ` set xs"
  shows "tmpl_acquire L n w = Some (NULL, w)"
proof -
  have "tmpl_find L n w = Some NULL"
    using find_ok_null [OF repr_ok [OF r]] assms(2) by (simp add: tmpl_key_def)
  then show ?thesis
    using repr_lock [OF r]
    by (simp add: tmpl_acquire_def rdlock_step [OF r] find_locked [OF r] unlock_step lock_restore)
qed

lemma release_dec:
  assumes r: "tmpl_repr L w xs" and c: "tmpl_refs L w t = Some c"
  shows "\<exists>w'. tmpl_release L t w = Some w' \<and> tmpl_repr L w' xs \<and> tmpl_key L w' = tmpl_key L w \<and> tmpl_body L w' = tmpl_body L w \<and>
    tmpl_refs L w' = (tmpl_refs L w)(t \<mapsto> c - 1) \<and> errno w' = errno w \<and> ly_frame L w w'"
proof -
  obtain ty where ty: "rg_types (ly_get L w) t = Some ty" "ly_refcnt L ty = c"
    using c by (auto simp: tmpl_refs_def)
  then show ?thesis
    using store_repr [OF r ty(1) refl, of cfe_atomic_dec]
    by (auto simp: tmpl_release_def on_reg_def reg_store_def)
qed

end

sublocale type_layout \<subseteq> reg: type_registry "tmpl_repr L" "tmpl_key L" "tmpl_refs L" "tmpl_body L"
  "ly_pinned L" "ly_frame L" "ly_canon L" "tmpl_find L" "tmpl_register L" "tmpl_unregister L"
  "tmpl_acquire L" "tmpl_release L"
proof (unfold_locales, goal_cases)
  case (1 w xs)
  then show ?case by (simp add: tmpl_repr_def reg_ok_def tmpl_key_def)
next
  case (2 w xs t)
  then show ?case by (auto simp: tmpl_repr_def reg_ok_def tmpl_key_def)
next
  case (3 w xs)
  then show ?case by (rule reg_ok_nonnull [OF repr_ok])
next
  case (4 w xs ys)
  then have "map (\<lambda>t. t + ly_off L) xs = map (\<lambda>t. t + ly_off L) ys"
    by (intro dlist_unique [of "rg_nodes (ly_get L w)" "rg_head (ly_get L w)"])
       (simp_all add: tmpl_repr_def reg_ok_def)
  then show ?case by (rule map_injective) (rule word_add_left_inj)
next
  case (5 w t)
  then show ?case by (auto simp: tmpl_refs_def tmpl_key_def reg_key_def split: option.splits)
next
  case (6 w xs n)
  then show ?case using find_ok [OF repr_ok [OF 6]] by (simp add: tmpl_key_def)
next
  case (7 w xs t k)
  then show ?case by (rule register_new)
next
  case (8 w xs t k)
  then show ?case by (rule register_busy)
next
  case (9 w xs t c)
  then show ?case by (rule unregister_busy)
next
  case (10 w xs t c)
  then show ?case by (rule unregister_free)
next
  case (11 w xs t n c)
  then show ?case by (rule acquire_found)
next
  case (12 w xs n)
  then show ?case by (rule acquire_missing)
next
  case (13 w xs t c)
  from 13(1,3) show ?case by (rule release_dec)
next
  case (14 w)
  then show ?case using frame_put [of w "ly_get L w"] by simp
next
  case (15 u v w)
  then show ?case by (rule frame_trans)
next
  case (16 w e xs)
  then show ?case by (simp add: tmpl_repr_def inv_errno)
next
  case (17 w e)
  then show ?case by (simp add: tmpl_key_def)
next
  case (18 w e)
  then show ?case by (simp add: tmpl_refs_def fun_eq_iff)
qed

subsection \<open>From the load image\<close>

context type_layout begin

text \<open>
  The constructors start from the load image and register static objects: when their keys are set and
  differ, all are registered, each with one reference and otherwise as initialised.
\<close>

lemma load_all:
  assumes w: "ly_get L w = load_registry head (ly_off L) objs" and inv: "ly_inv L w []"
    and d: "distinct (map fst objs)" "NULL \<notin> fst ` set objs" "head \<notin> (\<lambda>t. t + ly_off L) ` fst ` set objs"
    and k: "map (tmpl_key L w) (map fst objs) = map Some ks" "distinct ks"
  shows "\<exists>w'. register_each (tmpl_register L) (map fst objs) w = Some (map (\<lambda>_. 0) objs, w') \<and>
    tmpl_repr L w' (map fst objs) \<and> map (tmpl_key L w') (map fst objs) = map Some ks \<and>
    (\<forall>(a, ty) \<in> set objs. rg_types (ly_get L w') a = Some (ly_refcnt_upd L (\<lambda>_. 1) ty)) \<and>
    errno w' = errno w \<and> ly_frame L w w'"
proof -
  have "reg_ok L (load_registry head (ly_off L) objs) []"
    by (rule load_registry_ok) (use d in auto)
  then have r: "tmpl_repr L w []" using inv by (simp add: tmpl_repr_def w)
  have "set (map (tmpl_key L w) (map fst objs)) = Some ` set ks" unfolding k(1) by simp
  then have k0: "\<forall>t \<in> set (map fst objs). tmpl_key L w t \<noteq> None"
    by (metis (no_types, lifting) imageE imageI list.set_map option.distinct(1))
  have k1: "distinct (map (tmpl_key L w) ([] @ map fst objs))"
    unfolding append_Nil k(1) using k(2) by (simp add: distinct_map)
  obtain w' where w': "register_each (tmpl_register L) (map fst objs) w = Some (map (\<lambda>_. 0) (map fst objs), w')"
      "tmpl_repr L w' ([] @ map fst objs)" "tmpl_key L w' = tmpl_key L w" "tmpl_body L w' = tmpl_body L w"
      "\<forall>t \<in> set (map fst objs). tmpl_refs L w' t = Some 1" "errno w' = errno w" "ly_frame L w w'"
    using reg.register_each_new [OF r k0 k1] by blast
  have "rg_types (ly_get L w') a = Some (ly_refcnt_upd L (\<lambda>_. 1) ty)" if "(a, ty) \<in> set objs" for a ty
  proof -
    have "rg_types (ly_get L w) a = Some ty" using that d(1) by (simp add: w)
    then have "tmpl_body L w' a = Some (ly_refcnt_upd L (\<lambda>_. 0) ty)"
      by (simp add: w'(4)) (simp add: tmpl_body_def)
    moreover have "a \<in> set (map fst objs)" using that by force
    then have "tmpl_refs L w' a = Some 1" using w'(5) by blast
    ultimately show ?thesis using body_refs by fastforce
  qed
  then show ?thesis using w' k(1) by (intro exI [of _ w']) (auto simp: comp_def)
qed

end

subsection \<open>A default type\<close>

text \<open>
  The two registries of formats keep a default beside the list: there is one as soon as a type is
  registered, it is registered, and no registered version is higher. \<open>ver\<close> is the version of a type.
\<close>

definition default_ok :: "(addr \<Rightarrow> ('v::linorder) option) \<Rightarrow> addr \<Rightarrow> addr list \<Rightarrow> bool" where
  "default_ok ver d xs \<longleftrightarrow>
     (if xs = [] then d = NULL else d \<in> set xs \<and> (\<forall>t \<in> set xs. the (ver t) \<le> the (ver d)))"

lemma default_ok_remove1:
  assumes "default_ok ver d xs" and "t \<in> set xs" and "d \<noteq> t"
  shows "default_ok ver d (remove1 t xs)"
proof -
  have d: "d \<in> set (remove1 t xs)" using assms by (auto simp: default_ok_def split: if_splits)
  moreover have "remove1 t xs \<noteq> []" using d by auto
  ultimately show ?thesis
    using assms set_remove1_subset [of t xs] by (auto simp: default_ok_def split: if_splits)
qed

lemma default_ok_first: "default_ok ver NULL xs \<Longrightarrow> NULL \<notin> set xs \<Longrightarrow> default_ok ver t (xs @ [t])"
  by (auto simp: default_ok_def split: if_splits)

lemma default_ok_snoc:
  assumes "default_ok ver d xs" and "d \<noteq> NULL"
  shows "default_ok ver (if the (ver d) < the (ver t) then t else d) (xs @ [t])"
  using assms by (auto simp: default_ok_def not_less split: if_splits intro: order_trans less_imp_le)

end
