(* ===== verification/Cfe_Regspec.thy ===== *)
theory Cfe_Regspec
  imports Cfe_Registry
begin

text \<open>
  What a registry is, without memory: a list of registered types and the number of references to
  each. The locale \<open>counted_registry\<close> extends the contract of \<open>Cfe_Registry\<close> for the registries
  without a pinned default, and proves that every sequence of calls of a client that keeps the rules
  (it deregisters only what is registered, it drops only references it took) answers exactly what
  the specification answers.
\<close>

subsection \<open>The specification\<close>

datatype 'n reg_op = Register addr | Unregister addr | Acquire 'n | Release addr

datatype reg_result = Code int | Type addr | Done

record registry_spec =
  sp_types :: "addr list"
  sp_refs :: "addr \<Rightarrow> nat"

text \<open>Each registered type has one reference.\<close>

definition spec_start :: "addr list \<Rightarrow> registry_spec" where
  "spec_start xs = \<lparr>sp_types = xs, sp_refs = (\<lambda>t. of_bool (t \<in> set xs))\<rparr>"

text \<open>\<open>None\<close> is a call that breaks the rules.\<close>

fun spec_step ::
  "(addr \<Rightarrow> 'k option) \<Rightarrow> ('n \<Rightarrow> 'k) \<Rightarrow> 'n reg_op \<Rightarrow> registry_spec \<Rightarrow> (reg_result \<times> registry_spec) option" where
  "spec_step key canon (Register t) s =
     (if key t = None then None
      else if key t \<in> key ` set (sp_types s) then Some (Code 1, s)
      else Some (Code 0, s\<lparr>sp_types := sp_types s @ [t], sp_refs := (sp_refs s)(t := 1)\<rparr>))"
| "spec_step key canon (Unregister t) s =
     (if t \<notin> set (sp_types s) then None
      else if sp_refs s t \<noteq> 1 then Some (Code 1, s)
      else Some (Code 0, s\<lparr>sp_types := remove1 t (sp_types s)\<rparr>))"
| "spec_step key canon (Acquire n) s =
     (case List.find (\<lambda>t. key t = Some (canon n)) (sp_types s) of
        None \<Rightarrow> Some (Type NULL, s)
      | Some t \<Rightarrow> Some (Type t, s\<lparr>sp_refs := (sp_refs s)(t := sp_refs s t + 1)\<rparr>))"
| "spec_step key canon (Release t) s =
     (if t \<in> set (sp_types s) \<and> 1 < sp_refs s t
      then Some (Done, s\<lparr>sp_refs := (sp_refs s)(t := sp_refs s t - 1)\<rparr>) else None)"

fun spec_run ::
  "(addr \<Rightarrow> 'k option) \<Rightarrow> ('n \<Rightarrow> 'k) \<Rightarrow> 'n reg_op list \<Rightarrow> registry_spec \<Rightarrow>
    (reg_result list \<times> registry_spec) option" where
  "spec_run key canon [] s = Some ([], s)"
| "spec_run key canon (op # ops) s = do {
     (r, s) \<leftarrow> spec_step key canon op s;
     (rs, s) \<leftarrow> spec_run key canon ops s;
     Some (r # rs, s)
   }"

text \<open>The same calls on a world.\<close>

fun reg_step ::
  "(addr \<Rightarrow> world \<Rightarrow> (int \<times> world) option) \<Rightarrow> (addr \<Rightarrow> world \<Rightarrow> (int \<times> world) option) \<Rightarrow>
    ('n \<Rightarrow> world \<Rightarrow> (addr \<times> world) option) \<Rightarrow> (addr \<Rightarrow> world \<Rightarrow> world option) \<Rightarrow>
    'n reg_op \<Rightarrow> world \<Rightarrow> (reg_result \<times> world) option" where
  "reg_step reg unreg acq rel (Register t) w = map_option (\<lambda>(r, w). (Code r, w)) (reg t w)"
| "reg_step reg unreg acq rel (Unregister t) w = map_option (\<lambda>(r, w). (Code r, w)) (unreg t w)"
| "reg_step reg unreg acq rel (Acquire n) w = map_option (\<lambda>(t, w). (Type t, w)) (acq n w)"
| "reg_step reg unreg acq rel (Release t) w = map_option (\<lambda>w. (Done, w)) (rel t w)"

fun reg_run ::
  "(addr \<Rightarrow> world \<Rightarrow> (int \<times> world) option) \<Rightarrow> (addr \<Rightarrow> world \<Rightarrow> (int \<times> world) option) \<Rightarrow>
    ('n \<Rightarrow> world \<Rightarrow> (addr \<times> world) option) \<Rightarrow> (addr \<Rightarrow> world \<Rightarrow> world option) \<Rightarrow>
    'n reg_op list \<Rightarrow> world \<Rightarrow> (reg_result list \<times> world) option" where
  "reg_run reg unreg acq rel [] w = Some ([], w)"
| "reg_run reg unreg acq rel (op # ops) w = do {
     (r, w) \<leftarrow> reg_step reg unreg acq rel op w;
     (rs, w) \<leftarrow> reg_run reg unreg acq rel ops w;
     Some (r # rs, w)
   }"

lemma of_nat_atomic_1_iff:
  assumes "n < 2 ^ 31"
  shows "cfe_atomic_get (of_nat n) = 1 \<longleftrightarrow> n = 1"
proof -
  have u: "unat (of_nat n :: cfe_atomic_t) = n"
    using assms by (simp add: unat_of_nat take_bit_nat_eq_self)
  then have "cfe_atomic_get (of_nat n) = 1 \<longleftrightarrow> (of_nat n :: cfe_atomic_t) = 1"
    using assms by (intro atomic_get_eq_1_iff) simp
  also have "\<dots> \<longleftrightarrow> n = 1" using u by (metis of_nat_1 unat_1)
  finally show ?thesis .
qed

subsection \<open>The refinement\<close>

text \<open>The world shows the types of the specification, with their counts, none of them 0.\<close>

definition shows_spec ::
  "(world \<Rightarrow> addr list \<Rightarrow> bool) \<Rightarrow> (world \<Rightarrow> addr \<Rightarrow> 'k option) \<Rightarrow>
    (world \<Rightarrow> addr \<Rightarrow> cfe_atomic_t option) \<Rightarrow> (addr \<Rightarrow> 'k option) \<Rightarrow> world \<Rightarrow> registry_spec \<Rightarrow> bool" where
  "shows_spec repr keyof refs key w s \<longleftrightarrow> repr w (sp_types s) \<and> keyof w = key \<and>
     (\<forall>t \<in> set (sp_types s). 0 < sp_refs s t \<and> refs w t = Some (of_nat (sp_refs s t)))"

locale counted_registry = type_registry +
  assumes unpinned: "\<not> pinned w t"
begin

lemma spec_distinct: "shows_spec repr keyof refs key w s \<Longrightarrow> distinct (sp_types s)"
  using repr_distinct [of w "sp_types s"] by (simp add: shows_spec_def distinct_map)

lemma step_refines:
  assumes sim: "shows_spec repr keyof refs key w s" and step: "spec_step key canon op s = Some (r, s')"
    and B: "\<forall>t \<in> set (sp_types s). sp_refs s t < B" "1 < B" "B \<le> 2 ^ 31"
  shows "\<exists>w'. reg_step register unregister acquire release op w = Some (r, w') \<and> shows_spec repr keyof refs key w' s' \<and>
    (\<forall>t \<in> set (sp_types s'). sp_refs s' t < B + 1)"
proof -
  have r: "repr w (sp_types s)" and k: "keyof w = key"
    and c: "\<And>t. t \<in> set (sp_types s) \<Longrightarrow> 0 < sp_refs s t \<and> refs w t = Some (of_nat (sp_refs s t))"
    using sim by (simp_all add: shows_spec_def)
  show ?thesis
  proof (cases op)
    case (Register t)
    then obtain kt where kt: "key t = Some kt" using step by (auto split: if_splits)
    show ?thesis
    proof (cases "key t \<in> key ` set (sp_types s)")
      case True
      then show ?thesis
        using register_busy [OF r, of t kt] Register kt k step sim B
        by (auto simp: shows_spec_def repr_errno keyof_errno refs_errno less_Suc_eq)
    next
      case False
      obtain w' where w': "register t w = Some (0, w')" "repr w' (sp_types s @ [t])"
          "keyof w' = keyof w" "refs w' = (refs w)(t \<mapsto> 1)"
        using register_new [OF r, of t kt] kt k False by auto
      have "t \<notin> set (sp_types s)" using False by auto
      then show ?thesis
        using w' Register kt k step False c B by (auto simp: shows_spec_def less_Suc_eq)
    qed
  next
    case (Unregister t)
    then have t: "t \<in> set (sp_types s)" using step by (auto split: if_splits)
    have lt: "sp_refs s t < 2 ^ 31" using B(1,3) t by fastforce
    show ?thesis
    proof (cases "sp_refs s t = 1")
      case False
      then show ?thesis
        using unregister_busy [OF r, of t "of_nat (sp_refs s t)"] c [OF t] Unregister t step sim B lt
          of_nat_atomic_1_iff [OF lt]
        by (auto simp: shows_spec_def repr_errno keyof_errno refs_errno less_Suc_eq)
    next
      case True
      obtain w' where w': "unregister t w = Some (0, w')" "repr w' (remove1 t (sp_types s))"
          "keyof w' = keyof w" "refs w' = refs w"
        using unregister_free [OF r t, of 1] c [OF t] True unpinned by auto
      then show ?thesis
        using Unregister t True step c k B set_remove1_subset [of t "sp_types s"]
        by (auto simp: shows_spec_def less_Suc_eq)
    qed
  next
    case (Acquire n)
    show ?thesis
    proof (cases "List.find (\<lambda>t. key t = Some (canon n)) (sp_types s)")
      case None
      then have "Some (canon n) \<notin> keyof w ` set (sp_types s)" using k by (force simp: find_None_iff)
      then show ?thesis
        using acquire_missing [OF r] None Acquire step sim B by (auto simp: less_Suc_eq)
    next
      case (Some t)
      then have t: "t \<in> set (sp_types s)" "keyof w t = Some (canon n)"
        using k by (auto simp: find_Some_iff)
      obtain w' where w': "acquire n w = Some (t, w')" "repr w' (sp_types s)" "keyof w' = keyof w"
          "refs w' = (refs w)(t \<mapsto> of_nat (sp_refs s t) + 1)"
        using acquire_found [OF r t] c [OF t(1)] by blast
      moreover have "\<forall>u \<in> set (sp_types s). sp_refs s u < Suc B" using B(1) by (auto intro: less_SucI)
      ultimately show ?thesis
        using Acquire Some t step c k B by (auto simp: shows_spec_def add.commute)
    qed
  next
    case (Release t)
    then have t: "t \<in> set (sp_types s)" "1 < sp_refs s t" using step by (auto split: if_splits)
    have e: "(of_nat (sp_refs s t) - 1 :: cfe_atomic_t) = of_nat (sp_refs s t - 1)"
      using t(2) by simp
    have nn: "t \<noteq> NULL" using repr_nonnull [OF r] t(1) by auto
    obtain w' where w': "release t w = Some w'" "repr w' (sp_types s)" "keyof w' = keyof w"
        "refs w' = (refs w)(t \<mapsto> of_nat (sp_refs s t - 1))"
      using release_dec [OF r nn] c [OF t(1)] e by metis
    have s': "s' = s\<lparr>sp_refs := (sp_refs s)(t := sp_refs s t - 1)\<rparr>" "r = Done"
      using step Release t by auto
    have "shows_spec repr keyof refs key w' s'"
      unfolding shows_spec_def s'(1) using w'(2,3,4) k c t(2) by simp
    moreover have "\<forall>u \<in> set (sp_types s'). sp_refs s' u < B + 1"
      unfolding s'(1) using B(1) by (auto intro: less_SucI)
    ultimately show ?thesis using Release w'(1) s'(2) by simp
  qed
qed

lemma run_refines:
  assumes "shows_spec repr keyof refs key w s" and "spec_run key canon ops s = Some (rs, s')"
    and "\<forall>t \<in> set (sp_types s). sp_refs s t < B" "1 < B" "B + length ops \<le> 2 ^ 31"
  shows "\<exists>w'. reg_run register unregister acquire release ops w = Some (rs, w') \<and> shows_spec repr keyof refs key w' s'"
  using assms
proof (induction ops arbitrary: w s rs B)
  case Nil
  then show ?case by simp
next
  case (Cons op ops)
  obtain r u rs' where u: "spec_step key canon op s = Some (r, u)"
      "spec_run key canon ops u = Some (rs', s')" "rs = r # rs'"
    using Cons.prems(2) by (auto split: bind_splits)
  obtain v where v: "reg_step register unregister acquire release op w = Some (r, v)"
      "shows_spec repr keyof refs key v u" "\<forall>t \<in> set (sp_types u). sp_refs u t < B + 1"
    using step_refines [OF Cons.prems(1) u(1) Cons.prems(3,4)] Cons.prems(5) by auto
  obtain w' where "reg_run register unregister acquire release ops v = Some (rs', w')"
      "shows_spec repr keyof refs key w' s'"
    using Cons.IH [OF v(2) u(2) v(3)] Cons.prems(4,5) by auto
  then show ?case using v(1) u(3) by simp
qed

end

end
