(* ===== verification/Cfe_Counted.thy ===== *)
theory Cfe_Counted
  imports Cfe_Regspec
begin

text \<open>
  The counters of a registry against the objects that refer to its types. \<open>counted\<close> says that the
  registry is well formed and that every registered type has one reference more than a function of the
  types says; for the registries with contexts this function counts the live objects that point at a
  type (\<open>users\<close>). The lemmas, proved once from the contract, say that no call on a registry in this
  state is undefined, whatever it answers, and what becomes of the counts.
\<close>

subsection \<open>Objects that point at a type\<close>

definition users :: "(addr \<rightharpoonup> 'o) \<Rightarrow> ('o \<Rightarrow> addr) \<Rightarrow> addr \<Rightarrow> nat" where
  "users h f t = card {a. \<exists>ob. h a = Some ob \<and> f ob = t}"

lemma users_finite: "finite (dom h) \<Longrightarrow> finite {a. \<exists>ob. h a = Some ob \<and> f ob = t}"
  by (rule finite_subset [of _ "dom h"]) auto

lemma users_empty [simp]: "users Map.empty f = (\<lambda>_. 0)"
  by (simp add: users_def fun_eq_iff)

lemma users_new:
  assumes "finite (dom h)" and "h a = None"
  shows "users (h(a \<mapsto> ob)) f = (users h f)(f ob := Suc (users h f (f ob)))"
proof
  fix t
  have "{b. \<exists>o'. (h(a \<mapsto> ob)) b = Some o' \<and> f o' = t} =
      (if f ob = t then insert a {b. \<exists>o'. h b = Some o' \<and> f o' = t} else {b. \<exists>o'. h b = Some o' \<and> f o' = t})"
    using assms(2) by auto
  then show "users (h(a \<mapsto> ob)) f t = ((users h f)(f ob := Suc (users h f (f ob)))) t"
    using assms(2) users_finite [OF assms(1)] by (simp add: users_def)
qed

lemma users_free:
  assumes "finite (dom h)" and "h a = Some ob"
  shows "users h f = (users (h(a := None)) f)(f ob := Suc (users (h(a := None)) f (f ob)))"
proof -
  have "(h(a := None))(a \<mapsto> ob) = h" using assms(2) by auto
  then show ?thesis using users_new [of "h(a := None)" a ob f] assms(1) by simp
qed

lemma users_same: "h a = Some ob \<Longrightarrow> f ob' = f ob \<Longrightarrow> users (h(a \<mapsto> ob')) f = users h f"
  unfolding users_def by (intro ext arg_cong [where f = card]) auto

lemma users_pos: "finite (dom h) \<Longrightarrow> h a = Some ob \<Longrightarrow> 0 < users h f (f ob)"
  unfolding users_def using users_finite [of h f "f ob"] by (auto simp: card_gt_0_iff)

lemma users_none: "\<forall>a ob. h a = Some ob \<longrightarrow> f ob \<noteq> t \<Longrightarrow> users h f t = 0"
  by (simp add: users_def)

subsection \<open>A counted registry\<close>

definition counted ::
  "(world \<Rightarrow> addr list \<Rightarrow> bool) \<Rightarrow> (world \<Rightarrow> addr \<Rightarrow> cfe_atomic_t option) \<Rightarrow> (addr \<Rightarrow> nat) \<Rightarrow> world \<Rightarrow>
    addr list \<Rightarrow> bool" where
  "counted repr refs n w xs \<longleftrightarrow> repr w xs \<and> (\<forall>t \<in> set xs. refs w t = Some (of_nat (Suc (n t))))"

lemma countedD:
  assumes "counted repr refs n w xs"
  shows "repr w xs" and "\<And>t. t \<in> set xs \<Longrightarrow> refs w t = Some (of_nat (Suc (n t)))"
  using assms by (simp_all add: counted_def)

context type_registry begin

lemma counted_errno: "counted repr refs n (w\<lparr>errno := e\<rparr>) xs = counted repr refs n w xs"
  by (simp add: counted_def repr_errno refs_errno)

lemma counted_register:
  assumes c: "counted repr refs n w xs" and k: "keyof w t \<noteq> None" and z: "t \<notin> set xs \<Longrightarrow> n t = 0"
  shows "\<exists>r u e ys. register t w = Some (r, u\<lparr>errno := e\<rparr>) \<and> counted repr refs n u ys \<and> set xs \<subseteq> set ys \<and>
    body u = body w \<and> frame_of w u"
proof -
  obtain k where kt: "keyof w t = Some k" using k by auto
  show ?thesis
  proof (cases "Some k \<in> keyof w ` set xs")
    case True
    then show ?thesis
      using register_busy [OF countedD(1) [OF c] kt] c frame_self by blast
  next
    case False
    then obtain u where u: "register t w = Some (0, u)" "repr u (xs @ [t])" "body u = body w"
        "refs u = (refs w)(t \<mapsto> 1)" "frame_of w u"
      using register_new [OF countedD(1) [OF c] kt] by blast
    have "t \<notin> set xs" using False kt by force
    then have "counted repr refs n u (xs @ [t])"
      using u(2,4) z countedD(2) [OF c] by (simp add: counted_def)
    moreover have "u\<lparr>errno := errno u\<rparr> = u" by simp
    ultimately show ?thesis using u(1,3,5) by (metis set_append Un_upper1)
  qed
qed

lemma counted_unregister:
  assumes c: "counted repr refs n w xs" and t: "t \<in> set xs" and lt: "Suc (n t) < 2 ^ 31"
  shows "\<exists>r u e ys. unregister t w = Some (r, u\<lparr>errno := e\<rparr>) \<and> counted repr refs n u ys \<and>
    (\<forall>s \<in> set xs. 0 < n s \<longrightarrow> s \<in> set ys) \<and> body u = body w \<and> frame_of w u"
proof (cases "pinned w t \<or> n t \<noteq> 0")
  case True
  then have "pinned w t \<or> cfe_atomic_get (of_nat (Suc (n t))) \<noteq> 1"
    using of_nat_atomic_1_iff [OF lt] by auto
  then show ?thesis
    using unregister_busy [OF countedD(1) [OF c] countedD(2) [OF c t]] c frame_self by blast
next
  case False
  then obtain u where u: "unregister t w = Some (0, u)" "repr u (remove1 t xs)" "body u = body w"
      "refs u = refs w" "frame_of w u"
    using unregister_free [OF countedD(1) [OF c] t countedD(2) [OF c t]] by (auto simp: cfe_atomic_get_def)
  have d: "distinct xs" using repr_distinct [OF countedD(1) [OF c]] by (simp add: distinct_map)
  have "counted repr refs n u (remove1 t xs)"
    using u(2,4) countedD(2) [OF c] set_remove1_subset [of t xs] by (auto simp: counted_def)
  moreover have "\<forall>s \<in> set xs. 0 < n s \<longrightarrow> s \<in> set (remove1 t xs)"
    using False d by (auto simp: set_remove1_eq)
  moreover have "u\<lparr>errno := errno u\<rparr> = u" by simp
  ultimately show ?thesis using u(1,3,5) by metis
qed

lemma counted_acquire:
  assumes c: "counted repr refs n w xs"
  shows "(acquire m w = Some (NULL, w)) \<or>
    (\<exists>t u. acquire m w = Some (t, u) \<and> t \<noteq> NULL \<and> t \<in> set xs \<and>
      counted repr refs (n(t := Suc (n t))) u xs \<and> body u = body w \<and> frame_of w u \<and> release t u = Some w)"
proof (cases "Some (canon m) \<in> keyof w ` set xs")
  case False
  then show ?thesis using acquire_missing [OF countedD(1) [OF c]] by blast
next
  case True
  then obtain t where t: "t \<in> set xs" "keyof w t = Some (canon m)" by auto
  obtain u where u: "acquire m w = Some (t, u)" "repr u xs" "body u = body w"
      "refs u = (refs w)(t \<mapsto> of_nat (Suc (n t)) + 1)" "frame_of w u" "release t u = Some w"
    using acquire_found [OF countedD(1) [OF c] t countedD(2) [OF c t(1)]] by blast
  have "counted repr refs (n(t := Suc (n t))) u xs"
    using u(2,4) countedD(2) [OF c] by (auto simp: counted_def)
  moreover have "t \<noteq> NULL" using repr_nonnull [OF countedD(1) [OF c]] t(1) by auto
  ultimately show ?thesis using u t(1) by blast
qed

lemma counted_release:
  assumes c: "counted repr refs (n(t := Suc k)) w xs" and t: "t \<in> set xs"
  shows "\<exists>u. release t w = Some u \<and> counted repr refs (n(t := k)) u xs \<and> body u = body w \<and> frame_of w u"
proof -
  have nn: "t \<noteq> NULL" using repr_nonnull [OF countedD(1) [OF c]] t by auto
  obtain u where "release t w = Some u" "repr u xs" "body u = body w"
      "refs u = (refs w)(t \<mapsto> of_nat (Suc (Suc k)) - 1)" "frame_of w u"
    using release_dec [OF countedD(1) [OF c] nn] countedD(2) [OF c t] by auto
  then show ?thesis using countedD(2) [OF c] by (auto simp: counted_def)
qed

end

text \<open>An object that its registry does not accept is refused before the list is looked at.\<close>

context type_layout begin

lemma register_invalid:
  assumes "t \<in> dom (rg_types (ly_get L w))" and "tmpl_key L w t = None"
  shows "tmpl_register L t w = Some (1, w\<lparr>errno := EINVAL\<rparr>)"
  using assms valid_named by (fastforce simp: tmpl_key_def reg_key_def tmpl_register_def split: if_splits)

text \<open>Any type object can be offered to the registry.\<close>

lemma register_any:
  assumes c: "counted (tmpl_repr L) (tmpl_refs L) n w xs" and t: "t \<in> dom (rg_types (ly_get L w))"
    and z: "t \<notin> set xs \<Longrightarrow> n t = 0"
  shows "\<exists>r u e ys. tmpl_register L t w = Some (r, u\<lparr>errno := e\<rparr>) \<and> counted (tmpl_repr L) (tmpl_refs L) n u ys \<and>
    set xs \<subseteq> set ys \<and> tmpl_body L u = tmpl_body L w \<and> ly_frame L w u"
proof (cases "tmpl_key L w t = None")
  case True
  then show ?thesis using register_invalid [OF t] c reg.frame_self by blast
next
  case False
  then show ?thesis using reg.counted_register [OF c _ z] by blast
qed

text \<open>Whatever a registration answers, and wherever the lists point, it changes no type but its counter.\<close>

lemma register_body:
  assumes r: "tmpl_register L t w = Some (r, u)"
    and p: "\<And>t v v'. ly_post L t v = Some v' \<Longrightarrow> ly_get L v' = ly_get L v"
  shows "tmpl_body L u = tmpl_body L w"
proof -
  have get: "tmpl_body L v = tmpl_body L v'" if "rg_types (ly_get L v) = rg_types (ly_get L v')" for v v'
    using that by (simp add: tmpl_body_def fun_eq_iff)
  have put: "tmpl_body L v' = tmpl_body L v" if "on_reg L f v = Some v'"
      "\<And>R R'. f R = Some R' \<Longrightarrow> rg_types R' = rg_types R" for f v v'
    using that by (intro get) (auto simp: on_reg_def)
  have keep: "reg_wrlock R = Some R' \<Longrightarrow> rg_types R' = rg_types R" "reg_unlock R = Some R' \<Longrightarrow> rg_types R' = rg_types R"
      "reg_list g R = Some R' \<Longrightarrow> rg_types R' = rg_types R" for R R' :: "'a registry" and g
    by (auto simp: reg_wrlock_def reg_unlock_def reg_list_def split: if_splits rwlock.splits)
  have store: "tmpl_body L v' = tmpl_body L v" if "on_reg L (reg_store t (ly_refcnt_upd L f)) v = Some v'" for v v' f
    using that by (auto simp: on_reg_def reg_store_def tmpl_body_def fun_eq_iff bind_eq_Some_conv)
  have post: "tmpl_body L v' = tmpl_body L v" if "ly_post L t v = Some v'" for v v'
    using p [OF that] by (intro get) simp
  have mid: "tmpl_body L v' = tmpl_body L v" if m: "(if b then Some (1, v\<lparr>errno := EBUSY\<rparr>)
      else do {
        w \<leftarrow> on_reg L (reg_store t (ly_refcnt_upd L (\<lambda>v. cfe_atomic_set v 1))) v;
        w \<leftarrow> on_reg L (reg_list (list_add_tail (t + ly_off L) (rg_head (ly_get L w)))) w;
        w \<leftarrow> ly_post L t w;
        Some (0, w)
      }) = Some (i, v')" for b v v' and i :: int
  proof (cases b)
    case True
    then show ?thesis using m by (auto intro: get)
  next
    case False
    then obtain v1 v2 where x: "on_reg L (reg_store t (ly_refcnt_upd L (\<lambda>v. cfe_atomic_set v 1))) v = Some v1"
        "on_reg L (reg_list (list_add_tail (t + ly_off L) (rg_head (ly_get L v1)))) v1 = Some v2" "ly_post L t v2 = Some v'"
      using m by (auto simp: bind_eq_Some_conv)
    show ?thesis using store [OF x(1)] put [OF x(2) keep(3)] post [OF x(3)] by simp
  qed
  show ?thesis
  proof (cases "u = w\<lparr>errno := EINVAL\<rparr>")
    case True
    then show ?thesis by (auto intro: get)
  next
    case False
    obtain ty where ty: "rg_types (ly_get L w) t = Some ty" using r by (auto simp: tmpl_register_def bind_eq_Some_conv)
    have "ly_valid L ty" using r False ty by (auto simp: tmpl_register_def split: if_splits)
    then obtain v1 v2 b i where x: "on_reg L reg_wrlock w = Some v1" "on_reg L reg_unlock v2 = Some u"
        "(if b then Some (1, v1\<lparr>errno := EBUSY\<rparr>)
          else do {
            w \<leftarrow> on_reg L (reg_store t (ly_refcnt_upd L (\<lambda>v. cfe_atomic_set v 1))) v1;
            w \<leftarrow> on_reg L (reg_list (list_add_tail (t + ly_off L) (rg_head (ly_get L w)))) w;
            w \<leftarrow> ly_post L t w;
            Some (0, w)
          }) = Some (i :: int, v2)"
      using r ty unfolding tmpl_register_def by (simp only: bind_eq_Some_conv option.inject if_False simp_thms split_paired_Ex prod.case prod.inject) blast
    show ?thesis using put [OF x(1) keep(1)] put [OF x(2) keep(2)] mid [OF x(3)] by simp
  qed
qed

lemma register_each_body:
  assumes "register_each (tmpl_register L) ts w = Some (rs, u)"
    and p: "\<And>t v v'. ly_post L t v = Some v' \<Longrightarrow> ly_get L v' = ly_get L v"
  shows "tmpl_body L u = tmpl_body L w"
  using assms(1)
proof (induction ts arbitrary: w rs)
  case (Cons t ts)
  then show ?case using register_body [OF _ p] by (fastforce simp: bind_eq_Some_conv)
qed simp

end

end
