(* ===== verification/Cfe_Libc.thy ===== *)
theory Cfe_Libc
  imports Cfe_World
begin

text \<open>
  The thin layer over the C library: \<^verbatim>\<open>src/log.c\<close>, \<^verbatim>\<open>src/fcntl.c\<close>, \<^verbatim>\<open>include/cfe/malloc.h\<close> and
  \<^verbatim>\<open>include/cfe/types.h\<close>.
\<close>

subsection \<open>Logging\<close>

text \<open>
  The two conversions that the library's messages use: \<open>%s\<close>, which takes the next argument, and \<open>%m\<close>,
  the text of an error number.
\<close>

fun vformat :: "string \<Rightarrow> string list \<Rightarrow> string \<Rightarrow> string" where
  "vformat [] va m = []"
| "vformat [c] va m = [c]"
| "vformat (c # d # fmt) va m =
     (if c = CHR ''%'' \<and> d = CHR ''s'' then
        (case va of [] \<Rightarrow> vformat fmt [] m | a # va' \<Rightarrow> a @ vformat fmt va' m)
      else if c = CHR ''%'' \<and> d = CHR ''m'' then m @ vformat fmt va m
      else c # vformat (d # fmt) va m)"

definition fputs_stderr :: "string \<Rightarrow> world \<Rightarrow> world" where
  "fputs_stderr s w = w\<lparr>w_stderr := w_stderr w @ s\<rparr>"

definition cfe_log_message :: "env \<Rightarrow> string \<Rightarrow> string \<Rightarrow> string list \<Rightarrow> world \<Rightarrow> world" where
  "cfe_log_message E prefix fmt va w =
     (let w = fputs_stderr prefix w;
          w = fputs_stderr (vformat fmt va (e_strerror (libc E) (errno w))) w
      in fputs_stderr [CHR 0x0A] w)"

definition cfe_log_emergency :: "env \<Rightarrow> string \<Rightarrow> string list \<Rightarrow> world \<Rightarrow> world" where
  "cfe_log_emergency E fmt ap w = cfe_log_message E ''[EMERG]: '' fmt ap w"

definition cfe_log_alert :: "env \<Rightarrow> string \<Rightarrow> string list \<Rightarrow> world \<Rightarrow> world" where
  "cfe_log_alert E fmt ap w = cfe_log_message E ''[ALERT]: '' fmt ap w"

definition cfe_log_critical :: "env \<Rightarrow> string \<Rightarrow> string list \<Rightarrow> world \<Rightarrow> world" where
  "cfe_log_critical E fmt ap w = cfe_log_message E ''[ CRIT]: '' fmt ap w"

definition cfe_log_error :: "env \<Rightarrow> string \<Rightarrow> string list \<Rightarrow> world \<Rightarrow> world" where
  "cfe_log_error E fmt ap w = cfe_log_message E ''[ERROR]: '' fmt ap w"

definition cfe_log_warning :: "env \<Rightarrow> string \<Rightarrow> string list \<Rightarrow> world \<Rightarrow> world" where
  "cfe_log_warning E fmt ap w = cfe_log_message E ''[ WARN]: '' fmt ap w"

definition cfe_log_notice :: "env \<Rightarrow> string \<Rightarrow> string list \<Rightarrow> world \<Rightarrow> world" where
  "cfe_log_notice E fmt ap w = cfe_log_message E ''[ NOTE]: '' fmt ap w"

definition cfe_log_info :: "env \<Rightarrow> string \<Rightarrow> string list \<Rightarrow> world \<Rightarrow> world" where
  "cfe_log_info E fmt ap w = cfe_log_message E ''[ INFO]: '' fmt ap w"

text \<open>The level is not used.\<close>

definition cfe_log_debug :: "env \<Rightarrow> int \<Rightarrow> string \<Rightarrow> string list \<Rightarrow> world \<Rightarrow> world" where
  "cfe_log_debug E level fmt ap w = cfe_log_message E ''[DEBUG]: '' fmt ap w"

lemma vformat_plain: "CHR ''%'' \<notin> set fmt \<Longrightarrow> vformat fmt va m = fmt"
  by (induction fmt va m rule: vformat.induct) auto

lemma cfe_log_message_frame:
  "cfe_log_message E prefix fmt va w =
    w\<lparr>w_stderr := w_stderr w @ prefix @ vformat fmt va (e_strerror (libc E) (errno w)) @ [CHR 0x0A]\<rparr>"
  by (simp add: cfe_log_message_def fputs_stderr_def)

subsection \<open>Preallocation\<close>

text \<open>
  \<open>posix_fallocate\<close> answers the error number, and grows the file to the end of the range;
  \<open>fcntl\<close> answers -1 and sets \<open>errno\<close>, and reserves space without growing the file.
\<close>

definition posix_fallocate :: "env \<Rightarrow> int \<Rightarrow> uint64 \<Rightarrow> uint64 \<Rightarrow> world \<Rightarrow> int \<times> world" where
  "posix_fallocate E fd offset len w =
     (let r = e_posix_fallocate (libc E) fd offset len w
      in (r, if r = 0 then w\<lparr>w_fsize := (w_fsize w)(fd := max (w_fsize w fd) (offset + len))\<rparr> else w))"

definition fcntl_preallocate :: "env \<Rightarrow> int \<Rightarrow> uint64 \<Rightarrow> uint64 \<Rightarrow> world \<Rightarrow> int \<times> world" where
  "fcntl_preallocate E fd offset len w =
     (let e = e_fcntl_preallocate (libc E) fd offset len w
      in if e = 0 then (0, w) else (- 1, w\<lparr>errno := e\<rparr>))"

definition cfe_fallocate :: "env \<Rightarrow> int \<Rightarrow> uint64 \<Rightarrow> uint64 \<Rightarrow> world \<Rightarrow> int \<times> world" where
  "cfe_fallocate E fd offset len w =
     (if e_have_posix_fallocate (libc E) then posix_fallocate E fd offset len w
      else fcntl_preallocate E fd offset len w)"

subsection \<open>Memory\<close>

text \<open>
  \<open>calloc\<close> fails when the product overflows; a failure sets \<open>errno\<close>. The objects in the block are added
  to the world by the caller. \<open>free\<close> ends the life of the object at an address, in the part of the heap
  it is in; freeing NULL does nothing, and anything else is undefined.
\<close>

definition malloc :: "env \<Rightarrow> size_t \<Rightarrow> world \<Rightarrow> addr \<times> world" where
  "malloc E sz w =
     (let p = e_malloc (libc E) sz w in (p, if p = NULL then w\<lparr>errno := ENOMEM\<rparr> else w))"

definition cfe_malloc :: "env \<Rightarrow> size_t \<Rightarrow> world \<Rightarrow> addr \<times> world" where
  "cfe_malloc E sz w = malloc E sz w"

definition cfe_malloc_secure :: "env \<Rightarrow> size_t \<Rightarrow> world \<Rightarrow> addr \<times> world" where
  "cfe_malloc_secure E sz w = cfe_malloc E sz w"

definition calloc :: "env \<Rightarrow> size_t \<Rightarrow> size_t \<Rightarrow> world \<Rightarrow> addr \<times> world" where
  "calloc E nmemb sz w =
     (let p = (if 2 ^ 64 \<le> unat nmemb * unat sz then NULL else e_calloc (libc E) (nmemb * sz) w)
      in (p, if p = NULL then w\<lparr>errno := ENOMEM\<rparr> else w))"

definition cfe_calloc :: "env \<Rightarrow> size_t \<Rightarrow> size_t \<Rightarrow> world \<Rightarrow> addr \<times> world" where
  "cfe_calloc E nmemb sz w = calloc E nmemb sz w"

definition cfe_calloc_secure :: "env \<Rightarrow> size_t \<Rightarrow> size_t \<Rightarrow> world \<Rightarrow> addr \<times> world" where
  "cfe_calloc_secure E nmemb sz w = cfe_calloc E nmemb sz w"

definition free :: "addr \<Rightarrow> (addr \<rightharpoonup> 'a) \<Rightarrow> (addr \<rightharpoonup> 'a) option" where
  "free p h = (if p = NULL then Some h else if h p = None then None else Some (h(p := None)))"

definition cfe_free :: "addr \<Rightarrow> (addr \<rightharpoonup> 'a) \<Rightarrow> (addr \<rightharpoonup> 'a) option" where
  "cfe_free p h = free p h"

definition cfe_free_secure :: "addr \<Rightarrow> (addr \<rightharpoonup> 'a) \<Rightarrow> (addr \<rightharpoonup> 'a) option" where
  "cfe_free_secure p h = cfe_free p h"

text \<open>
  \<open>realloc\<close> of NULL allocates; of an object it moves the object, or fails and leaves it where it is.
\<close>

definition realloc :: "env \<Rightarrow> addr \<Rightarrow> size_t \<Rightarrow> (addr \<rightharpoonup> 'a) \<Rightarrow> world \<Rightarrow> (addr \<times> (addr \<rightharpoonup> 'a) \<times> world) option" where
  "realloc E p sz h w =
     (if p = NULL then (case malloc E sz w of (q, w) \<Rightarrow> Some (q, h, w))
      else do {
        old \<leftarrow> h p;
        let q = e_realloc (libc E) p sz w;
        Some (if q = NULL then (NULL, h, w\<lparr>errno := ENOMEM\<rparr>) else (q, (h(p := None))(q \<mapsto> old), w))
      })"

definition cfe_realloc :: "env \<Rightarrow> addr \<Rightarrow> size_t \<Rightarrow> (addr \<rightharpoonup> 'a) \<Rightarrow> world \<Rightarrow> (addr \<times> (addr \<rightharpoonup> 'a) \<times> world) option" where
  "cfe_realloc E p sz h w = realloc E p sz h w"

definition cfe_realloc_secure ::
  "env \<Rightarrow> addr \<Rightarrow> size_t \<Rightarrow> (addr \<rightharpoonup> 'a) \<Rightarrow> world \<Rightarrow> (addr \<times> (addr \<rightharpoonup> 'a) \<times> world) option" where
  "cfe_realloc_secure E p sz h w = cfe_realloc E p sz h w"

lemmas free_defs = cfe_free_def cfe_free_secure_def free_def

lemma calloc_1:
  "cfe_calloc E 1 n w =
    (e_calloc (libc E) n w, if e_calloc (libc E) n w = NULL then w\<lparr>errno := ENOMEM\<rparr> else w)"
  using unsigned_less [of n, where 'a=nat] by (simp add: cfe_calloc_def calloc_def Let_def)

subsection \<open>Closing descriptors\<close>

text \<open>\<open>close\<close> of a descriptor that is not open fails with \<open>EBADF\<close>; any other failure still releases it.\<close>

definition close :: "env \<Rightarrow> int \<Rightarrow> world \<Rightarrow> int \<times> world" where
  "close E fd w =
     (if fd \<notin> w_fds w then (- 1, w\<lparr>errno := 9\<rparr>)
      else let e = e_close (libc E) fd w; w = w\<lparr>w_fds := w_fds w - {fd}\<rparr>
        in if e = 0 then (0, w) else (- 1, w\<lparr>errno := e\<rparr>))"

definition safe_close :: "env \<Rightarrow> int \<Rightarrow> world \<Rightarrow> int \<times> world" where
  "safe_close E fd w =
     (if 0 \<le> fd then
        let old_errno = errno w;
            (_, w) = close E fd w
        in (- 1, w\<lparr>errno := old_errno\<rparr>)
      else (- 1, w))"

definition closep :: "env \<Rightarrow> int \<Rightarrow> world \<Rightarrow> world" where
  "closep E fd w = snd (safe_close E fd w)"

definition freep :: "addr \<Rightarrow> (addr \<rightharpoonup> 'a) \<Rightarrow> (addr \<rightharpoonup> 'a) option" where
  "freep p h = free p h"

text \<open>\<^verbatim>\<open>safe_close\<close> releases the descriptor when it is open and not negative, whether or not the kernel reports an
  error, always keeps errno, and always answers -1, so that an assignment of its result marks the
  descriptor as closed.\<close>

theorem safe_close_eq:
  "safe_close E fd w = (- 1, if 0 \<le> fd then w\<lparr>w_fds := w_fds w - {fd}\<rparr> else w)"
  by (simp add: safe_close_def close_def Let_def)

end
