(* ===== verification/Cfe_Demo.thy ===== *)
theory Cfe_Demo
  imports Cfe_Libc
begin

text \<open>
  One concrete environment, for the theorems that show a hypothesis on the environment can hold: an
  allocator with one block per size, a kernel that grants everything, a digest that keeps the message,
  a cipher that complements every byte and sums them up in a tag, and an address for every static
  object of the library. The allocator and the kernel answer no memory that is in use.
\<close>

definition demo_block :: "size_t \<Rightarrow> addr" where
  "demo_block n = (if n = 24 then 65536 else if n = 88 then 131072 else if n = 104 then 196608 else 262144)"

definition demo_libc :: libc where
  "demo_libc =
     \<lparr>e_malloc = (\<lambda>n w. 262144),
      e_calloc = (\<lambda>n w. if fresh w (demo_block n) n then demo_block n else NULL),
      e_realloc = (\<lambda>p n w. p),
      e_pagesize = 4096, e_have_posix_fallocate = True,
      e_posix_fallocate = (\<lambda>fd off len w. 0), e_fcntl_preallocate = (\<lambda>fd off len w. 0),
      e_mmap = (\<lambda>len fd w. if w_maps w 1048576 = None then Inl 1048576 else Inr ENOMEM),
      e_munmap = (\<lambda>a len w. if a = - 1 then EINVAL else 0),
      e_fstat = (\<lambda>fd w. 0), e_isreg = (\<lambda>fd w. True), e_strerror = (\<lambda>e. ''error''),
      e_close = (\<lambda>fd w. 0)\<rparr>"

definition demo_evp :: openssl_evp where
  "demo_evp =
     \<lparr>e_sizeof_EVP_MD_CTX = 48,
      e_DigestInit_ex = (\<lambda>st md. (1, [])),
      e_DigestUpdate = (\<lambda>st b n. (1, st @ take (unat n) b)),
      e_DigestFinal = (\<lambda>st. (1, rev st, st)),
      e_PKCS5_PBKDF2_HMAC = (\<lambda>inp ilen salt slen rounds md olen. (1, replicate (unat olen) 7)),
      e_RAND_bytes = (\<lambda>s n. (1, replicate (unat n) (of_nat s), s + 1)),
      e_ENGINE_by_id_rdrand = True, e_ENGINE_init = 1, e_ENGINE_set_default_RAND = 1\<rparr>"

definition demo_key_length :: "evp_cipher \<Rightarrow> cint" where
  "demo_key_length c = (case c of
       EVP_aes_128_cbc \<Rightarrow> 16 | EVP_aes_192_cbc \<Rightarrow> 24 | EVP_aes_256_cbc \<Rightarrow> 32
     | EVP_aes_128_gcm \<Rightarrow> 16 | EVP_aes_192_gcm \<Rightarrow> 24 | EVP_aes_256_gcm \<Rightarrow> 32)"

text \<open>
  The state of the demonstration cipher: the stage (1 selected, 2 running, 3 sealed), whether it has a
  tag, the mode, the length of the initialisation vector, the sum of the bytes that went in, and the tag
  that was set.
\<close>

definition demo_gcm :: "evp_cipher \<Rightarrow> bool" where
  "demo_gcm c = (c = EVP_aes_128_gcm \<or> c = EVP_aes_192_gcm \<or> c = EVP_aes_256_gcm)"

fun demo_CipherInit_ex ::
  "bytes \<Rightarrow> evp_cipher option \<Rightarrow> bytes option \<Rightarrow> bytes option \<Rightarrow> int \<Rightarrow> int \<times> bytes" where
  "demo_CipherInit_ex st (Some c) key iv mode =
     (1, [1, if demo_gcm c then 1 else 0, of_int mode, if demo_gcm c then 12 else 16, 0])"
| "demo_CipherInit_ex [s, g, m, n, a] None (Some key) (Some iv) mode =
     (if s = 1 \<and> length iv = unat n then (1, [2, g, m, n, sum_list key + sum_list iv]) else (0, [s, g, m, n, a]))"
| "demo_CipherInit_ex st None key iv mode = (0, st)"

fun demo_CipherUpdate :: "bytes \<Rightarrow> bytes \<Rightarrow> cint \<Rightarrow> bool \<Rightarrow> int \<times> bytes \<times> bytes \<times> cint option" where
  "demo_CipherUpdate (s # g # m # n # a # t) b k out_null =
     (if s \<noteq> 2 then (0, s # g # m # n # a # t, [], None)
      else if out_null then (1, s # g # m # n # (a + sum_list b) # t, [], Some k)
      else (1, s # g # m # n # (a + sum_list (if m = 0 then b else map not b)) # t, map not b, Some k))"
| "demo_CipherUpdate st b k out_null = (0, st, [], None)"

fun demo_CipherFinal_ex :: "bytes \<Rightarrow> int \<times> bytes \<times> bytes \<times> cint option" where
  "demo_CipherFinal_ex (s # g # m # n # a # t) =
     (if s = 2 \<and> (g = 1 \<and> m = 0 \<longrightarrow> t \<noteq> [] \<and> t = replicate (length t) a)
      then (1, 3 # g # m # n # a # t, [], Some 0) else (0, s # g # m # n # a # t, [], None))"
| "demo_CipherFinal_ex st = (0, st, [], None)"

fun demo_SET_IVLEN :: "bytes \<Rightarrow> cint \<Rightarrow> int \<times> bytes" where
  "demo_SET_IVLEN [s, g, m, n, a] k = (if s = 1 \<and> g = 1 \<and> k \<noteq> 0 then (1, [s, g, m, ucast k, a]) else (0, [s, g, m, n, a]))"
| "demo_SET_IVLEN st k = (0, st)"

fun demo_GET_TAG :: "bytes \<Rightarrow> cint \<Rightarrow> int \<times> bytes \<times> bytes" where
  "demo_GET_TAG (s # g # m # n # a # t) k =
     (if s = 3 \<and> g = 1 \<and> m = 1 then (1, s # g # m # n # a # t, replicate (unat k) a) else (0, s # g # m # n # a # t, []))"
| "demo_GET_TAG st k = (0, st, [])"

fun demo_SET_TAG :: "bytes \<Rightarrow> cint \<Rightarrow> bytes \<Rightarrow> int \<times> bytes" where
  "demo_SET_TAG (s # g # m # n # a # t) k tag =
     (if s = 2 \<and> g = 1 \<and> m = 0 then (1, s # g # m # n # a # take (unat k) tag) else (0, s # g # m # n # a # t))"
| "demo_SET_TAG st k tag = (0, st)"

definition demo_evpc :: openssl_cipher where
  "demo_evpc =
     \<lparr>e_sizeof_EVP_CIPHER_CTX = 168,
      e_CIPHER_key_length = (\<lambda>c. case c of None \<Rightarrow> 0 | Some c \<Rightarrow> demo_key_length c),
      e_CipherInit_ex = demo_CipherInit_ex, e_CipherUpdate = demo_CipherUpdate,
      e_CipherFinal_ex = demo_CipherFinal_ex, e_set_padding = (\<lambda>st on. (1, st)),
      e_GCM_SET_IVLEN = demo_SET_IVLEN, e_GCM_GET_TAG = demo_GET_TAG, e_GCM_SET_TAG = demo_SET_TAG\<rparr>"

text \<open>An application that adds nothing of its own.\<close>

definition demo_app :: application where
  "demo_app =
     \<lparr>e_ext_derive = (\<lambda>n r i il s sl ol w. None), e_ext_get = (\<lambda>n sz w. None),
      e_ext_header_alloc = (\<lambda>n fd sz w. None), e_ext_header_free = (\<lambda>n h w. None),
      e_ext_writer_alloc = (\<lambda>n c b w. None)\<rparr>"

definition demo_apph :: app_hash where
  "demo_apph =
     \<lparr>e_ext_hash_alloc = (\<lambda>n w. None), e_ext_hash_init = (\<lambda>n c w. None),
      e_ext_hash_update = (\<lambda>n c b sz w. None), e_ext_hash_finalize = (\<lambda>n c w. None),
      e_ext_hash_destroy = (\<lambda>n c w. None)\<rparr>"

definition demo_appc :: app_cipher where
  "demo_appc =
     \<lparr>e_ext_cipher_alloc = (\<lambda>n w. None), e_ext_cipher_init = (\<lambda>n c m k ks i is w. None),
      e_ext_cipher_update = (\<lambda>n c b sz ol w. None), e_ext_cipher_finalize = (\<lambda>n c ol w. None),
      e_ext_cipher_set_padding = (\<lambda>n c on w. None), e_ext_cipher_set_aad = (\<lambda>n c b sz w. None),
      e_ext_cipher_set_tag = (\<lambda>n c b sz w. None), e_ext_cipher_get_tag = (\<lambda>n c sz w. None),
      e_ext_cipher_destroy = (\<lambda>n c w. None)\<rparr>"

definition demo_symbols :: "(string \<times> addr) list" where
  "demo_symbols =
     [(''openssl_type_sha1'', 4096), (''openssl_type_sha224'', 4224), (''openssl_type_sha256'', 4352),
      (''openssl_type_sha384'', 4480), (''openssl_type_sha512'', 4608),
      (''openssl_type_aes_cbc128'', 8192), (''openssl_type_aes_cbc192'', 8320),
      (''openssl_type_aes_cbc256'', 8448), (''openssl_type_aes_gcm128'', 8576),
      (''openssl_type_aes_gcm192'', 8704), (''openssl_type_aes_gcm256'', 8832),
      (''openssl_type_kdf_sha1'', 12288), (''openssl_type_kdf_sha224'', 12416),
      (''openssl_type_kdf_sha256'', 12544), (''openssl_type_kdf_sha384'', 12672),
      (''openssl_type_kdf_sha512'', 12800), (''openssl_type_rand'', 16384),
      (''header_v1_type'', 20480), (''writer_v1_type'', 24576),
      (''ks_linux'', 28672), (''ks_darwin'', 28800)]"

definition demo_env :: env where
  "demo_env =
     \<lparr>libc = demo_libc, evp = demo_evp, evpc = demo_evpc, app = demo_app, apph = demo_apph,
      appc = demo_appc,
      sym = (\<lambda>s. case map_of demo_symbols s of None \<Rightarrow> NULL | Some a \<Rightarrow> a)\<rparr>"

lemma demo_simps [simp]:
  "libc demo_env = demo_libc" "evp demo_env = demo_evp" "evpc demo_env = demo_evpc"
  "app demo_env = demo_app"
  by (simp_all add: demo_env_def)

lemma demo_sym [simp]:
  "sym demo_env ''openssl_type_sha1'' = 4096" "sym demo_env ''openssl_type_sha224'' = 4224"
  "sym demo_env ''openssl_type_sha256'' = 4352" "sym demo_env ''openssl_type_sha384'' = 4480"
  "sym demo_env ''openssl_type_sha512'' = 4608"
  "sym demo_env ''openssl_type_aes_cbc128'' = 8192" "sym demo_env ''openssl_type_aes_cbc192'' = 8320"
  "sym demo_env ''openssl_type_aes_cbc256'' = 8448" "sym demo_env ''openssl_type_aes_gcm128'' = 8576"
  "sym demo_env ''openssl_type_aes_gcm192'' = 8704" "sym demo_env ''openssl_type_aes_gcm256'' = 8832"
  "sym demo_env ''openssl_type_kdf_sha1'' = 12288" "sym demo_env ''openssl_type_kdf_sha224'' = 12416"
  "sym demo_env ''openssl_type_kdf_sha256'' = 12544" "sym demo_env ''openssl_type_kdf_sha384'' = 12672"
  "sym demo_env ''openssl_type_kdf_sha512'' = 12800" "sym demo_env ''openssl_type_rand'' = 16384"
  "sym demo_env ''header_v1_type'' = 20480" "sym demo_env ''writer_v1_type'' = 24576"
  "sym demo_env ''ks_linux'' = 28672" "sym demo_env ''ks_darwin'' = 28800"
  by (simp_all add: demo_env_def demo_symbols_def)

text \<open>The same environment when the allocator has no memory.\<close>

definition oom_env :: env where
  "oom_env = demo_env\<lparr>libc := demo_libc\<lparr>e_calloc := \<lambda>n w. NULL\<rparr>\<rparr>"

lemma oom_simps [simp]:
  "libc oom_env = demo_libc\<lparr>e_calloc := \<lambda>n w. NULL\<rparr>" "evp oom_env = demo_evp"
  "evpc oom_env = demo_evpc" "sym oom_env = sym demo_env" "app oom_env = demo_app"
  by (simp_all add: oom_env_def)

text \<open>The kernel has no space for the file; the kernel grants no mapping.\<close>

definition nospace_env :: env where
  "nospace_env = demo_env\<lparr>libc := demo_libc\<lparr>e_posix_fallocate := \<lambda>fd off len w. ENOSPC\<rparr>\<rparr>"

definition nomap_env :: env where
  "nomap_env = demo_env\<lparr>libc := demo_libc\<lparr>e_mmap := \<lambda>len fd w. Inr ENOMEM\<rparr>\<rparr>"

lemma fault_env_simps [simp]:
  "libc nospace_env = demo_libc\<lparr>e_posix_fallocate := \<lambda>fd off len w. ENOSPC\<rparr>"
  "libc nomap_env = demo_libc\<lparr>e_mmap := \<lambda>len fd w. Inr ENOMEM\<rparr>"
  by (simp_all add: nospace_env_def nomap_env_def)

lemma demo_calloc: "e_calloc demo_libc n w = (if fresh w (demo_block n) n then demo_block n else NULL)"
  by (simp add: demo_libc_def)

lemma demo_calloc_ok: "calloc_ok demo_env" "calloc_ok nospace_env" "calloc_ok nomap_env" "calloc_ok oom_env"
  by (simp_all add: calloc_ok_def demo_calloc)

lemma demo_fresh_blank [simp]:
  "fresh (blank_world\<lparr>w_hash := a, w_cipher := b, w_pbkdf := c, w_rand := d, w_header := e,
    header_default := f, w_writer := g, writer_default := h\<rparr>) p n \<longleftrightarrow>
    p \<noteq> NULL \<and> unat p + unat n \<le> 2 ^ 64"
  by (simp add: fresh_def block_free_def blank_world_def)

end
