(* ===== verification/Cfe_Pbkdf.thy ===== *)
theory Cfe_Pbkdf
  imports Cfe_Counted Cfe_Demo
begin

text \<open>
  \<^verbatim>\<open>src/crypto/pbkdf.c\<close> and \<^verbatim>\<open>src/crypto/pbkdf-openssl.c\<close>: the registry of key derivation functions,
  the derivation under a reference, and the five OpenSSL types that a constructor registers. The
  functions are written from the source; each is shown equal to the common shape of \<open>Cfe_Registry\<close>
  and so satisfies its contract. The lemmas on \<open>cfe_pbkdf_derive\<close> give its result on every branch.
\<close>

subsection \<open>The registry\<close>

text \<open>The offset of \<open>next\<close> in \<open>struct cfe_pbkdf_type\<close>: after \<open>char name[16]\<close> and the counter.\<close>

definition PBKDF_NEXT :: addr where "PBKDF_NEXT = 24"

abbreviation on_pbkdf ::
  "(cfe_pbkdf_type registry \<Rightarrow> cfe_pbkdf_type registry option) \<Rightarrow> world \<Rightarrow> world option" where
  "on_pbkdf f w \<equiv> map_option (\<lambda>R. w\<lparr>w_pbkdf := R\<rparr>) (f (w_pbkdf w))"

definition find_alg_pbkdf :: "string \<Rightarrow> world \<Rightarrow> addr option" where
  "find_alg_pbkdf name w = do {
     r \<leftarrow> list_for_each
       (\<lambda>pos. let tmp = list_entry pos PBKDF_NEXT in do {
          ty \<leftarrow> rg_types (w_pbkdf w) tmp;
          Some (if strcmp name (pt_name ty) = 0 then Some tmp else None)
        })
       (rg_nodes (w_pbkdf w)) (rg_head (w_pbkdf w));
     Some (case r of Some tmp \<Rightarrow> tmp | None \<Rightarrow> NULL)
   }"

text \<open>\<open>name\<close> is an array: \<open>!type->name\<close> never holds.\<close>

definition cfe_pbkdf_register :: "addr \<Rightarrow> world \<Rightarrow> (int \<times> world) option" where
  "cfe_pbkdf_register type w = do {
     ty \<leftarrow> rg_types (w_pbkdf w) type;
     if pt_derive ty = None then Some (1, w\<lparr>errno := EINVAL\<rparr>)
     else do {
       w \<leftarrow> on_pbkdf reg_wrlock w;
       tmp \<leftarrow> find_alg_pbkdf (pt_name ty) w;
       (ret, w) \<leftarrow>
         (if tmp \<noteq> NULL then Some (1, w\<lparr>errno := EBUSY\<rparr>)
          else do {
            w \<leftarrow> on_pbkdf (reg_store type (pt_refcnt_update (\<lambda>v. cfe_atomic_set v 1))) w;
            w \<leftarrow> on_pbkdf (reg_list (list_add_tail (type + PBKDF_NEXT) (rg_head (w_pbkdf w)))) w;
            Some (0, w)
          });
       w \<leftarrow> on_pbkdf reg_unlock w;
       Some (ret, w)
     }
   }"

definition cfe_pbkdf_unregister :: "addr \<Rightarrow> world \<Rightarrow> (int \<times> world) option" where
  "cfe_pbkdf_unregister type w = do {
     w \<leftarrow> on_pbkdf reg_wrlock w;
     ty \<leftarrow> rg_types (w_pbkdf w) type;
     (ret, w) \<leftarrow>
       (if cfe_atomic_get (pt_refcnt ty) \<noteq> 1 then Some (1, w\<lparr>errno := EBUSY\<rparr>)
        else do {
          w \<leftarrow> on_pbkdf (reg_list (list_del_init (type + PBKDF_NEXT))) w;
          Some (0, w)
        });
     w \<leftarrow> on_pbkdf reg_unlock w;
     Some (ret, w)
   }"

subsection \<open>The OpenSSL derivations\<close>

text \<open>
  \<open>size_t\<close> lengths are passed to \<open>int\<close> parameters: the low 32 bits. The result is the return code
  and the bytes written to \<open>out\<close>.
\<close>

definition openssl_pbkdf_sha1 ::
  "env \<Rightarrow> uint32 \<Rightarrow> bytes \<Rightarrow> size_t \<Rightarrow> bytes \<Rightarrow> size_t \<Rightarrow> size_t \<Rightarrow> int \<times> bytes" where
  "openssl_pbkdf_sha1 E rounds inp ilen salt slen olen =
     (let (r, out) = e_PKCS5_PBKDF2_HMAC (evp E) inp (ucast ilen) salt (ucast slen) rounds EVP_sha1 (ucast olen)
      in (if r \<noteq> 1 then 1 else 0, out))"

definition openssl_pbkdf_sha224 ::
  "env \<Rightarrow> uint32 \<Rightarrow> bytes \<Rightarrow> size_t \<Rightarrow> bytes \<Rightarrow> size_t \<Rightarrow> size_t \<Rightarrow> int \<times> bytes" where
  "openssl_pbkdf_sha224 E rounds inp ilen salt slen olen =
     (let (r, out) = e_PKCS5_PBKDF2_HMAC (evp E) inp (ucast ilen) salt (ucast slen) rounds EVP_sha224 (ucast olen)
      in (if r \<noteq> 1 then 1 else 0, out))"

definition openssl_pbkdf_sha256 ::
  "env \<Rightarrow> uint32 \<Rightarrow> bytes \<Rightarrow> size_t \<Rightarrow> bytes \<Rightarrow> size_t \<Rightarrow> size_t \<Rightarrow> int \<times> bytes" where
  "openssl_pbkdf_sha256 E rounds inp ilen salt slen olen =
     (let (r, out) = e_PKCS5_PBKDF2_HMAC (evp E) inp (ucast ilen) salt (ucast slen) rounds EVP_sha256 (ucast olen)
      in (if r \<noteq> 1 then 1 else 0, out))"

definition openssl_pbkdf_sha384 ::
  "env \<Rightarrow> uint32 \<Rightarrow> bytes \<Rightarrow> size_t \<Rightarrow> bytes \<Rightarrow> size_t \<Rightarrow> size_t \<Rightarrow> int \<times> bytes" where
  "openssl_pbkdf_sha384 E rounds inp ilen salt slen olen =
     (let (r, out) = e_PKCS5_PBKDF2_HMAC (evp E) inp (ucast ilen) salt (ucast slen) rounds EVP_sha384 (ucast olen)
      in (if r \<noteq> 1 then 1 else 0, out))"

definition openssl_pbkdf_sha512 ::
  "env \<Rightarrow> uint32 \<Rightarrow> bytes \<Rightarrow> size_t \<Rightarrow> bytes \<Rightarrow> size_t \<Rightarrow> size_t \<Rightarrow> int \<times> bytes" where
  "openssl_pbkdf_sha512 E rounds inp ilen salt slen olen =
     (let (r, out) = e_PKCS5_PBKDF2_HMAC (evp E) inp (ucast ilen) salt (ucast slen) rounds EVP_sha512 (ucast olen)
      in (if r \<noteq> 1 then 1 else 0, out))"

text \<open>The call through the function pointer \<open>derive\<close>.\<close>

fun call_derive ::
  "env \<Rightarrow> pbkdf_derive_fn \<Rightarrow> uint32 \<Rightarrow> bytes \<Rightarrow> size_t \<Rightarrow> bytes \<Rightarrow> size_t \<Rightarrow> size_t \<Rightarrow> world \<Rightarrow>
    (int \<times> bytes \<times> world) option" where
  "call_derive E Fn_openssl_pbkdf_sha1 rounds inp ilen salt slen olen w =
     (let (r, out) = openssl_pbkdf_sha1 E rounds inp ilen salt slen olen in Some (r, out, w))"
| "call_derive E Fn_openssl_pbkdf_sha224 rounds inp ilen salt slen olen w =
     (let (r, out) = openssl_pbkdf_sha224 E rounds inp ilen salt slen olen in Some (r, out, w))"
| "call_derive E Fn_openssl_pbkdf_sha256 rounds inp ilen salt slen olen w =
     (let (r, out) = openssl_pbkdf_sha256 E rounds inp ilen salt slen olen in Some (r, out, w))"
| "call_derive E Fn_openssl_pbkdf_sha384 rounds inp ilen salt slen olen w =
     (let (r, out) = openssl_pbkdf_sha384 E rounds inp ilen salt slen olen in Some (r, out, w))"
| "call_derive E Fn_openssl_pbkdf_sha512 rounds inp ilen salt slen olen w =
     (let (r, out) = openssl_pbkdf_sha512 E rounds inp ilen salt slen olen in Some (r, out, w))"
| "call_derive E (Ext_derive n) rounds inp ilen salt slen olen w =
     e_ext_derive (app E) n rounds inp ilen salt slen olen w"

text \<open>
  \<open>algname\<close> and \<open>in\<close> may be NULL. The result is the return code, what was written to \<open>out\<close> and the
  new world.
\<close>

definition cfe_pbkdf_derive ::
  "env \<Rightarrow> string option \<Rightarrow> uint32 \<Rightarrow> bytes option \<Rightarrow> size_t \<Rightarrow> bytes \<Rightarrow> size_t \<Rightarrow> size_t \<Rightarrow> world \<Rightarrow>
    (int \<times> bytes \<times> world) option" where
  "cfe_pbkdf_derive E algname rounds inp ilen salt slen olen w =
     (case (algname, inp) of
        (Some name, Some buf) \<Rightarrow>
          if ilen = 0 then Some (1, [], w\<lparr>errno := EINVAL\<rparr>)
          else do {
            w \<leftarrow> on_pbkdf reg_rdlock w;
            type \<leftarrow> find_alg_pbkdf name w;
            w \<leftarrow> (if type \<noteq> NULL then on_pbkdf (reg_store type (pt_refcnt_update cfe_atomic_inc)) w
                 else Some w);
            w \<leftarrow> on_pbkdf reg_unlock w;
            if type = NULL then Some (1, [], w\<lparr>errno := ENOSYS\<rparr>)
            else do {
              ty \<leftarrow> rg_types (w_pbkdf w) type;
              derive \<leftarrow> pt_derive ty;
              (ret, out, w) \<leftarrow> call_derive E derive rounds buf ilen salt slen olen w;
              w \<leftarrow> on_pbkdf (reg_store type (pt_refcnt_update cfe_atomic_dec)) w;
              Some (ret, out, w)
            }
          }
      | _ \<Rightarrow> Some (1, [], w\<lparr>errno := EINVAL\<rparr>))"

subsection \<open>The static types and the constructor\<close>

definition openssl_type_kdf_sha1 :: cfe_pbkdf_type where
  "openssl_type_kdf_sha1 =
     \<lparr>pt_name = ''pbkdf-sha1'', pt_refcnt = 0, pt_derive = Some Fn_openssl_pbkdf_sha1\<rparr>"

definition openssl_type_kdf_sha224 :: cfe_pbkdf_type where
  "openssl_type_kdf_sha224 =
     \<lparr>pt_name = ''pbkdf-sha224'', pt_refcnt = 0, pt_derive = Some Fn_openssl_pbkdf_sha224\<rparr>"

definition openssl_type_kdf_sha256 :: cfe_pbkdf_type where
  "openssl_type_kdf_sha256 =
     \<lparr>pt_name = ''pbkdf-sha256'', pt_refcnt = 0, pt_derive = Some Fn_openssl_pbkdf_sha256\<rparr>"

definition openssl_type_kdf_sha384 :: cfe_pbkdf_type where
  "openssl_type_kdf_sha384 =
     \<lparr>pt_name = ''pbkdf-sha384'', pt_refcnt = 0, pt_derive = Some Fn_openssl_pbkdf_sha384\<rparr>"

definition openssl_type_kdf_sha512 :: cfe_pbkdf_type where
  "openssl_type_kdf_sha512 =
     \<lparr>pt_name = ''pbkdf-sha512'', pt_refcnt = 0, pt_derive = Some Fn_openssl_pbkdf_sha512\<rparr>"

text \<open>The constructor: whether it calls \<open>abort\<close>, and the world.\<close>

definition pbkdf_openssl_init :: "env \<Rightarrow> world \<Rightarrow> (bool \<times> world) option" where
  "pbkdf_openssl_init E w = do {
     (r1, w) \<leftarrow> cfe_pbkdf_register (sym E ''openssl_type_kdf_sha1'') w;
     (r2, w) \<leftarrow> cfe_pbkdf_register (sym E ''openssl_type_kdf_sha224'') w;
     (r3, w) \<leftarrow> cfe_pbkdf_register (sym E ''openssl_type_kdf_sha256'') w;
     (r4, w) \<leftarrow> cfe_pbkdf_register (sym E ''openssl_type_kdf_sha384'') w;
     (r5, w) \<leftarrow> cfe_pbkdf_register (sym E ''openssl_type_kdf_sha512'') w;
     Some (r1 + r2 + r3 + r4 + r5 \<noteq> 0, w)
   }"

lemmas [cfe_defs] = find_alg_pbkdf_def cfe_pbkdf_register_def cfe_pbkdf_unregister_def

subsection \<open>The contract\<close>

definition pbkdf_layout :: "(cfe_pbkdf_type, string, string) layout" where
  "pbkdf_layout =
     \<lparr>ly_get = w_pbkdf, ly_put = (\<lambda>R w. w\<lparr>w_pbkdf := R\<rparr>), ly_off = PBKDF_NEXT,
      ly_valid = (\<lambda>ty. pt_derive ty \<noteq> None), ly_name = (\<lambda>ty. Some (pt_name ty)), ly_canon = cstr,
      ly_match = (\<lambda>n ty. Some (strcmp n (pt_name ty) = 0)),
      ly_refcnt = pt_refcnt, ly_refcnt_upd = pt_refcnt_update,
      ly_post = (\<lambda>_ w. Some w), ly_pinned = (\<lambda>_ _. False), ly_inv = (\<lambda>_ _. True),
      ly_frame = (\<lambda>w w'. \<exists>R. w' = w\<lparr>w_pbkdf := R\<rparr>)\<rparr>"

lemma pbkdf_same: "\<exists>R. w = w\<lparr>w_pbkdf := R\<rparr>"
  by (rule exI [of _ "w_pbkdf w"]) simp

interpretation pbkdf_lay: type_layout pbkdf_layout
  by unfold_locales (auto simp: pbkdf_layout_def strcmp_eq_0_iff pbkdf_same)

lemma find_alg_pbkdf_eq: "find_alg_pbkdf = tmpl_find pbkdf_layout"
  by (simp add: fun_eq_iff find_alg_pbkdf_def tmpl_find_def pbkdf_layout_def)

lemma cfe_pbkdf_register_eq: "cfe_pbkdf_register = tmpl_register pbkdf_layout"
  unfolding fun_eq_iff cfe_pbkdf_register_def tmpl_register_def find_alg_pbkdf_eq on_reg_def
  by (simp add: pbkdf_layout_def cong: if_cong)

lemma cfe_pbkdf_unregister_eq: "cfe_pbkdf_unregister = tmpl_unregister pbkdf_layout"
  unfolding fun_eq_iff cfe_pbkdf_unregister_def tmpl_unregister_def on_reg_def
  by (simp add: pbkdf_layout_def cong: if_cong)

interpretation pbkdf: type_registry "tmpl_repr pbkdf_layout" "tmpl_key pbkdf_layout"
  "tmpl_refs pbkdf_layout" "tmpl_body pbkdf_layout" "\<lambda>_ _. False" "\<lambda>w w'. \<exists>R. w' = w\<lparr>w_pbkdf := R\<rparr>" cstr find_alg_pbkdf
  cfe_pbkdf_register cfe_pbkdf_unregister "tmpl_acquire pbkdf_layout" "tmpl_release pbkdf_layout"
  using pbkdf_lay.reg.type_registry_axioms
  unfolding find_alg_pbkdf_eq cfe_pbkdf_register_eq cfe_pbkdf_unregister_eq
  by (simp add: pbkdf_layout_def)

interpretation pbkdf_cnt: counted_registry "tmpl_repr pbkdf_layout" "tmpl_key pbkdf_layout"
  "tmpl_refs pbkdf_layout" "tmpl_body pbkdf_layout" "\<lambda>_ _. False" "\<lambda>w w'. \<exists>R. w' = w\<lparr>w_pbkdf := R\<rparr>" cstr find_alg_pbkdf
  cfe_pbkdf_register cfe_pbkdf_unregister "tmpl_acquire pbkdf_layout" "tmpl_release pbkdf_layout"
  by unfold_locales simp

subsection \<open>Derivation\<close>

lemma cfe_pbkdf_derive_eq:
  "cfe_pbkdf_derive E (Some name) rounds (Some buf) ilen salt slen olen w =
     (if ilen = 0 then Some (1, [], w\<lparr>errno := EINVAL\<rparr>)
      else do {
        (type, w) \<leftarrow> tmpl_acquire pbkdf_layout name w;
        if type = NULL then Some (1, [], w\<lparr>errno := ENOSYS\<rparr>)
        else do {
          ty \<leftarrow> rg_types (w_pbkdf w) type;
          derive \<leftarrow> pt_derive ty;
          (ret, out, w) \<leftarrow> call_derive E derive rounds buf ilen salt slen olen w;
          w \<leftarrow> tmpl_release pbkdf_layout type w;
          Some (ret, out, w)
        }
      })"
  unfolding cfe_pbkdf_derive_def tmpl_acquire_def tmpl_release_def find_alg_pbkdf_eq on_reg_def
  by (simp add: pbkdf_layout_def cong: if_cong)

lemma cfe_pbkdf_derive_missing:
  assumes "tmpl_repr pbkdf_layout w xs" and "Some (cstr name) \<notin> tmpl_key pbkdf_layout w ` set xs"
    and "ilen \<noteq> 0"
  shows "cfe_pbkdf_derive E (Some name) rounds (Some buf) ilen salt slen olen w =
    Some (1, [], w\<lparr>errno := ENOSYS\<rparr>)"
  using pbkdf.acquire_missing [OF assms(1,2)] assms(3) by (simp add: cfe_pbkdf_derive_eq)

lemma pbkdf_key_refs:
  assumes "tmpl_key pbkdf_layout w t = Some k"
  obtains ty f where "rg_types (w_pbkdf w) t = Some ty" and "cstr (pt_name ty) = k"
    and "pt_derive ty = Some f" and "tmpl_refs pbkdf_layout w t = Some (pt_refcnt ty)"
  using assms
  by (auto simp: tmpl_key_def reg_key_def tmpl_refs_def pbkdf_layout_def split: option.splits if_splits)

text \<open>
  The function pointer is called while one more reference is held; the result is what it returned,
  and the reference is dropped afterwards.
\<close>

lemma cfe_pbkdf_derive_found:
  assumes r: "tmpl_repr pbkdf_layout w xs" and t: "t \<in> set xs"
    and k: "tmpl_key pbkdf_layout w t = Some (cstr name)" and "ilen \<noteq> 0"
    and ty: "rg_types (w_pbkdf w) t = Some ty" and f: "pt_derive ty = Some f"
  shows "\<exists>v. tmpl_acquire pbkdf_layout name w = Some (t, v) \<and> tmpl_release pbkdf_layout t v = Some w \<and>
    tmpl_repr pbkdf_layout v xs \<and> (cfe_atomic_get (pt_refcnt ty + 1) \<noteq> 1 \<longrightarrow>
      cfe_pbkdf_unregister t v = Some (1, v\<lparr>errno := EBUSY\<rparr>)) \<and>
    cfe_pbkdf_derive E (Some name) rounds (Some buf) ilen salt slen olen w =
      do {
        (ret, out, v) \<leftarrow> call_derive E f rounds buf ilen salt slen olen v;
        u \<leftarrow> tmpl_release pbkdf_layout t v;
        Some (ret, out, u)
      }"
proof -
  have c: "tmpl_refs pbkdf_layout w t = Some (pt_refcnt ty)"
    using ty by (simp add: tmpl_refs_def pbkdf_layout_def)
  obtain v where v: "tmpl_acquire pbkdf_layout name w = Some (t, v)" "tmpl_repr pbkdf_layout v xs"
      "tmpl_refs pbkdf_layout v = (tmpl_refs pbkdf_layout w)(t \<mapsto> pt_refcnt ty + 1)"
      "tmpl_release pbkdf_layout t v = Some w"
    using pbkdf.acquire_found [OF r t k c] by blast
  have busy: "cfe_pbkdf_unregister t v = Some (1, v\<lparr>errno := EBUSY\<rparr>)"
    if "cfe_atomic_get (pt_refcnt ty + 1) \<noteq> 1"
    using pbkdf.unregister_busy [OF v(2), of t "pt_refcnt ty + 1"] that v(3) by simp
  have tv: "tmpl_release pbkdf_layout t v = Some w" by (rule v(4))
  obtain tv where tv: "rg_types (w_pbkdf v) t = Some tv" "pt_derive tv = Some f"
    using v(4) ty f
    by (auto simp: tmpl_release_def on_reg_def reg_store_def pbkdf_layout_def split: bind_splits)
  have nn: "t \<noteq> NULL" using pbkdf.repr_nonnull [OF r] t by auto
  then show ?thesis
    using v tv assms(4) busy by (auto simp: cfe_pbkdf_derive_eq)
qed

text \<open>The functions of OpenSSL leave the world alone: the whole call does.\<close>

lemma call_derive_openssl:
  assumes "\<And>n. f \<noteq> Ext_derive n"
  shows "\<exists>r out. call_derive E f rounds buf ilen salt slen olen v = Some (r, out, v) \<and> r \<in> {0, 1}"
  using assms
  by (cases f) (auto simp: split_beta openssl_pbkdf_sha1_def openssl_pbkdf_sha224_def
      openssl_pbkdf_sha256_def openssl_pbkdf_sha384_def openssl_pbkdf_sha512_def)

subsection \<open>The constructor\<close>

definition pbkdf_statics :: "env \<Rightarrow> (addr \<times> cfe_pbkdf_type) list" where
  "pbkdf_statics E =
     [(sym E ''openssl_type_kdf_sha1'', openssl_type_kdf_sha1),
      (sym E ''openssl_type_kdf_sha224'', openssl_type_kdf_sha224),
      (sym E ''openssl_type_kdf_sha256'', openssl_type_kdf_sha256),
      (sym E ''openssl_type_kdf_sha384'', openssl_type_kdf_sha384),
      (sym E ''openssl_type_kdf_sha512'', openssl_type_kdf_sha512)]"

definition pbkdf_names :: "string list" where
  "pbkdf_names = [''pbkdf-sha1'', ''pbkdf-sha224'', ''pbkdf-sha256'', ''pbkdf-sha384'', ''pbkdf-sha512'']"

lemma pbkdf_openssl_init_eq:
  "pbkdf_openssl_init E w = do {
     (rs, w) \<leftarrow> register_each cfe_pbkdf_register (map fst (pbkdf_statics E)) w;
     Some (sum_list rs \<noteq> 0, w)
   }"
  by (simp add: pbkdf_openssl_init_def pbkdf_statics_def case_prod_unfold add.assoc)

lemma pbkdf_load:
  assumes w: "w_pbkdf w = load_registry head PBKDF_NEXT (pbkdf_statics E)"
    and d: "distinct (map fst (pbkdf_statics E))" "NULL \<notin> fst ` set (pbkdf_statics E)"
      "head \<notin> (\<lambda>t. t + PBKDF_NEXT) ` fst ` set (pbkdf_statics E)"
  shows "tmpl_repr pbkdf_layout w []"
    and "map (tmpl_key pbkdf_layout w) (map fst (pbkdf_statics E)) = map Some pbkdf_names"
proof -
  have o: "ly_off pbkdf_layout = PBKDF_NEXT" by (simp add: pbkdf_layout_def)
  have "reg_ok pbkdf_layout (w_pbkdf w) []"
    unfolding w by (rule load_registry_ok [of _ pbkdf_layout, unfolded o]) (use d in auto)
  then show "tmpl_repr pbkdf_layout w []" by (simp add: tmpl_repr_def pbkdf_layout_def w)
  have "ly_get pbkdf_layout w = load_registry head PBKDF_NEXT (pbkdf_statics E)"
    using w by (simp add: pbkdf_layout_def)
  from load_keys [OF this d(1)]
  show "map (tmpl_key pbkdf_layout w) (map fst (pbkdf_statics E)) = map Some pbkdf_names"
    by (simp add: pbkdf_statics_def pbkdf_names_def pbkdf_layout_def cstr_def openssl_type_kdf_sha1_def
      openssl_type_kdf_sha224_def openssl_type_kdf_sha256_def openssl_type_kdf_sha384_def
      openssl_type_kdf_sha512_def)
qed

lemma pbkdf_init_ok:
  assumes w: "w_pbkdf w = load_registry head PBKDF_NEXT (pbkdf_statics E)"
    and d: "distinct (map fst (pbkdf_statics E))" "NULL \<notin> fst ` set (pbkdf_statics E)"
      "head \<notin> (\<lambda>t. t + PBKDF_NEXT) ` fst ` set (pbkdf_statics E)"
  shows "\<exists>w'. pbkdf_openssl_init E w = Some (False, w') \<and>
    tmpl_repr pbkdf_layout w' (map fst (pbkdf_statics E)) \<and>
    map (tmpl_key pbkdf_layout w') (map fst (pbkdf_statics E)) = map Some pbkdf_names \<and>
    (\<forall>(a, ty) \<in> set (pbkdf_statics E). rg_types (w_pbkdf w') a = Some (ty\<lparr>pt_refcnt := 1\<rparr>)) \<and>
    errno w' = errno w \<and> (\<exists>R. w' = w\<lparr>w_pbkdf := R\<rparr>)"
proof -
  have "distinct pbkdf_names" by (simp add: pbkdf_names_def)
  moreover have "ly_get pbkdf_layout w = load_registry head (ly_off pbkdf_layout) (pbkdf_statics E)"
      "ly_inv pbkdf_layout w []" "head \<notin> (\<lambda>t. t + ly_off pbkdf_layout) ` fst ` set (pbkdf_statics E)"
    using w d(3) by (simp_all add: pbkdf_layout_def)
  ultimately obtain w' where "register_each (tmpl_register pbkdf_layout) (map fst (pbkdf_statics E)) w =
        Some (map (\<lambda>_. 0) (pbkdf_statics E), w')"
      "tmpl_repr pbkdf_layout w' (map fst (pbkdf_statics E))"
      "map (tmpl_key pbkdf_layout w') (map fst (pbkdf_statics E)) = map Some pbkdf_names"
      "\<forall>(a, ty) \<in> set (pbkdf_statics E). rg_types (ly_get pbkdf_layout w') a =
        Some (ly_refcnt_upd pbkdf_layout (\<lambda>_. 1) ty)"
      "errno w' = errno w" "ly_frame pbkdf_layout w w'"
    using pbkdf_lay.load_all [OF _ _ d(1,2) _ pbkdf_load(2) [OF w d]] by blast
  then show ?thesis
    by (intro exI [of _ w']) (auto simp: pbkdf_openssl_init_eq cfe_pbkdf_register_eq pbkdf_layout_def sum_list_0)
qed

text \<open>The name of each type and the digest behind it.\<close>

definition pbkdf_table :: "(string \<times> evp_md) list" where
  "pbkdf_table = zip pbkdf_names [EVP_sha1, EVP_sha224, EVP_sha256, EVP_sha384, EVP_sha512]"

lemma pbkdf_table_type:
  fixes E :: env
  assumes "(name, md) \<in> set pbkdf_table"
  obtains t ty f where "(t, ty) \<in> set (pbkdf_statics E)" and "pt_name ty = name" and "cstr name = name"
    and "pt_derive ty = Some f" and "\<And>rounds buf ilen salt slen olen v.
      call_derive E f rounds buf ilen salt slen olen v =
        (let (r, out) = e_PKCS5_PBKDF2_HMAC (evp E) buf (ucast ilen) salt (ucast slen) rounds md (ucast olen)
         in Some (if r = 1 then 0 else 1, out, v))"
proof -
  have "list_all2 (\<lambda>(name, md) (t, ty). pt_name ty = name \<and> cstr name = name \<and>
      (\<exists>f. pt_derive ty = Some f \<and> (\<forall>rounds buf ilen salt slen olen v.
      call_derive E f rounds buf ilen salt slen olen v =
        (let (r, out) = e_PKCS5_PBKDF2_HMAC (evp E) buf (ucast ilen) salt (ucast slen) rounds md (ucast olen)
         in Some (if r = 1 then 0 else 1, out, v))))) pbkdf_table (pbkdf_statics E)"
    by (simp add: pbkdf_table_def pbkdf_names_def pbkdf_statics_def cstr_def openssl_type_kdf_sha1_def
      openssl_type_kdf_sha224_def openssl_type_kdf_sha256_def openssl_type_kdf_sha384_def
      openssl_type_kdf_sha512_def openssl_pbkdf_sha1_def openssl_pbkdf_sha224_def
      openssl_pbkdf_sha256_def openssl_pbkdf_sha384_def openssl_pbkdf_sha512_def split_beta)
  from list_all2_member [OF this assms] obtain t ty f where "(t, ty) \<in> set (pbkdf_statics E)" "pt_name ty = name"
      "cstr name = name" "pt_derive ty = Some f" "\<forall>rounds buf ilen salt slen olen v.
      call_derive E f rounds buf ilen salt slen olen v =
        (let (r, out) = e_PKCS5_PBKDF2_HMAC (evp E) buf (ucast ilen) salt (ucast slen) rounds md (ucast olen)
         in Some (if r = 1 then 0 else 1, out, v))"
    by auto
  then show ?thesis by (intro that) blast+
qed

subsection \<open>The concrete environment\<close>

definition pbkdf_demo :: world where
  "pbkdf_demo = blank_world\<lparr>w_pbkdf := load_registry 16 PBKDF_NEXT (pbkdf_statics demo_env)\<rparr>"

lemma pbkdf_demo_image:
  "w_pbkdf pbkdf_demo = load_registry 16 PBKDF_NEXT (pbkdf_statics demo_env)"
  "distinct (map fst (pbkdf_statics demo_env))" "NULL \<notin> fst ` set (pbkdf_statics demo_env)"
  "16 \<notin> (\<lambda>t. t + PBKDF_NEXT) ` fst ` set (pbkdf_statics demo_env)"
  by (simp_all add: pbkdf_demo_def pbkdf_statics_def PBKDF_NEXT_def)

definition pbkdf_up :: world where
  "pbkdf_up = snd (the (pbkdf_openssl_init demo_env pbkdf_demo))"

lemma pbkdf_up:
  "pbkdf_openssl_init demo_env pbkdf_demo = Some (False, pbkdf_up)"
  "tmpl_repr pbkdf_layout pbkdf_up [12288, 12416, 12544, 12672, 12800]"
  "map (tmpl_key pbkdf_layout pbkdf_up) [12288, 12416, 12544, 12672, 12800] = map Some pbkdf_names"
  "rg_types (w_pbkdf pbkdf_up) 12288 = Some (openssl_type_kdf_sha1\<lparr>pt_refcnt := 1\<rparr>)"
proof -
  obtain w' where w': "pbkdf_openssl_init demo_env pbkdf_demo = Some (False, w')"
      "tmpl_repr pbkdf_layout w' (map fst (pbkdf_statics demo_env))"
      "map (tmpl_key pbkdf_layout w') (map fst (pbkdf_statics demo_env)) = map Some pbkdf_names"
      "\<forall>(a, ty) \<in> set (pbkdf_statics demo_env). rg_types (w_pbkdf w') a = Some (ty\<lparr>pt_refcnt := 1\<rparr>)"
    using pbkdf_init_ok [OF pbkdf_demo_image] by blast
  have u: "w' = pbkdf_up" using w'(1) by (simp add: pbkdf_up_def)
  show "pbkdf_openssl_init demo_env pbkdf_demo = Some (False, pbkdf_up)"
    "tmpl_repr pbkdf_layout pbkdf_up [12288, 12416, 12544, 12672, 12800]"
    "map (tmpl_key pbkdf_layout pbkdf_up) [12288, 12416, 12544, 12672, 12800] = map Some pbkdf_names"
    "rg_types (w_pbkdf pbkdf_up) 12288 = Some (openssl_type_kdf_sha1\<lparr>pt_refcnt := 1\<rparr>)"
    using w' by (simp_all add: u pbkdf_statics_def)
qed

subsection \<open>Properties\<close>

text \<open>C29: From the load image, the constructor of the OpenSSL key derivations registers all five types and does not
  abort, and afterwards a derivation under any of their names with a nonempty input is exactly one call
  of PKCS5_PBKDF2_HMAC with the digest of that name, the lengths cut to an int: the answer is 0 just when
  OpenSSL answers 1, and the world, reference counts included, is left as it was.\<close>

theorem pbkdf_library_derive:
  assumes w: "w_pbkdf w = load_registry head PBKDF_NEXT (pbkdf_statics E)"
    and d: "distinct (map fst (pbkdf_statics E))" "NULL \<notin> fst ` set (pbkdf_statics E)"
      "head \<notin> (\<lambda>t. t + PBKDF_NEXT) ` fst ` set (pbkdf_statics E)"
  shows "\<exists>w'. pbkdf_openssl_init E w = Some (False, w') \<and>
    (\<forall>(name, md) \<in> set pbkdf_table. \<forall>rounds buf ilen salt slen olen. ilen \<noteq> 0 \<longrightarrow>
      cfe_pbkdf_derive E (Some name) rounds (Some buf) ilen salt slen olen w' =
        (let (r, out) = e_PKCS5_PBKDF2_HMAC (evp E) buf (ucast ilen) salt (ucast slen) rounds md (ucast olen)
         in Some (if r = 1 then 0 else 1, out, w')))"
proof -
  obtain w' where w': "pbkdf_openssl_init E w = Some (False, w')"
      "tmpl_repr pbkdf_layout w' (map fst (pbkdf_statics E))"
      "\<forall>(a, ty) \<in> set (pbkdf_statics E). rg_types (w_pbkdf w') a = Some (ty\<lparr>pt_refcnt := 1\<rparr>)"
    using pbkdf_init_ok [OF w d] by blast
  have "cfe_pbkdf_derive E (Some name) rounds (Some buf) ilen salt slen olen w' =
        (let (r, out) = e_PKCS5_PBKDF2_HMAC (evp E) buf (ucast ilen) salt (ucast slen) rounds md (ucast olen)
         in Some (if r = 1 then 0 else 1, out, w'))"
    if n: "(name, md) \<in> set pbkdf_table" and i: "ilen \<noteq> 0" for name md rounds buf ilen salt slen olen
  proof -
    obtain t ty f where t: "(t, ty) \<in> set (pbkdf_statics E)" "pt_name ty = name" "cstr name = name"
        "pt_derive ty = Some f" "\<And>rounds buf ilen salt slen olen v.
      call_derive E f rounds buf ilen salt slen olen v =
        (let (r, out) = e_PKCS5_PBKDF2_HMAC (evp E) buf (ucast ilen) salt (ucast slen) rounds md (ucast olen)
         in Some (if r = 1 then 0 else 1, out, v))"
      by (rule pbkdf_table_type [OF n, where E = E]) blast
    have ty: "rg_types (w_pbkdf w') t = Some (ty\<lparr>pt_refcnt := 1\<rparr>)" using w'(3) t(1) by auto
    have key: "tmpl_key pbkdf_layout w' t = Some (cstr name)"
      using ty t(2,4) by (simp add: tmpl_key_def reg_key_def pbkdf_layout_def)
    have m: "t \<in> set (map fst (pbkdf_statics E))" using t(1) by force
    show ?thesis
      using cfe_pbkdf_derive_found [OF w'(2) m key i ty, of f E rounds buf salt slen olen] t(4)
      by (auto simp: t(5) split_beta)
  qed
  then show ?thesis using w'(1) by fast
qed

theorem pbkdf_library_derive_witness:
  "\<exists>w. pbkdf_openssl_init demo_env pbkdf_demo = Some (False, w) \<and>
    cfe_pbkdf_derive demo_env (Some ''pbkdf-sha256'') 1000 (Some [1]) 1 [2] 1 3 w = Some (0, replicate 3 7, w)"
proof -
  obtain w' where w': "pbkdf_openssl_init demo_env pbkdf_demo = Some (False, w')"
      "\<forall>(name, md) \<in> set pbkdf_table. \<forall>rounds buf ilen salt slen olen. ilen \<noteq> 0 \<longrightarrow>
      cfe_pbkdf_derive demo_env (Some name) rounds (Some buf) ilen salt slen olen w' =
        (let (r, out) = e_PKCS5_PBKDF2_HMAC (evp demo_env) buf (ucast ilen) salt (ucast slen) rounds md (ucast olen)
         in Some (if r = 1 then 0 else 1, out, w'))"
    using pbkdf_library_derive [OF pbkdf_demo_image] by blast
  have "cfe_pbkdf_derive demo_env (Some ''pbkdf-sha256'') 1000 (Some [1]) 1 [2] 1 3 w' = Some (0, replicate 3 7, w')"
    using w'(2) by (simp add: pbkdf_table_def pbkdf_names_def demo_evp_def)
  then show ?thesis using w'(1) by blast
qed

text \<open>A derivation without a name, without an input or with an empty input is refused with EINVAL, one under
  a name that is not registered with ENOSYS; no byte of the output is written, and nothing but errno
  changes.\<close>

theorem pbkdf_derive_refusals:
  assumes "tmpl_repr pbkdf_layout w xs"
    and "algname = None \<or> inp = None \<or> ilen = 0 \<or>
      Some (cstr (the algname)) \<notin> tmpl_key pbkdf_layout w ` set xs"
  shows "cfe_pbkdf_derive E algname rounds inp ilen salt slen olen w =
    Some (1, [], w\<lparr>errno := (if algname = None \<or> inp = None \<or> ilen = 0 then EINVAL else ENOSYS)\<rparr>)"
proof (cases "algname = None \<or> inp = None \<or> ilen = 0")
  case True
  then show ?thesis by (auto simp: cfe_pbkdf_derive_def split: option.splits)
next
  case False
  then show ?thesis using cfe_pbkdf_derive_missing [OF assms(1)] assms(2) by auto
qed

theorem pbkdf_derive_refusals_witness:
  "cfe_pbkdf_derive demo_env (Some ''pbkdf-md5'') 1 (Some [1]) 1 [] 0 8 pbkdf_up =
    Some (1, [], pbkdf_up\<lparr>errno := ENOSYS\<rparr>)"
proof -
  have "set (map (tmpl_key pbkdf_layout pbkdf_up) [12288, 12416, 12544, 12672, 12800]) = Some ` set pbkdf_names"
    using pbkdf_up(3) by simp
  then have "Some (cstr ''pbkdf-md5'') \<notin> tmpl_key pbkdf_layout pbkdf_up ` set [12288, 12416, 12544, 12672, 12800]"
    unfolding set_map by (simp add: pbkdf_names_def cstr_def)
  then show ?thesis
    using pbkdf_derive_refusals [OF pbkdf_up(2), of "Some ''pbkdf-md5''" "Some [1]" 1] by simp
qed

text \<open>Deregistering a key derivation to which there is no reference but the registry's succeeds; the name is
  then unknown (a derivation under it answers ENOSYS), every other registered type stays where it was,
  and the same object can be registered again, at the end of the list.\<close>

theorem pbkdf_unregister_then:
  assumes r: "tmpl_repr pbkdf_layout w xs" and t: "t \<in> set xs"
    and k: "tmpl_key pbkdf_layout w t = Some (cstr name)" and c: "tmpl_refs pbkdf_layout w t = Some c"
    and one: "cfe_atomic_get c = 1" and i: "ilen \<noteq> 0"
  shows "\<exists>w' w''. cfe_pbkdf_unregister t w = Some (0, w') \<and> tmpl_repr pbkdf_layout w' (remove1 t xs) \<and>
    cfe_pbkdf_derive E (Some name) rounds (Some buf) ilen salt slen olen w' = Some (1, [], w'\<lparr>errno := ENOSYS\<rparr>) \<and>
    cfe_pbkdf_register t w' = Some (0, w'') \<and> tmpl_repr pbkdf_layout w'' (remove1 t xs @ [t])"
proof -
  obtain w' where w': "cfe_pbkdf_unregister t w = Some (0, w')" "tmpl_repr pbkdf_layout w' (remove1 t xs)"
      "tmpl_key pbkdf_layout w' = tmpl_key pbkdf_layout w"
    using pbkdf.unregister_free [OF r t c _ one] by auto
  have d: "distinct (map (tmpl_key pbkdf_layout w) xs)" by (rule pbkdf.repr_distinct [OF r])
  then have gone: "Some (cstr name) \<notin> tmpl_key pbkdf_layout w' ` set (remove1 t xs)"
    using t k w'(3) by (force simp: distinct_map inj_on_def)
  obtain w'' where "cfe_pbkdf_register t w' = Some (0, w'')" "tmpl_repr pbkdf_layout w'' (remove1 t xs @ [t])"
    using pbkdf.register_new [OF w'(2), of t "cstr name"] gone k w'(3) by auto
  then show ?thesis using w' cfe_pbkdf_derive_missing [OF w'(2) gone i] by blast
qed

theorem pbkdf_unregister_then_witness:
  "\<exists>w' w''. cfe_pbkdf_unregister 12288 pbkdf_up = Some (0, w') \<and>
    cfe_pbkdf_derive demo_env (Some ''pbkdf-sha1'') 1 (Some [1]) 1 [] 0 8 w' = Some (1, [], w'\<lparr>errno := ENOSYS\<rparr>) \<and>
    cfe_pbkdf_register 12288 w' = Some (0, w'') \<and>
    tmpl_repr pbkdf_layout w'' [12416, 12544, 12672, 12800, 12288]"
proof -
  have k: "tmpl_key pbkdf_layout pbkdf_up 12288 = Some (cstr ''pbkdf-sha1'')"
    using pbkdf_up(3) by (simp add: pbkdf_names_def cstr_def)
  have c: "tmpl_refs pbkdf_layout pbkdf_up 12288 = Some 1"
    by (simp add: tmpl_refs_def pbkdf_layout_def pbkdf_up(4))
  show ?thesis
    using pbkdf_unregister_then [OF pbkdf_up(2) _ k c, of 1 demo_env 1 "[1]" "[]" 0 8]
    by (simp add: cfe_atomic_get_def) blast
qed

end
