(* ===== verification/Cfe_Rand.thy ===== *)
theory Cfe_Rand
  imports Cfe_Counted Cfe_Demo
begin

text \<open>
  \<^verbatim>\<open>src/crypto/rand.c\<close> and \<^verbatim>\<open>src/crypto/rand-openssl.c\<close>: the registry of random sources, the request
  for random bytes, and the OpenSSL source that a constructor registers. The name is a pointer here:
  a lookup reads the name of every registered type, which registration has checked.
\<close>

subsection \<open>The registry\<close>

text \<open>The offset of \<open>next\<close> in \<open>struct cfe_rand_type\<close>: after the name's pointer and the counter.\<close>

definition RAND_NEXT :: addr where "RAND_NEXT = 16"

abbreviation on_rand ::
  "(cfe_rand_type registry \<Rightarrow> cfe_rand_type registry option) \<Rightarrow> world \<Rightarrow> world option" where
  "on_rand f w \<equiv> map_option (\<lambda>R. w\<lparr>w_rand := R\<rparr>) (f (w_rand w))"

definition find_alg_rand :: "string \<Rightarrow> world \<Rightarrow> addr option" where
  "find_alg_rand name w = do {
     r \<leftarrow> list_for_each
       (\<lambda>pos. let tmp = list_entry pos RAND_NEXT in do {
          ty \<leftarrow> rg_types (w_rand w) tmp;
          tmp_name \<leftarrow> rt_name ty;
          Some (if strcmp name tmp_name = 0 then Some tmp else None)
        })
       (rg_nodes (w_rand w)) (rg_head (w_rand w));
     Some (case r of Some tmp \<Rightarrow> tmp | None \<Rightarrow> NULL)
   }"

definition cfe_rand_register :: "addr \<Rightarrow> world \<Rightarrow> (int \<times> world) option" where
  "cfe_rand_register type w = do {
     ty \<leftarrow> rg_types (w_rand w) type;
     if rt_name ty = None \<or> rt_get ty = None then Some (1, w\<lparr>errno := EINVAL\<rparr>)
     else do {
       w \<leftarrow> on_rand reg_wrlock w;
       name \<leftarrow> rt_name ty;
       tmp \<leftarrow> find_alg_rand name w;
       (ret, w) \<leftarrow>
         (if tmp \<noteq> NULL then Some (1, w\<lparr>errno := EBUSY\<rparr>)
          else do {
            w \<leftarrow> on_rand (reg_store type (rt_refcnt_update (\<lambda>v. cfe_atomic_set v 1))) w;
            w \<leftarrow> on_rand (reg_list (list_add_tail (type + RAND_NEXT) (rg_head (w_rand w)))) w;
            Some (0, w)
          });
       w \<leftarrow> on_rand reg_unlock w;
       Some (ret, w)
     }
   }"

definition cfe_rand_unregister :: "addr \<Rightarrow> world \<Rightarrow> (int \<times> world) option" where
  "cfe_rand_unregister type w = do {
     w \<leftarrow> on_rand reg_wrlock w;
     ty \<leftarrow> rg_types (w_rand w) type;
     (ret, w) \<leftarrow>
       (if cfe_atomic_get (rt_refcnt ty) \<noteq> 1 then Some (1, w\<lparr>errno := EBUSY\<rparr>)
        else do {
          w \<leftarrow> on_rand (reg_list (list_del_init (type + RAND_NEXT))) w;
          Some (0, w)
        });
     w \<leftarrow> on_rand reg_unlock w;
     Some (ret, w)
   }"

subsection \<open>Random bytes\<close>

text \<open>\<open>RAND_bytes\<close> takes an \<open>int\<close>: the low 32 bits of the size. The bytes are what it wrote.\<close>

definition openssl_rand_get :: "env \<Rightarrow> size_t \<Rightarrow> world \<Rightarrow> int \<times> bytes \<times> world" where
  "openssl_rand_get E sz w =
     (let (r, out, s) = e_RAND_bytes (evp E) (w_rng w) (ucast sz)
      in (if r \<noteq> 1 then 1 else 0, out, w\<lparr>w_rng := s\<rparr>))"

fun call_rand_get :: "env \<Rightarrow> rand_get_fn \<Rightarrow> size_t \<Rightarrow> world \<Rightarrow> (int \<times> bytes \<times> world) option" where
  "call_rand_get E Fn_openssl_rand_get sz w = Some (openssl_rand_get E sz w)"
| "call_rand_get E (Ext_get n) sz w = e_ext_get (app E) n sz w"

text \<open>\<open>buffer_null\<close> says that the buffer is NULL; the bytes of the result are what was stored in it.\<close>

definition cfe_rand_get :: "env \<Rightarrow> bool \<Rightarrow> size_t \<Rightarrow> world \<Rightarrow> (int \<times> bytes \<times> world) option" where
  "cfe_rand_get E buffer_null sz w =
     (if buffer_null \<or> sz = 0 then Some (1, [], w\<lparr>errno := EINVAL\<rparr>)
      else do {
        w \<leftarrow> on_rand reg_rdlock w;
        type \<leftarrow> find_alg_rand ''rand'' w;
        w \<leftarrow> (if type \<noteq> NULL then on_rand (reg_store type (rt_refcnt_update cfe_atomic_inc)) w
             else Some w);
        w \<leftarrow> on_rand reg_unlock w;
        if type = NULL then Some (1, [], w\<lparr>errno := ENOSYS\<rparr>)
        else do {
          ty \<leftarrow> rg_types (w_rand w) type;
          f \<leftarrow> rt_get ty;
          (ret, out, w) \<leftarrow> call_rand_get E f sz w;
          w \<leftarrow> on_rand (reg_store type (rt_refcnt_update cfe_atomic_dec)) w;
          Some (ret, out, w)
        }
      })"

definition openssl_type_rand :: cfe_rand_type where
  "openssl_type_rand = \<lparr>rt_name = Some ''rand'', rt_refcnt = 0, rt_get = Some Fn_openssl_rand_get\<rparr>"

subsection \<open>The constructor\<close>

definition rand_openssl_init_rdrand :: "env \<Rightarrow> int" where
  "rand_openssl_init_rdrand E =
     (if \<not> e_ENGINE_by_id_rdrand (evp E) then 1
      else if e_ENGINE_init (evp E) = 0 then 1
      else if e_ENGINE_set_default_RAND (evp E) = 0 then 1
      else 0)"

definition rand_openssl_init :: "env \<Rightarrow> world \<Rightarrow> (bool \<times> world) option" where
  "rand_openssl_init E w = do {
     let ret = rand_openssl_init_rdrand E;
     let w = (if ret \<noteq> 0 then cfe_log_notice E
           ''No hardware random number generator available. Using default'' [] w
         else w);
     (ret, w) \<leftarrow> cfe_rand_register (sym E ''openssl_type_rand'') w;
     Some (ret \<noteq> 0, w)
   }"

subsection \<open>The contract\<close>

definition rand_layout :: "(cfe_rand_type, string, string) layout" where
  "rand_layout =
     \<lparr>ly_get = w_rand, ly_put = (\<lambda>R w. w\<lparr>w_rand := R\<rparr>), ly_off = RAND_NEXT,
      ly_valid = (\<lambda>ty. rt_name ty \<noteq> None \<and> rt_get ty \<noteq> None), ly_name = rt_name, ly_canon = cstr,
      ly_match = (\<lambda>n ty. do { m \<leftarrow> rt_name ty; Some (strcmp n m = 0) }),
      ly_refcnt = rt_refcnt, ly_refcnt_upd = rt_refcnt_update,
      ly_post = (\<lambda>_ w. Some w), ly_pinned = (\<lambda>_ _. False), ly_inv = (\<lambda>_ _. True),
      ly_frame = (\<lambda>w w'. \<exists>R. w' = w\<lparr>w_rand := R\<rparr>)\<rparr>"

lemma rand_same: "\<exists>R. w = w\<lparr>w_rand := R\<rparr>"
  by (rule exI [of _ "w_rand w"]) simp

interpretation rand_lay: type_layout rand_layout
  by unfold_locales (auto simp: rand_layout_def strcmp_eq_0_iff rand_same map_conv_bind_option
      split: bind_splits)

lemma find_alg_rand_eq: "find_alg_rand = tmpl_find rand_layout"
  by (simp add: fun_eq_iff find_alg_rand_def tmpl_find_def rand_layout_def)

lemma cfe_rand_register_eq: "cfe_rand_register = tmpl_register rand_layout"
  unfolding fun_eq_iff cfe_rand_register_def tmpl_register_def find_alg_rand_eq on_reg_def
  by (simp add: rand_layout_def cong: if_cong)

lemma cfe_rand_unregister_eq: "cfe_rand_unregister = tmpl_unregister rand_layout"
  unfolding fun_eq_iff cfe_rand_unregister_def tmpl_unregister_def on_reg_def
  by (simp add: rand_layout_def cong: if_cong)

interpretation rand: type_registry "tmpl_repr rand_layout" "tmpl_key rand_layout"
  "tmpl_refs rand_layout" "tmpl_body rand_layout" "\<lambda>_ _. False" "\<lambda>w w'. \<exists>R. w' = w\<lparr>w_rand := R\<rparr>" cstr find_alg_rand
  cfe_rand_register cfe_rand_unregister "tmpl_acquire rand_layout" "tmpl_release rand_layout"
  using rand_lay.reg.type_registry_axioms
  unfolding find_alg_rand_eq cfe_rand_register_eq cfe_rand_unregister_eq
  by (simp add: rand_layout_def)

interpretation rand_cnt: counted_registry "tmpl_repr rand_layout" "tmpl_key rand_layout"
  "tmpl_refs rand_layout" "tmpl_body rand_layout" "\<lambda>_ _. False" "\<lambda>w w'. \<exists>R. w' = w\<lparr>w_rand := R\<rparr>" cstr find_alg_rand
  cfe_rand_register cfe_rand_unregister "tmpl_acquire rand_layout" "tmpl_release rand_layout"
  by unfold_locales simp

subsection \<open>Requests\<close>

lemma cfe_rand_get_eq:
  "cfe_rand_get E False sz w =
     (if sz = 0 then Some (1, [], w\<lparr>errno := EINVAL\<rparr>)
      else do {
        (type, w) \<leftarrow> tmpl_acquire rand_layout ''rand'' w;
        if type = NULL then Some (1, [], w\<lparr>errno := ENOSYS\<rparr>)
        else do {
          ty \<leftarrow> rg_types (w_rand w) type;
          f \<leftarrow> rt_get ty;
          (ret, out, w) \<leftarrow> call_rand_get E f sz w;
          w \<leftarrow> tmpl_release rand_layout type w;
          Some (ret, out, w)
        }
      })"
  unfolding cfe_rand_get_def tmpl_acquire_def tmpl_release_def find_alg_rand_eq on_reg_def
  by (simp add: rand_layout_def cong: if_cong)

text \<open>
  A release only changes the reference count it is given, so it commutes with a change to any other
  part of the world: a call that stays away from the registry gives the registry back as it was.
\<close>

lemma rand_release_rng:
  assumes "tmpl_release rand_layout t v = Some w"
  shows "tmpl_release rand_layout t (v\<lparr>w_rng := s\<rparr>) = Some (w\<lparr>w_rng := s\<rparr>)"
  using assms
  by (auto simp: tmpl_release_def on_reg_def reg_store_def rand_layout_def split: bind_splits)

lemma cfe_rand_get_openssl:
  assumes r: "tmpl_repr rand_layout w xs" and t: "t \<in> set xs"
    and k: "tmpl_key rand_layout w t = Some ''rand''" and "sz \<noteq> 0"
    and ty: "rg_types (w_rand w) t = Some ty" and f: "rt_get ty = Some Fn_openssl_rand_get"
  shows "cfe_rand_get E False sz w =
    (let (r, out, s) = e_RAND_bytes (evp E) (w_rng w) (ucast sz)
     in Some (if r = 1 then 0 else 1, out, w\<lparr>w_rng := s\<rparr>))"
proof -
  have c: "tmpl_refs rand_layout w t = Some (rt_refcnt ty)"
    using ty by (simp add: tmpl_refs_def rand_layout_def)
  obtain v where v: "tmpl_acquire rand_layout ''rand'' w = Some (t, v)"
      "tmpl_release rand_layout t v = Some w"
    using rand.acquire_found [OF r t _ c, of "''rand''"] k by (auto simp: cstr_def)
  have rng: "w_rng v = w_rng w"
    using v(2) by (auto simp: tmpl_release_def on_reg_def reg_store_def rand_layout_def split: bind_splits)
  obtain tv where tv: "rg_types (w_rand v) t = Some tv" "rt_get tv = Some Fn_openssl_rand_get"
    using v(2) ty f
    by (auto simp: tmpl_release_def on_reg_def reg_store_def rand_layout_def split: bind_splits)
  have nn: "t \<noteq> NULL" using rand.repr_nonnull [OF r] t by auto
  then show ?thesis
    using v tv assms(4) rng rand_release_rng [OF v(2)]
    by (simp add: cfe_rand_get_eq openssl_rand_get_def split_beta)
qed

text \<open>The constructor of the OpenSSL source, from the load image.\<close>

lemma rand_openssl_init_ok:
  assumes w: "w_rand w = load_registry head RAND_NEXT [(a, openssl_type_rand)]"
    and a: "a = sym E ''openssl_type_rand''" and d: "a \<noteq> NULL" "a + RAND_NEXT \<noteq> head"
  shows "\<exists>w'. rand_openssl_init E w = Some (False, w') \<and> tmpl_repr rand_layout w' [a] \<and>
    tmpl_key rand_layout w' a = Some ''rand'' \<and> tmpl_refs rand_layout w' a = Some 1 \<and>
    rg_types (w_rand w') a = Some (openssl_type_rand\<lparr>rt_refcnt := 1\<rparr>) \<and>
    (\<exists>R m. w' = w\<lparr>w_rand := R, w_stderr := m\<rparr>)"
proof -
  define v where "v = (if rand_openssl_init_rdrand E \<noteq> 0 then cfe_log_notice E
           ''No hardware random number generator available. Using default'' [] w else w)"
  have vr: "w_rand v = w_rand w"
    by (simp add: v_def cfe_log_notice_def cfe_log_message_frame)
  have o: "ly_off rand_layout = RAND_NEXT" by (simp add: rand_layout_def)
  have ok: "reg_ok rand_layout (w_rand v) []"
    unfolding vr w by (rule load_registry_ok [of _ rand_layout, unfolded o]) (use d in auto)
  then have r: "tmpl_repr rand_layout v []" by (simp add: tmpl_repr_def rand_layout_def vr w)
  have k: "tmpl_key rand_layout v a = Some ''rand''"
    by (simp add: tmpl_key_def reg_key_def rand_layout_def vr w openssl_type_rand_def cstr_def)
  obtain u where u: "cfe_rand_register a v = Some (0, u)" "tmpl_repr rand_layout u [a]"
      "tmpl_key rand_layout u = tmpl_key rand_layout v"
      "tmpl_refs rand_layout u = (tmpl_refs rand_layout v)(a \<mapsto> 1)" "\<exists>R. u = v\<lparr>w_rand := R\<rparr>"
    using rand.register_new [OF r k] by auto
  have "rg_types (w_rand u) a = Some (openssl_type_rand\<lparr>rt_refcnt := 1\<rparr>)"
    using u(1) by (auto simp: cfe_rand_register_def vr w reg_wrlock_def reg_store_def reg_list_def
        reg_unlock_def split: bind_splits if_splits)
  moreover
  have "\<exists>m. v = w\<lparr>w_stderr := m\<rparr>"
    by (auto simp: v_def cfe_log_notice_def cfe_log_message_frame intro: exI [of _ "w_stderr w"])
  then obtain m R where "u = w\<lparr>w_stderr := m, w_rand := R\<rparr>" using u(5) by auto
  then have "\<exists>R m. u = w\<lparr>w_rand := R, w_stderr := m\<rparr>"
    by (intro exI [of _ R] exI [of _ m]) simp
  moreover have "rand_openssl_init E w = Some (False, u)"
    using u(1) by (simp add: rand_openssl_init_def v_def Let_def a [symmetric] cong: if_cong)
  ultimately show ?thesis using u k by auto
qed

subsection \<open>The concrete environment\<close>

definition rand_demo :: world where
  "rand_demo = blank_world\<lparr>w_rand := load_registry 32 RAND_NEXT [(16384, openssl_type_rand)]\<rparr>"

lemma rand_demo_image:
  "w_rand rand_demo = load_registry 32 RAND_NEXT [(16384, openssl_type_rand)]"
  "16384 = sym demo_env ''openssl_type_rand''" "16384 \<noteq> NULL" "16384 + RAND_NEXT \<noteq> 32"
  by (simp_all add: rand_demo_def RAND_NEXT_def)

definition rand_up :: world where
  "rand_up = snd (the (rand_openssl_init demo_env rand_demo))"

lemma rand_up:
  "rand_openssl_init demo_env rand_demo = Some (False, rand_up)"
  "tmpl_repr rand_layout rand_up [16384]" "tmpl_key rand_layout rand_up 16384 = Some (cstr ''rand'')"
  "tmpl_refs rand_layout rand_up 16384 = Some 1"
proof -
  obtain w' where w': "rand_openssl_init demo_env rand_demo = Some (False, w')"
      "tmpl_repr rand_layout w' [16384]" "tmpl_key rand_layout w' 16384 = Some ''rand''"
      "tmpl_refs rand_layout w' 16384 = Some 1"
    using rand_openssl_init_ok [OF rand_demo_image] by auto
  have u: "w' = rand_up" using w'(1) by (simp add: rand_up_def)
  show "rand_openssl_init demo_env rand_demo = Some (False, rand_up)"
    "tmpl_repr rand_layout rand_up [16384]" "tmpl_key rand_layout rand_up 16384 = Some (cstr ''rand'')"
    "tmpl_refs rand_layout rand_up 16384 = Some 1"
    using w' by (simp_all add: u cstr_def)
qed

subsection \<open>Properties\<close>

text \<open>C30: From the load image, the constructor of the OpenSSL generator registers the type rand and does not abort,
  and afterwards a request for random bytes into a buffer asks OpenSSL for the size cut to 32 bits (a
  request for 2^32 bytes asks for none and can still answer 0), answers 0 just when OpenSSL answers 1,
  and changes only the state of the generator; a request without a buffer or for no bytes is refused
  with EINVAL.\<close>

theorem rand_library_get:
  assumes w: "w_rand w = load_registry head RAND_NEXT [(sym E ''openssl_type_rand'', openssl_type_rand)]"
    and d: "sym E ''openssl_type_rand'' \<noteq> NULL" "sym E ''openssl_type_rand'' + RAND_NEXT \<noteq> head"
  shows "\<exists>w'. rand_openssl_init E w = Some (False, w') \<and> (\<forall>buffer_null sz rng.
    cfe_rand_get E buffer_null sz (w'\<lparr>w_rng := rng\<rparr>) =
      (if buffer_null \<or> sz = 0 then Some (1, [], w'\<lparr>w_rng := rng, errno := EINVAL\<rparr>)
       else let (r, out, rng') = e_RAND_bytes (evp E) rng (of_nat (unat sz mod 2 ^ 32))
         in Some (if r = 1 then 0 else 1, out, w'\<lparr>w_rng := rng'\<rparr>)))"
proof -
  let ?a = "sym E ''openssl_type_rand''"
  obtain w' where w': "rand_openssl_init E w = Some (False, w')" "tmpl_repr rand_layout w' [?a]"
      "tmpl_key rand_layout w' ?a = Some ''rand''"
      "rg_types (w_rand w') ?a = Some (openssl_type_rand\<lparr>rt_refcnt := 1\<rparr>)"
    using rand_openssl_init_ok [OF w refl d] by blast
  have cut: "(ucast sz :: cint) = of_nat (unat sz mod 2 ^ 32)" for sz :: size_t
    by (simp add: word_unat_eq_iff unat_of_nat unsigned_ucast_eq take_bit_eq_mod)
  have "cfe_rand_get E b sz (w'\<lparr>w_rng := rng\<rparr>) =
      (if b \<or> sz = 0 then Some (1, [], w'\<lparr>w_rng := rng, errno := EINVAL\<rparr>)
       else let (r, out, rng') = e_RAND_bytes (evp E) rng (of_nat (unat sz mod 2 ^ 32))
         in Some (if r = 1 then 0 else 1, out, w'\<lparr>w_rng := rng'\<rparr>))" for b sz rng
  proof (cases "b \<or> sz = 0")
    case True
    then show ?thesis by (simp add: cfe_rand_get_def)
  next
    case False
    have h: "tmpl_repr rand_layout (w'\<lparr>w_rng := rng\<rparr>) [?a]"
        "tmpl_key rand_layout (w'\<lparr>w_rng := rng\<rparr>) ?a = Some ''rand''"
      using w'(2,3) by (simp_all add: tmpl_repr_def tmpl_key_def rand_layout_def)
    have "cfe_rand_get E False sz (w'\<lparr>w_rng := rng\<rparr>) =
        (let (r, out, s) = e_RAND_bytes (evp E) (w_rng (w'\<lparr>w_rng := rng\<rparr>)) (ucast sz)
         in Some (if r = 1 then 0 else 1, out, w'\<lparr>w_rng := rng, w_rng := s\<rparr>))"
      by (rule cfe_rand_get_openssl [OF h(1) _ h(2), where ty = "openssl_type_rand\<lparr>rt_refcnt := 1\<rparr>"]) (use False w'(4) in \<open>simp_all add: openssl_type_rand_def\<close>)
    then show ?thesis using False by (simp add: cut)
  qed
  then show ?thesis using w'(1) by blast
qed

theorem rand_library_get_witness:
  "\<exists>w. rand_openssl_init demo_env rand_demo = Some (False, w) \<and>
    cfe_rand_get demo_env False (2 ^ 32) (w\<lparr>w_rng := 5\<rparr>) = Some (0, [], w\<lparr>w_rng := 6\<rparr>)"
proof -
  obtain w' where w': "rand_openssl_init demo_env rand_demo = Some (False, w')" "\<forall>buffer_null sz rng.
    cfe_rand_get demo_env buffer_null sz (w'\<lparr>w_rng := rng\<rparr>) =
      (if buffer_null \<or> sz = 0 then Some (1, [], w'\<lparr>w_rng := rng, errno := EINVAL\<rparr>)
       else let (r, out, rng') = e_RAND_bytes (evp demo_env) rng (of_nat (unat sz mod 2 ^ 32))
         in Some (if r = 1 then 0 else 1, out, w'\<lparr>w_rng := rng'\<rparr>))"
    using rand_library_get [OF rand_demo_image(1,3,4) [unfolded rand_demo_image(2)]] by blast
  have "cfe_rand_get demo_env False (2 ^ 32) (w'\<lparr>w_rng := 5\<rparr>) = Some (0, [], w'\<lparr>w_rng := 6\<rparr>)"
    by (subst w'(2) [rule_format]) (simp add: demo_evp_def)
  then show ?thesis using w'(1) by blast
qed

text \<open>Registering a generator under a new name succeeds, the lookup then finds it, a second registration is
  refused with EBUSY and changes nothing else, and no other name is looked up differently.\<close>

theorem rand_register_once:
  assumes "tmpl_repr rand_layout w xs" and "tmpl_key rand_layout w t = Some (cstr name)"
    and "Some (cstr name) \<notin> tmpl_key rand_layout w ` set xs"
  shows "\<exists>w'. cfe_rand_register t w = Some (0, w') \<and> find_alg_rand name w' = Some t \<and>
    cfe_rand_register t w' = Some (1, w'\<lparr>errno := EBUSY\<rparr>) \<and>
    (\<forall>other. cstr other \<noteq> cstr name \<longrightarrow> find_alg_rand other w' = find_alg_rand other w)"
  by (rule rand.register_find [OF assms])

theorem rand_register_once_witness:
  "\<exists>w w'. cfe_rand_register 16384 w = Some (0, w') \<and> find_alg_rand ''rand'' w' = Some 16384 \<and>
    cfe_rand_register 16384 w' = Some (1, w'\<lparr>errno := EBUSY\<rparr>)"
proof -
  obtain w where w: "cfe_rand_unregister 16384 rand_up = Some (0, w)" "tmpl_repr rand_layout w []"
      "tmpl_key rand_layout w = tmpl_key rand_layout rand_up"
    using rand.unregister_free [OF rand_up(2) _ rand_up(4)] by (auto simp: cfe_atomic_get_def)
  then show ?thesis using rand_register_once [OF w(2), of 16384 "''rand''"] rand_up(3) by auto
qed

end
