(* ===== verification/Cfe_Hash.thy ===== *)
theory Cfe_Hash
  imports Cfe_Counted Cfe_Demo
begin

text \<open>
  \<^verbatim>\<open>src/crypto/hash.c\<close> and \<^verbatim>\<open>src/crypto/hash-openssl.c\<close>: the registry of hash functions, the life of a
  hash context, and the five OpenSSL types. A context holds a reference to its type: the lemmas show
  that the allocation takes it, that the destruction drops it, and what every failure leaves behind.
\<close>

subsection \<open>The registry\<close>

text \<open>
  The offset of \<open>next\<close> in \<open>struct cfe_hash_type\<close>: after the name's pointer, the digest size (padded)
  and the counter.
\<close>

definition HASH_NEXT :: addr where "HASH_NEXT = 24"

abbreviation on_hash ::
  "(cfe_hash_type registry \<Rightarrow> cfe_hash_type registry option) \<Rightarrow> world \<Rightarrow> world option" where
  "on_hash f w \<equiv> map_option (\<lambda>R. w\<lparr>w_hash := R\<rparr>) (f (w_hash w))"

definition find_alg_hash :: "string \<Rightarrow> world \<Rightarrow> addr option" where
  "find_alg_hash name w = do {
     r \<leftarrow> list_for_each
       (\<lambda>pos. let tmp = list_entry pos HASH_NEXT in do {
          ty \<leftarrow> rg_types (w_hash w) tmp;
          tmp_name \<leftarrow> ht_name ty;
          Some (if strcmp name tmp_name = 0 then Some tmp else None)
        })
       (rg_nodes (w_hash w)) (rg_head (w_hash w));
     Some (case r of Some tmp \<Rightarrow> tmp | None \<Rightarrow> NULL)
   }"

definition cfe_hash_register :: "addr \<Rightarrow> world \<Rightarrow> (int \<times> world) option" where
  "cfe_hash_register type w = do {
     ty \<leftarrow> rg_types (w_hash w) type;
     if ht_name ty = None \<or> ht_digestsize ty = 0 \<or> ht_alloc_ctx ty = None
     then Some (1, w\<lparr>errno := EINVAL\<rparr>)
     else do {
       w \<leftarrow> on_hash reg_wrlock w;
       name \<leftarrow> ht_name ty;
       tmp \<leftarrow> find_alg_hash name w;
       (ret, w) \<leftarrow>
         (if tmp \<noteq> NULL then Some (1, w\<lparr>errno := EBUSY\<rparr>)
          else do {
            w \<leftarrow> on_hash (reg_store type (ht_refcnt_update (\<lambda>v. cfe_atomic_set v 1))) w;
            w \<leftarrow> on_hash (reg_list (list_add_tail (type + HASH_NEXT) (rg_head (w_hash w)))) w;
            Some (0, w)
          });
       w \<leftarrow> on_hash reg_unlock w;
       Some (ret, w)
     }
   }"

definition cfe_hash_unregister :: "addr \<Rightarrow> world \<Rightarrow> (int \<times> world) option" where
  "cfe_hash_unregister type w = do {
     w \<leftarrow> on_hash reg_wrlock w;
     ty \<leftarrow> rg_types (w_hash w) type;
     (ret, w) \<leftarrow>
       (if cfe_atomic_get (ht_refcnt ty) \<noteq> 1 then Some (1, w\<lparr>errno := EBUSY\<rparr>)
        else do {
          w \<leftarrow> on_hash (reg_list (list_del_init (type + HASH_NEXT))) w;
          Some (0, w)
        });
     w \<leftarrow> on_hash reg_unlock w;
     Some (ret, w)
   }"

subsection \<open>The OpenSSL contexts\<close>

text \<open>
  \<open>struct openssl_generic_ctx\<close> is a pointer, the \<open>EVP_MD_CTX\<close> and the base context of two pointers:
  the offset of \<open>base\<close>, and the size of it all.
\<close>

definition OCTX_BASE_hash :: "env \<Rightarrow> addr" where
  "OCTX_BASE_hash E = 8 + e_sizeof_EVP_MD_CTX (evp E)"

definition OCTX_SIZE_hash :: "env \<Rightarrow> size_t" where
  "OCTX_SIZE_hash E = 8 + e_sizeof_EVP_MD_CTX (evp E) + 16"

definition OPENSSL_CTX_hash :: "env \<Rightarrow> addr \<Rightarrow> addr" where
  "OPENSSL_CTX_hash E ctx = ctx - OCTX_BASE_hash E"

text \<open>A store to the \<open>EVP_MD_CTX\<close> of an OpenSSL context.\<close>

definition set_mdctx :: "addr \<Rightarrow> bytes \<Rightarrow> world \<Rightarrow> world option" where
  "set_mdctx octx b w = do {
     ob \<leftarrow> w_hash_octxs w octx;
     Some (w\<lparr>w_hash_octxs := (w_hash_octxs w)(octx \<mapsto> ob\<lparr>oh_mdctx := b\<rparr>)\<rparr>)
   }"

definition openssl_generic_ctx_init_hash :: "env \<Rightarrow> addr \<Rightarrow> world \<Rightarrow> (int \<times> world) option" where
  "openssl_generic_ctx_init_hash E ctx w = do {
     let octx = OPENSSL_CTX_hash E ctx;
     ob \<leftarrow> w_hash_octxs w octx;
     let (r, b) = e_DigestInit_ex (evp E) (oh_mdctx ob) (oh_md ob);
     w \<leftarrow> set_mdctx octx b w;
     Some (if r = 0 then 1 else 0, w)
   }"

definition openssl_generic_ctx_update_hash ::
  "env \<Rightarrow> addr \<Rightarrow> bytes \<Rightarrow> size_t \<Rightarrow> world \<Rightarrow> (int \<times> world) option" where
  "openssl_generic_ctx_update_hash E ctx buffer sz w = do {
     let octx = OPENSSL_CTX_hash E ctx;
     ob \<leftarrow> w_hash_octxs w octx;
     let (r, b) = e_DigestUpdate (evp E) (oh_mdctx ob) buffer sz;
     w \<leftarrow> set_mdctx octx b w;
     Some (if r = 0 then 1 else 0, w)
   }"

definition openssl_generic_ctx_finalize_hash ::
  "env \<Rightarrow> addr \<Rightarrow> world \<Rightarrow> (int \<times> bytes \<times> world) option" where
  "openssl_generic_ctx_finalize_hash E ctx w = do {
     let octx = OPENSSL_CTX_hash E ctx;
     ob \<leftarrow> w_hash_octxs w octx;
     let (r, out, b) = e_DigestFinal (evp E) (oh_mdctx ob);
     w \<leftarrow> set_mdctx octx b w;
     Some (if r = 0 then 1 else 0, out, w)
   }"

text \<open>The block is freed, and with it the base context inside it.\<close>

definition openssl_destroy_ctx_hash :: "env \<Rightarrow> addr \<Rightarrow> world \<Rightarrow> world option" where
  "openssl_destroy_ctx_hash E ctx w = do {
     let octx = OPENSSL_CTX_hash E ctx;
     _ \<leftarrow> w_hash_octxs w octx;
     h \<leftarrow> cfe_free octx (w_hash_octxs w);
     Some (w\<lparr>w_hash_octxs := h, w_hash_ctxs := (w_hash_ctxs w)(ctx := None)\<rparr>)
   }"

text \<open>
  The result is \<open>&octx->base\<close> whether the allocation succeeded or not: without memory it is the
  offset of the field.
\<close>

definition openssl_alloc_ctx_hash :: "env \<Rightarrow> addr \<Rightarrow> evp_md \<Rightarrow> world \<Rightarrow> (addr \<times> world) option" where
  "openssl_alloc_ctx_hash E type md w = do {
     let (octx, w) = cfe_calloc E 1 (OCTX_SIZE_hash E) w;
     let w = (if octx \<noteq> NULL then
         w\<lparr>w_hash_octxs := (w_hash_octxs w)(octx \<mapsto>
             \<lparr>oh_md = Some md, oh_mdctx = replicate (unat (e_sizeof_EVP_MD_CTX (evp E))) 0\<rparr>),
           w_hash_ctxs := (w_hash_ctxs w)(octx + OCTX_BASE_hash E \<mapsto>
             \<lparr>hc_ops = Some Openssl_generic_ctx_ops, hc_type = type\<rparr>)\<rparr>
       else w);
     Some (octx + OCTX_BASE_hash E, w)
   }"

definition openssl_sha1_alloc_ctx :: "env \<Rightarrow> world \<Rightarrow> (addr \<times> world) option" where
  "openssl_sha1_alloc_ctx E w = openssl_alloc_ctx_hash E (sym E ''openssl_type_sha1'') EVP_sha1 w"

definition openssl_sha224_alloc_ctx :: "env \<Rightarrow> world \<Rightarrow> (addr \<times> world) option" where
  "openssl_sha224_alloc_ctx E w = openssl_alloc_ctx_hash E (sym E ''openssl_type_sha224'') EVP_sha224 w"

definition openssl_sha256_alloc_ctx :: "env \<Rightarrow> world \<Rightarrow> (addr \<times> world) option" where
  "openssl_sha256_alloc_ctx E w = openssl_alloc_ctx_hash E (sym E ''openssl_type_sha256'') EVP_sha256 w"

definition openssl_sha384_alloc_ctx :: "env \<Rightarrow> world \<Rightarrow> (addr \<times> world) option" where
  "openssl_sha384_alloc_ctx E w = openssl_alloc_ctx_hash E (sym E ''openssl_type_sha384'') EVP_sha384 w"

definition openssl_sha512_alloc_ctx :: "env \<Rightarrow> world \<Rightarrow> (addr \<times> world) option" where
  "openssl_sha512_alloc_ctx E w = openssl_alloc_ctx_hash E (sym E ''openssl_type_sha512'') EVP_sha512 w"

text \<open>The calls through the function pointers.\<close>

fun call_hash_alloc :: "env \<Rightarrow> hash_alloc_fn \<Rightarrow> world \<Rightarrow> (addr \<times> world) option" where
  "call_hash_alloc E Fn_openssl_sha1_alloc_ctx w = openssl_sha1_alloc_ctx E w"
| "call_hash_alloc E Fn_openssl_sha224_alloc_ctx w = openssl_sha224_alloc_ctx E w"
| "call_hash_alloc E Fn_openssl_sha256_alloc_ctx w = openssl_sha256_alloc_ctx E w"
| "call_hash_alloc E Fn_openssl_sha384_alloc_ctx w = openssl_sha384_alloc_ctx E w"
| "call_hash_alloc E Fn_openssl_sha512_alloc_ctx w = openssl_sha512_alloc_ctx E w"
| "call_hash_alloc E (Ext_hash_alloc n) w = e_ext_hash_alloc (apph E) n w"

fun call_hash_init :: "env \<Rightarrow> hash_ops \<Rightarrow> addr \<Rightarrow> world \<Rightarrow> (int \<times> world) option" where
  "call_hash_init E Openssl_generic_ctx_ops ctx w = openssl_generic_ctx_init_hash E ctx w"
| "call_hash_init E (Ext_hash_ops n) ctx w = e_ext_hash_init (apph E) n ctx w"

fun call_hash_update ::
  "env \<Rightarrow> hash_ops \<Rightarrow> addr \<Rightarrow> bytes \<Rightarrow> size_t \<Rightarrow> world \<Rightarrow> (int \<times> world) option" where
  "call_hash_update E Openssl_generic_ctx_ops ctx b n w = openssl_generic_ctx_update_hash E ctx b n w"
| "call_hash_update E (Ext_hash_ops k) ctx b n w = e_ext_hash_update (apph E) k ctx b n w"

fun call_hash_finalize ::
  "env \<Rightarrow> hash_ops \<Rightarrow> addr \<Rightarrow> world \<Rightarrow> (int \<times> bytes \<times> world) option" where
  "call_hash_finalize E Openssl_generic_ctx_ops ctx w = openssl_generic_ctx_finalize_hash E ctx w"
| "call_hash_finalize E (Ext_hash_ops n) ctx w = e_ext_hash_finalize (apph E) n ctx w"

fun call_hash_destroy :: "env \<Rightarrow> hash_ops \<Rightarrow> addr \<Rightarrow> world \<Rightarrow> world option" where
  "call_hash_destroy E Openssl_generic_ctx_ops ctx w = openssl_destroy_ctx_hash E ctx w"
| "call_hash_destroy E (Ext_hash_ops n) ctx w = e_ext_hash_destroy (apph E) n ctx w"

subsection \<open>Hash contexts\<close>

text \<open>The result is the context, NULL for a failure.\<close>

definition cfe_hash_alloc_ctx :: "env \<Rightarrow> string \<Rightarrow> world \<Rightarrow> (addr \<times> world) option" where
  "cfe_hash_alloc_ctx E algname w = do {
     w \<leftarrow> on_hash reg_rdlock w;
     type \<leftarrow> find_alg_hash algname w;
     w \<leftarrow> (if type \<noteq> NULL then on_hash (reg_store type (ht_refcnt_update cfe_atomic_inc)) w else Some w);
     w \<leftarrow> on_hash reg_unlock w;
     if type = NULL then Some (NULL, w\<lparr>errno := ENOSYS\<rparr>)
     else do {
       ty \<leftarrow> rg_types (w_hash w) type;
       f \<leftarrow> ht_alloc_ctx ty;
       (ctx, w) \<leftarrow> call_hash_alloc E f w;
       if ctx = NULL then do {
         w \<leftarrow> on_hash (reg_store type (ht_refcnt_update cfe_atomic_dec)) w;
         Some (NULL, w)
       }
       else do {
         c \<leftarrow> w_hash_ctxs w ctx;
         Some (ctx, w\<lparr>w_hash_ctxs := (w_hash_ctxs w)(ctx \<mapsto> c\<lparr>hc_type := type\<rparr>)\<rparr>)
       }
     }
   }"

definition cfe_hash_destroy_ctx :: "env \<Rightarrow> addr \<Rightarrow> world \<Rightarrow> world option" where
  "cfe_hash_destroy_ctx E ctx w =
     (if ctx = NULL then Some w
      else do {
        c \<leftarrow> w_hash_ctxs w ctx;
        let type = hc_type c;
        ops \<leftarrow> hc_ops c;
        w \<leftarrow> call_hash_destroy E ops ctx w;
        on_hash (reg_store type (ht_refcnt_update cfe_atomic_dec)) w
      })"

definition cfe_hash_ctx_init :: "env \<Rightarrow> addr \<Rightarrow> world \<Rightarrow> (int \<times> world) option" where
  "cfe_hash_ctx_init E ctx w =
     (if ctx = NULL then Some (1, w\<lparr>errno := EINVAL\<rparr>)
      else do {
        c \<leftarrow> w_hash_ctxs w ctx;
        ops \<leftarrow> hc_ops c;
        call_hash_init E ops ctx w
      })"

definition cfe_hash_ctx_update ::
  "env \<Rightarrow> addr \<Rightarrow> bytes \<Rightarrow> size_t \<Rightarrow> world \<Rightarrow> (int \<times> world) option" where
  "cfe_hash_ctx_update E ctx buffer sz w =
     (if ctx = NULL then Some (1, w\<lparr>errno := EINVAL\<rparr>)
      else do {
        c \<leftarrow> w_hash_ctxs w ctx;
        ops \<leftarrow> hc_ops c;
        call_hash_update E ops ctx buffer sz w
      })"

definition cfe_hash_ctx_finalize :: "env \<Rightarrow> addr \<Rightarrow> world \<Rightarrow> (int \<times> bytes \<times> world) option" where
  "cfe_hash_ctx_finalize E ctx w =
     (if ctx = NULL then Some (1, [], w\<lparr>errno := EINVAL\<rparr>)
      else do {
        c \<leftarrow> w_hash_ctxs w ctx;
        ops \<leftarrow> hc_ops c;
        call_hash_finalize E ops ctx w
      })"

text \<open>An \<open>unsigned\<close> returned as an \<open>int\<close>.\<close>

definition cfe_hash_ctx_digestsize :: "addr \<Rightarrow> world \<Rightarrow> (int \<times> world) option" where
  "cfe_hash_ctx_digestsize ctx w =
     (if ctx = NULL then Some (- 1, w\<lparr>errno := EINVAL\<rparr>)
      else do {
        c \<leftarrow> w_hash_ctxs w ctx;
        ty \<leftarrow> rg_types (w_hash w) (hc_type c);
        Some (sint (ht_digestsize ty), w)
      })"

subsection \<open>The static types and the constructor\<close>

definition openssl_type_sha1 :: cfe_hash_type where
  "openssl_type_sha1 = \<lparr>ht_name = Some ''sha1'', ht_digestsize = 20, ht_refcnt = 0,
     ht_alloc_ctx = Some Fn_openssl_sha1_alloc_ctx\<rparr>"

definition openssl_type_sha224 :: cfe_hash_type where
  "openssl_type_sha224 = \<lparr>ht_name = Some ''sha224'', ht_digestsize = 28, ht_refcnt = 0,
     ht_alloc_ctx = Some Fn_openssl_sha224_alloc_ctx\<rparr>"

definition openssl_type_sha256 :: cfe_hash_type where
  "openssl_type_sha256 = \<lparr>ht_name = Some ''sha256'', ht_digestsize = 32, ht_refcnt = 0,
     ht_alloc_ctx = Some Fn_openssl_sha256_alloc_ctx\<rparr>"

definition openssl_type_sha384 :: cfe_hash_type where
  "openssl_type_sha384 = \<lparr>ht_name = Some ''sha384'', ht_digestsize = 48, ht_refcnt = 0,
     ht_alloc_ctx = Some Fn_openssl_sha384_alloc_ctx\<rparr>"

definition openssl_type_sha512 :: cfe_hash_type where
  "openssl_type_sha512 = \<lparr>ht_name = Some ''sha512'', ht_digestsize = 64, ht_refcnt = 0,
     ht_alloc_ctx = Some Fn_openssl_sha512_alloc_ctx\<rparr>"

text \<open>The sum of the return codes is computed and dropped.\<close>

definition hash_openssl_init :: "env \<Rightarrow> world \<Rightarrow> world option" where
  "hash_openssl_init E w = do {
     (r1, w) \<leftarrow> cfe_hash_register (sym E ''openssl_type_sha1'') w;
     (r2, w) \<leftarrow> cfe_hash_register (sym E ''openssl_type_sha224'') w;
     (r3, w) \<leftarrow> cfe_hash_register (sym E ''openssl_type_sha256'') w;
     (r4, w) \<leftarrow> cfe_hash_register (sym E ''openssl_type_sha384'') w;
     (r5, w) \<leftarrow> cfe_hash_register (sym E ''openssl_type_sha512'') w;
     Some w
   }"

subsection \<open>The contract\<close>

definition hash_layout :: "(cfe_hash_type, string, string) layout" where
  "hash_layout =
     \<lparr>ly_get = w_hash, ly_put = (\<lambda>R w. w\<lparr>w_hash := R\<rparr>), ly_off = HASH_NEXT,
      ly_valid = (\<lambda>ty. ht_name ty \<noteq> None \<and> ht_digestsize ty \<noteq> 0 \<and> ht_alloc_ctx ty \<noteq> None),
      ly_name = ht_name, ly_canon = cstr,
      ly_match = (\<lambda>n ty. do { m \<leftarrow> ht_name ty; Some (strcmp n m = 0) }),
      ly_refcnt = ht_refcnt, ly_refcnt_upd = ht_refcnt_update,
      ly_post = (\<lambda>_ w. Some w), ly_pinned = (\<lambda>_ _. False), ly_inv = (\<lambda>_ _. True),
      ly_frame = (\<lambda>w w'. \<exists>R. w' = w\<lparr>w_hash := R\<rparr>)\<rparr>"

lemma hash_same: "\<exists>R. w = w\<lparr>w_hash := R\<rparr>"
  by (rule exI [of _ "w_hash w"]) simp

interpretation hash_lay: type_layout hash_layout
  by unfold_locales (auto simp: hash_layout_def strcmp_eq_0_iff hash_same map_conv_bind_option
      split: bind_splits)

lemma find_alg_hash_eq: "find_alg_hash = tmpl_find hash_layout"
  by (simp add: fun_eq_iff find_alg_hash_def tmpl_find_def hash_layout_def)

lemma cfe_hash_register_eq: "cfe_hash_register = tmpl_register hash_layout"
  unfolding fun_eq_iff cfe_hash_register_def tmpl_register_def find_alg_hash_eq on_reg_def
  by (simp add: hash_layout_def cong: if_cong)

lemma cfe_hash_unregister_eq: "cfe_hash_unregister = tmpl_unregister hash_layout"
  unfolding fun_eq_iff cfe_hash_unregister_def tmpl_unregister_def on_reg_def
  by (simp add: hash_layout_def cong: if_cong)

interpretation hash: type_registry "tmpl_repr hash_layout" "tmpl_key hash_layout"
  "tmpl_refs hash_layout" "tmpl_body hash_layout" "\<lambda>_ _. False" "\<lambda>w w'. \<exists>R. w' = w\<lparr>w_hash := R\<rparr>" cstr find_alg_hash
  cfe_hash_register cfe_hash_unregister "tmpl_acquire hash_layout" "tmpl_release hash_layout"
  using hash_lay.reg.type_registry_axioms
  unfolding find_alg_hash_eq cfe_hash_register_eq cfe_hash_unregister_eq
  by (simp add: hash_layout_def)

interpretation hash_cnt: counted_registry "tmpl_repr hash_layout" "tmpl_key hash_layout"
  "tmpl_refs hash_layout" "tmpl_body hash_layout" "\<lambda>_ _. False" "\<lambda>w w'. \<exists>R. w' = w\<lparr>w_hash := R\<rparr>" cstr find_alg_hash
  cfe_hash_register cfe_hash_unregister "tmpl_acquire hash_layout" "tmpl_release hash_layout"
  by unfold_locales simp

subsection \<open>The life of a context\<close>

lemma cfe_hash_alloc_ctx_eq:
  "cfe_hash_alloc_ctx E algname w = do {
     (type, w) \<leftarrow> tmpl_acquire hash_layout algname w;
     if type = NULL then Some (NULL, w\<lparr>errno := ENOSYS\<rparr>)
     else do {
       ty \<leftarrow> rg_types (w_hash w) type;
       f \<leftarrow> ht_alloc_ctx ty;
       (ctx, w) \<leftarrow> call_hash_alloc E f w;
       if ctx = NULL then do {
         w \<leftarrow> tmpl_release hash_layout type w;
         Some (NULL, w)
       }
       else do {
         c \<leftarrow> w_hash_ctxs w ctx;
         Some (ctx, w\<lparr>w_hash_ctxs := (w_hash_ctxs w)(ctx \<mapsto> c\<lparr>hc_type := type\<rparr>)\<rparr>)
       }
     }
   }"
  unfolding cfe_hash_alloc_ctx_def tmpl_acquire_def tmpl_release_def find_alg_hash_eq on_reg_def
  by (simp add: hash_layout_def cong: if_cong)

lemma cfe_hash_alloc_ctx_missing:
  assumes "tmpl_repr hash_layout w xs" and "Some (cstr name) \<notin> tmpl_key hash_layout w ` set xs"
  shows "cfe_hash_alloc_ctx E name w = Some (NULL, w\<lparr>errno := ENOSYS\<rparr>)"
  using hash.acquire_missing [OF assms] by (simp add: cfe_hash_alloc_ctx_eq)

lemma hash_release_iff:
  "tmpl_release hash_layout t v = Some w \<longleftrightarrow>
    (\<exists>ty. rg_types (w_hash v) t = Some ty \<and>
      w = v\<lparr>w_hash := (w_hash v)\<lparr>rg_types := (rg_types (w_hash v))(t \<mapsto> ht_refcnt_update cfe_atomic_dec ty)\<rparr>\<rparr>)"
  by (auto simp: tmpl_release_def on_reg_def reg_store_def hash_layout_def split: bind_splits)

text \<open>Taking the reference, with the fields of the type spelled out.\<close>

lemma hash_acquired:
  assumes r: "tmpl_repr hash_layout w xs" and t: "t \<in> set xs"
    and k: "tmpl_key hash_layout w t = Some (cstr name)" and ty: "rg_types (w_hash w) t = Some ty"
  shows "\<exists>v tv. tmpl_acquire hash_layout name w = Some (t, v) \<and> tmpl_repr hash_layout v xs \<and>
    tmpl_refs hash_layout v t = Some (ht_refcnt ty + 1) \<and> t \<noteq> NULL \<and> (\<exists>R. v = w\<lparr>w_hash := R\<rparr>) \<and>
    rg_types (w_hash v) t = Some tv \<and> ht_alloc_ctx tv = ht_alloc_ctx ty \<and>
    ht_digestsize tv = ht_digestsize ty \<and> tmpl_release hash_layout t v = Some w"
proof -
  have c: "tmpl_refs hash_layout w t = Some (ht_refcnt ty)"
    using ty by (simp add: tmpl_refs_def hash_layout_def)
  obtain v where v: "tmpl_acquire hash_layout name w = Some (t, v)" "tmpl_repr hash_layout v xs"
      "tmpl_refs hash_layout v = (tmpl_refs hash_layout w)(t \<mapsto> ht_refcnt ty + 1)"
      "\<exists>R. v = w\<lparr>w_hash := R\<rparr>" "tmpl_release hash_layout t v = Some w"
    using hash.acquire_found [OF r t k c] by blast
  then obtain tv where tv: "rg_types (w_hash v) t = Some tv"
      "w = v\<lparr>w_hash := (w_hash v)\<lparr>rg_types := (rg_types (w_hash v))(t \<mapsto> ht_refcnt_update cfe_atomic_dec tv)\<rparr>\<rparr>"
    by (auto simp: hash_release_iff)
  have "ty = ht_refcnt_update cfe_atomic_dec tv"
    using ty by (subst (asm) tv(2)) simp
  then have "ht_alloc_ctx tv = ht_alloc_ctx ty" "ht_digestsize tv = ht_digestsize ty" by simp_all
  moreover have "t \<noteq> NULL" using hash.repr_nonnull [OF r] t by auto
  ultimately show ?thesis using v tv(1) by (auto intro!: exI [of _ v])
qed

text \<open>What each of the five allocation functions of OpenSSL passes on.\<close>

fun hash_alloc_args :: "env \<Rightarrow> hash_alloc_fn \<Rightarrow> (addr \<times> evp_md) option" where
  "hash_alloc_args E Fn_openssl_sha1_alloc_ctx = Some (sym E ''openssl_type_sha1'', EVP_sha1)"
| "hash_alloc_args E Fn_openssl_sha224_alloc_ctx = Some (sym E ''openssl_type_sha224'', EVP_sha224)"
| "hash_alloc_args E Fn_openssl_sha256_alloc_ctx = Some (sym E ''openssl_type_sha256'', EVP_sha256)"
| "hash_alloc_args E Fn_openssl_sha384_alloc_ctx = Some (sym E ''openssl_type_sha384'', EVP_sha384)"
| "hash_alloc_args E Fn_openssl_sha512_alloc_ctx = Some (sym E ''openssl_type_sha512'', EVP_sha512)"
| "hash_alloc_args E (Ext_hash_alloc n) = None"

lemma call_hash_alloc_openssl:
  "hash_alloc_args E f = Some (s, md) \<Longrightarrow> call_hash_alloc E f w = openssl_alloc_ctx_hash E s md w"
  by (cases f) (simp_all add: openssl_sha1_alloc_ctx_def openssl_sha224_alloc_ctx_def
      openssl_sha256_alloc_ctx_def openssl_sha384_alloc_ctx_def openssl_sha512_alloc_ctx_def)

text \<open>The block of a context: the base context is inside it, and not at NULL.\<close>

lemma hash_block:
  assumes "fresh w a (OCTX_SIZE_hash E)" and "e_sizeof_EVP_MD_CTX (evp E) < 2 ^ 32"
  shows "a + OCTX_BASE_hash E \<noteq> NULL" and "w_hash_ctxs w (a + OCTX_BASE_hash E) = None"
    and "w_hash_octxs w a = None"
proof -
  have lt: "OCTX_BASE_hash E < OCTX_SIZE_hash E" "0 < OCTX_SIZE_hash E"
    using assms(2) unfolding OCTX_BASE_hash_def OCTX_SIZE_hash_def
    by (simp_all add: word_less_nat_alt unat_word_ariths)
  show "a + OCTX_BASE_hash E \<noteq> NULL" "w_hash_ctxs w (a + OCTX_BASE_hash E) = None"
    "w_hash_octxs w a = None"
    using assms(1) lt block_free_nonnull block_freeD [OF _ lt(1)] block_freeD [OF _ lt(2)]
    by (force simp: fresh_def)+
qed

text \<open>
  A live OpenSSL context: the base context with its type and the enclosing object with its algorithm
  and state. The abbreviation after it is the world with that state replaced.
\<close>

definition hash_live :: "env \<Rightarrow> world \<Rightarrow> addr \<Rightarrow> addr \<Rightarrow> evp_md \<Rightarrow> bytes \<Rightarrow> bool" where
  "hash_live E w ctx t md st \<longleftrightarrow> ctx \<noteq> NULL \<and> OPENSSL_CTX_hash E ctx \<noteq> NULL \<and>
     w_hash_ctxs w ctx = Some \<lparr>hc_ops = Some Openssl_generic_ctx_ops, hc_type = t\<rparr> \<and>
     w_hash_octxs w (OPENSSL_CTX_hash E ctx) = Some \<lparr>oh_md = Some md, oh_mdctx = st\<rparr>"

definition hash_state :: "env \<Rightarrow> addr \<Rightarrow> evp_md \<Rightarrow> bytes \<Rightarrow> world \<Rightarrow> world" where
  "hash_state E ctx md st w = w\<lparr>w_hash_octxs :=
     (w_hash_octxs w)(OPENSSL_CTX_hash E ctx \<mapsto> \<lparr>oh_md = Some md, oh_mdctx = st\<rparr>)\<rparr>"

lemma hash_live_state [simp]:
  "hash_live E w ctx t md st \<Longrightarrow> hash_live E (hash_state E ctx md st' w) ctx t md st'"
  by (simp add: hash_live_def hash_state_def)

lemma hash_state_state [simp]: "hash_state E ctx md a (hash_state E ctx md b w) = hash_state E ctx md a w"
  by (simp add: hash_state_def)

lemma hash_ctx_steps:
  assumes "hash_live E w ctx t md st"
  shows "cfe_hash_ctx_init E ctx w =
      (let (r, b) = e_DigestInit_ex (evp E) st (Some md)
       in Some (if r = 0 then 1 else 0, hash_state E ctx md b w))"
    and "cfe_hash_ctx_update E ctx buf n w =
      (let (r, b) = e_DigestUpdate (evp E) st buf n
       in Some (if r = 0 then 1 else 0, hash_state E ctx md b w))"
    and "cfe_hash_ctx_finalize E ctx w =
      (let (r, out, b) = e_DigestFinal (evp E) st
       in Some (if r = 0 then 1 else 0, out, hash_state E ctx md b w))"
  using assms
  by (simp_all add: hash_live_def hash_state_def cfe_hash_ctx_init_def cfe_hash_ctx_update_def
      cfe_hash_ctx_finalize_def openssl_generic_ctx_init_hash_def openssl_generic_ctx_update_hash_def
      openssl_generic_ctx_finalize_hash_def set_mdctx_def Let_def split_beta)

text \<open>Allocation for a type of OpenSSL, when the allocator has memory.\<close>

lemma cfe_hash_alloc_ctx_ok:
  assumes r: "tmpl_repr hash_layout w xs" and t: "t \<in> set xs"
    and k: "tmpl_key hash_layout w t = Some (cstr name)" and ty: "rg_types (w_hash w) t = Some ty"
    and f: "ht_alloc_ctx ty = Some f" "hash_alloc_args E f = Some (s, md)"
    and a: "\<And>R. e_calloc (libc E) (OCTX_SIZE_hash E) (w\<lparr>w_hash := R\<rparr>) = a"
      "fresh w a (OCTX_SIZE_hash E)" "e_sizeof_EVP_MD_CTX (evp E) < 2 ^ 32"
  shows "\<exists>w' st. cfe_hash_alloc_ctx E name w = Some (a + OCTX_BASE_hash E, w') \<and>
    hash_live E w' (a + OCTX_BASE_hash E) t md st \<and> tmpl_repr hash_layout w' xs \<and>
    tmpl_refs hash_layout w' t = Some (ht_refcnt ty + 1) \<and>
    (\<forall>b. cfe_hash_destroy_ctx E (a + OCTX_BASE_hash E)
      (hash_state E (a + OCTX_BASE_hash E) md b w') = Some w)"
proof -
  let ?ctx = "a + OCTX_BASE_hash E"
  obtain v tv where v: "tmpl_acquire hash_layout name w = Some (t, v)" "tmpl_repr hash_layout v xs"
      "tmpl_refs hash_layout v t = Some (ht_refcnt ty + 1)" "t \<noteq> NULL" "\<exists>R. v = w\<lparr>w_hash := R\<rparr>"
      "rg_types (w_hash v) t = Some tv" "ht_alloc_ctx tv = ht_alloc_ctx ty"
      "tmpl_release hash_layout t v = Some w"
    using hash_acquired [OF r t k ty] by blast
  have av: "e_calloc (libc E) (OCTX_SIZE_hash E) v = a" using v(5) a(1) by auto
  have blk: "?ctx \<noteq> NULL" "w_hash_ctxs w ?ctx = None" "w_hash_octxs w a = None"
    using hash_block [OF a(2,3)] by auto
  have nn: "a \<noteq> NULL" using a(2) by (simp add: fresh_def)
  let ?st = "replicate (unat (e_sizeof_EVP_MD_CTX (evp E))) (0 :: 8 word)"
  define w' where "w' = v\<lparr>w_hash_octxs := (w_hash_octxs v)(a \<mapsto> \<lparr>oh_md = Some md, oh_mdctx = ?st\<rparr>),
      w_hash_ctxs := (w_hash_ctxs v)(?ctx \<mapsto> \<lparr>hc_ops = Some Openssl_generic_ctx_ops, hc_type = t\<rparr>)\<rparr>"
  have "cfe_hash_alloc_ctx E name w = Some (?ctx, w')"
    using v(1,4,6,7) f(1) call_hash_alloc_openssl [OF f(2)] av nn blk(1)
    by (simp add: cfe_hash_alloc_ctx_eq openssl_alloc_ctx_hash_def calloc_1 w'_def)
  moreover have "hash_live E w' ?ctx t md ?st"
    using blk(1) nn by (simp add: hash_live_def w'_def OPENSSL_CTX_hash_def)
  moreover have "w_hash w' = w_hash v" by (simp add: w'_def)
  then have "tmpl_repr hash_layout w' xs" "tmpl_refs hash_layout w' t = Some (ht_refcnt ty + 1)"
    using v(2,3) by (simp_all add: tmpl_repr_def tmpl_refs_def hash_layout_def)
  moreover have "cfe_hash_destroy_ctx E ?ctx (hash_state E ?ctx md b w') = Some w" for b
  proof -
    have e: "w_hash_octxs v = w_hash_octxs w" "w_hash_ctxs v = w_hash_ctxs w" using v(5) by auto
    have "call_hash_destroy E Openssl_generic_ctx_ops ?ctx (hash_state E ?ctx md b w') = Some v"
      using blk nn e by (simp add: openssl_destroy_ctx_hash_def OPENSSL_CTX_hash_def hash_state_def
          free_defs w'_def fun_upd_idem)
    then show ?thesis
      using v(8) blk(1)
      by (simp add: cfe_hash_destroy_ctx_def hash_state_def w'_def tmpl_release_def on_reg_def
          hash_layout_def)
  qed
  ultimately show ?thesis by blast
qed

text \<open>
  Without memory the allocation function answers the offset of the base context, which is not NULL:
  the caller takes it for a context and writes to it.
\<close>

text \<open>C37: When the allocator has no memory for an OpenSSL context, the allocation function still answers the
  address of the field base of a null object, which is not NULL, and the caller then writes the type
  through it: allocating a context without memory is undefined behaviour, not an error return.\<close>

theorem cfe_hash_alloc_ctx_oom:
  assumes r: "tmpl_repr hash_layout w xs" and t: "t \<in> set xs"
    and k: "tmpl_key hash_layout w t = Some (cstr name)" and ty: "rg_types (w_hash w) t = Some ty"
    and f: "ht_alloc_ctx ty = Some f" "hash_alloc_args E f = Some (s, md)"
    and a: "\<And>R. e_calloc (libc E) (OCTX_SIZE_hash E) (w\<lparr>w_hash := R\<rparr>) = NULL"
      "e_sizeof_EVP_MD_CTX (evp E) < 2 ^ 32" "OCTX_BASE_hash E \<notin> dom (w_hash_ctxs w)"
  shows "cfe_hash_alloc_ctx E name w = None"
proof -
  obtain v tv where v: "tmpl_acquire hash_layout name w = Some (t, v)" "t \<noteq> NULL"
      "\<exists>R. v = w\<lparr>w_hash := R\<rparr>" "rg_types (w_hash v) t = Some tv" "ht_alloc_ctx tv = ht_alloc_ctx ty"
    using hash_acquired [OF r t k ty] by blast
  have av: "e_calloc (libc E) (OCTX_SIZE_hash E) v = NULL" using v(3) a(1) by auto
  have nn: "OCTX_BASE_hash E \<noteq> NULL"
  proof
    assume "OCTX_BASE_hash E = NULL"
    then have "e_sizeof_EVP_MD_CTX (evp E) = - 8"
      by (simp add: OCTX_BASE_hash_def eq_neg_iff_add_eq_0 add.commute)
    with a(2) show False by simp
  qed
  have "w_hash_ctxs v (OCTX_BASE_hash E) = None" using v(3) a(3) by auto
  then show ?thesis
    using v(1,2,4,5) f(1) call_hash_alloc_openssl [OF f(2)] av nn
    by (simp add: cfe_hash_alloc_ctx_eq openssl_alloc_ctx_hash_def calloc_1)
qed

subsection \<open>Hashing a message\<close>

text \<open>
  What OpenSSL documents of the digest functions: after an initialisation the state stands for the
  empty message, an update appends, and the final call answers the digest of the message. \<open>R\<close> says
  which message a state stands for.
\<close>

definition evp_digest_ok ::
  "openssl_evp \<Rightarrow> (evp_md \<Rightarrow> bytes \<Rightarrow> bytes) \<Rightarrow> (evp_md \<Rightarrow> bytes \<Rightarrow> bytes \<Rightarrow> bool) \<Rightarrow> bool" where
  "evp_digest_ok V H R \<longleftrightarrow>
     (\<forall>md st. \<exists>st'. e_DigestInit_ex V st (Some md) = (1, st') \<and> R md st' []) \<and>
     (\<forall>md st msg b. length b < 2 ^ 64 \<longrightarrow> R md st msg \<longrightarrow>
        (\<exists>st'. e_DigestUpdate V st b (of_nat (length b)) = (1, st') \<and> R md st' (msg @ b))) \<and>
     (\<forall>md st msg. R md st msg \<longrightarrow> (\<exists>st'. e_DigestFinal V st = (1, H md msg, st')))"

lemma evp_digest_okD:
  assumes "evp_digest_ok V H R"
  shows "\<exists>st'. e_DigestInit_ex V st (Some md) = (1, st') \<and> R md st' []"
    and "length b < 2 ^ 64 \<Longrightarrow> R md st msg \<Longrightarrow>
      \<exists>st'. e_DigestUpdate V st b (of_nat (length b)) = (1, st') \<and> R md st' (msg @ b)"
    and "R md st msg \<Longrightarrow> \<exists>st'. e_DigestFinal V st = (1, H md msg, st')"
  using assms by (simp_all add: evp_digest_ok_def)

text \<open>A client: the updates of a message in pieces, and the whole session.\<close>

fun hash_feed :: "env \<Rightarrow> addr \<Rightarrow> bytes list \<Rightarrow> world \<Rightarrow> (int \<times> world) option" where
  "hash_feed E ctx [] w = Some (0, w)"
| "hash_feed E ctx (b # bs) w = do {
     (r, w) \<leftarrow> cfe_hash_ctx_update E ctx b (of_nat (length b)) w;
     if r \<noteq> 0 then Some (r, w) else hash_feed E ctx bs w
   }"

definition hash_session ::
  "env \<Rightarrow> string \<Rightarrow> bytes list \<Rightarrow> world \<Rightarrow> (int list \<times> bytes \<times> world) option" where
  "hash_session E algname chunks w = do {
     (ctx, w) \<leftarrow> cfe_hash_alloc_ctx E algname w;
     (r1, w) \<leftarrow> cfe_hash_ctx_init E ctx w;
     (r2, w) \<leftarrow> hash_feed E ctx chunks w;
     (r3, out, w) \<leftarrow> cfe_hash_ctx_finalize E ctx w;
     w \<leftarrow> cfe_hash_destroy_ctx E ctx w;
     Some ([r1, r2, r3], out, w)
   }"

lemma hash_feed_ok:
  assumes V: "evp_digest_ok (evp E) H R" and "\<forall>b \<in> set bs. length b < 2 ^ 64"
    and "hash_live E w ctx t md st" and "R md st msg"
  shows "\<exists>st'. hash_feed E ctx bs w = Some (0, hash_state E ctx md st' w) \<and> R md st' (msg @ concat bs)"
  using assms(2-4)
proof (induction bs arbitrary: w st msg)
  case Nil
  then have "hash_state E ctx md st w = w"
    by (simp add: hash_state_def hash_live_def fun_upd_idem)
  then show ?case using Nil by (intro exI [of _ st]) simp
next
  case (Cons b bs)
  obtain st1 where s1: "e_DigestUpdate (evp E) st b (of_nat (length b)) = (1, st1)" "R md st1 (msg @ b)"
    using evp_digest_okD(2) [OF V _ Cons.prems(3), of b] Cons.prems(1) by auto
  obtain st2 where s2: "hash_feed E ctx bs (hash_state E ctx md st1 w) =
      Some (0, hash_state E ctx md st2 (hash_state E ctx md st1 w))" "R md st2 ((msg @ b) @ concat bs)"
    using Cons.IH [OF _ hash_live_state [OF Cons.prems(2)] s1(2)] Cons.prems(1) by auto
  then show ?case
    using s1(1) hash_ctx_steps(2) [OF Cons.prems(2)] by (intro exI [of _ st2]) simp
qed

text \<open>
  A whole session with a type of OpenSSL gives the digest of the concatenated pieces, every call
  succeeds, and the world is afterwards what it was before.
\<close>

lemma hash_session_run:
  assumes r: "tmpl_repr hash_layout w xs" and t: "t \<in> set xs"
    and k: "tmpl_key hash_layout w t = Some (cstr name)" and ty: "rg_types (w_hash w) t = Some ty"
    and f: "ht_alloc_ctx ty = Some f" "hash_alloc_args E f = Some (s, md)"
    and a: "\<And>R. e_calloc (libc E) (OCTX_SIZE_hash E) (w\<lparr>w_hash := R\<rparr>) = a"
      "fresh w a (OCTX_SIZE_hash E)" "e_sizeof_EVP_MD_CTX (evp E) < 2 ^ 32"
    and V: "evp_digest_ok (evp E) H R" and len: "\<forall>b \<in> set chunks. length b < 2 ^ 64"
  shows "hash_session E name chunks w = Some ([0, 0, 0], H md (concat chunks), w)"
proof -
  let ?ctx = "a + OCTX_BASE_hash E"
  obtain v st where v: "cfe_hash_alloc_ctx E name w = Some (?ctx, v)" "hash_live E v ?ctx t md st"
      "\<And>b. cfe_hash_destroy_ctx E ?ctx (hash_state E ?ctx md b v) = Some w"
    using cfe_hash_alloc_ctx_ok [OF r t k ty f a] by blast
  obtain st1 where s1: "e_DigestInit_ex (evp E) st (Some md) = (1, st1)" "R md st1 []"
    using evp_digest_okD(1) [OF V] by blast
  let ?v = "hash_state E ?ctx md st1 v"
  have l1: "hash_live E ?v ?ctx t md st1" using v(2) by simp
  obtain st2 where s2: "hash_feed E ?ctx chunks ?v = Some (0, hash_state E ?ctx md st2 ?v)"
      "R md st2 (concat chunks)"
    using hash_feed_ok [OF V len l1 s1(2)] by auto
  obtain st3 where s3: "e_DigestFinal (evp E) st2 = (1, H md (concat chunks), st3)"
    using evp_digest_okD(3) [OF V s2(2)] by blast
  have l2: "hash_live E (hash_state E ?ctx md st2 v) ?ctx t md st2" using v(2) by simp
  show ?thesis
    using v(1,3) hash_ctx_steps(1) [OF v(2)] s1(1) s2(1) hash_ctx_steps(3) [OF l2] s3
    by (simp add: hash_session_def)
qed

text \<open>The constructor, from the load image.\<close>

definition hash_statics :: "env \<Rightarrow> (addr \<times> cfe_hash_type) list" where
  "hash_statics E =
     [(sym E ''openssl_type_sha1'', openssl_type_sha1),
      (sym E ''openssl_type_sha224'', openssl_type_sha224),
      (sym E ''openssl_type_sha256'', openssl_type_sha256),
      (sym E ''openssl_type_sha384'', openssl_type_sha384),
      (sym E ''openssl_type_sha512'', openssl_type_sha512)]"

definition hash_names :: "string list" where
  "hash_names = [''sha1'', ''sha224'', ''sha256'', ''sha384'', ''sha512'']"

lemma hash_openssl_init_eq:
  "hash_openssl_init E w = map_option snd (register_each cfe_hash_register (map fst (hash_statics E)) w)"
  by (simp add: hash_openssl_init_def hash_statics_def case_prod_unfold map_conv_bind_option)

lemma hash_load:
  assumes w: "w_hash w = load_registry head HASH_NEXT (hash_statics E)"
    and d: "distinct (map fst (hash_statics E))" "NULL \<notin> fst ` set (hash_statics E)"
      "head \<notin> (\<lambda>t. t + HASH_NEXT) ` fst ` set (hash_statics E)"
  shows "tmpl_repr hash_layout w []"
    and "map (tmpl_key hash_layout w) (map fst (hash_statics E)) =
      map Some hash_names"
proof -
  have o: "ly_off hash_layout = HASH_NEXT" by (simp add: hash_layout_def)
  have "reg_ok hash_layout (w_hash w) []"
    unfolding w by (rule load_registry_ok [of _ hash_layout, unfolded o]) (use d in auto)
  then show "tmpl_repr hash_layout w []" by (simp add: tmpl_repr_def hash_layout_def w)
  have "ly_get hash_layout w = load_registry head HASH_NEXT (hash_statics E)"
    using w by (simp add: hash_layout_def)
  from load_keys [OF this d(1)]
  show "map (tmpl_key hash_layout w) (map fst (hash_statics E)) = map Some hash_names"
    by (simp add: hash_statics_def hash_names_def hash_layout_def cstr_def openssl_type_sha1_def
      openssl_type_sha224_def openssl_type_sha256_def openssl_type_sha384_def openssl_type_sha512_def)
qed

lemma hash_init_ok:
  assumes w: "w_hash w = load_registry head HASH_NEXT (hash_statics E)"
    and d: "distinct (map fst (hash_statics E))" "NULL \<notin> fst ` set (hash_statics E)"
      "head \<notin> (\<lambda>t. t + HASH_NEXT) ` fst ` set (hash_statics E)"
  shows "\<exists>w'. hash_openssl_init E w = Some w' \<and>
    tmpl_repr hash_layout w' (map fst (hash_statics E)) \<and>
    map (tmpl_key hash_layout w') (map fst (hash_statics E)) = map Some hash_names \<and>
    (\<forall>(a, ty) \<in> set (hash_statics E). rg_types (w_hash w') a = Some (ty\<lparr>ht_refcnt := 1\<rparr>)) \<and>
    errno w' = errno w \<and> (\<exists>R. w' = w\<lparr>w_hash := R\<rparr>)"
proof -
  have "distinct hash_names" by (simp add: hash_names_def)
  moreover have "ly_get hash_layout w = load_registry head (ly_off hash_layout) (hash_statics E)"
      "ly_inv hash_layout w []" "head \<notin> (\<lambda>t. t + ly_off hash_layout) ` fst ` set (hash_statics E)"
    using w d(3) by (simp_all add: hash_layout_def)
  ultimately obtain w' where "register_each (tmpl_register hash_layout) (map fst (hash_statics E)) w =
        Some (map (\<lambda>_. 0) (hash_statics E), w')"
      "tmpl_repr hash_layout w' (map fst (hash_statics E))"
      "map (tmpl_key hash_layout w') (map fst (hash_statics E)) = map Some hash_names"
      "\<forall>(a, ty) \<in> set (hash_statics E). rg_types (ly_get hash_layout w') a =
        Some (ly_refcnt_upd hash_layout (\<lambda>_. 1) ty)"
      "errno w' = errno w" "ly_frame hash_layout w w'"
    using hash_lay.load_all [OF _ _ d(1,2) _ hash_load(2) [OF w d]] by blast
  then show ?thesis
    by (intro exI [of _ w']) (auto simp: hash_openssl_init_eq cfe_hash_register_eq hash_layout_def sum_list_0)
qed

definition hash_table :: "(string \<times> evp_md) list" where
  "hash_table = zip hash_names [EVP_sha1, EVP_sha224, EVP_sha256, EVP_sha384, EVP_sha512]"

lemma hash_table_type:
  assumes "(name, md) \<in> set hash_table"
  obtains t ty f s where "(t, ty) \<in> set (hash_statics E)" and "ht_name ty = Some name" and "cstr name = name"
    and "ht_digestsize ty \<noteq> 0" and "ht_alloc_ctx ty = Some f" and "hash_alloc_args E f = Some (s, md)"
proof -
  have "list_all2 (\<lambda>(name, md) (t, ty). ht_name ty = Some name \<and> cstr name = name \<and> ht_digestsize ty \<noteq> 0 \<and>
      (\<exists>f s. ht_alloc_ctx ty = Some f \<and> hash_alloc_args E f = Some (s, md)))
      hash_table (hash_statics E)"
    by (simp add: hash_table_def hash_names_def hash_statics_def cstr_def openssl_type_sha1_def
        openssl_type_sha224_def openssl_type_sha256_def openssl_type_sha384_def openssl_type_sha512_def)
  then obtain p where "p \<in> set (hash_statics E)"
      "(\<lambda>(name, md) (t, ty). ht_name ty = Some name \<and> cstr name = name \<and> ht_digestsize ty \<noteq> 0 \<and>
      (\<exists>f s. ht_alloc_ctx ty = Some f \<and> hash_alloc_args E f = Some (s, md))) (name, md) p"
    using assms by (blast dest: list_all2_member)
  then show ?thesis using that by (cases p) auto
qed

subsection \<open>The concrete environment\<close>

definition hash_demo :: world where
  "hash_demo = blank_world\<lparr>w_hash := load_registry 48 HASH_NEXT (hash_statics demo_env)\<rparr>"

lemma hash_demo_image:
  "w_hash hash_demo = load_registry 48 HASH_NEXT (hash_statics demo_env)"
  "distinct (map fst (hash_statics demo_env))" "NULL \<notin> fst ` set (hash_statics demo_env)"
  "48 \<notin> (\<lambda>t. t + HASH_NEXT) ` fst ` set (hash_statics demo_env)"
  by (simp_all add: hash_demo_def hash_statics_def HASH_NEXT_def)

definition hash_up :: world where
  "hash_up = the (hash_openssl_init demo_env hash_demo)"

lemma hash_up:
  "hash_openssl_init demo_env hash_demo = Some hash_up"
  "tmpl_repr hash_layout hash_up [4096, 4224, 4352, 4480, 4608]"
  "tmpl_key hash_layout hash_up 4352 = Some (cstr ''sha256'')"
  "rg_types (w_hash hash_up) 4352 = Some (openssl_type_sha256\<lparr>ht_refcnt := 1\<rparr>)"
  "\<exists>R. hash_up = blank_world\<lparr>w_hash := R\<rparr>"
proof -
  obtain w' R where w': "hash_openssl_init demo_env hash_demo = Some w'"
      "tmpl_repr hash_layout w' (map fst (hash_statics demo_env))"
      "map (tmpl_key hash_layout w') (map fst (hash_statics demo_env)) = map Some hash_names"
      "\<forall>(a, ty) \<in> set (hash_statics demo_env). rg_types (w_hash w') a = Some (ty\<lparr>ht_refcnt := 1\<rparr>)"
      "w' = hash_demo\<lparr>w_hash := R\<rparr>"
    using hash_init_ok [OF hash_demo_image] by blast
  have u: "w' = hash_up" using w'(1) by (simp add: hash_up_def)
  show "hash_openssl_init demo_env hash_demo = Some hash_up"
    "tmpl_repr hash_layout hash_up [4096, 4224, 4352, 4480, 4608]"
    "tmpl_key hash_layout hash_up 4352 = Some (cstr ''sha256'')"
    "rg_types (w_hash hash_up) 4352 = Some (openssl_type_sha256\<lparr>ht_refcnt := 1\<rparr>)"
    using w'(1-4) by (simp_all add: u hash_statics_def hash_names_def cstr_def)
  show "\<exists>R. hash_up = blank_world\<lparr>w_hash := R\<rparr>" using w'(5) by (auto simp: u hash_demo_def)
qed

lemma hash_demo_alloc [simp]:
  "e_calloc demo_libc (OCTX_SIZE_hash demo_env) (hash_up\<lparr>w_hash := Q\<rparr>) = 262144"
  "fresh hash_up 262144 (OCTX_SIZE_hash demo_env)"
  "w_hash_ctxs hash_up = Map.empty"
  "e_sizeof_EVP_MD_CTX demo_evp = 48" "OCTX_BASE_hash demo_env = 56"
proof -
  obtain R where R: "hash_up = blank_world\<lparr>w_hash := R\<rparr>" using hash_up(5) by blast
  show "e_calloc demo_libc (OCTX_SIZE_hash demo_env) (hash_up\<lparr>w_hash := Q\<rparr>) = 262144" "fresh hash_up 262144 (OCTX_SIZE_hash demo_env)"
    "w_hash_ctxs hash_up = Map.empty" "e_sizeof_EVP_MD_CTX demo_evp = 48" "OCTX_BASE_hash demo_env = 56"
    by (simp_all add: R OCTX_SIZE_hash_def OCTX_BASE_hash_def fresh_def block_free_def blank_world_def
      demo_evp_def demo_calloc demo_block_def)
qed

lemma demo_digest_ok: "evp_digest_ok (evp demo_env) (\<lambda>_ m. rev m) (\<lambda>_ st m. st = m)"
  by (simp add: evp_digest_ok_def demo_evp_def unat_of_nat take_bit_nat_eq_self)

lemma demo_sha256:
  "ht_alloc_ctx (openssl_type_sha256\<lparr>ht_refcnt := 1\<rparr>) = Some Fn_openssl_sha256_alloc_ctx"
  "ht_refcnt (openssl_type_sha256\<lparr>ht_refcnt := 1\<rparr>) = 1"
  by (simp_all add: openssl_type_sha256_def)

subsection \<open>Properties\<close>

text \<open>C17: From the load image, the constructor of the OpenSSL digests registers all five types, and afterwards a
  hashing session (allocate, init, any number of updates, finalize, destroy) under any of their names
  answers 0 at every step, yields the OpenSSL digest of that name of the concatenation of the chunks,
  and leaves the world, reference counts included, exactly as it was.\<close>

theorem hash_library_sessions:
  assumes w: "w_hash w = load_registry head HASH_NEXT (hash_statics E)"
    and d: "distinct (map fst (hash_statics E))" "NULL \<notin> fst ` set (hash_statics E)"
      "head \<notin> (\<lambda>t. t + HASH_NEXT) ` fst ` set (hash_statics E)"
    and a: "\<And>R. e_calloc (libc E) (OCTX_SIZE_hash E) (w\<lparr>w_hash := R\<rparr>) = a"
      "fresh w a (OCTX_SIZE_hash E)" "e_sizeof_EVP_MD_CTX (evp E) < 2 ^ 32"
    and V: "evp_digest_ok (evp E) H R"
  shows "\<exists>w'. hash_openssl_init E w = Some w' \<and>
    (\<forall>(name, md) \<in> set hash_table. \<forall>chunks. (\<forall>b \<in> set chunks. length b < 2 ^ 64) \<longrightarrow>
      hash_session E name chunks w' = Some ([0, 0, 0], H md (concat chunks), w'))"
proof -
  obtain w' Q where w': "hash_openssl_init E w = Some w'"
      "tmpl_repr hash_layout w' (map fst (hash_statics E))"
      "\<forall>(a, ty) \<in> set (hash_statics E). rg_types (w_hash w') a = Some (ty\<lparr>ht_refcnt := 1\<rparr>)"
      "w' = w\<lparr>w_hash := Q\<rparr>"
    using hash_init_ok [OF w d] by blast
  have a': "\<And>R. e_calloc (libc E) (OCTX_SIZE_hash E) (w'\<lparr>w_hash := R\<rparr>) = a"
      "fresh w' a (OCTX_SIZE_hash E)"
    using a(1,2) by (simp_all add: w'(4) fresh_def)
  have "hash_session E name chunks w' = Some ([0, 0, 0], H md (concat chunks), w')"
    if n: "(name, md) \<in> set hash_table" and x: "\<forall>b \<in> set chunks. length b < 2 ^ 64" for name md chunks
  proof -
    obtain t ty f s where t: "(t, ty) \<in> set (hash_statics E)" "ht_name ty = Some name" "cstr name = name"
        "ht_digestsize ty \<noteq> 0" "ht_alloc_ctx ty = Some f" "hash_alloc_args E f = Some (s, md)"
      by (rule hash_table_type [OF n])
    have ty: "rg_types (w_hash w') t = Some (ty\<lparr>ht_refcnt := 1\<rparr>)" using w'(3) t(1) by auto
    have key: "tmpl_key hash_layout w' t = Some (cstr name)"
      using ty t(2,4,5) by (simp add: tmpl_key_def reg_key_def hash_layout_def)
    have m: "t \<in> set (map fst (hash_statics E))" using t(1) by force
    show ?thesis
      by (rule hash_session_run [OF w'(2) m key ty _ t(6) a' a(3) V x]) (simp add: t(5))
  qed
  then show ?thesis using w'(1) by fast
qed

theorem hash_library_sessions_witness:
  "\<exists>w. hash_openssl_init demo_env hash_demo = Some w \<and>
    hash_session demo_env ''sha384'' [[1, 2], [], [3]] w = Some ([0, 0, 0], [3, 2, 1], w)"
proof -
  have "\<exists>w'. hash_openssl_init demo_env hash_demo = Some w' \<and>
    (\<forall>(name, md) \<in> set hash_table. \<forall>chunks. (\<forall>b \<in> set chunks. length b < 2 ^ 64) \<longrightarrow>
      hash_session demo_env name chunks w' = Some ([0, 0, 0], rev (concat chunks), w'))"
    by (rule hash_library_sessions [OF hash_demo_image, where a = 262144, OF _ _ _ demo_digest_ok])
      (simp_all add: hash_demo_def OCTX_SIZE_hash_def demo_calloc demo_block_def fresh_def block_free_def blank_world_def)
  then obtain w' where w': "hash_openssl_init demo_env hash_demo = Some w'"
      "\<forall>(name, md) \<in> set hash_table. \<forall>chunks. (\<forall>b \<in> set chunks. length b < 2 ^ 64) \<longrightarrow>
      hash_session demo_env name chunks w' = Some ([0, 0, 0], rev (concat chunks), w')"
    by blast
  have "hash_session demo_env ''sha384'' [[1, 2], [], [3]] w' = Some ([0, 0, 0], rev (concat [[1, 2], [], [3]]), w')"
    using w'(2) by (simp add: hash_table_def hash_names_def)
  then show ?thesis using w'(1) by simp
qed

text \<open>C20: A live hash context pins its type: the allocation takes a reference, deregistering the type is then
  refused with EBUSY and changes nothing else, and destroying the context, whatever was hashed in
  between, gives back exactly the world before the allocation.\<close>

theorem hash_context_pins_type:
  assumes "tmpl_repr hash_layout w xs" and "t \<in> set xs"
    and "tmpl_key hash_layout w t = Some (cstr name)" and "rg_types (w_hash w) t = Some ty"
    and "ht_alloc_ctx ty = Some f" and "hash_alloc_args E f = Some (s, md)"
    and "\<And>R. e_calloc (libc E) (OCTX_SIZE_hash E) (w\<lparr>w_hash := R\<rparr>) = a"
    and "fresh w a (OCTX_SIZE_hash E)" and "e_sizeof_EVP_MD_CTX (evp E) < 2 ^ 32"
    and c: "cfe_atomic_get (ht_refcnt ty + 1) \<noteq> 1"
  shows "\<exists>ctx v st. cfe_hash_alloc_ctx E name w = Some (ctx, v) \<and> hash_live E v ctx t md st \<and>
    cfe_hash_unregister t v = Some (1, v\<lparr>errno := EBUSY\<rparr>) \<and>
    (\<forall>b. cfe_hash_destroy_ctx E ctx (hash_state E ctx md b v) = Some w)"
proof -
  obtain v st where v: "cfe_hash_alloc_ctx E name w = Some (a + OCTX_BASE_hash E, v)"
      "hash_live E v (a + OCTX_BASE_hash E) t md st" "tmpl_repr hash_layout v xs"
      "tmpl_refs hash_layout v t = Some (ht_refcnt ty + 1)"
      "\<forall>b. cfe_hash_destroy_ctx E (a + OCTX_BASE_hash E)
        (hash_state E (a + OCTX_BASE_hash E) md b v) = Some w"
    using cfe_hash_alloc_ctx_ok [OF assms(1-9)] by blast
  then show ?thesis using hash.unregister_busy [OF v(3,4)] c by blast
qed

theorem hash_context_pins_type_witness:
  "\<exists>ctx v. cfe_hash_alloc_ctx demo_env ''sha256'' hash_up = Some (ctx, v) \<and>
    cfe_hash_unregister 4352 v = Some (1, v\<lparr>errno := EBUSY\<rparr>)"
proof -
  have "\<exists>ctx v st. cfe_hash_alloc_ctx demo_env ''sha256'' hash_up = Some (ctx, v) \<and>
      hash_live demo_env v ctx 4352 EVP_sha256 st \<and>
      cfe_hash_unregister 4352 v = Some (1, v\<lparr>errno := EBUSY\<rparr>) \<and>
      (\<forall>b. cfe_hash_destroy_ctx demo_env ctx (hash_state demo_env ctx EVP_sha256 b v) = Some hash_up)"
    by (rule hash_context_pins_type [OF hash_up(2) _ hash_up(3,4) demo_sha256(1), where a = 262144])
      (simp_all add: demo_sha256 cfe_atomic_get_def)
  then show ?thesis by blast
qed

theorem cfe_hash_alloc_ctx_oom_witness: "cfe_hash_alloc_ctx oom_env ''sha256'' hash_up = None"
  by (rule cfe_hash_alloc_ctx_oom [OF hash_up(2) _ hash_up(3,4) demo_sha256(1)]) simp_all

end
