(* ===== verification/Cfe_Cipher.thy ===== *)
theory Cfe_Cipher
  imports Cfe_Counted Cfe_Demo
begin

text \<open>
  \<^verbatim>\<open>src/crypto/cipher.c\<close> and \<^verbatim>\<open>src/crypto/cipher-openssl.c\<close>: the registry of ciphers, the life of a
  cipher context, its operations with the checks of key, initialisation vector and AEAD flag, and the
  six OpenSSL types. The lengths are \<open>size_t\<close> here and \<open>int\<close> in OpenSSL; the conversions are written
  out.
\<close>

unbundle bit_operations_syntax

subsection \<open>The registry\<close>

text \<open>
  The offset of \<open>next\<close> in \<open>struct cfe_cipher_type\<close>: after \<open>char name[16]\<close>, the flags (padded), two
  sizes, the block size (padded) and the counter.
\<close>

definition CIPHER_NEXT :: addr where "CIPHER_NEXT = 56"

definition CIPHER_TYPE_AEAD :: cint where "CIPHER_TYPE_AEAD = 1"

definition CFE_CIPHER_MODE_DECRYPT :: int where "CFE_CIPHER_MODE_DECRYPT = 0"

definition CFE_CIPHER_MODE_ENCRYPT :: int where "CFE_CIPHER_MODE_ENCRYPT = 1"

abbreviation on_cipher ::
  "(cfe_cipher_type registry \<Rightarrow> cfe_cipher_type registry option) \<Rightarrow> world \<Rightarrow> world option" where
  "on_cipher f w \<equiv> map_option (\<lambda>R. w\<lparr>w_cipher := R\<rparr>) (f (w_cipher w))"

definition find_alg_cipher :: "string \<Rightarrow> world \<Rightarrow> addr option" where
  "find_alg_cipher name w = do {
     r \<leftarrow> list_for_each
       (\<lambda>pos. let tmp = list_entry pos CIPHER_NEXT in do {
          ty \<leftarrow> rg_types (w_cipher w) tmp;
          Some (if strcmp name (ct_name ty) = 0 then Some tmp else None)
        })
       (rg_nodes (w_cipher w)) (rg_head (w_cipher w));
     Some (case r of Some tmp \<Rightarrow> tmp | None \<Rightarrow> NULL)
   }"

text \<open>\<open>name\<close> is an array: \<open>!type->name\<close> never holds.\<close>

definition cfe_cipher_register :: "addr \<Rightarrow> world \<Rightarrow> (int \<times> world) option" where
  "cfe_cipher_register type w = do {
     ty \<leftarrow> rg_types (w_cipher w) type;
     if ct_blocksize ty = 0 \<or> ct_alloc_ctx ty = None then Some (1, w\<lparr>errno := EINVAL\<rparr>)
     else do {
       w \<leftarrow> on_cipher reg_wrlock w;
       tmp \<leftarrow> find_alg_cipher (ct_name ty) w;
       (ret, w) \<leftarrow>
         (if tmp \<noteq> NULL then Some (1, w\<lparr>errno := EBUSY\<rparr>)
          else do {
            w \<leftarrow> on_cipher (reg_store type (ct_refcnt_update (\<lambda>v. cfe_atomic_set v 1))) w;
            w \<leftarrow> on_cipher (reg_list (list_add_tail (type + CIPHER_NEXT) (rg_head (w_cipher w)))) w;
            Some (0, w)
          });
       w \<leftarrow> on_cipher reg_unlock w;
       Some (ret, w)
     }
   }"

definition cfe_cipher_unregister :: "addr \<Rightarrow> world \<Rightarrow> (int \<times> world) option" where
  "cfe_cipher_unregister type w = do {
     w \<leftarrow> on_cipher reg_wrlock w;
     ty \<leftarrow> rg_types (w_cipher w) type;
     (ret, w) \<leftarrow>
       (if cfe_atomic_get (ct_refcnt ty) \<noteq> 1 then Some (1, w\<lparr>errno := EBUSY\<rparr>)
        else do {
          w \<leftarrow> on_cipher (reg_list (list_del_init (type + CIPHER_NEXT))) w;
          Some (0, w)
        });
     w \<leftarrow> on_cipher reg_unlock w;
     Some (ret, w)
   }"

definition cfe_cipher_ref :: "string \<Rightarrow> world \<Rightarrow> (addr \<times> world) option" where
  "cfe_cipher_ref algname w = do {
     w \<leftarrow> on_cipher reg_rdlock w;
     type \<leftarrow> find_alg_cipher algname w;
     w \<leftarrow> (if type \<noteq> NULL then on_cipher (reg_store type (ct_refcnt_update cfe_atomic_inc)) w
          else Some w);
     w \<leftarrow> on_cipher reg_unlock w;
     Some (type, w)
   }"

definition cfe_cipher_put :: "addr \<Rightarrow> world \<Rightarrow> world option" where
  "cfe_cipher_put type w =
     (if type \<noteq> NULL then on_cipher (reg_store type (ct_refcnt_update cfe_atomic_dec)) w else Some w)"

subsection \<open>The OpenSSL contexts\<close>

definition OCTX_BASE_cipher :: "env \<Rightarrow> addr" where
  "OCTX_BASE_cipher E = 8 + e_sizeof_EVP_CIPHER_CTX (evpc E)"

definition OCTX_SIZE_cipher :: "env \<Rightarrow> size_t" where
  "OCTX_SIZE_cipher E = 8 + e_sizeof_EVP_CIPHER_CTX (evpc E) + 16"

definition OPENSSL_CTX_cipher :: "env \<Rightarrow> addr \<Rightarrow> addr" where
  "OPENSSL_CTX_cipher E ctx = ctx - OCTX_BASE_cipher E"

text \<open>A store to the \<open>EVP_CIPHER_CTX\<close> of an OpenSSL context.\<close>

definition set_cctx :: "addr \<Rightarrow> bytes \<Rightarrow> world \<Rightarrow> world option" where
  "set_cctx octx b w = do {
     ob \<leftarrow> w_cipher_octxs w octx;
     Some (w\<lparr>w_cipher_octxs := (w_cipher_octxs w)(octx \<mapsto> ob\<lparr>oc_ctx := b\<rparr>)\<rparr>)
   }"

text \<open>
  The key length is an \<open>int\<close>, converted for the comparison with a \<open>size_t\<close>; the length of the
  initialisation vector is a \<open>size_t\<close> passed as an \<open>int\<close>.
\<close>

definition openssl_generic_ctx_init_cipher ::
  "env \<Rightarrow> addr \<Rightarrow> int \<Rightarrow> bytes option \<Rightarrow> size_t \<Rightarrow> bytes option \<Rightarrow> size_t \<Rightarrow> world \<Rightarrow> (int \<times> world) option" where
  "openssl_generic_ctx_init_cipher E ctx mode key ksize iv isize w = do {
     let octx = OPENSSL_CTX_cipher E ctx;
     ob \<leftarrow> w_cipher_octxs w octx;
     if scast (e_CIPHER_key_length (evpc E) (oc_cipher ob)) \<noteq> ksize then Some (1, w)
     else do {
       let (res, b) = e_CipherInit_ex (evpc E) (oc_ctx ob) (oc_cipher ob) None None mode;
       w \<leftarrow> set_cctx octx b w;
       if res \<noteq> 1 then Some (1, w)
       else do {
         c \<leftarrow> w_cipher_ctxs w ctx;
         ty \<leftarrow> rg_types (w_cipher w) (cc_type c);
         let aead = (ct_flags ty AND CIPHER_TYPE_AEAD \<noteq> 0);
         let (res, b) = (if aead then e_GCM_SET_IVLEN (evpc E) b (ucast isize) else (1, b));
         w \<leftarrow> set_cctx octx b w;
         if res \<noteq> 1 then Some (1, w)
         else do {
           let (res, b) = e_CipherInit_ex (evpc E) b None key iv mode;
           w \<leftarrow> set_cctx octx b w;
           Some (if res \<noteq> 1 then 1 else 0, w)
         }
       }
     }
   }"

text \<open>
  OpenSSL stores the output length through \<open>(int *) olen\<close>: the low half of the \<open>size_t\<close>, on a
  little-endian machine.
\<close>

definition store_low32 :: "size_t \<Rightarrow> cint \<Rightarrow> size_t" where
  "store_low32 olen n = push_bit 32 (drop_bit 32 olen) OR ucast n"

text \<open>OpenSSL may leave the length alone when it fails.\<close>

definition store_out :: "size_t \<Rightarrow> cint option \<Rightarrow> size_t" where
  "store_out olen n = (case n of None \<Rightarrow> olen | Some n \<Rightarrow> store_low32 olen n)"

text \<open>The result of an operation with output: the code, the bytes of \<open>out\<close>, \<open>*olen\<close> and the world.\<close>

definition openssl_generic_ctx_update_cipher ::
  "env \<Rightarrow> addr \<Rightarrow> bytes \<Rightarrow> size_t \<Rightarrow> bool \<Rightarrow> size_t \<Rightarrow> world \<Rightarrow> (int \<times> bytes \<times> size_t \<times> world) option" where
  "openssl_generic_ctx_update_cipher E ctx inp inlen out_null olen w = do {
     let octx = OPENSSL_CTX_cipher E ctx;
     ob \<leftarrow> w_cipher_octxs w octx;
     let (r, b, out, n) = e_CipherUpdate (evpc E) (oc_ctx ob) inp (ucast inlen) out_null;
     w \<leftarrow> set_cctx octx b w;
     Some (if r \<noteq> 1 then 1 else 0, out, store_out olen n, w)
   }"

definition openssl_generic_ctx_finalize_cipher ::
  "env \<Rightarrow> addr \<Rightarrow> size_t \<Rightarrow> world \<Rightarrow> (int \<times> bytes \<times> size_t \<times> world) option" where
  "openssl_generic_ctx_finalize_cipher E ctx olen w = do {
     let octx = OPENSSL_CTX_cipher E ctx;
     ob \<leftarrow> w_cipher_octxs w octx;
     let (r, b, out, n) = e_CipherFinal_ex (evpc E) (oc_ctx ob);
     w \<leftarrow> set_cctx octx b w;
     Some (if r \<noteq> 1 then 1 else 0, out, store_out olen n, w)
   }"

definition openssl_generic_ctx_set_padding :: "env \<Rightarrow> addr \<Rightarrow> int \<Rightarrow> world \<Rightarrow> (int \<times> world) option" where
  "openssl_generic_ctx_set_padding E ctx on w = do {
     let octx = OPENSSL_CTX_cipher E ctx;
     ob \<leftarrow> w_cipher_octxs w octx;
     let (r, b) = e_set_padding (evpc E) (oc_ctx ob) (if on \<noteq> 0 then 1 else 0);
     w \<leftarrow> set_cctx octx b w;
     Some (if r \<noteq> 1 then 1 else 0, w)
   }"

text \<open>The local \<open>size\<close> is not initialised; what it holds is dropped.\<close>

definition openssl_generic_ctx_set_aad ::
  "env \<Rightarrow> addr \<Rightarrow> bytes \<Rightarrow> size_t \<Rightarrow> world \<Rightarrow> (int \<times> world) option" where
  "openssl_generic_ctx_set_aad E ctx aad asize w = do {
     (r, _, _, w) \<leftarrow> openssl_generic_ctx_update_cipher E ctx aad asize True 0 w;
     Some (r, w)
   }"

definition openssl_generic_ctx_get_tag ::
  "env \<Rightarrow> addr \<Rightarrow> size_t \<Rightarrow> world \<Rightarrow> (int \<times> bytes \<times> world) option" where
  "openssl_generic_ctx_get_tag E ctx tsize w = do {
     let octx = OPENSSL_CTX_cipher E ctx;
     ob \<leftarrow> w_cipher_octxs w octx;
     let (r, b, tag) = e_GCM_GET_TAG (evpc E) (oc_ctx ob) (ucast tsize);
     w \<leftarrow> set_cctx octx b w;
     Some (if r \<noteq> 1 then 1 else 0, tag, w)
   }"

definition openssl_generic_ctx_set_tag ::
  "env \<Rightarrow> addr \<Rightarrow> bytes \<Rightarrow> size_t \<Rightarrow> world \<Rightarrow> (int \<times> world) option" where
  "openssl_generic_ctx_set_tag E ctx tag tsize w = do {
     let octx = OPENSSL_CTX_cipher E ctx;
     ob \<leftarrow> w_cipher_octxs w octx;
     let (r, b) = e_GCM_SET_TAG (evpc E) (oc_ctx ob) (ucast tsize) tag;
     w \<leftarrow> set_cctx octx b w;
     Some (if r \<noteq> 1 then 1 else 0, w)
   }"

definition openssl_destroy_ctx_cipher :: "env \<Rightarrow> addr \<Rightarrow> world \<Rightarrow> world option" where
  "openssl_destroy_ctx_cipher E ctx w = do {
     let octx = OPENSSL_CTX_cipher E ctx;
     _ \<leftarrow> w_cipher_octxs w octx;
     h \<leftarrow> cfe_free octx (w_cipher_octxs w);
     Some (w\<lparr>w_cipher_octxs := h, w_cipher_ctxs := (w_cipher_ctxs w)(ctx := None)\<rparr>)
   }"

text \<open>As in the hash functions, the result without memory is the offset of the base context.\<close>

definition openssl_alloc_ctx_cipher ::
  "env \<Rightarrow> addr \<Rightarrow> evp_cipher \<Rightarrow> cipher_ops \<Rightarrow> world \<Rightarrow> (addr \<times> world) option" where
  "openssl_alloc_ctx_cipher E type cipher ops w = do {
     let (octx, w) = cfe_calloc E 1 (OCTX_SIZE_cipher E) w;
     let w = (if octx \<noteq> NULL then
         w\<lparr>w_cipher_octxs := (w_cipher_octxs w)(octx \<mapsto>
             \<lparr>oc_cipher = Some cipher, oc_ctx = replicate (unat (e_sizeof_EVP_CIPHER_CTX (evpc E))) 0\<rparr>),
           w_cipher_ctxs := (w_cipher_ctxs w)(octx + OCTX_BASE_cipher E \<mapsto>
             \<lparr>cc_ops = Some ops, cc_type = type\<rparr>)\<rparr>
       else w);
     Some (octx + OCTX_BASE_cipher E, w)
   }"

definition openssl_aes_cbc128_alloc_ctx :: "env \<Rightarrow> world \<Rightarrow> (addr \<times> world) option" where
  "openssl_aes_cbc128_alloc_ctx E w =
     openssl_alloc_ctx_cipher E (sym E ''openssl_type_aes_cbc128'') EVP_aes_128_cbc Openssl_generic_aead_ctx_ops w"

definition openssl_aes_cbc192_alloc_ctx :: "env \<Rightarrow> world \<Rightarrow> (addr \<times> world) option" where
  "openssl_aes_cbc192_alloc_ctx E w =
     openssl_alloc_ctx_cipher E (sym E ''openssl_type_aes_cbc192'') EVP_aes_192_cbc Openssl_generic_aead_ctx_ops w"

definition openssl_aes_cbc256_alloc_ctx :: "env \<Rightarrow> world \<Rightarrow> (addr \<times> world) option" where
  "openssl_aes_cbc256_alloc_ctx E w =
     openssl_alloc_ctx_cipher E (sym E ''openssl_type_aes_cbc256'') EVP_aes_256_cbc Openssl_generic_aead_ctx_ops w"

definition openssl_aes_gcm128_alloc_ctx :: "env \<Rightarrow> world \<Rightarrow> (addr \<times> world) option" where
  "openssl_aes_gcm128_alloc_ctx E w =
     openssl_alloc_ctx_cipher E (sym E ''openssl_type_aes_gcm128'') EVP_aes_128_gcm Openssl_generic_aead_ctx_ops w"

definition openssl_aes_gcm192_alloc_ctx :: "env \<Rightarrow> world \<Rightarrow> (addr \<times> world) option" where
  "openssl_aes_gcm192_alloc_ctx E w =
     openssl_alloc_ctx_cipher E (sym E ''openssl_type_aes_gcm192'') EVP_aes_192_gcm Openssl_generic_aead_ctx_ops w"

definition openssl_aes_gcm256_alloc_ctx :: "env \<Rightarrow> world \<Rightarrow> (addr \<times> world) option" where
  "openssl_aes_gcm256_alloc_ctx E w =
     openssl_alloc_ctx_cipher E (sym E ''openssl_type_aes_gcm256'') EVP_aes_256_gcm Openssl_generic_aead_ctx_ops w"

text \<open>
  The calls through the function pointers. \<open>AEAD_OPS\<close> steps from the base operations to the table
  they are embedded in.
\<close>

fun call_cipher_alloc :: "env \<Rightarrow> cipher_alloc_fn \<Rightarrow> world \<Rightarrow> (addr \<times> world) option" where
  "call_cipher_alloc E Fn_openssl_aes_cbc128_alloc_ctx w = openssl_aes_cbc128_alloc_ctx E w"
| "call_cipher_alloc E Fn_openssl_aes_cbc192_alloc_ctx w = openssl_aes_cbc192_alloc_ctx E w"
| "call_cipher_alloc E Fn_openssl_aes_cbc256_alloc_ctx w = openssl_aes_cbc256_alloc_ctx E w"
| "call_cipher_alloc E Fn_openssl_aes_gcm128_alloc_ctx w = openssl_aes_gcm128_alloc_ctx E w"
| "call_cipher_alloc E Fn_openssl_aes_gcm192_alloc_ctx w = openssl_aes_gcm192_alloc_ctx E w"
| "call_cipher_alloc E Fn_openssl_aes_gcm256_alloc_ctx w = openssl_aes_gcm256_alloc_ctx E w"
| "call_cipher_alloc E (Ext_cipher_alloc n) w = e_ext_cipher_alloc (appc E) n w"

fun call_cipher_init ::
  "env \<Rightarrow> cipher_ops \<Rightarrow> addr \<Rightarrow> int \<Rightarrow> bytes option \<Rightarrow> size_t \<Rightarrow> bytes option \<Rightarrow> size_t \<Rightarrow> world \<Rightarrow>
    (int \<times> world) option" where
  "call_cipher_init E Openssl_generic_aead_ctx_ops ctx m key ks iv is w =
     openssl_generic_ctx_init_cipher E ctx m key ks iv is w"
| "call_cipher_init E (Ext_cipher_ops n) ctx m key ks iv is w =
     e_ext_cipher_init (appc E) n ctx m key ks iv is w"

fun call_cipher_update ::
  "env \<Rightarrow> cipher_ops \<Rightarrow> addr \<Rightarrow> bytes \<Rightarrow> size_t \<Rightarrow> size_t \<Rightarrow> world \<Rightarrow>
    (int \<times> bytes \<times> size_t \<times> world) option" where
  "call_cipher_update E Openssl_generic_aead_ctx_ops ctx b n olen w =
     openssl_generic_ctx_update_cipher E ctx b n False olen w"
| "call_cipher_update E (Ext_cipher_ops k) ctx b n olen w = e_ext_cipher_update (appc E) k ctx b n olen w"

fun call_cipher_finalize ::
  "env \<Rightarrow> cipher_ops \<Rightarrow> addr \<Rightarrow> size_t \<Rightarrow> world \<Rightarrow> (int \<times> bytes \<times> size_t \<times> world) option" where
  "call_cipher_finalize E Openssl_generic_aead_ctx_ops ctx olen w =
     openssl_generic_ctx_finalize_cipher E ctx olen w"
| "call_cipher_finalize E (Ext_cipher_ops n) ctx olen w = e_ext_cipher_finalize (appc E) n ctx olen w"

fun call_cipher_set_padding :: "env \<Rightarrow> cipher_ops \<Rightarrow> addr \<Rightarrow> int \<Rightarrow> world \<Rightarrow> (int \<times> world) option" where
  "call_cipher_set_padding E Openssl_generic_aead_ctx_ops ctx on w =
     openssl_generic_ctx_set_padding E ctx on w"
| "call_cipher_set_padding E (Ext_cipher_ops n) ctx on w = e_ext_cipher_set_padding (appc E) n ctx on w"

fun call_cipher_set_aad ::
  "env \<Rightarrow> cipher_ops \<Rightarrow> addr \<Rightarrow> bytes \<Rightarrow> size_t \<Rightarrow> world \<Rightarrow> (int \<times> world) option" where
  "call_cipher_set_aad E Openssl_generic_aead_ctx_ops ctx b n w = openssl_generic_ctx_set_aad E ctx b n w"
| "call_cipher_set_aad E (Ext_cipher_ops k) ctx b n w = e_ext_cipher_set_aad (appc E) k ctx b n w"

fun call_cipher_set_tag ::
  "env \<Rightarrow> cipher_ops \<Rightarrow> addr \<Rightarrow> bytes \<Rightarrow> size_t \<Rightarrow> world \<Rightarrow> (int \<times> world) option" where
  "call_cipher_set_tag E Openssl_generic_aead_ctx_ops ctx b n w = openssl_generic_ctx_set_tag E ctx b n w"
| "call_cipher_set_tag E (Ext_cipher_ops k) ctx b n w = e_ext_cipher_set_tag (appc E) k ctx b n w"

fun call_cipher_get_tag ::
  "env \<Rightarrow> cipher_ops \<Rightarrow> addr \<Rightarrow> size_t \<Rightarrow> world \<Rightarrow> (int \<times> bytes \<times> world) option" where
  "call_cipher_get_tag E Openssl_generic_aead_ctx_ops ctx n w = openssl_generic_ctx_get_tag E ctx n w"
| "call_cipher_get_tag E (Ext_cipher_ops k) ctx n w = e_ext_cipher_get_tag (appc E) k ctx n w"

fun call_cipher_destroy :: "env \<Rightarrow> cipher_ops \<Rightarrow> addr \<Rightarrow> world \<Rightarrow> world option" where
  "call_cipher_destroy E Openssl_generic_aead_ctx_ops ctx w = openssl_destroy_ctx_cipher E ctx w"
| "call_cipher_destroy E (Ext_cipher_ops n) ctx w = e_ext_cipher_destroy (appc E) n ctx w"

subsection \<open>Cipher contexts\<close>

definition cfe_cipher_alloc_ctx :: "env \<Rightarrow> string \<Rightarrow> world \<Rightarrow> (addr \<times> world) option" where
  "cfe_cipher_alloc_ctx E algname w = do {
     (type, w) \<leftarrow> cfe_cipher_ref algname w;
     if type = NULL then Some (NULL, w\<lparr>errno := ENOSYS\<rparr>)
     else do {
       ty \<leftarrow> rg_types (w_cipher w) type;
       f \<leftarrow> ct_alloc_ctx ty;
       (ctx, w) \<leftarrow> call_cipher_alloc E f w;
       if ctx = NULL then do {
         w \<leftarrow> cfe_cipher_put type w;
         Some (NULL, w)
       }
       else do {
         c \<leftarrow> w_cipher_ctxs w ctx;
         Some (ctx, w\<lparr>w_cipher_ctxs := (w_cipher_ctxs w)(ctx \<mapsto> c\<lparr>cc_type := type\<rparr>)\<rparr>)
       }
     }
   }"

definition cfe_cipher_destroy_ctx :: "env \<Rightarrow> addr \<Rightarrow> world \<Rightarrow> world option" where
  "cfe_cipher_destroy_ctx E ctx w =
     (if ctx = NULL then Some w
      else do {
        c \<leftarrow> w_cipher_ctxs w ctx;
        let type = cc_type c;
        ops \<leftarrow> cc_ops c;
        w \<leftarrow> call_cipher_destroy E ops ctx w;
        cfe_cipher_put type w
      })"

definition cfe_cipher_ctx_init ::
  "env \<Rightarrow> addr \<Rightarrow> int \<Rightarrow> bytes option \<Rightarrow> size_t \<Rightarrow> bytes option \<Rightarrow> size_t \<Rightarrow> world \<Rightarrow> (int \<times> world) option" where
  "cfe_cipher_ctx_init E ctx mode key ksize iv isize w =
     (if ctx = NULL then Some (1, w\<lparr>errno := EINVAL\<rparr>)
      else do {
        c \<leftarrow> w_cipher_ctxs w ctx;
        ty \<leftarrow> rg_types (w_cipher w) (cc_type c);
        if iv \<noteq> None \<and> ct_ivsize ty < isize then Some (1, w\<lparr>errno := EINVAL\<rparr>)
        else if ksize \<noteq> ct_keysize ty then Some (1, w\<lparr>errno := EINVAL\<rparr>)
        else do {
          ops \<leftarrow> cc_ops c;
          call_cipher_init E ops ctx mode key ksize iv isize w
        }
      })"

definition cfe_cipher_ctx_update ::
  "env \<Rightarrow> addr \<Rightarrow> bytes \<Rightarrow> size_t \<Rightarrow> size_t \<Rightarrow> world \<Rightarrow> (int \<times> bytes \<times> size_t \<times> world) option" where
  "cfe_cipher_ctx_update E ctx inp ilen olen w =
     (if ctx = NULL then Some (1, [], olen, w\<lparr>errno := EINVAL\<rparr>)
      else do {
        c \<leftarrow> w_cipher_ctxs w ctx;
        ops \<leftarrow> cc_ops c;
        call_cipher_update E ops ctx inp ilen olen w
      })"

definition cfe_cipher_ctx_finalize ::
  "env \<Rightarrow> addr \<Rightarrow> size_t \<Rightarrow> world \<Rightarrow> (int \<times> bytes \<times> size_t \<times> world) option" where
  "cfe_cipher_ctx_finalize E ctx olen w =
     (if ctx = NULL then Some (1, [], olen, w\<lparr>errno := EINVAL\<rparr>)
      else do {
        c \<leftarrow> w_cipher_ctxs w ctx;
        ops \<leftarrow> cc_ops c;
        call_cipher_finalize E ops ctx olen w
      })"

definition cfe_cipher_ctx_blocksize :: "addr \<Rightarrow> world \<Rightarrow> (int \<times> world) option" where
  "cfe_cipher_ctx_blocksize ctx w =
     (if ctx = NULL then Some (- 1, w\<lparr>errno := EINVAL\<rparr>)
      else do {
        c \<leftarrow> w_cipher_ctxs w ctx;
        ty \<leftarrow> rg_types (w_cipher w) (cc_type c);
        Some (sint (ct_blocksize ty), w)
      })"

definition cfe_cipher_ctx_set_padding :: "env \<Rightarrow> addr \<Rightarrow> int \<Rightarrow> world \<Rightarrow> (int \<times> world) option" where
  "cfe_cipher_ctx_set_padding E ctx on w =
     (if ctx = NULL then Some (1, w\<lparr>errno := EINVAL\<rparr>)
      else do {
        c \<leftarrow> w_cipher_ctxs w ctx;
        ops \<leftarrow> cc_ops c;
        call_cipher_set_padding E ops ctx on w
      })"

text \<open>The guard of the three AEAD operations: a context, and the AEAD flag of its type.\<close>

definition ctx_is_aead :: "addr \<Rightarrow> world \<Rightarrow> bool option" where
  "ctx_is_aead ctx w =
     (if ctx = NULL then Some False
      else do {
        c \<leftarrow> w_cipher_ctxs w ctx;
        ty \<leftarrow> rg_types (w_cipher w) (cc_type c);
        Some (ct_flags ty AND CIPHER_TYPE_AEAD \<noteq> 0)
      })"

definition cfe_cipher_ctx_set_aad ::
  "env \<Rightarrow> addr \<Rightarrow> bytes \<Rightarrow> size_t \<Rightarrow> world \<Rightarrow> (int \<times> world) option" where
  "cfe_cipher_ctx_set_aad E ctx aad asize w = do {
     ok \<leftarrow> ctx_is_aead ctx w;
     if \<not> ok then Some (1, w\<lparr>errno := EINVAL\<rparr>)
     else do {
       c \<leftarrow> w_cipher_ctxs w ctx;
       ops \<leftarrow> cc_ops c;
       call_cipher_set_aad E ops ctx aad asize w
     }
   }"

definition cfe_cipher_ctx_set_tag ::
  "env \<Rightarrow> addr \<Rightarrow> bytes \<Rightarrow> size_t \<Rightarrow> world \<Rightarrow> (int \<times> world) option" where
  "cfe_cipher_ctx_set_tag E ctx tag tsize w = do {
     ok \<leftarrow> ctx_is_aead ctx w;
     if \<not> ok then Some (1, w\<lparr>errno := EINVAL\<rparr>)
     else do {
       c \<leftarrow> w_cipher_ctxs w ctx;
       ops \<leftarrow> cc_ops c;
       call_cipher_set_tag E ops ctx tag tsize w
     }
   }"

definition cfe_cipher_ctx_get_tag ::
  "env \<Rightarrow> addr \<Rightarrow> size_t \<Rightarrow> world \<Rightarrow> (int \<times> bytes \<times> world) option" where
  "cfe_cipher_ctx_get_tag E ctx tsize w = do {
     ok \<leftarrow> ctx_is_aead ctx w;
     if \<not> ok then Some (1, [], w\<lparr>errno := EINVAL\<rparr>)
     else do {
       c \<leftarrow> w_cipher_ctxs w ctx;
       ops \<leftarrow> cc_ops c;
       call_cipher_get_tag E ops ctx tsize w
     }
   }"

subsection \<open>The static types and the constructor\<close>

definition openssl_type_aes_cbc128 :: cfe_cipher_type where
  "openssl_type_aes_cbc128 = \<lparr>ct_name = ''aes-cbc-128'', ct_flags = 0, ct_ivsize = 16,
     ct_keysize = 16, ct_blocksize = 16, ct_refcnt = 0,
     ct_alloc_ctx = Some Fn_openssl_aes_cbc128_alloc_ctx\<rparr>"

definition openssl_type_aes_cbc192 :: cfe_cipher_type where
  "openssl_type_aes_cbc192 = \<lparr>ct_name = ''aes-cbc-192'', ct_flags = 0, ct_ivsize = 16,
     ct_keysize = 24, ct_blocksize = 16, ct_refcnt = 0,
     ct_alloc_ctx = Some Fn_openssl_aes_cbc192_alloc_ctx\<rparr>"

definition openssl_type_aes_cbc256 :: cfe_cipher_type where
  "openssl_type_aes_cbc256 = \<lparr>ct_name = ''aes-cbc-256'', ct_flags = 0, ct_ivsize = 16,
     ct_keysize = 32, ct_blocksize = 16, ct_refcnt = 0,
     ct_alloc_ctx = Some Fn_openssl_aes_cbc256_alloc_ctx\<rparr>"

definition openssl_type_aes_gcm128 :: cfe_cipher_type where
  "openssl_type_aes_gcm128 = \<lparr>ct_name = ''aes-gcm-128'', ct_flags = CIPHER_TYPE_AEAD, ct_ivsize = 16,
     ct_keysize = 16, ct_blocksize = 1, ct_refcnt = 0,
     ct_alloc_ctx = Some Fn_openssl_aes_gcm128_alloc_ctx\<rparr>"

definition openssl_type_aes_gcm192 :: cfe_cipher_type where
  "openssl_type_aes_gcm192 = \<lparr>ct_name = ''aes-gcm-192'', ct_flags = CIPHER_TYPE_AEAD, ct_ivsize = 16,
     ct_keysize = 24, ct_blocksize = 1, ct_refcnt = 0,
     ct_alloc_ctx = Some Fn_openssl_aes_gcm192_alloc_ctx\<rparr>"

definition openssl_type_aes_gcm256 :: cfe_cipher_type where
  "openssl_type_aes_gcm256 = \<lparr>ct_name = ''aes-gcm-256'', ct_flags = CIPHER_TYPE_AEAD, ct_ivsize = 16,
     ct_keysize = 32, ct_blocksize = 1, ct_refcnt = 0,
     ct_alloc_ctx = Some Fn_openssl_aes_gcm256_alloc_ctx\<rparr>"

definition cipher_openssl_init :: "env \<Rightarrow> world \<Rightarrow> (bool \<times> world) option" where
  "cipher_openssl_init E w = do {
     (r1, w) \<leftarrow> cfe_cipher_register (sym E ''openssl_type_aes_cbc128'') w;
     (r2, w) \<leftarrow> cfe_cipher_register (sym E ''openssl_type_aes_cbc192'') w;
     (r3, w) \<leftarrow> cfe_cipher_register (sym E ''openssl_type_aes_cbc256'') w;
     (r4, w) \<leftarrow> cfe_cipher_register (sym E ''openssl_type_aes_gcm128'') w;
     (r5, w) \<leftarrow> cfe_cipher_register (sym E ''openssl_type_aes_gcm192'') w;
     (r6, w) \<leftarrow> cfe_cipher_register (sym E ''openssl_type_aes_gcm256'') w;
     Some (r1 + r2 + r3 + r4 + r5 + r6 \<noteq> 0, w)
   }"

subsection \<open>The contract\<close>

definition cipher_layout :: "(cfe_cipher_type, string, string) layout" where
  "cipher_layout =
     \<lparr>ly_get = w_cipher, ly_put = (\<lambda>R w. w\<lparr>w_cipher := R\<rparr>), ly_off = CIPHER_NEXT,
      ly_valid = (\<lambda>ty. ct_blocksize ty \<noteq> 0 \<and> ct_alloc_ctx ty \<noteq> None),
      ly_name = (\<lambda>ty. Some (ct_name ty)), ly_canon = cstr,
      ly_match = (\<lambda>n ty. Some (strcmp n (ct_name ty) = 0)),
      ly_refcnt = ct_refcnt, ly_refcnt_upd = ct_refcnt_update,
      ly_post = (\<lambda>_ w. Some w), ly_pinned = (\<lambda>_ _. False), ly_inv = (\<lambda>_ _. True),
      ly_frame = (\<lambda>w w'. \<exists>R. w' = w\<lparr>w_cipher := R\<rparr>)\<rparr>"

lemma cipher_same: "\<exists>R. w = w\<lparr>w_cipher := R\<rparr>"
  by (rule exI [of _ "w_cipher w"]) simp

interpretation cipher_lay: type_layout cipher_layout
  by unfold_locales (auto simp: cipher_layout_def strcmp_eq_0_iff cipher_same)

lemma find_alg_cipher_eq: "find_alg_cipher = tmpl_find cipher_layout"
  by (simp add: fun_eq_iff find_alg_cipher_def tmpl_find_def cipher_layout_def)

lemma cfe_cipher_register_eq: "cfe_cipher_register = tmpl_register cipher_layout"
  unfolding fun_eq_iff cfe_cipher_register_def tmpl_register_def find_alg_cipher_eq on_reg_def
  by (simp add: cipher_layout_def cong: if_cong)

lemma cfe_cipher_unregister_eq: "cfe_cipher_unregister = tmpl_unregister cipher_layout"
  unfolding fun_eq_iff cfe_cipher_unregister_def tmpl_unregister_def on_reg_def
  by (simp add: cipher_layout_def cong: if_cong)

lemma cfe_cipher_ref_eq: "cfe_cipher_ref = tmpl_acquire cipher_layout"
  unfolding fun_eq_iff cfe_cipher_ref_def tmpl_acquire_def find_alg_cipher_eq on_reg_def
  by (simp add: cipher_layout_def cong: if_cong)

lemma cfe_cipher_put_eq: "type \<noteq> NULL \<Longrightarrow> cfe_cipher_put type = tmpl_release cipher_layout type"
  unfolding fun_eq_iff cfe_cipher_put_def tmpl_release_def on_reg_def
  by (simp add: cipher_layout_def)

interpretation cipher: type_registry "tmpl_repr cipher_layout" "tmpl_key cipher_layout"
  "tmpl_refs cipher_layout" "tmpl_body cipher_layout" "\<lambda>_ _. False" "\<lambda>w w'. \<exists>R. w' = w\<lparr>w_cipher := R\<rparr>" cstr find_alg_cipher
  cfe_cipher_register cfe_cipher_unregister cfe_cipher_ref "tmpl_release cipher_layout"
  using cipher_lay.reg.type_registry_axioms
  unfolding find_alg_cipher_eq cfe_cipher_register_eq cfe_cipher_unregister_eq cfe_cipher_ref_eq
  by (simp add: cipher_layout_def)

interpretation cipher_put: counted_registry "tmpl_repr cipher_layout" "tmpl_key cipher_layout"
  "tmpl_refs cipher_layout" "tmpl_body cipher_layout" "\<lambda>_ _. False" "\<lambda>w w'. \<exists>R. w' = w\<lparr>w_cipher := R\<rparr>" cstr find_alg_cipher
  cfe_cipher_register cfe_cipher_unregister cfe_cipher_ref cfe_cipher_put
proof (unfold_locales, goal_cases)
  case (11 w xs t n c)
  then show ?case
    using cipher.acquire_found [OF 11] cfe_cipher_put_eq cipher.repr_nonnull [OF 11(1)] by metis
next
  case (13 w xs t c)
  then show ?case using cipher.release_dec [OF 13] by (simp add: cfe_cipher_put_eq)
qed ((rule cipher.repr_distinct cipher.repr_keyed cipher.repr_nonnull cipher.repr_unique cipher.refs_keyof
  cipher.find_key cipher.register_new cipher.register_busy cipher.unregister_busy cipher.unregister_free
  cipher.acquire_missing cipher.frame_self cipher.frame_then cipher.repr_errno cipher.keyof_errno
  cipher.refs_errno; assumption) | simp)+

subsection \<open>The life of a context\<close>

lemma cipher_put_iff:
  "t \<noteq> NULL \<Longrightarrow> cfe_cipher_put t v = Some w \<longleftrightarrow>
    (\<exists>ty. rg_types (w_cipher v) t = Some ty \<and>
      w = v\<lparr>w_cipher := (w_cipher v)\<lparr>rg_types := (rg_types (w_cipher v))(t \<mapsto> ct_refcnt_update cfe_atomic_dec ty)\<rparr>\<rparr>)"
  by (auto simp: cfe_cipher_put_def reg_store_def split: bind_splits)

lemma cfe_cipher_alloc_ctx_missing:
  assumes "tmpl_repr cipher_layout w xs" and "Some (cstr name) \<notin> tmpl_key cipher_layout w ` set xs"
  shows "cfe_cipher_alloc_ctx E name w = Some (NULL, w\<lparr>errno := ENOSYS\<rparr>)"
  using cipher.acquire_missing [OF assms] by (simp add: cfe_cipher_alloc_ctx_def)

text \<open>Taking the reference: only the counter of the type changes, and putting it back undoes that.\<close>

lemma cipher_acquired:
  assumes r: "tmpl_repr cipher_layout w xs" and t: "t \<in> set xs"
    and k: "tmpl_key cipher_layout w t = Some (cstr name)" and ty: "rg_types (w_cipher w) t = Some ty"
  shows "\<exists>v tv. cfe_cipher_ref name w = Some (t, v) \<and> tmpl_repr cipher_layout v xs \<and>
    tmpl_refs cipher_layout v = (tmpl_refs cipher_layout w)(t \<mapsto> ct_refcnt ty + 1) \<and> t \<noteq> NULL \<and>
    (\<exists>R. v = w\<lparr>w_cipher := R\<rparr>) \<and> rg_types (w_cipher v) t = Some tv \<and>
    tv = ty\<lparr>ct_refcnt := ct_refcnt ty + 1\<rparr> \<and> cfe_cipher_put t v = Some w"
proof -
  have c: "tmpl_refs cipher_layout w t = Some (ct_refcnt ty)"
    using ty by (simp add: tmpl_refs_def cipher_layout_def)
  have nn: "t \<noteq> NULL" using cipher.repr_nonnull [OF r] t by auto
  obtain v where v: "cfe_cipher_ref name w = Some (t, v)" "tmpl_repr cipher_layout v xs"
      "tmpl_refs cipher_layout v = (tmpl_refs cipher_layout w)(t \<mapsto> ct_refcnt ty + 1)"
      "\<exists>R. v = w\<lparr>w_cipher := R\<rparr>" "cfe_cipher_put t v = Some w"
    using cipher.acquire_found [OF r t k c] cfe_cipher_put_eq [OF nn] by metis
  then obtain tv where tv: "rg_types (w_cipher v) t = Some tv"
      "w = v\<lparr>w_cipher := (w_cipher v)\<lparr>rg_types := (rg_types (w_cipher v))(t \<mapsto> ct_refcnt_update cfe_atomic_dec tv)\<rparr>\<rparr>"
    using cipher_put_iff [OF nn] by blast
  have "ty = ct_refcnt_update cfe_atomic_dec tv" using ty by (subst (asm) tv(2)) simp
  then have "tv = ty\<lparr>ct_refcnt := ct_refcnt ty + 1\<rparr>" by simp
  then show ?thesis using v tv(1) nn by blast
qed

definition cipher_inc :: "addr \<Rightarrow> cfe_cipher_type \<Rightarrow> world \<Rightarrow> world" where
  "cipher_inc t ty w = w\<lparr>w_cipher := (w_cipher w)\<lparr>rg_types := (rg_types (w_cipher w))(t \<mapsto>
     ct_refcnt_update cfe_atomic_inc ty)\<rparr>\<rparr>"

lemma cipher_ref_inc:
  assumes "tmpl_repr cipher_layout w xs" and "t \<in> set xs"
    and "tmpl_key cipher_layout w t = Some (cstr name)" and "rg_types (w_cipher w) t = Some ty"
  shows "cfe_cipher_ref name w = Some (t, cipher_inc t ty w)"
proof -
  obtain v R where v: "cfe_cipher_ref name w = Some (t, v)" "t \<noteq> NULL" "v = w\<lparr>w_cipher := R\<rparr>"
      "rg_types (w_cipher v) t = Some (ty\<lparr>ct_refcnt := ct_refcnt ty + 1\<rparr>)" "cfe_cipher_put t v = Some w"
    using cipher_acquired [OF assms] by blast
  have put: "\<exists>tv. rg_types (w_cipher v) t = Some tv \<and> w = v\<lparr>w_cipher := (w_cipher v)\<lparr>rg_types :=
      (rg_types (w_cipher v))(t \<mapsto> ct_refcnt_update cfe_atomic_dec tv)\<rparr>\<rparr>"
    using v(5) unfolding cipher_put_iff [OF v(2)] .
  then obtain tv where w: "w = v\<lparr>w_cipher := (w_cipher v)\<lparr>rg_types :=
      (rg_types (w_cipher v))(t \<mapsto> ct_refcnt_update cfe_atomic_dec tv)\<rparr>\<rparr>" by blast
  have r: "w_cipher v = R" by (simp add: v(3))
  have "w_cipher w = R\<lparr>rg_types := (rg_types R)(t \<mapsto> ct_refcnt_update cfe_atomic_dec tv)\<rparr>"
    using arg_cong [OF w, of w_cipher] by (simp add: r)
  moreover from this have "ct_refcnt_update cfe_atomic_dec tv = ty" using assms(4) by simp
  ultimately have "w_cipher w = R\<lparr>rg_types := (rg_types R)(t \<mapsto> ty)\<rparr>" by simp
  then have "cipher_inc t ty w = v" using v(3,4) by (simp add: cipher_inc_def fun_upd_idem)
  then show ?thesis using v(1) by simp
qed

text \<open>What each of the six allocation functions of OpenSSL passes on.\<close>

fun cipher_alloc_args :: "env \<Rightarrow> cipher_alloc_fn \<Rightarrow> (addr \<times> evp_cipher) option" where
  "cipher_alloc_args E Fn_openssl_aes_cbc128_alloc_ctx = Some (sym E ''openssl_type_aes_cbc128'', EVP_aes_128_cbc)"
| "cipher_alloc_args E Fn_openssl_aes_cbc192_alloc_ctx = Some (sym E ''openssl_type_aes_cbc192'', EVP_aes_192_cbc)"
| "cipher_alloc_args E Fn_openssl_aes_cbc256_alloc_ctx = Some (sym E ''openssl_type_aes_cbc256'', EVP_aes_256_cbc)"
| "cipher_alloc_args E Fn_openssl_aes_gcm128_alloc_ctx = Some (sym E ''openssl_type_aes_gcm128'', EVP_aes_128_gcm)"
| "cipher_alloc_args E Fn_openssl_aes_gcm192_alloc_ctx = Some (sym E ''openssl_type_aes_gcm192'', EVP_aes_192_gcm)"
| "cipher_alloc_args E Fn_openssl_aes_gcm256_alloc_ctx = Some (sym E ''openssl_type_aes_gcm256'', EVP_aes_256_gcm)"
| "cipher_alloc_args E (Ext_cipher_alloc n) = None"

lemma call_cipher_alloc_openssl:
  "cipher_alloc_args E f = Some (s, c) \<Longrightarrow>
    call_cipher_alloc E f w = openssl_alloc_ctx_cipher E s c Openssl_generic_aead_ctx_ops w"
  by (cases f) (simp_all add: openssl_aes_cbc128_alloc_ctx_def openssl_aes_cbc192_alloc_ctx_def openssl_aes_cbc256_alloc_ctx_def
      openssl_aes_gcm128_alloc_ctx_def openssl_aes_gcm192_alloc_ctx_def openssl_aes_gcm256_alloc_ctx_def)

lemma cipher_block:
  assumes "fresh w a (OCTX_SIZE_cipher E)" and "e_sizeof_EVP_CIPHER_CTX (evpc E) < 2 ^ 32"
  shows "a + OCTX_BASE_cipher E \<noteq> NULL" and "w_cipher_ctxs w (a + OCTX_BASE_cipher E) = None"
    and "w_cipher_octxs w a = None"
proof -
  have lt: "OCTX_BASE_cipher E < OCTX_SIZE_cipher E" "0 < OCTX_SIZE_cipher E"
    using assms(2) unfolding OCTX_BASE_cipher_def OCTX_SIZE_cipher_def
    by (simp_all add: word_less_nat_alt unat_word_ariths)
  show "a + OCTX_BASE_cipher E \<noteq> NULL" "w_cipher_ctxs w (a + OCTX_BASE_cipher E) = None"
    "w_cipher_octxs w a = None"
    using assms(1) lt block_free_nonnull block_freeD [OF _ lt(1)] block_freeD [OF _ lt(2)]
    by (force simp: fresh_def)+
qed

text \<open>A live OpenSSL context, a new one and the world with its state replaced.\<close>

definition cipher_zero :: "env \<Rightarrow> bytes" where
  "cipher_zero E = replicate (unat (e_sizeof_EVP_CIPHER_CTX (evpc E))) 0"

definition cipher_live :: "env \<Rightarrow> world \<Rightarrow> addr \<Rightarrow> addr \<Rightarrow> evp_cipher \<Rightarrow> bytes \<Rightarrow> bool" where
  "cipher_live E w ctx t c st \<longleftrightarrow> ctx \<noteq> NULL \<and> OPENSSL_CTX_cipher E ctx \<noteq> NULL \<and>
     w_cipher_ctxs w ctx = Some \<lparr>cc_ops = Some Openssl_generic_aead_ctx_ops, cc_type = t\<rparr> \<and>
     w_cipher_octxs w (OPENSSL_CTX_cipher E ctx) = Some \<lparr>oc_cipher = Some c, oc_ctx = st\<rparr>"

definition cipher_state :: "env \<Rightarrow> addr \<Rightarrow> evp_cipher \<Rightarrow> bytes \<Rightarrow> world \<Rightarrow> world" where
  "cipher_state E ctx c st w = w\<lparr>w_cipher_octxs :=
     (w_cipher_octxs w)(OPENSSL_CTX_cipher E ctx \<mapsto> \<lparr>oc_cipher = Some c, oc_ctx = st\<rparr>)\<rparr>"

lemma cipher_live_state [simp]:
  "cipher_live E w ctx t c st \<Longrightarrow> cipher_live E (cipher_state E ctx c st' w) ctx t c st'"
  by (simp add: cipher_live_def cipher_state_def)

lemma cipher_state_state [simp]:
  "cipher_state E ctx c a (cipher_state E ctx c b w) = cipher_state E ctx c a w"
  by (simp add: cipher_state_def)

lemma cipher_state_types [simp]: "w_cipher (cipher_state E ctx c st w) = w_cipher w"
  by (simp add: cipher_state_def)

lemma cipher_ctx_steps:
  assumes "cipher_live E w ctx t c st"
  shows "cfe_cipher_ctx_update E ctx b n olen w =
      (let (r, s, out, m) = e_CipherUpdate (evpc E) st b (ucast n) False
       in Some (if r \<noteq> 1 then 1 else 0, out, store_out olen m, cipher_state E ctx c s w))"
    and "cfe_cipher_ctx_finalize E ctx olen w =
      (let (r, s, out, m) = e_CipherFinal_ex (evpc E) st
       in Some (if r \<noteq> 1 then 1 else 0, out, store_out olen m, cipher_state E ctx c s w))"
    and "cfe_cipher_ctx_set_padding E ctx on w =
      (let (r, s) = e_set_padding (evpc E) st (if on \<noteq> 0 then 1 else 0)
       in Some (if r \<noteq> 1 then 1 else 0, cipher_state E ctx c s w))"
  using assms
  by (simp_all add: cipher_live_def cipher_state_def cfe_cipher_ctx_update_def
      cfe_cipher_ctx_finalize_def cfe_cipher_ctx_set_padding_def openssl_generic_ctx_update_cipher_def
      openssl_generic_ctx_finalize_cipher_def openssl_generic_ctx_set_padding_def set_cctx_def Let_def
      split_beta)

text \<open>The AEAD operations: refused without the flag, passed on with it.\<close>

lemma cipher_ctx_aead:
  assumes "cipher_live E w ctx t c st" and "rg_types (w_cipher w) t = Some ty"
  shows "cfe_cipher_ctx_set_aad E ctx aad n w =
      (if ct_flags ty AND CIPHER_TYPE_AEAD = 0 then Some (1, w\<lparr>errno := EINVAL\<rparr>)
       else let (r, s, out, m) = e_CipherUpdate (evpc E) st aad (ucast n) True
         in Some (if r \<noteq> 1 then 1 else 0, cipher_state E ctx c s w))"
    and "cfe_cipher_ctx_set_tag E ctx tag n w =
      (if ct_flags ty AND CIPHER_TYPE_AEAD = 0 then Some (1, w\<lparr>errno := EINVAL\<rparr>)
       else let (r, s) = e_GCM_SET_TAG (evpc E) st (ucast n) tag
         in Some (if r \<noteq> 1 then 1 else 0, cipher_state E ctx c s w))"
    and "cfe_cipher_ctx_get_tag E ctx n w =
      (if ct_flags ty AND CIPHER_TYPE_AEAD = 0 then Some (1, [], w\<lparr>errno := EINVAL\<rparr>)
       else let (r, s, tag) = e_GCM_GET_TAG (evpc E) st (ucast n)
         in Some (if r \<noteq> 1 then 1 else 0, tag, cipher_state E ctx c s w))"
  using assms
  by (simp_all add: cipher_live_def cipher_state_def ctx_is_aead_def cfe_cipher_ctx_set_aad_def
      cfe_cipher_ctx_set_tag_def cfe_cipher_ctx_get_tag_def openssl_generic_ctx_set_aad_def
      openssl_generic_ctx_update_cipher_def openssl_generic_ctx_set_tag_def
      openssl_generic_ctx_get_tag_def set_cctx_def Let_def split_beta)

text \<open>What the initialisation does when its checks pass.\<close>

lemma cfe_cipher_ctx_init_ok:
  assumes l: "cipher_live E w ctx t c st" and ty: "rg_types (w_cipher w) t = Some ty"
    and chk: "iv = None \<or> isize \<le> ct_ivsize ty" "ksize = ct_keysize ty"
      "scast (e_CIPHER_key_length (evpc E) (Some c)) = ksize"
    and i1: "e_CipherInit_ex (evpc E) st (Some c) None None mode = (1, s1)"
    and i2: "(ct_flags ty AND CIPHER_TYPE_AEAD = 0 \<and> s2 = s1) \<or>
      (ct_flags ty AND CIPHER_TYPE_AEAD \<noteq> 0 \<and> e_GCM_SET_IVLEN (evpc E) s1 (ucast isize) = (1, s2))"
    and i3: "e_CipherInit_ex (evpc E) s2 None key iv mode = (r, s3)"
  shows "cfe_cipher_ctx_init E ctx mode key ksize iv isize w =
    Some (if r = 1 then 0 else 1, cipher_state E ctx c s3 w)"
proof -
  have nbad: "\<not> (iv \<noteq> None \<and> ct_ivsize ty < isize)" using chk(1) by (auto simp: not_less)
  have "cfe_cipher_ctx_init E ctx mode key ksize iv isize w =
      openssl_generic_ctx_init_cipher E ctx mode key ksize iv isize w"
    using l ty nbad chk(2) by (auto simp: cfe_cipher_ctx_init_def cipher_live_def)
  moreover have "openssl_generic_ctx_init_cipher E ctx mode key ksize iv isize w =
      Some (if r = 1 then 0 else 1, cipher_state E ctx c s3 w)"
    using l ty chk(3) i1 i2 i3
    by (auto simp: openssl_generic_ctx_init_cipher_def cipher_live_def set_cctx_def Let_def cipher_state_def)
  ultimately show ?thesis by simp
qed

text \<open>
  The half store: the length that OpenSSL reports replaces the low half of what the caller had in
  \<open>*olen\<close>, so it is exact only when the high half was zero.
\<close>

lemma store_low32_unat:
  "unat (store_low32 olen n) = 2 ^ 32 * (unat olen div 2 ^ 32) + unat n"
proof -
  have "push_bit 32 (drop_bit 32 olen) AND ucast n = 0"
    by (rule bit_word_eqI) (auto simp: bit_simps dest!: bit_imp_le_length)
  then have "store_low32 olen n = push_bit 32 (drop_bit 32 olen) + ucast n"
    by (simp add: store_low32_def disjunctive_add_eq_or)
  moreover have lo: "unat (ucast n :: size_t) = unat n" by (simp add: unat_ucast_up)
  moreover have "2 ^ 32 * (unat olen div 2 ^ 32) + unat n < (2 :: nat) ^ 64"
  proof -
    have "unat olen div 2 ^ 32 < 2 ^ 32"
      using unsigned_less [of olen, where 'a=nat] by (simp add: less_mult_imp_div_less)
    moreover have "unat n < 2 ^ 32" using unsigned_less [of n, where 'a=nat] by simp
    ultimately show ?thesis by simp
  qed
  ultimately show ?thesis by (simp add: unat_word_ariths unat_round [of 32 olen, simplified])
qed

lemma store_low32_length:
  "length out < 2 ^ 31 \<Longrightarrow> unat (store_low32 0 (of_nat (length out))) = length out"
  by (simp add: store_low32_unat unat_of_nat)

text \<open>Allocation for a type of OpenSSL, when the allocator has memory; and without memory.\<close>

lemma cfe_cipher_alloc_ctx_ok:
  assumes r: "tmpl_repr cipher_layout w xs" and t: "t \<in> set xs"
    and k: "tmpl_key cipher_layout w t = Some (cstr name)" and ty: "rg_types (w_cipher w) t = Some ty"
    and f: "ct_alloc_ctx ty = Some f" "cipher_alloc_args E f = Some (s, c)"
    and a: "\<And>R. e_calloc (libc E) (OCTX_SIZE_cipher E) (w\<lparr>w_cipher := R\<rparr>) = a"
      "fresh w a (OCTX_SIZE_cipher E)" "e_sizeof_EVP_CIPHER_CTX (evpc E) < 2 ^ 32"
  shows "\<exists>w'. cfe_cipher_alloc_ctx E name w = Some (a + OCTX_BASE_cipher E, w') \<and>
    cipher_live E w' (a + OCTX_BASE_cipher E) t c (cipher_zero E) \<and> tmpl_repr cipher_layout w' xs \<and>
    tmpl_refs cipher_layout w' = (tmpl_refs cipher_layout w)(t \<mapsto> ct_refcnt ty + 1) \<and>
    rg_types (w_cipher w') t = Some (ty\<lparr>ct_refcnt := ct_refcnt ty + 1\<rparr>) \<and>
    (\<forall>b. cfe_cipher_destroy_ctx E (a + OCTX_BASE_cipher E)
      (cipher_state E (a + OCTX_BASE_cipher E) c b w') = Some w)"
proof -
  let ?ctx = "a + OCTX_BASE_cipher E"
  obtain v where v: "cfe_cipher_ref name w = Some (t, v)" "tmpl_repr cipher_layout v xs"
      "tmpl_refs cipher_layout v = (tmpl_refs cipher_layout w)(t \<mapsto> ct_refcnt ty + 1)" "t \<noteq> NULL"
      "\<exists>R. v = w\<lparr>w_cipher := R\<rparr>" "rg_types (w_cipher v) t = Some (ty\<lparr>ct_refcnt := ct_refcnt ty + 1\<rparr>)"
      "cfe_cipher_put t v = Some w"
    using cipher_acquired [OF r t k ty] by blast
  have av: "e_calloc (libc E) (OCTX_SIZE_cipher E) v = a" using v(5) a(1) by auto
  have blk: "?ctx \<noteq> NULL" "w_cipher_ctxs w ?ctx = None" "w_cipher_octxs w a = None"
    using cipher_block [OF a(2,3)] by auto
  have nn: "a \<noteq> NULL" using a(2) by (simp add: fresh_def)
  let ?st = "cipher_zero E"
  define w' where "w' = v\<lparr>w_cipher_octxs := (w_cipher_octxs v)(a \<mapsto> \<lparr>oc_cipher = Some c, oc_ctx = ?st\<rparr>),
      w_cipher_ctxs := (w_cipher_ctxs v)(?ctx \<mapsto>
        \<lparr>cc_ops = Some Openssl_generic_aead_ctx_ops, cc_type = t\<rparr>)\<rparr>"
  have "cfe_cipher_alloc_ctx E name w = Some (?ctx, w')"
    using v(1,4,6) f(1) call_cipher_alloc_openssl [OF f(2)] av nn blk(1)
    by (simp add: cfe_cipher_alloc_ctx_def openssl_alloc_ctx_cipher_def calloc_1 w'_def cipher_zero_def)
  moreover have "cipher_live E w' ?ctx t c ?st"
    using blk(1) nn by (simp add: cipher_live_def w'_def OPENSSL_CTX_cipher_def)
  moreover have e: "w_cipher w' = w_cipher v" by (simp add: w'_def)
  moreover have "tmpl_repr cipher_layout w' xs"
      "tmpl_refs cipher_layout w' = tmpl_refs cipher_layout v"
    using v(2) e by (simp_all add: tmpl_repr_def tmpl_refs_def cipher_layout_def fun_eq_iff)
  moreover have "cfe_cipher_destroy_ctx E ?ctx (cipher_state E ?ctx c b w') = Some w" for b
  proof -
    have e: "w_cipher_octxs v = w_cipher_octxs w" "w_cipher_ctxs v = w_cipher_ctxs w" using v(5) by auto
    have "call_cipher_destroy E Openssl_generic_aead_ctx_ops ?ctx (cipher_state E ?ctx c b w') = Some v"
      using blk nn e by (simp add: openssl_destroy_ctx_cipher_def OPENSSL_CTX_cipher_def
          cipher_state_def free_defs w'_def fun_upd_idem)
    then show ?thesis
      using v(7) blk(1) by (simp add: cfe_cipher_destroy_ctx_def cipher_state_def w'_def)
  qed
  ultimately show ?thesis using v(3,6) by auto
qed

lemma cfe_cipher_alloc_ctx_oom:
  assumes r: "tmpl_repr cipher_layout w xs" and t: "t \<in> set xs"
    and k: "tmpl_key cipher_layout w t = Some (cstr name)" and ty: "rg_types (w_cipher w) t = Some ty"
    and f: "ct_alloc_ctx ty = Some f" "cipher_alloc_args E f = Some (s, c)"
    and a: "\<And>R. e_calloc (libc E) (OCTX_SIZE_cipher E) (w\<lparr>w_cipher := R\<rparr>) = NULL"
      "e_sizeof_EVP_CIPHER_CTX (evpc E) < 2 ^ 32" "OCTX_BASE_cipher E \<notin> dom (w_cipher_ctxs w)"
  shows "cfe_cipher_alloc_ctx E name w = None"
proof -
  obtain v where v: "cfe_cipher_ref name w = Some (t, v)" "t \<noteq> NULL" "\<exists>R. v = w\<lparr>w_cipher := R\<rparr>"
      "rg_types (w_cipher v) t = Some (ty\<lparr>ct_refcnt := ct_refcnt ty + 1\<rparr>)"
    using cipher_acquired [OF r t k ty] by blast
  have av: "e_calloc (libc E) (OCTX_SIZE_cipher E) v = NULL" using v(3) a(1) by auto
  have nn: "OCTX_BASE_cipher E \<noteq> NULL"
  proof
    assume "OCTX_BASE_cipher E = NULL"
    then have "e_sizeof_EVP_CIPHER_CTX (evpc E) = - 8"
      by (simp add: OCTX_BASE_cipher_def eq_neg_iff_add_eq_0 add.commute)
    with a(2) show False by simp
  qed
  have "w_cipher_ctxs v (OCTX_BASE_cipher E) = None" using v(3) a(3) by auto
  then show ?thesis
    using v(1,2,4) f(1) call_cipher_alloc_openssl [OF f(2)] av nn
    by (simp add: cfe_cipher_alloc_ctx_def openssl_alloc_ctx_cipher_def calloc_1)
qed

subsection \<open>Encrypting a message\<close>

fun evp_key_length :: "evp_cipher \<Rightarrow> nat" where
  "evp_key_length EVP_aes_128_cbc = 16"
| "evp_key_length EVP_aes_192_cbc = 24"
| "evp_key_length EVP_aes_256_cbc = 32"
| "evp_key_length EVP_aes_128_gcm = 16"
| "evp_key_length EVP_aes_192_gcm = 24"
| "evp_key_length EVP_aes_256_gcm = 32"

fun evp_is_gcm :: "evp_cipher \<Rightarrow> bool" where
  "evp_is_gcm EVP_aes_128_gcm = True"
| "evp_is_gcm EVP_aes_192_gcm = True"
| "evp_is_gcm EVP_aes_256_gcm = True"
| "evp_is_gcm _ = False"

text \<open>The length of the initialisation vector that a cipher expects unless it is told another.\<close>

definition evp_iv_length :: "evp_cipher \<Rightarrow> nat" where
  "evp_iv_length c = (if evp_is_gcm c then 12 else 16)"

text \<open>
  The stages of an \<open>EVP_CIPHER_CTX\<close>: zeroed; a cipher is selected, for a direction and with a length of
  the initialisation vector; it runs with a key and an initialisation vector, the additional data, the tag
  that was set, what it has taken and what it has given; it has sealed a message and holds the tag.
\<close>

datatype evp_stage =
    Zeroed
  | Selected evp_cipher int nat
  | Running evp_cipher int bytes bytes bytes "bytes option" bytes bytes
  | Sealed bytes

text \<open>
  What OpenSSL documents of the cipher functions. \<open>Z\<close> relates the bytes of a context to its stage. \<open>X\<close> is
  the function that a cipher computes on key, initialisation vector, additional data, tag to check and
  whole message: the output and the tag, or \<open>None\<close> where the end is an error (bad padding, a wrong tag, or
  none). An initialisation vector is read to the length that the context expects, which for GCM is 12
  unless it was set; only GCM has additional data and tags; the tag is set before the end of a decryption
  and got after the end of an encryption. Messages are below \<open>2 ^ 30\<close> bytes, so that every length is an \<open>int\<close>.
\<close>

definition evp_cipher_ok ::
  "openssl_cipher \<Rightarrow>
    (evp_cipher \<Rightarrow> int \<Rightarrow> bytes \<Rightarrow> bytes \<Rightarrow> bytes \<Rightarrow> bytes option \<Rightarrow> bytes \<Rightarrow> (bytes \<times> bytes) option) \<Rightarrow>
    (bytes \<Rightarrow> evp_stage \<Rightarrow> bool) \<Rightarrow> bool" where
  "evp_cipher_ok V X Z \<longleftrightarrow>
     (\<forall>c. e_CIPHER_key_length V (Some c) = of_nat (evp_key_length c)) \<and>
     Z (replicate (unat (e_sizeof_EVP_CIPHER_CTX V)) 0) Zeroed \<and>
     (\<forall>c mode st. Z st Zeroed \<longrightarrow> mode \<in> {0, 1} \<longrightarrow>
        (\<exists>s. e_CipherInit_ex V st (Some c) None None mode = (1, s) \<and> Z s (Selected c mode (evp_iv_length c)))) \<and>
     (\<forall>c mode n st k. Z st (Selected c mode n) \<longrightarrow> evp_is_gcm c \<longrightarrow> 0 < k \<longrightarrow> k \<le> 16 \<longrightarrow>
        (\<exists>s. e_GCM_SET_IVLEN V st (of_nat k) = (1, s) \<and> Z s (Selected c mode k))) \<and>
     (\<forall>c mode key iv st. Z st (Selected c mode (length iv)) \<longrightarrow> length key = evp_key_length c \<longrightarrow>
        (\<exists>s. e_CipherInit_ex V st None (Some key) (Some iv) mode = (1, s) \<and> Z s (Running c mode key iv [] None [] []))) \<and>
     (\<forall>c mode key iv aad st b. Z st (Running c mode key iv aad None [] []) \<longrightarrow> evp_is_gcm c \<longrightarrow>
        length (aad @ b) < 2 ^ 30 \<longrightarrow>
        (\<exists>s n. e_CipherUpdate V st b (of_nat (length b)) True = (1, s, [], n) \<and>
          Z s (Running c mode key iv (aad @ b) None [] []))) \<and>
     (\<forall>c key iv aad st u. Z st (Running c 0 key iv aad None [] []) \<longrightarrow> evp_is_gcm c \<longrightarrow> u \<noteq> [] \<longrightarrow> length u \<le> 16 \<longrightarrow>
        (\<exists>s. e_GCM_SET_TAG V st (of_nat (length u)) u = (1, s) \<and> Z s (Running c 0 key iv aad (Some u) [] []))) \<and>
     (\<forall>c mode key iv aad tag msg out st b. Z st (Running c mode key iv aad tag msg out) \<longrightarrow>
        length (msg @ b) < 2 ^ 30 \<longrightarrow>
        (\<exists>s o'. e_CipherUpdate V st b (of_nat (length b)) False = (1, s, o', Some (of_nat (length o'))) \<and>
          length o' < 2 ^ 31 \<and> Z s (Running c mode key iv aad tag (msg @ b) (out @ o')))) \<and>
     (\<forall>c mode key iv aad tag msg out st res t. Z st (Running c mode key iv aad tag msg out) \<longrightarrow>
        X c mode key iv aad tag msg = Some (res, t) \<longrightarrow>
        (\<exists>s o'. e_CipherFinal_ex V st = (1, s, o', Some (of_nat (length o'))) \<and> length o' < 2 ^ 31 \<and>
          res = out @ o' \<and> (evp_is_gcm c \<longrightarrow> mode = 1 \<longrightarrow> length t = 16 \<and> Z s (Sealed t)))) \<and>
     (\<forall>c mode key iv aad tag msg out st. Z st (Running c mode key iv aad tag msg out) \<longrightarrow>
        X c mode key iv aad tag msg = None \<longrightarrow> fst (e_CipherFinal_ex V st) \<noteq> 1) \<and>
     (\<forall>t st. Z st (Sealed t) \<longrightarrow> (\<exists>s. e_GCM_GET_TAG V st 16 = (1, s, take 16 t)))"

lemma evp_cipher_okD:
  assumes "evp_cipher_ok V X Z"
  shows "e_CIPHER_key_length V (Some c) = of_nat (evp_key_length c)"
    and "Z (replicate (unat (e_sizeof_EVP_CIPHER_CTX V)) 0) Zeroed"
    and "Z st Zeroed \<Longrightarrow> mode \<in> {0, 1} \<Longrightarrow>
      \<exists>s. e_CipherInit_ex V st (Some c) None None mode = (1, s) \<and> Z s (Selected c mode (evp_iv_length c))"
    and "Z st (Selected c mode n) \<Longrightarrow> evp_is_gcm c \<Longrightarrow> 0 < k \<Longrightarrow> k \<le> 16 \<Longrightarrow>
      \<exists>s. e_GCM_SET_IVLEN V st (of_nat k) = (1, s) \<and> Z s (Selected c mode k)"
    and "Z st (Selected c mode (length iv)) \<Longrightarrow> length key = evp_key_length c \<Longrightarrow>
      \<exists>s. e_CipherInit_ex V st None (Some key) (Some iv) mode = (1, s) \<and> Z s (Running c mode key iv [] None [] [])"
    and "Z st (Running c mode key iv aad None [] []) \<Longrightarrow> evp_is_gcm c \<Longrightarrow> length (aad @ b) < 2 ^ 30 \<Longrightarrow>
      \<exists>s n. e_CipherUpdate V st b (of_nat (length b)) True = (1, s, [], n) \<and> Z s (Running c mode key iv (aad @ b) None [] [])"
    and "Z st (Running c 0 key iv aad None [] []) \<Longrightarrow> evp_is_gcm c \<Longrightarrow> u \<noteq> [] \<Longrightarrow> length u \<le> 16 \<Longrightarrow>
      \<exists>s. e_GCM_SET_TAG V st (of_nat (length u)) u = (1, s) \<and> Z s (Running c 0 key iv aad (Some u) [] [])"
    and "Z st (Running c mode key iv aad tag msg out) \<Longrightarrow> length (msg @ b) < 2 ^ 30 \<Longrightarrow>
      \<exists>s o'. e_CipherUpdate V st b (of_nat (length b)) False = (1, s, o', Some (of_nat (length o'))) \<and>
        length o' < 2 ^ 31 \<and> Z s (Running c mode key iv aad tag (msg @ b) (out @ o'))"
    and "Z st (Running c mode key iv aad tag msg out) \<Longrightarrow> X c mode key iv aad tag msg = Some (res, t) \<Longrightarrow>
      \<exists>s o'. e_CipherFinal_ex V st = (1, s, o', Some (of_nat (length o'))) \<and> length o' < 2 ^ 31 \<and>
        res = out @ o' \<and> (evp_is_gcm c \<longrightarrow> mode = 1 \<longrightarrow> length t = 16 \<and> Z s (Sealed t))"
    and "Z st (Running c mode key iv aad tag msg out) \<Longrightarrow> X c mode key iv aad tag msg = None \<Longrightarrow>
      fst (e_CipherFinal_ex V st) \<noteq> 1"
    and "Z st (Sealed t) \<Longrightarrow> \<exists>s. e_GCM_GET_TAG V st 16 = (1, s, take 16 t)"
  using assms unfolding evp_cipher_ok_def by (elim conjE; meson)+

text \<open>A client: a message in pieces, with \<open>*olen\<close> zero before every call.\<close>

fun cipher_feed :: "env \<Rightarrow> addr \<Rightarrow> bytes list \<Rightarrow> world \<Rightarrow> (int \<times> bytes \<times> world) option" where
  "cipher_feed E ctx [] w = Some (0, [], w)"
| "cipher_feed E ctx (b # bs) w = do {
     (r, out, olen, w) \<leftarrow> cfe_cipher_ctx_update E ctx b (of_nat (length b)) 0 w;
     if r \<noteq> 0 then Some (r, [], w)
     else do {
       (r, outs, w) \<leftarrow> cipher_feed E ctx bs w;
       Some (r, take (unat olen) out @ outs, w)
     }
   }"

text \<open>
  With an AEAD type, the additional data go in first, and the tag that a decryption is to check; after
  an encryption the tag of 16 bytes is got.
\<close>

definition aead_begin ::
  "env \<Rightarrow> addr \<Rightarrow> int \<Rightarrow> (bytes \<times> bytes) option \<Rightarrow> world \<Rightarrow> (int list \<times> world) option" where
  "aead_begin E ctx mode aead w =
     (case aead of
        None \<Rightarrow> Some ([], w)
      | Some (aad, tag) \<Rightarrow> do {
          (r, w) \<leftarrow> cfe_cipher_ctx_set_aad E ctx aad (of_nat (length aad)) w;
          if mode = CFE_CIPHER_MODE_DECRYPT then do {
            (r', w) \<leftarrow> cfe_cipher_ctx_set_tag E ctx tag (of_nat (length tag)) w;
            Some ([r, r'], w)
          }
          else Some ([r], w)
        })"

definition aead_end ::
  "env \<Rightarrow> addr \<Rightarrow> int \<Rightarrow> (bytes \<times> bytes) option \<Rightarrow> world \<Rightarrow> (int list \<times> bytes \<times> world) option" where
  "aead_end E ctx mode aead w =
     (if aead \<noteq> None \<and> mode = CFE_CIPHER_MODE_ENCRYPT then do {
        (r, tag, w) \<leftarrow> cfe_cipher_ctx_get_tag E ctx 16 w;
        Some ([r], tag, w)
      }
      else Some ([], [], w))"

text \<open>The end of a session: the rest of the output, the tag, and the context goes.\<close>

definition cipher_finish ::
  "env \<Rightarrow> addr \<Rightarrow> int \<Rightarrow> (bytes \<times> bytes) option \<Rightarrow> int list \<Rightarrow> bytes \<Rightarrow> world \<Rightarrow>
    (int list \<times> bytes \<times> bytes \<times> world) option" where
  "cipher_finish E ctx mode aead rs out w = do {
     (r, last, olen, w) \<leftarrow> cfe_cipher_ctx_finalize E ctx 0 w;
     (rt, tag, w) \<leftarrow> aead_end E ctx mode aead w;
     w \<leftarrow> cfe_cipher_destroy_ctx E ctx w;
     Some (rs @ r # rt, out @ take (unat olen) last, tag, w)
   }"

definition cipher_session ::
  "env \<Rightarrow> string \<Rightarrow> int \<Rightarrow> bytes \<Rightarrow> bytes \<Rightarrow> (bytes \<times> bytes) option \<Rightarrow> bytes list \<Rightarrow> world \<Rightarrow>
    (int list \<times> bytes \<times> bytes \<times> world) option" where
  "cipher_session E algname mode key iv aead chunks w = do {
     (ctx, w) \<leftarrow> cfe_cipher_alloc_ctx E algname w;
     (r1, w) \<leftarrow> cfe_cipher_ctx_init E ctx mode (Some key) (of_nat (length key)) (Some iv) (of_nat (length iv)) w;
     (rs, w) \<leftarrow> aead_begin E ctx mode aead w;
     (r2, out, w) \<leftarrow> cipher_feed E ctx chunks w;
     cipher_finish E ctx mode aead (r1 # rs @ [r2]) out w
   }"

lemma cint_length: "(ucast (of_nat (length b) :: size_t) :: cint) = of_nat (length b)"
  by (simp add: unsigned_of_nat word_of_nat_eq_iff)

lemma cipher_feed_ok:
  assumes V: "evp_cipher_ok (evpc E) X Z" and "length (msg @ concat bs) < 2 ^ 30"
    and "cipher_live E w ctx t c st" and "Z st (Running c mode key iv aad tag msg out)"
  shows "\<exists>st' o'. cipher_feed E ctx bs w = Some (0, o', cipher_state E ctx c st' w) \<and>
    Z st' (Running c mode key iv aad tag (msg @ concat bs) (out @ o'))"
  using assms(2-4)
proof (induction bs arbitrary: w st msg out)
  case Nil
  then have "cipher_state E ctx c st w = w"
    by (simp add: cipher_state_def cipher_live_def fun_upd_idem)
  then show ?case using Nil by (intro exI [of _ st] exI [of _ "[]"]) simp
next
  case (Cons b bs)
  have "length (msg @ b) < 2 ^ 30" using Cons.prems(1) by simp
  then obtain st1 o1 where s1: "e_CipherUpdate (evpc E) st b (of_nat (length b)) False =
      (1, st1, o1, Some (of_nat (length o1)))" "length o1 < 2 ^ 31"
      "Z st1 (Running c mode key iv aad tag (msg @ b) (out @ o1))"
    using evp_cipher_okD(8) [OF V Cons.prems(3)] by blast
  obtain st2 o2 where s2: "cipher_feed E ctx bs (cipher_state E ctx c st1 w) =
      Some (0, o2, cipher_state E ctx c st2 (cipher_state E ctx c st1 w))"
      "Z st2 (Running c mode key iv aad tag ((msg @ b) @ concat bs) ((out @ o1) @ o2))"
    using Cons.IH [OF _ cipher_live_state [OF Cons.prems(2)] s1(3)] Cons.prems(1) by auto
  show ?case
    using s1(1,2) s2 cipher_ctx_steps(1) [OF Cons.prems(2)] store_low32_length [OF s1(2)]
    by (intro exI [of _ st2] exI [of _ "o1 @ o2"]) (simp add: cint_length store_out_def)
qed

text \<open>
  The fields of a type agree with the OpenSSL cipher behind it (the six static types do), and the
  length of an initialisation vector fits the cipher.
\<close>

definition cipher_type_ok :: "cfe_cipher_type \<Rightarrow> evp_cipher \<Rightarrow> bool" where
  "cipher_type_ok ty c \<longleftrightarrow> ct_keysize ty = of_nat (evp_key_length c) \<and> ct_ivsize ty = 16 \<and>
     (ct_flags ty AND CIPHER_TYPE_AEAD \<noteq> 0) = evp_is_gcm c"

definition iv_ok :: "evp_cipher \<Rightarrow> bytes \<Rightarrow> bool" where
  "iv_ok c iv \<longleftrightarrow> (if evp_is_gcm c then 0 < length iv \<and> length iv \<le> 16 else length iv = 16)"

lemma cipher_ctx_init_ok:
  assumes V: "evp_cipher_ok (evpc E) X Z" and l: "cipher_live E w ctx t c st" and z: "Z st Zeroed"
    and ty: "rg_types (w_cipher w) t = Some ty" and ok: "cipher_type_ok ty c" and m: "mode \<in> {0, 1}"
    and k: "length key = evp_key_length c" and iv: "iv_ok c iv"
  shows "\<exists>st'. cfe_cipher_ctx_init E ctx mode (Some key) (of_nat (length key)) (Some iv)
      (of_nat (length iv)) w = Some (0, cipher_state E ctx c st' w) \<and> Z st' (Running c mode key iv [] None [] [])"
proof -
  have iv16: "length iv \<le> 16" using iv by (auto simp: iv_ok_def split: if_splits)
  have iv64: "(of_nat (length iv) :: size_t) \<le> 16"
    using iv16 by (simp add: word_le_nat_alt unat_of_nat)
  obtain s1 where s1: "e_CipherInit_ex (evpc E) st (Some c) None None mode = (1, s1)"
      "Z s1 (Selected c mode (evp_iv_length c))"
    using evp_cipher_okD(3) [OF V z m] by blast
  obtain s2 where s2: "Z s2 (Selected c mode (length iv))" "(\<not> evp_is_gcm c \<and> s2 = s1) \<or>
      (evp_is_gcm c \<and> e_GCM_SET_IVLEN (evpc E) s1 (ucast (of_nat (length iv) :: size_t)) = (1, s2))"
  proof (cases "evp_is_gcm c")
    case True
    then have "0 < length iv" using iv by (simp add: iv_ok_def)
    then show ?thesis using evp_cipher_okD(4) [OF V s1(2) True _ iv16] that True by (auto simp: cint_length)
  next
    case False
    then show ?thesis using s1(2) iv that by (simp add: iv_ok_def evp_iv_length_def)
  qed
  obtain s3 where s3: "e_CipherInit_ex (evpc E) s2 None (Some key) (Some iv) mode = (1, s3)"
      "Z s3 (Running c mode key iv [] None [] [])"
    using evp_cipher_okD(5) [OF V s2(1) k] by blast
  have kl: "scast (e_CIPHER_key_length (evpc E) (Some c)) = (of_nat (length key) :: size_t)"
    unfolding evp_cipher_okD(1) [OF V] k by (cases c) simp_all
  have "cfe_cipher_ctx_init E ctx mode (Some key) (of_nat (length key)) (Some iv)
      (of_nat (length iv)) w = Some (if (1 :: int) = 1 then 0 else 1, cipher_state E ctx c s3 w)"
    by (rule cfe_cipher_ctx_init_ok [OF l ty _ _ kl s1(1) _ s3(1)])
       (use ok k iv64 s2(2) in \<open>auto simp: cipher_type_ok_def\<close>)
  then show ?thesis using s3(2) by auto
qed

text \<open>What the cipher computes in a session, which has additional data and a tag exactly with GCM.\<close>

definition aead_for :: "evp_cipher \<Rightarrow> bytes \<Rightarrow> bytes \<Rightarrow> (bytes \<times> bytes) option" where
  "aead_for c aad tag = (if evp_is_gcm c then Some (aad, tag) else None)"

definition computes ::
  "(evp_cipher \<Rightarrow> int \<Rightarrow> bytes \<Rightarrow> bytes \<Rightarrow> bytes \<Rightarrow> bytes option \<Rightarrow> bytes \<Rightarrow> (bytes \<times> bytes) option) \<Rightarrow>
    evp_cipher \<Rightarrow> int \<Rightarrow> bytes \<Rightarrow> bytes \<Rightarrow> bytes \<Rightarrow> bytes \<Rightarrow> bytes \<Rightarrow> (bytes \<times> bytes) option" where
  "computes X c mode key iv aad tag msg =
     (if evp_is_gcm c then X c mode key iv aad (if mode = 0 then Some tag else None) msg
      else X c mode key iv [] None msg)"

definition aead_ok :: "evp_cipher \<Rightarrow> int \<Rightarrow> bytes \<Rightarrow> bytes \<Rightarrow> bool" where
  "aead_ok c mode aad tag \<longleftrightarrow> (evp_is_gcm c \<longrightarrow> length aad < 2 ^ 30 \<and> (mode = 0 \<longrightarrow> tag \<noteq> [] \<and> length tag \<le> 16))"

lemma aead_begin_ok:
  assumes V: "evp_cipher_ok (evpc E) X Z" and l: "cipher_live E w ctx t c st"
    and ty: "rg_types (w_cipher w) t = Some ty" "cipher_type_ok ty c" and m: "mode \<in> {0, 1}"
    and z: "Z st (Running c mode key iv [] None [] [])" and ok: "aead_ok c mode aad tag"
  shows "\<exists>rs st'. aead_begin E ctx mode (aead_for c aad tag) w = Some (rs, cipher_state E ctx c st' w) \<and> set rs \<subseteq> {0} \<and>
    Z st' (if evp_is_gcm c then Running c mode key iv aad (if mode = 0 then Some tag else None) [] []
      else Running c mode key iv [] None [] [])"
proof (cases "evp_is_gcm c")
  case False
  have "cipher_state E ctx c st w = w" using l by (simp add: cipher_state_def cipher_live_def fun_upd_idem)
  then show ?thesis using False z
    by (intro exI [of _ "[]"] exI [of _ st]) (simp add: aead_begin_def aead_for_def)
next
  case True
  have flag: "ct_flags ty AND CIPHER_TYPE_AEAD \<noteq> 0" using ty(2) True by (simp add: cipher_type_ok_def)
  obtain s1 n where s1: "e_CipherUpdate (evpc E) st aad (of_nat (length aad)) True = (1, s1, [], n)"
      "Z s1 (Running c mode key iv aad None [] [])"
    using evp_cipher_okD(6) [OF V z True, of aad] ok True by (auto simp: aead_ok_def)
  let ?v = "cipher_state E ctx c s1 w"
  have l1: "cipher_live E ?v ctx t c s1" using l by simp
  have aad: "cfe_cipher_ctx_set_aad E ctx aad (of_nat (length aad)) w = Some (0, ?v)"
    using cipher_ctx_aead(1) [OF l ty(1)] flag s1(1) by (simp add: cint_length)
  show ?thesis
  proof (cases "mode = 0")
    case False
    then show ?thesis using True aad s1(2)
      by (intro exI [of _ "[0]"] exI [of _ s1]) (simp add: aead_begin_def aead_for_def CFE_CIPHER_MODE_DECRYPT_def)
  next
    case dec: True
    obtain s2 where s2: "e_GCM_SET_TAG (evpc E) s1 (of_nat (length tag)) tag = (1, s2)"
        "Z s2 (Running c 0 key iv aad (Some tag) [] [])"
      using evp_cipher_okD(7) [OF V, of s1 c key iv aad tag] s1(2) ok True dec by (auto simp: aead_ok_def)
    have "cfe_cipher_ctx_set_tag E ctx tag (of_nat (length tag)) ?v = Some (0, cipher_state E ctx c s2 ?v)"
      using cipher_ctx_aead(2) [OF l1] ty(1) flag s2(1) by (simp add: cint_length)
    then show ?thesis using True dec aad s2(2)
      by (intro exI [of _ "[0, 0]"] exI [of _ s2]) (simp add: aead_begin_def aead_for_def CFE_CIPHER_MODE_DECRYPT_def)
  qed
qed

text \<open>
  A whole session with a type of OpenSSL. Every call but the last ones succeeds, and the cipher has
  taken the message however it was cut into pieces.
\<close>

lemma cipher_session_runs:
  assumes r: "tmpl_repr cipher_layout w xs" and t: "t \<in> set xs"
    and k: "tmpl_key cipher_layout w t = Some (cstr name)" and ty: "rg_types (w_cipher w) t = Some ty"
    and f: "ct_alloc_ctx ty = Some f" "cipher_alloc_args E f = Some (s, c)"
    and a: "\<And>R. e_calloc (libc E) (OCTX_SIZE_cipher E) (w\<lparr>w_cipher := R\<rparr>) = a"
      "fresh w a (OCTX_SIZE_cipher E)" "e_sizeof_EVP_CIPHER_CTX (evpc E) < 2 ^ 32"
    and V: "evp_cipher_ok (evpc E) X Z" and ok: "cipher_type_ok ty c" and m: "mode \<in> {0, 1}"
    and kl: "length key = evp_key_length c" and iv: "iv_ok c iv" and ad: "aead_ok c mode aad tag"
    and len: "length (concat chunks) < 2 ^ 30"
  shows "\<exists>ctx rs out st v tv. cipher_session E name mode key iv (aead_for c aad tag) chunks w =
      cipher_finish E ctx mode (aead_for c aad tag) rs out v \<and> set rs = {0} \<and>
    cipher_live E v ctx t c st \<and> rg_types (w_cipher v) t = Some tv \<and> cipher_type_ok tv c \<and>
    Z st (Running c mode key iv (if evp_is_gcm c then aad else [])
      (if evp_is_gcm c \<and> mode = 0 then Some tag else None) (concat chunks) out) \<and>
    (\<forall>b. cfe_cipher_destroy_ctx E ctx (cipher_state E ctx c b v) = Some w)"
proof -
  let ?ctx = "a + OCTX_BASE_cipher E" and ?ad = "aead_for c aad tag"
  let ?tv = "ty\<lparr>ct_refcnt := ct_refcnt ty + 1\<rparr>"
  obtain v where v: "cfe_cipher_alloc_ctx E name w = Some (?ctx, v)" "cipher_live E v ?ctx t c (cipher_zero E)"
      "rg_types (w_cipher v) t = Some ?tv"
      "\<And>b. cfe_cipher_destroy_ctx E ?ctx (cipher_state E ?ctx c b v) = Some w"
    using cfe_cipher_alloc_ctx_ok [OF r t k ty f a] by blast
  have ok': "cipher_type_ok ?tv c" using ok by (simp add: cipher_type_ok_def)
  have z: "Z (cipher_zero E) Zeroed" using evp_cipher_okD(2) [OF V] by (simp add: cipher_zero_def)
  obtain s1 where s1: "cfe_cipher_ctx_init E ?ctx mode (Some key) (of_nat (length key)) (Some iv)
      (of_nat (length iv)) v = Some (0, cipher_state E ?ctx c s1 v)" "Z s1 (Running c mode key iv [] None [] [])"
    using cipher_ctx_init_ok [OF V v(2) z v(3) ok' m kl iv] by blast
  have l1: "cipher_live E (cipher_state E ?ctx c s1 v) ?ctx t c s1" using v(2) by simp
  obtain rs s2 where s2: "aead_begin E ?ctx mode ?ad (cipher_state E ?ctx c s1 v) = Some (rs, cipher_state E ?ctx c s2 v)"
      "set rs \<subseteq> {0}" "Z s2 (Running c mode key iv (if evp_is_gcm c then aad else [])
        (if evp_is_gcm c \<and> mode = 0 then Some tag else None) [] [])"
    using aead_begin_ok [OF V l1 _ ok' m s1(2) ad] v(3) by (cases "evp_is_gcm c") auto
  have l2: "cipher_live E (cipher_state E ?ctx c s2 v) ?ctx t c s2" using v(2) by simp
  obtain s3 o3 where s3: "cipher_feed E ?ctx chunks (cipher_state E ?ctx c s2 v) = Some (0, o3, cipher_state E ?ctx c s3 v)"
      "Z s3 (Running c mode key iv (if evp_is_gcm c then aad else [])
        (if evp_is_gcm c \<and> mode = 0 then Some tag else None) (concat chunks) o3)"
    using cipher_feed_ok [OF V _ l2 s2(3), of chunks] len by auto
  have "cipher_session E name mode key iv ?ad chunks w =
      cipher_finish E ?ctx mode ?ad (0 # rs @ [0]) o3 (cipher_state E ?ctx c s3 v)"
    using v(1) s1(1) s2(1) s3(1) by (simp add: cipher_session_def)
  moreover have "set (0 # rs @ [0]) = {0 :: int}" using s2(2) by auto
  ultimately show ?thesis
    using v(2,3,4) ok' s3(2)
    by (intro exI [of _ ?ctx] exI [of _ "0 # rs @ [0]"] exI [of _ o3] exI [of _ s3] exI [of _ "cipher_state E ?ctx c s3 v"]
        exI [of _ ?tv]) simp
qed

lemma cipher_finish_ok:
  assumes V: "evp_cipher_ok (evpc E) X Z" and l: "cipher_live E v ctx t c st"
    and ty: "rg_types (w_cipher v) t = Some tv" "cipher_type_ok tv c" and m: "mode \<in> {0, 1}"
    and z: "Z st (Running c mode key iv (if evp_is_gcm c then aad else [])
      (if evp_is_gcm c \<and> mode = 0 then Some tag else None) msg out)"
    and d: "\<And>b. cfe_cipher_destroy_ctx E ctx (cipher_state E ctx c b v) = Some w"
  shows "case computes X c mode key iv aad tag msg of
      Some (res, u) \<Rightarrow> \<exists>rs'. cipher_finish E ctx mode (aead_for c aad tag) rs out v =
        Some (rs @ rs', res, if evp_is_gcm c \<and> mode = 1 then u else [], w) \<and> set rs' = {0} \<and>
        (evp_is_gcm c \<longrightarrow> mode = 1 \<longrightarrow> length u = 16)
    | None \<Rightarrow> \<exists>rs' res u. cipher_finish E ctx mode (aead_for c aad tag) rs out v = Some (rs @ 1 # rs', res, u, w)"
proof (cases "computes X c mode key iv aad tag msg")
  case None
  have "X c mode key iv (if evp_is_gcm c then aad else []) (if evp_is_gcm c \<and> mode = 0 then Some tag else None) msg = None"
    using None by (cases "evp_is_gcm c") (simp_all add: computes_def)
  with evp_cipher_okD(10) [OF V z] have no: "fst (e_CipherFinal_ex (evpc E) st) \<noteq> 1" by blast
  obtain r s o' n where f: "e_CipherFinal_ex (evpc E) st = (r, s, o', n)"
    by (cases "e_CipherFinal_ex (evpc E) st") auto
  have r: "r \<noteq> 1" using no f by simp
  have l1: "cipher_live E (cipher_state E ctx c s v) ctx t c s" using l by simp
  obtain rt u s' where e: "aead_end E ctx mode (aead_for c aad tag) (cipher_state E ctx c s v) = Some (rt, u, cipher_state E ctx c s' v)"
  proof (cases "evp_is_gcm c \<and> mode = CFE_CIPHER_MODE_ENCRYPT")
    case True
    obtain r' s' u' where g: "e_GCM_GET_TAG (evpc E) s 16 = (r', s', u')" by (cases "e_GCM_GET_TAG (evpc E) s 16") auto
    have "cfe_cipher_ctx_get_tag E ctx 16 (cipher_state E ctx c s v) = Some (if r' \<noteq> 1 then 1 else 0, u', cipher_state E ctx c s' v)"
      using cipher_ctx_aead(3) [OF l1, of tv 16] ty True g by (simp add: cipher_type_ok_def)
    then show ?thesis using True by (intro that) (simp add: aead_end_def aead_for_def)
  next
    case False
    then show ?thesis by (intro that [of "[]" "[]" s]) (auto simp: aead_end_def aead_for_def)
  qed
  then show ?thesis
    using None f r cipher_ctx_steps(2) [OF l] d by (simp add: cipher_finish_def)
next
  case (Some p)
  obtain res u where p: "p = (res, u)" by (cases p)
  have "X c mode key iv (if evp_is_gcm c then aad else []) (if evp_is_gcm c \<and> mode = 0 then Some tag else None) msg = Some (res, u)"
    using Some p by (cases "evp_is_gcm c") (simp_all add: computes_def)
  from evp_cipher_okD(9) [OF V z this]
  obtain s o' where f: "e_CipherFinal_ex (evpc E) st = (1, s, o', Some (of_nat (length o')))" "length o' < 2 ^ 31"
      "res = out @ o'" "evp_is_gcm c \<Longrightarrow> mode = 1 \<Longrightarrow> length u = 16 \<and> Z s (Sealed u)" by blast
  let ?v = "cipher_state E ctx c s v"
  have l1: "cipher_live E ?v ctx t c s" using l by simp
  have fin: "cfe_cipher_ctx_finalize E ctx 0 v = Some (0, o', store_low32 0 (of_nat (length o')), ?v)"
    using cipher_ctx_steps(2) [OF l] f(1) by (simp add: store_out_def)
  have "\<exists>rt s'. aead_end E ctx mode (aead_for c aad tag) ?v =
      Some (rt, if evp_is_gcm c \<and> mode = 1 then u else [], cipher_state E ctx c s' v) \<and> set rt \<subseteq> {0}"
  proof (cases "evp_is_gcm c \<and> mode = 1")
    case True
    obtain s2 where s2: "e_GCM_GET_TAG (evpc E) s 16 = (1, s2, take 16 u)"
      using evp_cipher_okD(11) [OF V] f(4) True by blast
    have "cfe_cipher_ctx_get_tag E ctx 16 ?v = Some (0, u, cipher_state E ctx c s2 v)"
      using cipher_ctx_aead(3) [OF l1, of tv 16] ty s2 True f(4) by (simp add: cipher_type_ok_def)
    then show ?thesis using True
      by (intro exI [of _ "[0]"] exI [of _ s2]) (simp add: aead_end_def aead_for_def CFE_CIPHER_MODE_ENCRYPT_def)
  next
    case False
    then have "aead_end E ctx mode (aead_for c aad tag) ?v = Some ([], [], ?v)"
      by (auto simp: aead_end_def aead_for_def CFE_CIPHER_MODE_ENCRYPT_def)
    then show ?thesis using False by auto
  qed
  then obtain rt s' where rt: "aead_end E ctx mode (aead_for c aad tag) ?v =
      Some (rt, if evp_is_gcm c \<and> mode = 1 then u else [], cipher_state E ctx c s' v)" "set rt \<subseteq> {0}" by blast
  have "cipher_finish E ctx mode (aead_for c aad tag) rs out v =
      Some (rs @ 0 # rt, res, if evp_is_gcm c \<and> mode = 1 then u else [], w)"
    using fin rt(1) d f(3) store_low32_length [OF f(2)] by (simp add: cipher_finish_def)
  moreover have "set (0 # rt) = {0}" using rt(2) by auto
  ultimately show ?thesis using Some p f(4) by (auto intro!: exI [of _ "0 # rt"])
qed

lemma cipher_session_run:
  assumes r: "tmpl_repr cipher_layout w xs" and t: "t \<in> set xs"
    and k: "tmpl_key cipher_layout w t = Some (cstr name)" and ty: "rg_types (w_cipher w) t = Some ty"
    and f: "ct_alloc_ctx ty = Some f" "cipher_alloc_args E f = Some (s, c)"
    and a: "\<And>R. e_calloc (libc E) (OCTX_SIZE_cipher E) (w\<lparr>w_cipher := R\<rparr>) = a"
      "fresh w a (OCTX_SIZE_cipher E)" "e_sizeof_EVP_CIPHER_CTX (evpc E) < 2 ^ 32"
    and V: "evp_cipher_ok (evpc E) X Z" and ok: "cipher_type_ok ty c" and m: "mode \<in> {0, 1}"
    and kl: "length key = evp_key_length c" and iv: "iv_ok c iv" and ad: "aead_ok c mode aad tag"
    and len: "length (concat chunks) < 2 ^ 30"
  shows "case computes X c mode key iv aad tag (concat chunks) of
      Some (res, u) \<Rightarrow> \<exists>rs. cipher_session E name mode key iv (aead_for c aad tag) chunks w =
        Some (rs, res, if evp_is_gcm c \<and> mode = 1 then u else [], w) \<and> set rs = {0} \<and>
        (evp_is_gcm c \<longrightarrow> mode = 1 \<longrightarrow> length u = 16)
    | None \<Rightarrow> \<exists>rs res u. cipher_session E name mode key iv (aead_for c aad tag) chunks w = Some (rs, res, u, w) \<and> 1 \<in> set rs"
proof -
  obtain ctx rs out st v tv where v: "cipher_session E name mode key iv (aead_for c aad tag) chunks w =
      cipher_finish E ctx mode (aead_for c aad tag) rs out v" "set rs = {0}"
    "cipher_live E v ctx t c st" "rg_types (w_cipher v) t = Some tv" "cipher_type_ok tv c"
    "Z st (Running c mode key iv (if evp_is_gcm c then aad else [])
      (if evp_is_gcm c \<and> mode = 0 then Some tag else None) (concat chunks) out)"
    "\<And>b. cfe_cipher_destroy_ctx E ctx (cipher_state E ctx c b v) = Some w"
    using cipher_session_runs [OF r t k ty f a V ok m kl iv ad len] by blast
  show ?thesis
    using cipher_finish_ok [OF V v(3,4,5) m v(6,7), of rs] v(1,2)
    by (auto split: option.splits)
qed

text \<open>The constructor, from the load image.\<close>

definition cipher_statics :: "env \<Rightarrow> (addr \<times> cfe_cipher_type) list" where
  "cipher_statics E =
     [(sym E ''openssl_type_aes_cbc128'', openssl_type_aes_cbc128),
      (sym E ''openssl_type_aes_cbc192'', openssl_type_aes_cbc192),
      (sym E ''openssl_type_aes_cbc256'', openssl_type_aes_cbc256),
      (sym E ''openssl_type_aes_gcm128'', openssl_type_aes_gcm128),
      (sym E ''openssl_type_aes_gcm192'', openssl_type_aes_gcm192),
      (sym E ''openssl_type_aes_gcm256'', openssl_type_aes_gcm256)]"

lemmas cipher_statics_defs = openssl_type_aes_cbc128_def openssl_type_aes_cbc192_def openssl_type_aes_cbc256_def
  openssl_type_aes_gcm128_def openssl_type_aes_gcm192_def openssl_type_aes_gcm256_def

definition cipher_names :: "string list" where
  "cipher_names = [''aes-cbc-128'', ''aes-cbc-192'', ''aes-cbc-256'',
     ''aes-gcm-128'', ''aes-gcm-192'', ''aes-gcm-256'']"

lemma cipher_openssl_init_eq:
  "cipher_openssl_init E w = do {
     (rs, w) \<leftarrow> register_each cfe_cipher_register (map fst (cipher_statics E)) w;
     Some (sum_list rs \<noteq> 0, w)
   }"
  by (simp add: cipher_openssl_init_def cipher_statics_def case_prod_unfold add.assoc)

lemma cipher_load:
  assumes w: "w_cipher w = load_registry head CIPHER_NEXT (cipher_statics E)"
    and d: "distinct (map fst (cipher_statics E))" "NULL \<notin> fst ` set (cipher_statics E)"
      "head \<notin> (\<lambda>t. t + CIPHER_NEXT) ` fst ` set (cipher_statics E)"
  shows "tmpl_repr cipher_layout w []"
    and "map (tmpl_key cipher_layout w) (map fst (cipher_statics E)) =
      map Some cipher_names"
proof -
  have o: "ly_off cipher_layout = CIPHER_NEXT" by (simp add: cipher_layout_def)
  have "reg_ok cipher_layout (w_cipher w) []"
    unfolding w by (rule load_registry_ok [of _ cipher_layout, unfolded o]) (use d in auto)
  then show "tmpl_repr cipher_layout w []" by (simp add: tmpl_repr_def cipher_layout_def w)
  have "ly_get cipher_layout w = load_registry head CIPHER_NEXT (cipher_statics E)"
    using w by (simp add: cipher_layout_def)
  from load_keys [OF this d(1)]
  show "map (tmpl_key cipher_layout w) (map fst (cipher_statics E)) = map Some cipher_names"
    by (simp add: cipher_statics_def cipher_names_def cipher_layout_def cstr_def cipher_statics_defs)
qed

lemma cipher_statics_ok:
  "\<forall>(a, ty) \<in> set (cipher_statics E). \<exists>f s c. ct_alloc_ctx ty = Some f \<and>
    cipher_alloc_args E f = Some (s, c) \<and> s = a \<and> cipher_type_ok ty c"
  by (simp add: cipher_statics_def cipher_statics_defs cipher_type_ok_def CIPHER_TYPE_AEAD_def)

lemma cipher_init_ok:
  assumes w: "w_cipher w = load_registry head CIPHER_NEXT (cipher_statics E)"
    and d: "distinct (map fst (cipher_statics E))" "NULL \<notin> fst ` set (cipher_statics E)"
      "head \<notin> (\<lambda>t. t + CIPHER_NEXT) ` fst ` set (cipher_statics E)"
  shows "\<exists>w'. cipher_openssl_init E w = Some (False, w') \<and>
    tmpl_repr cipher_layout w' (map fst (cipher_statics E)) \<and>
    map (tmpl_key cipher_layout w') (map fst (cipher_statics E)) = map Some cipher_names \<and>
    (\<forall>(a, ty) \<in> set (cipher_statics E). rg_types (w_cipher w') a = Some (ty\<lparr>ct_refcnt := 1\<rparr>)) \<and>
    errno w' = errno w \<and> (\<exists>R. w' = w\<lparr>w_cipher := R\<rparr>)"
proof -
  have "distinct cipher_names" by (simp add: cipher_names_def)
  moreover have "ly_get cipher_layout w = load_registry head (ly_off cipher_layout) (cipher_statics E)"
      "ly_inv cipher_layout w []" "head \<notin> (\<lambda>t. t + ly_off cipher_layout) ` fst ` set (cipher_statics E)"
    using w d(3) by (simp_all add: cipher_layout_def)
  ultimately obtain w' where "register_each (tmpl_register cipher_layout) (map fst (cipher_statics E)) w =
        Some (map (\<lambda>_. 0) (cipher_statics E), w')"
      "tmpl_repr cipher_layout w' (map fst (cipher_statics E))"
      "map (tmpl_key cipher_layout w') (map fst (cipher_statics E)) = map Some cipher_names"
      "\<forall>(a, ty) \<in> set (cipher_statics E). rg_types (ly_get cipher_layout w') a =
        Some (ly_refcnt_upd cipher_layout (\<lambda>_. 1) ty)"
      "errno w' = errno w" "ly_frame cipher_layout w w'"
    using cipher_lay.load_all [OF _ _ d(1,2) _ cipher_load(2) [OF w d]] by blast
  then show ?thesis
    by (intro exI [of _ w']) (auto simp: cipher_openssl_init_eq cfe_cipher_register_eq cipher_layout_def sum_list_0)
qed

definition cipher_table :: "(string \<times> evp_cipher) list" where
  "cipher_table = zip cipher_names
     [EVP_aes_128_cbc, EVP_aes_192_cbc, EVP_aes_256_cbc, EVP_aes_128_gcm, EVP_aes_192_gcm, EVP_aes_256_gcm]"

lemma cipher_table_type:
  assumes "(name, c) \<in> set cipher_table"
  obtains t ty f s where "(t, ty) \<in> set (cipher_statics E)" and "ct_name ty = name" and "cstr name = name"
    and "ct_blocksize ty \<noteq> 0" and "ct_alloc_ctx ty = Some f" and "cipher_alloc_args E f = Some (s, c)"
    and "cipher_type_ok ty c"
proof -
  have "list_all2 (\<lambda>(name, c) (t, ty). ct_name ty = name \<and> cstr name = name \<and> ct_blocksize ty \<noteq> 0 \<and>
      (\<exists>f s. ct_alloc_ctx ty = Some f \<and> cipher_alloc_args E f = Some (s, c)) \<and> cipher_type_ok ty c)
      cipher_table (cipher_statics E)"
    by (simp add: cipher_table_def cipher_names_def cipher_statics_def cipher_statics_defs cstr_def
        cipher_type_ok_def CIPHER_TYPE_AEAD_def)
  then obtain p where "p \<in> set (cipher_statics E)"
      "(\<lambda>(name, c) (t, ty). ct_name ty = name \<and> cstr name = name \<and> ct_blocksize ty \<noteq> 0 \<and>
      (\<exists>f s. ct_alloc_ctx ty = Some f \<and> cipher_alloc_args E f = Some (s, c)) \<and> cipher_type_ok ty c) (name, c) p"
    using assms by (blast dest: list_all2_member)
  then show ?thesis using that by (cases p) auto
qed

subsection \<open>The concrete environment\<close>

definition cipher_demo :: world where
  "cipher_demo = blank_world\<lparr>w_cipher := load_registry 64 CIPHER_NEXT (cipher_statics demo_env)\<rparr>"

lemma cipher_demo_image:
  "w_cipher cipher_demo = load_registry 64 CIPHER_NEXT (cipher_statics demo_env)"
  "distinct (map fst (cipher_statics demo_env))" "NULL \<notin> fst ` set (cipher_statics demo_env)"
  "64 \<notin> (\<lambda>t. t + CIPHER_NEXT) ` fst ` set (cipher_statics demo_env)"
  by (simp_all add: cipher_demo_def cipher_statics_def CIPHER_NEXT_def)

definition cipher_up :: world where
  "cipher_up = snd (the (cipher_openssl_init demo_env cipher_demo))"

lemma cipher_up:
  "cipher_openssl_init demo_env cipher_demo = Some (False, cipher_up)"
  "tmpl_repr cipher_layout cipher_up [8192, 8320, 8448, 8576, 8704, 8832]"
  "tmpl_key cipher_layout cipher_up 8192 = Some (cstr ''aes-cbc-128'')"
  "rg_types (w_cipher cipher_up) 8192 = Some (openssl_type_aes_cbc128\<lparr>ct_refcnt := 1\<rparr>)"
  "\<exists>R. cipher_up = blank_world\<lparr>w_cipher := R\<rparr>"
proof -
  obtain w' R where w': "cipher_openssl_init demo_env cipher_demo = Some (False, w')"
      "tmpl_repr cipher_layout w' (map fst (cipher_statics demo_env))"
      "map (tmpl_key cipher_layout w') (map fst (cipher_statics demo_env)) = map Some cipher_names"
      "\<forall>(a, ty) \<in> set (cipher_statics demo_env). rg_types (w_cipher w') a = Some (ty\<lparr>ct_refcnt := 1\<rparr>)"
      "w' = cipher_demo\<lparr>w_cipher := R\<rparr>"
    using cipher_init_ok [OF cipher_demo_image] by blast
  have u: "w' = cipher_up" using w'(1) by (simp add: cipher_up_def)
  show "cipher_openssl_init demo_env cipher_demo = Some (False, cipher_up)"
    "tmpl_repr cipher_layout cipher_up [8192, 8320, 8448, 8576, 8704, 8832]"
    "tmpl_key cipher_layout cipher_up 8192 = Some (cstr ''aes-cbc-128'')"
    "rg_types (w_cipher cipher_up) 8192 = Some (openssl_type_aes_cbc128\<lparr>ct_refcnt := 1\<rparr>)"
    using w'(1-4) by (simp_all add: u cipher_statics_def cipher_names_def cstr_def)
  show "\<exists>R. cipher_up = blank_world\<lparr>w_cipher := R\<rparr>" using w'(5) by (auto simp: u cipher_demo_def)
qed

lemma cipher_up_gcm:
  "tmpl_key cipher_layout cipher_up 8832 = Some (cstr ''aes-gcm-256'')"
  "rg_types (w_cipher cipher_up) 8832 = Some (openssl_type_aes_gcm256\<lparr>ct_refcnt := 1\<rparr>)"
proof -
  obtain w' where w': "cipher_openssl_init demo_env cipher_demo = Some (False, w')"
      "map (tmpl_key cipher_layout w') (map fst (cipher_statics demo_env)) = map Some cipher_names"
      "\<forall>(a, ty) \<in> set (cipher_statics demo_env). rg_types (w_cipher w') a = Some (ty\<lparr>ct_refcnt := 1\<rparr>)"
    using cipher_init_ok [OF cipher_demo_image] by blast
  have u: "w' = cipher_up" using w'(1) by (simp add: cipher_up_def)
  show "tmpl_key cipher_layout cipher_up 8832 = Some (cstr ''aes-gcm-256'')"
    "rg_types (w_cipher cipher_up) 8832 = Some (openssl_type_aes_gcm256\<lparr>ct_refcnt := 1\<rparr>)"
    using w'(2,3) by (simp_all add: u cipher_statics_def cipher_names_def cstr_def)
qed

lemma cipher_up_all:
  "map (tmpl_key cipher_layout cipher_up) [8192, 8320, 8448, 8576, 8704, 8832] = map (Some \<circ> cstr) cipher_names"
  "t \<in> {8192, 8320, 8448, 8576, 8704, 8832} \<Longrightarrow> tmpl_refs cipher_layout cipher_up t = Some 1"
proof -
  obtain w' where w': "cipher_openssl_init demo_env cipher_demo = Some (False, w')"
      "map (tmpl_key cipher_layout w') (map fst (cipher_statics demo_env)) = map Some cipher_names"
      "\<forall>(a, ty) \<in> set (cipher_statics demo_env). rg_types (w_cipher w') a = Some (ty\<lparr>ct_refcnt := 1\<rparr>)"
    using cipher_init_ok [OF cipher_demo_image] by blast
  have u: "w' = cipher_up" using w'(1) by (simp add: cipher_up_def)
  show "map (tmpl_key cipher_layout cipher_up) [8192, 8320, 8448, 8576, 8704, 8832] = map (Some \<circ> cstr) cipher_names"
    using w'(2) by (simp add: u cipher_statics_def cipher_names_def cstr_def)
  show "t \<in> {8192, 8320, 8448, 8576, 8704, 8832} \<Longrightarrow> tmpl_refs cipher_layout cipher_up t = Some 1"
    using w'(3) by (auto simp: u cipher_statics_def tmpl_refs_def cipher_layout_def)
qed

lemma cipher_demo_alloc [simp]:
  "e_calloc demo_libc (OCTX_SIZE_cipher demo_env) (cipher_up\<lparr>w_cipher := Q\<rparr>) = 262144"
  "fresh cipher_up 262144 (OCTX_SIZE_cipher demo_env)"
  "w_cipher_ctxs cipher_up = Map.empty" "OCTX_BASE_cipher demo_env = 176"
  "e_sizeof_EVP_CIPHER_CTX demo_evpc = 168"
proof -
  obtain R where R: "cipher_up = blank_world\<lparr>w_cipher := R\<rparr>" using cipher_up(5) by blast
  show "e_calloc demo_libc (OCTX_SIZE_cipher demo_env) (cipher_up\<lparr>w_cipher := Q\<rparr>) = 262144"
    "fresh cipher_up 262144 (OCTX_SIZE_cipher demo_env)"
    "w_cipher_ctxs cipher_up = Map.empty" "OCTX_BASE_cipher demo_env = 176"
    "e_sizeof_EVP_CIPHER_CTX demo_evpc = 168"
    by (simp_all add: R OCTX_SIZE_cipher_def OCTX_BASE_cipher_def fresh_def block_free_def blank_world_def
      demo_evpc_def demo_calloc demo_block_def)
qed

text \<open>
  The demonstration cipher complements every byte, in both directions; its tag is made of the sum of the
  key, the initialisation vector, the additional data and the enciphered message. Its context holds the
  stage, the kind of cipher, the direction, the length of the initialisation vector, the sum and the tag.
\<close>

definition demo_sum :: "int \<Rightarrow> bytes \<Rightarrow> bytes \<Rightarrow> bytes \<Rightarrow> bytes \<Rightarrow> 8 word" where
  "demo_sum mode key iv aad msg =
     sum_list key + sum_list iv + sum_list aad + sum_list (if mode = 0 then msg else map not msg)"

definition demo_cipher ::
  "evp_cipher \<Rightarrow> int \<Rightarrow> bytes \<Rightarrow> bytes \<Rightarrow> bytes \<Rightarrow> bytes option \<Rightarrow> bytes \<Rightarrow> (bytes \<times> bytes) option" where
  "demo_cipher c mode key iv aad tag msg =
     (let a = demo_sum mode key iv aad msg
      in if evp_is_gcm c \<and> mode = 0 \<and> (case tag of None \<Rightarrow> True | Some t \<Rightarrow> t = [] \<or> t \<noteq> replicate (length t) a) then None
         else Some (map not msg, replicate 16 a))"

definition demo_flag :: "evp_cipher \<Rightarrow> 8 word" where
  "demo_flag c = (if evp_is_gcm c then 1 else 0)"

fun demo_stage :: "bytes \<Rightarrow> evp_stage \<Rightarrow> bool" where
  "demo_stage st Zeroed \<longleftrightarrow> True"
| "demo_stage st (Selected c mode n) \<longleftrightarrow>
     mode \<in> {0, 1} \<and> n \<le> 16 \<and> st = [1, demo_flag c, of_int mode, of_nat n, 0]"
| "demo_stage st (Running c mode key iv aad tag msg out) \<longleftrightarrow>
     mode \<in> {0, 1} \<and> out = map not msg \<and>
     (\<exists>n. st = 2 # demo_flag c # of_int mode # n # demo_sum mode key iv aad msg # (case tag of None \<Rightarrow> [] | Some t \<Rightarrow> t))"
| "demo_stage st (Sealed t) \<longleftrightarrow> (\<exists>n a t'. st = 3 # 1 # 1 # n # a # t' \<and> t = replicate 16 a)"

lemma demo_gcm_flag: "demo_gcm c = evp_is_gcm c"
  by (cases c) (simp_all add: demo_gcm_def)

lemma demo_cipher_simps [simp]:
  "e_CipherInit_ex demo_evpc = demo_CipherInit_ex" "e_CipherUpdate demo_evpc = demo_CipherUpdate"
  "e_CipherFinal_ex demo_evpc = demo_CipherFinal_ex" "e_GCM_SET_IVLEN demo_evpc = demo_SET_IVLEN"
  "e_GCM_GET_TAG demo_evpc = demo_GET_TAG" "e_GCM_SET_TAG demo_evpc = demo_SET_TAG"
  "e_sizeof_EVP_CIPHER_CTX demo_evpc = 168"
  by (simp_all add: demo_evpc_def)

lemma demo_cipher_end:
  assumes "demo_stage st (Running c mode key iv aad tag msg out)"
  shows "demo_cipher c mode key iv aad tag msg = Some (res, t) \<Longrightarrow>
      \<exists>s. demo_CipherFinal_ex st = (1, s, [], Some 0) \<and> res = out \<and>
        (evp_is_gcm c \<longrightarrow> mode = 1 \<longrightarrow> length t = 16 \<and> demo_stage s (Sealed t))"
    and "demo_cipher c mode key iv aad tag msg = None \<Longrightarrow> fst (demo_CipherFinal_ex st) \<noteq> 1"
  using assms by (auto simp: demo_cipher_def demo_flag_def Let_def split: option.splits if_splits)

lemma cint_byte: "(ucast (of_nat k :: cint) :: 8 word) = of_nat k"
  by (simp add: unsigned_of_nat word_of_nat_eq_iff)

lemma demo_iv_nonzero: "0 < k \<Longrightarrow> k \<le> 16 \<Longrightarrow> (of_nat k :: cint) \<noteq> 0"
  by (simp add: word_of_nat_eq_0_iff) (auto dest: dvd_imp_le)

lemma demo_cipher_ok: "evp_cipher_ok (evpc demo_env) demo_cipher demo_stage"
proof -
  have 1: "e_CIPHER_key_length demo_evpc (Some c) = of_nat (evp_key_length c)" for c
    by (cases c) (simp_all add: demo_evpc_def demo_key_length_def)
  have 2: "\<exists>s. demo_CipherInit_ex st (Some c) None None mode = (1, s) \<and> demo_stage s (Selected c mode (evp_iv_length c))"
    if "mode \<in> {0, 1}" for st c mode
    using that by (simp add: demo_flag_def demo_gcm_flag evp_iv_length_def)
  have 3: "\<exists>s. demo_SET_IVLEN st (of_nat k) = (1, s) \<and> demo_stage s (Selected c mode k)"
    if "demo_stage st (Selected c mode n)" "evp_is_gcm c" "0 < k" "k \<le> 16" for st c mode n k
    using that demo_iv_nonzero [OF that(3,4)] by (auto simp: demo_flag_def cint_byte)
  have 4: "\<exists>s. demo_CipherInit_ex st None (Some key) (Some iv) mode = (1, s) \<and>
      demo_stage s (Running c mode key iv [] None [] [])"
    if "demo_stage st (Selected c mode (length iv))" for st c mode key iv
    using that by (auto simp: demo_sum_def unat_of_nat)
  have 5: "\<exists>s n. demo_CipherUpdate st b k True = (1, s, [], n) \<and> demo_stage s (Running c mode key iv (aad @ b) None [] [])"
    if "demo_stage st (Running c mode key iv aad None [] [])" for st c mode key iv aad b k
    using that by (auto simp: demo_sum_def)
  have 6: "\<exists>s. demo_SET_TAG st (of_nat (length u)) u = (1, s) \<and> demo_stage s (Running c 0 key iv aad (Some u) [] [])"
    if "demo_stage st (Running c 0 key iv aad None [] [])" "evp_is_gcm c" "length u \<le> 16" for st c key iv aad u
    using that by (auto simp: demo_flag_def unat_of_nat)
  have 7: "\<exists>s o'. demo_CipherUpdate st b (of_nat (length b)) False = (1, s, o', Some (of_nat (length o'))) \<and>
      length o' < 2 ^ 31 \<and> demo_stage s (Running c mode key iv aad tag (msg @ b) (out @ o'))"
    if "demo_stage st (Running c mode key iv aad tag msg out)" "length (msg @ b) < 2 ^ 30"
    for st c mode key iv aad tag msg out b
    using that by (auto simp: demo_sum_def)
  have 8: "\<exists>s. demo_GET_TAG st 16 = (1, s, take 16 t)" if "demo_stage st (Sealed t)" for st t
    using that by auto
  show ?thesis
    unfolding evp_cipher_ok_def
    apply (intro conjI allI impI)
    subgoal using 1 by simp
    subgoal by simp
    subgoal for c mode st using 2 [of mode st c] by (simp del: demo_stage.simps)
    subgoal for c mode n st k using 3 [of st c mode n k] by (simp del: demo_stage.simps)
    subgoal for c mode key iv st using 4 [of st c mode iv key] by (simp del: demo_stage.simps)
    subgoal for c mode key iv aad st b using 5 [of st c mode key iv aad b] by (simp del: demo_stage.simps)
    subgoal for c key iv aad st u using 6 [of st c key iv aad u] by (simp del: demo_stage.simps)
    subgoal for c mode key iv aad tag msg out st b
      using 7 [of st c mode key iv aad tag msg out b] by (simp del: demo_stage.simps)
    subgoal for c mode key iv aad tag msg out st res t
      using demo_cipher_end(1) [of st c mode key iv aad tag msg out res t] by (auto simp del: demo_stage.simps)
    subgoal for c mode key iv aad tag msg out st
      using demo_cipher_end(2) [of st c mode key iv aad tag msg out] by (simp del: demo_stage.simps)
    subgoal for t st using 8 [of st t] by (simp del: demo_stage.simps)
    done
qed

lemma byte_not_neq: "not a \<noteq> (a :: 8 word)"
proof
  assume "not a = a"
  then have "bit (not a) 0 = bit a 0" by simp
  then show False by (simp add: bit_not_iff)
qed

lemma map_not_not: "map not (map not (m :: bytes)) = m"
  by (simp add: o_def)

lemma demo_cbc128:
  "ct_alloc_ctx (openssl_type_aes_cbc128\<lparr>ct_refcnt := 1\<rparr>) = Some Fn_openssl_aes_cbc128_alloc_ctx"
  "ct_refcnt (openssl_type_aes_cbc128\<lparr>ct_refcnt := 1\<rparr>) = 1"
  "cipher_type_ok (openssl_type_aes_cbc128\<lparr>ct_refcnt := 1\<rparr>) EVP_aes_128_cbc"
  by (simp_all add: openssl_type_aes_cbc128_def cipher_type_ok_def CIPHER_TYPE_AEAD_def)

lemma cipher_up_live:
  obtains v where "cfe_cipher_alloc_ctx demo_env ''aes-cbc-128'' cipher_up = Some (262320, v)"
    and "cipher_live demo_env v 262320 8192 EVP_aes_128_cbc (cipher_zero demo_env)"
    and "rg_types (w_cipher v) 8192 = Some (openssl_type_aes_cbc128\<lparr>ct_refcnt := 2\<rparr>)"
    and "tmpl_repr cipher_layout v [8192, 8320, 8448, 8576, 8704, 8832]"
    and "tmpl_refs cipher_layout v = (tmpl_refs cipher_layout cipher_up)(8192 \<mapsto> 2)"
proof -
  have "\<exists>w'. cfe_cipher_alloc_ctx demo_env ''aes-cbc-128'' cipher_up = Some (262144 + OCTX_BASE_cipher demo_env, w') \<and>
    cipher_live demo_env w' (262144 + OCTX_BASE_cipher demo_env) 8192 EVP_aes_128_cbc (cipher_zero demo_env) \<and>
    tmpl_repr cipher_layout w' [8192, 8320, 8448, 8576, 8704, 8832] \<and>
    tmpl_refs cipher_layout w' = (tmpl_refs cipher_layout cipher_up)
      (8192 \<mapsto> ct_refcnt (openssl_type_aes_cbc128\<lparr>ct_refcnt := 1\<rparr>) + 1) \<and>
    rg_types (w_cipher w') 8192 = Some (openssl_type_aes_cbc128\<lparr>ct_refcnt := 1,
      ct_refcnt := ct_refcnt (openssl_type_aes_cbc128\<lparr>ct_refcnt := 1\<rparr>) + 1\<rparr>) \<and>
    (\<forall>b. cfe_cipher_destroy_ctx demo_env (262144 + OCTX_BASE_cipher demo_env)
      (cipher_state demo_env (262144 + OCTX_BASE_cipher demo_env) EVP_aes_128_cbc b w') = Some cipher_up)"
    by (rule cfe_cipher_alloc_ctx_ok [OF cipher_up(2) _ cipher_up(3,4) demo_cbc128(1)]) simp_all
  then show ?thesis using that by auto
qed

subsection \<open>Properties\<close>

text \<open>
  What decryption is to encryption: it gives the message back, for GCM when the tag of the encryption is
  set, and with another tag of 16 bytes it fails.
\<close>

definition evp_inverse ::
  "(evp_cipher \<Rightarrow> int \<Rightarrow> bytes \<Rightarrow> bytes \<Rightarrow> bytes \<Rightarrow> bytes option \<Rightarrow> bytes \<Rightarrow> (bytes \<times> bytes) option) \<Rightarrow> bool" where
  "evp_inverse X \<longleftrightarrow>
     (\<forall>c key iv aad m ct t. X c 1 key iv aad None m = Some (ct, t) \<longrightarrow>
        (\<exists>u. X c 0 key iv aad (if evp_is_gcm c then Some t else None) ct = Some (m, u)) \<and>
        (\<forall>t'. evp_is_gcm c \<longrightarrow> length t' = 16 \<longrightarrow> t' \<noteq> t \<longrightarrow> X c 0 key iv aad (Some t') ct = None))"

lemma evp_inverseD:
  assumes i: "evp_inverse X" and e: "computes X c 1 key iv aad tag m = Some (ct, t)"
  shows "\<exists>u. computes X c 0 key iv aad t ct = Some (m, u)"
    and "evp_is_gcm c \<Longrightarrow> length t' = 16 \<Longrightarrow> t' \<noteq> t \<Longrightarrow> computes X c 0 key iv aad t' ct = None"
proof -
  let ?aad = "if evp_is_gcm c then aad else []"
  have "X c 1 key iv ?aad None m = Some (ct, t)" using e by (simp add: computes_def split: if_splits)
  then have "(\<exists>u. X c 0 key iv ?aad (if evp_is_gcm c then Some t else None) ct = Some (m, u)) \<and>
      (\<forall>t'. evp_is_gcm c \<longrightarrow> length t' = 16 \<longrightarrow> t' \<noteq> t \<longrightarrow> X c 0 key iv ?aad (Some t') ct = None)"
    using i unfolding evp_inverse_def by blast
  then show "\<exists>u. computes X c 0 key iv aad t ct = Some (m, u)"
    "evp_is_gcm c \<Longrightarrow> length t' = 16 \<Longrightarrow> t' \<noteq> t \<Longrightarrow> computes X c 0 key iv aad t' ct = None"
    by (simp_all add: computes_def split: if_splits)
qed

lemma demo_inverse: "evp_inverse demo_cipher"
  by (auto simp: evp_inverse_def demo_cipher_def demo_sum_def Let_def map_not_not simp del: map_map)

text \<open>C13: Sealing a message with a registered OpenSSL type (in any pieces, with additional data for an AEAD type)
  and opening the result (in any other pieces, with the tag that the first session got) under the same
  key, initialisation vector and additional data gives the message back, every call answering 0; opening
  it with any other tag of 16 bytes is refused by one of the calls; and every session leaves the world as
  it was. This is under what OpenSSL documents of its cipher functions, that decryption inverts encryption
  among them: an initialisation vector of any length up to 16 is right for GCM because its length is set
  before the key.\<close>

theorem cipher_roundtrip:
  assumes r: "tmpl_repr cipher_layout w xs" and t: "t \<in> set xs"
    and k: "tmpl_key cipher_layout w t = Some (cstr name)" and ty: "rg_types (w_cipher w) t = Some ty"
    and f: "ct_alloc_ctx ty = Some f" "cipher_alloc_args E f = Some (s, c)"
    and a: "\<And>R. e_calloc (libc E) (OCTX_SIZE_cipher E) (w\<lparr>w_cipher := R\<rparr>) = a"
      "fresh w a (OCTX_SIZE_cipher E)" "e_sizeof_EVP_CIPHER_CTX (evpc E) < 2 ^ 32"
    and V: "evp_cipher_ok (evpc E) X Z" "evp_inverse X" and ok: "cipher_type_ok ty c"
    and kl: "length key = evp_key_length c" and iv: "iv_ok c iv" and ad: "length aad < 2 ^ 30"
    and len: "length (concat chunks) < 2 ^ 30" "length ct < 2 ^ 30"
    and enc: "computes X c CFE_CIPHER_MODE_ENCRYPT key iv aad none (concat chunks) = Some (ct, u)"
    and ct: "concat pieces = ct"
  shows "\<exists>rs tag rs'.
    cipher_session E name CFE_CIPHER_MODE_ENCRYPT key iv (aead_for c aad none) chunks w = Some (rs, ct, tag, w) \<and>
    cipher_session E name CFE_CIPHER_MODE_DECRYPT key iv (aead_for c aad tag) pieces w =
      Some (rs', concat chunks, [], w) \<and> set rs = {0} \<and> set rs' = {0} \<and>
    (evp_is_gcm c \<longrightarrow> length tag = 16 \<and> (\<forall>tag'. length tag' = 16 \<longrightarrow> tag' \<noteq> tag \<longrightarrow>
      (\<exists>bad res u. cipher_session E name CFE_CIPHER_MODE_DECRYPT key iv (Some (aad, tag')) pieces w =
        Some (bad, res, u, w) \<and> 1 \<in> set bad)))"
proof -
  note run = cipher_session_run [OF r t k ty f a V(1) ok _ kl iv]
  let ?tag = "if evp_is_gcm c then u else []"
  have e: "computes X c 1 key iv aad none (concat chunks) = Some (ct, u)"
    using enc by (simp add: CFE_CIPHER_MODE_ENCRYPT_def)
  obtain rs where rs: "cipher_session E name 1 key iv (aead_for c aad none) chunks w = Some (rs, ct, ?tag, w)"
      "set rs = {0}" "evp_is_gcm c \<Longrightarrow> length u = 16"
    using run [of 1 aad none chunks] e ad len(1) by (auto simp: aead_ok_def)
  obtain v where d: "computes X c 0 key iv aad u (concat pieces) = Some (concat chunks, v)"
    using evp_inverseD(1) [OF V(2) e] ct by auto
  have tag: "aead_for c aad ?tag = aead_for c aad u" by (simp add: aead_for_def)
  have au: "aead_ok c 0 aad u" using ad rs(3) by (auto simp: aead_ok_def)
  obtain rs' where rs': "cipher_session E name 0 key iv (aead_for c aad ?tag) pieces w = Some (rs', concat chunks, [], w)"
      "set rs' = {0}"
    using run [OF _ au, of pieces] d len(2) ct by (auto simp: tag)
  have "\<exists>bad res u. cipher_session E name 0 key iv (Some (aad, tag')) pieces w = Some (bad, res, u, w) \<and> 1 \<in> set bad"
    if "evp_is_gcm c" "length tag' = 16" "tag' \<noteq> u" for tag'
  proof -
    have "aead_ok c 0 aad tag'" using ad that(2) by (auto simp: aead_ok_def)
    then show ?thesis
      using run [of 0 aad tag' pieces] evp_inverseD(2) [OF V(2) e that] that(1) len(2) ct by (auto simp: aead_for_def)
  qed
  then show ?thesis
    using rs rs' by (intro exI [of _ rs] exI [of _ ?tag] exI [of _ rs'])
      (auto simp: CFE_CIPHER_MODE_ENCRYPT_def CFE_CIPHER_MODE_DECRYPT_def)
qed

lemma demo_gcm256:
  "ct_alloc_ctx (openssl_type_aes_gcm256\<lparr>ct_refcnt := 1\<rparr>) = Some Fn_openssl_aes_gcm256_alloc_ctx"
  "cipher_type_ok (openssl_type_aes_gcm256\<lparr>ct_refcnt := 1\<rparr>) EVP_aes_256_gcm"
  by (simp_all add: openssl_type_aes_gcm256_def cipher_type_ok_def CIPHER_TYPE_AEAD_def)

theorem cipher_roundtrip_witness:
  "\<exists>rs tag rs' bad res u.
     cipher_session demo_env ''aes-gcm-256'' CFE_CIPHER_MODE_ENCRYPT (replicate 32 1) [7, 8] (Some ([5, 6], []))
       [[0, 1], [2]] cipher_up = Some (rs, [255, 254, 253], tag, cipher_up) \<and>
     cipher_session demo_env ''aes-gcm-256'' CFE_CIPHER_MODE_DECRYPT (replicate 32 1) [7, 8] (Some ([5, 6], tag))
       [[255], [254, 253]] cipher_up = Some (rs', [0, 1, 2], [], cipher_up) \<and> set rs = {0} \<and> set rs' = {0} \<and>
     cipher_session demo_env ''aes-gcm-256'' CFE_CIPHER_MODE_DECRYPT (replicate 32 1) [7, 8]
       (Some ([5, 6], map not tag)) [[255], [254, 253]] cipher_up = Some (bad, res, u, cipher_up) \<and> 1 \<in> set bad"
proof -
  have e: "computes demo_cipher EVP_aes_256_gcm CFE_CIPHER_MODE_ENCRYPT (replicate 32 1) [7, 8] [5, 6] []
      (concat [[0, 1], [2]]) = Some ([255, 254, 253], replicate 16 (demo_sum 1 (replicate 32 1) [7, 8] [5, 6] [0, 1, 2]))"
    by (simp add: computes_def demo_cipher_def CFE_CIPHER_MODE_ENCRYPT_def)
  obtain rs tag rs' where rs:
    "cipher_session demo_env ''aes-gcm-256'' CFE_CIPHER_MODE_ENCRYPT (replicate 32 1) [7, 8]
       (aead_for EVP_aes_256_gcm [5, 6] []) [[0, 1], [2]] cipher_up = Some (rs, [255, 254, 253], tag, cipher_up)"
    "cipher_session demo_env ''aes-gcm-256'' CFE_CIPHER_MODE_DECRYPT (replicate 32 1) [7, 8]
       (aead_for EVP_aes_256_gcm [5, 6] tag) [[255], [254, 253]] cipher_up =
       Some (rs', concat [[0, 1], [2]], [], cipher_up)" "set rs = {0}" "set rs' = {0}" "length tag = 16"
    "\<And>tag'. length tag' = 16 \<Longrightarrow> tag' \<noteq> tag \<Longrightarrow>
      \<exists>bad res u. cipher_session demo_env ''aes-gcm-256'' CFE_CIPHER_MODE_DECRYPT (replicate 32 1) [7, 8]
        (Some ([5, 6], tag')) [[255], [254, 253]] cipher_up = Some (bad, res, u, cipher_up) \<and> 1 \<in> set bad"
  proof -
    let ?C = "cipher_session demo_env ''aes-gcm-256''"
    have "\<exists>rs tag rs'.
      ?C CFE_CIPHER_MODE_ENCRYPT (replicate 32 1) [7, 8] (aead_for EVP_aes_256_gcm [5, 6] []) [[0, 1], [2]] cipher_up =
        Some (rs, [255, 254, 253], tag, cipher_up) \<and>
      ?C CFE_CIPHER_MODE_DECRYPT (replicate 32 1) [7, 8] (aead_for EVP_aes_256_gcm [5, 6] tag) [[255], [254, 253]] cipher_up =
        Some (rs', concat [[0, 1], [2]], [], cipher_up) \<and> set rs = {0} \<and> set rs' = {0} \<and>
      (evp_is_gcm EVP_aes_256_gcm \<longrightarrow> length tag = 16 \<and> (\<forall>tag'. length tag' = 16 \<longrightarrow> tag' \<noteq> tag \<longrightarrow>
        (\<exists>bad res u. ?C CFE_CIPHER_MODE_DECRYPT (replicate 32 1) [7, 8] (Some ([5, 6], tag')) [[255], [254, 253]] cipher_up =
          Some (bad, res, u, cipher_up) \<and> 1 \<in> set bad)))"
      by (rule cipher_roundtrip [OF cipher_up(2) _ cipher_up_gcm demo_gcm256(1), where a = 262144,
            OF _ _ _ _ _ demo_cipher_ok demo_inverse demo_gcm256(2) _ _ _ _ _ e]) (simp_all add: iv_ok_def)
    then show ?thesis using that by (elim exE conjE) simp
  qed
  have "map not tag \<noteq> tag" using rs(5) by (cases tag) (simp_all add: byte_not_neq)
  then obtain bad res u where
    "cipher_session demo_env ''aes-gcm-256'' CFE_CIPHER_MODE_DECRYPT (replicate 32 1) [7, 8]
       (Some ([5, 6], map not tag)) [[255], [254, 253]] cipher_up = Some (bad, res, u, cipher_up)" "1 \<in> set bad"
    using rs(5) rs(6) [of "map not tag"] by auto
  then show ?thesis
    using rs(1-4) by (intro exI [of _ rs] exI [of _ tag] exI [of _ rs'] exI [of _ bad] exI [of _ res] exI [of _ u])
      (simp add: aead_for_def)
qed

text \<open>C4: From the load image, the constructor of the OpenSSL ciphers registers all six types and does not
  abort, and afterwards a session under any of their six names, sealing or opening a message that comes in
  any pieces, with additional data and a tag for GCM, drives exactly the OpenSSL cipher of that name. Where
  that cipher has a result for the key, the initialisation vector (of any length up to 16 for GCM), the
  additional data and the whole message, every call answers 0 and the session gives that result, and the
  tag of 16 bytes after sealing with GCM. Where it has none (bad padding, or a tag that does not fit), one of the calls
  answers 1. Either way the world is left as it was.\<close>

theorem cipher_library_sessions:
  assumes w: "w_cipher w = load_registry head CIPHER_NEXT (cipher_statics E)"
    and d: "distinct (map fst (cipher_statics E))" "NULL \<notin> fst ` set (cipher_statics E)"
      "head \<notin> (\<lambda>t. t + CIPHER_NEXT) ` fst ` set (cipher_statics E)"
    and a: "\<And>R. e_calloc (libc E) (OCTX_SIZE_cipher E) (w\<lparr>w_cipher := R\<rparr>) = a"
      "fresh w a (OCTX_SIZE_cipher E)" "e_sizeof_EVP_CIPHER_CTX (evpc E) < 2 ^ 32"
    and V: "evp_cipher_ok (evpc E) X Z"
  shows "\<exists>w'. cipher_openssl_init E w = Some (False, w') \<and>
    (\<forall>(name, c) \<in> set cipher_table. \<forall>mode \<in> {CFE_CIPHER_MODE_ENCRYPT, CFE_CIPHER_MODE_DECRYPT}.
      \<forall>key iv aad tag chunks. length key = evp_key_length c \<longrightarrow> iv_ok c iv \<longrightarrow> aead_ok c mode aad tag \<longrightarrow>
      length (concat chunks) < 2 ^ 30 \<longrightarrow>
      (case computes X c mode key iv aad tag (concat chunks) of
         Some (res, u) \<Rightarrow> \<exists>rs. cipher_session E name mode key iv (aead_for c aad tag) chunks w' =
           Some (rs, res, if evp_is_gcm c \<and> mode = CFE_CIPHER_MODE_ENCRYPT then u else [], w') \<and> set rs = {0} \<and>
           (evp_is_gcm c \<longrightarrow> mode = CFE_CIPHER_MODE_ENCRYPT \<longrightarrow> length u = 16)
       | None \<Rightarrow> \<exists>rs res u. cipher_session E name mode key iv (aead_for c aad tag) chunks w' =
           Some (rs, res, u, w') \<and> 1 \<in> set rs))"
proof -
  obtain w' Q where w': "cipher_openssl_init E w = Some (False, w')"
      "tmpl_repr cipher_layout w' (map fst (cipher_statics E))"
      "map (tmpl_key cipher_layout w') (map fst (cipher_statics E)) = map Some cipher_names"
      "\<forall>(a, ty) \<in> set (cipher_statics E). rg_types (w_cipher w') a = Some (ty\<lparr>ct_refcnt := 1\<rparr>)"
      "w' = w\<lparr>w_cipher := Q\<rparr>"
    using cipher_init_ok [OF w d] by blast
  have a': "\<And>R. e_calloc (libc E) (OCTX_SIZE_cipher E) (w'\<lparr>w_cipher := R\<rparr>) = a"
      "fresh w' a (OCTX_SIZE_cipher E)"
    using a(1,2) by (simp_all add: w'(5) fresh_def)
  have main: "case computes X c mode key iv aad tag (concat chunks) of
      Some (res, u) \<Rightarrow> \<exists>rs. cipher_session E name mode key iv (aead_for c aad tag) chunks w' =
        Some (rs, res, if evp_is_gcm c \<and> mode = 1 then u else [], w') \<and> set rs = {0} \<and>
        (evp_is_gcm c \<longrightarrow> mode = 1 \<longrightarrow> length u = 16)
    | None \<Rightarrow> \<exists>rs res u. cipher_session E name mode key iv (aead_for c aad tag) chunks w' = Some (rs, res, u, w') \<and> 1 \<in> set rs"
    if n: "(name, c) \<in> set cipher_table" and m: "mode \<in> {0, 1}" and x: "length key = evp_key_length c" "iv_ok c iv"
      "aead_ok c mode aad tag" "length (concat chunks) < 2 ^ 30"
    for name c mode key iv aad tag chunks
  proof -
    obtain t ty f s where t: "(t, ty) \<in> set (cipher_statics E)" "ct_name ty = name" "cstr name = name"
        "ct_blocksize ty \<noteq> 0" "ct_alloc_ctx ty = Some f" "cipher_alloc_args E f = Some (s, c)" "cipher_type_ok ty c"
      by (rule cipher_table_type [OF n])
    have ty: "rg_types (w_cipher w') t = Some (ty\<lparr>ct_refcnt := 1\<rparr>)" using w'(4) t(1) by auto
    have key: "tmpl_key cipher_layout w' t = Some (cstr name)"
      using ty t(2,4,5) by (simp add: tmpl_key_def reg_key_def cipher_layout_def)
    have mem: "t \<in> set (map fst (cipher_statics E))" using t(1) by force
    show ?thesis
      by (rule cipher_session_run [OF w'(2) mem key ty _ t(6) a' a(3) V _ m x])
        (use t(5,7) in \<open>simp_all add: cipher_type_ok_def\<close>)
  qed
  show ?thesis
    unfolding CFE_CIPHER_MODE_ENCRYPT_def CFE_CIPHER_MODE_DECRYPT_def
  proof (intro exI [of _ w'] conjI ballI, goal_cases)
    case 1
    show ?case by (rule w'(1))
  next
    case (2 p)
    obtain name c where p: "p = (name, c)" by (cases p)
    have n: "(name, c) \<in> set cipher_table" using 2 p by simp
    show ?case unfolding p prod.case by (intro ballI allI impI, rule main [OF n]) (assumption | auto)+
  qed
qed

lemma not_bytes: "- 2 = (254 :: 8 word)" "- 3 = (253 :: 8 word)" "523 = (11 :: 8 word)"
  by simp_all

theorem cipher_library_sessions_witness:
  "\<exists>w rs. cipher_openssl_init demo_env cipher_demo = Some (False, w) \<and>
    cipher_session demo_env ''aes-gcm-256'' CFE_CIPHER_MODE_ENCRYPT (replicate 32 0) [9] (Some ([3, 4], [])) [[1], [2]] w =
      Some (rs, [254, 253], replicate 16 11, w) \<and> set rs = {0}"
proof -
  let ?all = "\<lambda>w'. \<forall>(name, c) \<in> set cipher_table. \<forall>mode \<in> {CFE_CIPHER_MODE_ENCRYPT, CFE_CIPHER_MODE_DECRYPT}.
      \<forall>key iv aad tag chunks. length key = evp_key_length c \<longrightarrow> iv_ok c iv \<longrightarrow> aead_ok c mode aad tag \<longrightarrow>
      length (concat chunks) < 2 ^ 30 \<longrightarrow>
      (case computes demo_cipher c mode key iv aad tag (concat chunks) of
         Some (res, u) \<Rightarrow> \<exists>rs. cipher_session demo_env name mode key iv (aead_for c aad tag) chunks w' =
           Some (rs, res, if evp_is_gcm c \<and> mode = CFE_CIPHER_MODE_ENCRYPT then u else [], w') \<and> set rs = {0} \<and>
           (evp_is_gcm c \<longrightarrow> mode = CFE_CIPHER_MODE_ENCRYPT \<longrightarrow> length u = 16)
       | None \<Rightarrow> \<exists>rs res u. cipher_session demo_env name mode key iv (aead_for c aad tag) chunks w' =
           Some (rs, res, u, w') \<and> 1 \<in> set rs)"
  have "\<exists>w'. cipher_openssl_init demo_env cipher_demo = Some (False, w') \<and> ?all w'"
    by (rule cipher_library_sessions [OF cipher_demo_image, where a = 262144, OF _ _ _ demo_cipher_ok])
      (simp_all add: cipher_demo_def OCTX_SIZE_cipher_def demo_calloc demo_block_def fresh_def block_free_def
        blank_world_def)
  then obtain w' where w': "cipher_openssl_init demo_env cipher_demo = Some (False, w')" and all: "?all w'"
    by (elim exE conjE) (rule that)
  have "(''aes-gcm-256'', EVP_aes_256_gcm) \<in> set cipher_table" by (simp add: cipher_table_def cipher_names_def)
  from bspec [OF all this, unfolded prod.case, THEN bspec, of CFE_CIPHER_MODE_ENCRYPT, OF insertI1,
    THEN spec, of "replicate 32 0", THEN spec, of "[9]", THEN spec, of "[3, 4]", THEN spec, of "[]",
    THEN spec, of "[[1], [2]]"]
  have "\<exists>rs. cipher_session demo_env ''aes-gcm-256'' CFE_CIPHER_MODE_ENCRYPT (replicate 32 0) [9] (Some ([3, 4], []))
      [[1], [2]] w' = Some (rs, [254, 253], replicate 16 11, w') \<and> set rs = {0}"
    by (simp add: iv_ok_def aead_ok_def computes_def demo_cipher_def demo_sum_def aead_for_def
        CFE_CIPHER_MODE_ENCRYPT_def sum_list_replicate not_bytes)
  then show ?thesis using w' by blast
qed

text \<open>C12: The cipher registry refines its specification (a list of types and a number of references to each):
  any sequence of cfe_cipher_register, cfe_cipher_unregister, cfe_cipher_ref and cfe_cipher_put calls
  that keeps the rules (only registered types are deregistered, only references that were taken are
  dropped) answers, call by call, what the specification answers, and ends in a world that shows the
  specification's final state.\<close>

theorem cipher_registry_refines:
  assumes "shows_spec (tmpl_repr cipher_layout) (tmpl_key cipher_layout) (tmpl_refs cipher_layout) key w s"
    and "spec_run key cstr ops s = Some (rs, s')"
    and "\<forall>t \<in> set (sp_types s). sp_refs s t < B" "1 < B" "B + length ops \<le> 2 ^ 31"
  shows "\<exists>w'. reg_run cfe_cipher_register cfe_cipher_unregister cfe_cipher_ref cfe_cipher_put ops w = Some (rs, w') \<and>
    shows_spec (tmpl_repr cipher_layout) (tmpl_key cipher_layout) (tmpl_refs cipher_layout) key w' s'"
  by (rule cipher_put.run_refines [OF assms])

theorem cipher_registry_refines_witness:
  "\<exists>w'. reg_run cfe_cipher_register cfe_cipher_unregister cfe_cipher_ref cfe_cipher_put
    [Acquire ''aes-cbc-128'', Unregister 8192, Release 8192, Unregister 8192, Acquire ''aes-cbc-128'', Register 8192]
    cipher_up = Some ([Type 8192, Code 1, Done, Code 0, Type NULL, Code 0], w')"
proof -
  let ?xs = "[8192, 8320, 8448, 8576, 8704, 8832] :: addr list"
  let ?s = "\<lparr>sp_types = ?xs, sp_refs = \<lambda>_. 1\<rparr>"
  let ?key = "tmpl_key cipher_layout cipher_up"
  have refs: "tmpl_refs cipher_layout cipher_up t = Some 1" if "t \<in> set ?xs" for t
    using that by (intro cipher_up_all(2)) simp
  have s: "shows_spec (tmpl_repr cipher_layout) (tmpl_key cipher_layout) (tmpl_refs cipher_layout) ?key cipher_up ?s"
    unfolding shows_spec_def using cipher_up(2) refs by simp
  have k: "map ?key ?xs = map (Some \<circ> cstr) cipher_names" by (rule cipher_up_all(1))
  have run: "spec_run ?key cstr
      [Acquire ''aes-cbc-128'', Unregister 8192, Release 8192, Unregister 8192, Acquire ''aes-cbc-128'', Register 8192] ?s =
    Some ([Type 8192, Code 1, Done, Code 0, Type NULL, Code 0],
      \<lparr>sp_types = [8320, 8448, 8576, 8704, 8832, 8192], sp_refs = \<lambda>_. 1\<rparr>)"
    using k by (simp add: cipher_names_def cstr_def fun_eq_iff)
  show ?thesis
    using cipher_registry_refines [OF s run, of 2] by auto
qed

text \<open>Initialising a live cipher context is refused with EINVAL, and nothing else changes, when the
  initialisation vector is longer than the type's or the key does not have the type's length.\<close>

theorem cipher_init_checks:
  assumes "cipher_live E w ctx t c st" and "rg_types (w_cipher w) t = Some ty"
    and "(iv \<noteq> None \<and> ct_ivsize ty < isize) \<or> ksize \<noteq> ct_keysize ty"
  shows "cfe_cipher_ctx_init E ctx mode key ksize iv isize w = Some (1, w\<lparr>errno := EINVAL\<rparr>)"
  using assms by (auto simp: cipher_live_def cfe_cipher_ctx_init_def)

theorem cipher_init_checks_witness:
  "\<exists>v. cfe_cipher_alloc_ctx demo_env ''aes-cbc-128'' cipher_up = Some (262320, v) \<and>
    cfe_cipher_ctx_init demo_env 262320 1 (Some []) 24 None 0 v = Some (1, v\<lparr>errno := EINVAL\<rparr>)"
proof -
  obtain v where v: "cfe_cipher_alloc_ctx demo_env ''aes-cbc-128'' cipher_up = Some (262320, v)"
    "cipher_live demo_env v 262320 8192 EVP_aes_128_cbc (cipher_zero demo_env)"
    "rg_types (w_cipher v) 8192 = Some (openssl_type_aes_cbc128\<lparr>ct_refcnt := 2\<rparr>)"
    by (rule cipher_up_live)
  then show ?thesis
    using cipher_init_checks [OF v(2,3), of None 0 24 1 "Some []"] by (simp add: openssl_type_aes_cbc128_def)
qed

text \<open>C35: The additional data and the tag are only for AEAD types: on a live context of another type the three
  operations fail with EINVAL and change nothing else; on an AEAD type each passes its arguments to
  OpenSSL (the lengths cut to an int), answers 1 for every result but 1, and stores the new state of the
  cipher and nothing else.\<close>

theorem cipher_aead_operations:
  assumes "cipher_live E w ctx t c st" and "rg_types (w_cipher w) t = Some ty"
  shows "if ct_flags ty AND CIPHER_TYPE_AEAD = 0
    then cfe_cipher_ctx_set_aad E ctx aad n w = Some (1, w\<lparr>errno := EINVAL\<rparr>) \<and>
      cfe_cipher_ctx_set_tag E ctx tag n w = Some (1, w\<lparr>errno := EINVAL\<rparr>) \<and>
      cfe_cipher_ctx_get_tag E ctx n w = Some (1, [], w\<lparr>errno := EINVAL\<rparr>)
    else cfe_cipher_ctx_set_aad E ctx aad n w =
        (let (r, s, out, m) = e_CipherUpdate (evpc E) st aad (ucast n) True
         in Some (if r = 1 then 0 else 1, cipher_state E ctx c s w)) \<and>
      cfe_cipher_ctx_set_tag E ctx tag n w =
        (let (r, s) = e_GCM_SET_TAG (evpc E) st (ucast n) tag
         in Some (if r = 1 then 0 else 1, cipher_state E ctx c s w)) \<and>
      cfe_cipher_ctx_get_tag E ctx n w =
        (let (r, s, out) = e_GCM_GET_TAG (evpc E) st (ucast n)
         in Some (if r = 1 then 0 else 1, out, cipher_state E ctx c s w))"
  using assms by (auto simp: cipher_ctx_aead split_beta)

theorem cipher_aead_operations_witness:
  "\<exists>v. cfe_cipher_alloc_ctx demo_env ''aes-cbc-128'' cipher_up = Some (262320, v) \<and>
    cfe_cipher_ctx_set_tag demo_env 262320 [1, 2] 2 v = Some (1, v\<lparr>errno := EINVAL\<rparr>)"
proof -
  obtain v where v: "cfe_cipher_alloc_ctx demo_env ''aes-cbc-128'' cipher_up = Some (262320, v)"
    "cipher_live demo_env v 262320 8192 EVP_aes_128_cbc (cipher_zero demo_env)"
    "rg_types (w_cipher v) 8192 = Some (openssl_type_aes_cbc128\<lparr>ct_refcnt := 2\<rparr>)"
    by (rule cipher_up_live)
  then show ?thesis
    using cipher_aead_operations [OF v(2,3), of _ 2 "[1, 2]"] by (simp add: openssl_type_aes_cbc128_def)
qed

text \<open>C36: An update passes the length of its input cut to 32 bits, and OpenSSL stores the output length
  through a pointer to int: the low half of *olen is the length and the high half is what the caller
  left there, so *olen is the length exactly when the caller's *olen was below 2^32. Where OpenSSL fails
  and stores no length, *olen is what it was.\<close>

theorem cipher_update_lengths:
  assumes "cipher_live E w ctx t c st"
    and "e_CipherUpdate (evpc E) st b (of_nat (unat ilen mod 2 ^ 32)) False = (r, s, out, m)"
  shows "\<exists>olen'. cfe_cipher_ctx_update E ctx b ilen olen w =
      Some (if r = 1 then 0 else 1, out, olen', cipher_state E ctx c s w) \<and>
    (case m of None \<Rightarrow> olen' = olen
     | Some n \<Rightarrow> unat olen' = 2 ^ 32 * (unat olen div 2 ^ 32) + unat n \<and> (unat olen' = unat n \<longleftrightarrow> unat olen < 2 ^ 32))"
proof -
  have "(ucast ilen :: cint) = of_nat (unat ilen mod 2 ^ 32)"
    by (simp add: word_unat_eq_iff unat_of_nat unsigned_ucast_eq take_bit_eq_mod)
  then show ?thesis
    using cipher_ctx_steps(1) [OF assms(1)] assms(2)
    by (simp add: store_low32_unat div_eq_0_iff store_out_def split: option.split)
qed

theorem cipher_update_lengths_witness:
  "\<exists>v v' v''. cfe_cipher_alloc_ctx demo_env ''aes-cbc-128'' cipher_up = Some (262320, v) \<and>
    cfe_cipher_ctx_update demo_env 262320 [1, 2] 2 (2 ^ 40) v = Some (1, [], 2 ^ 40, v) \<and>
    cfe_cipher_ctx_init demo_env 262320 1 (Some (replicate 16 0)) 16 (Some (replicate 16 0)) 16 v = Some (0, v') \<and>
    cfe_cipher_ctx_update demo_env 262320 [1, 2] 2 (2 ^ 40) v' = Some (0, [254, 253], 2 ^ 40 + 2, v'')"
proof -
  obtain v where v: "cfe_cipher_alloc_ctx demo_env ''aes-cbc-128'' cipher_up = Some (262320, v)"
    "cipher_live demo_env v 262320 8192 EVP_aes_128_cbc (cipher_zero demo_env)"
    "rg_types (w_cipher v) 8192 = Some (openssl_type_aes_cbc128\<lparr>ct_refcnt := 2\<rparr>)"
    by (rule cipher_up_live)
  have st: "cipher_state demo_env 262320 EVP_aes_128_cbc (cipher_zero demo_env) v = v"
    using v(2) by (simp add: cipher_state_def cipher_live_def fun_upd_idem)
  have z: "cipher_zero demo_env = 0 # 0 # 0 # 0 # 0 # replicate 163 0"
    using replicate_add [of "Suc (Suc (Suc (Suc (Suc 0))))" 163 "0 :: 8 word"] by (simp add: cipher_zero_def)
  have "e_CipherUpdate (evpc demo_env) (cipher_zero demo_env) [1, 2] (of_nat (unat (2 :: size_t) mod 2 ^ 32)) False =
      (0, cipher_zero demo_env, [], None)"
    by (simp add: z)
  from cipher_update_lengths [OF v(2) this, of "2 ^ 40"]
  have bad: "cfe_cipher_ctx_update demo_env 262320 [1, 2] 2 (2 ^ 40) v = Some (1, [], 2 ^ 40, v)"
    by (simp add: st)
  obtain s where i: "cfe_cipher_ctx_init demo_env 262320 1 (Some (replicate 16 0)) (of_nat (length (replicate 16 (0 :: 8 word))))
      (Some (replicate 16 0)) (of_nat (length (replicate 16 (0 :: 8 word)))) v =
      Some (0, cipher_state demo_env 262320 EVP_aes_128_cbc s v)"
    "demo_stage s (Running EVP_aes_128_cbc 1 (replicate 16 0) (replicate 16 0) [] None [] [])"
    using cipher_ctx_init_ok [OF demo_cipher_ok v(2) _ v(3), of 1 "replicate 16 0" "replicate 16 0"]
    by (auto simp: cipher_type_ok_def openssl_type_aes_cbc128_def CIPHER_TYPE_AEAD_def iv_ok_def)
  have l: "cipher_live demo_env (cipher_state demo_env 262320 EVP_aes_128_cbc s v) 262320 8192 EVP_aes_128_cbc s"
    using v(2) by simp
  obtain s' where u: "e_CipherUpdate (evpc demo_env) s [1, 2] (of_nat (unat (2 :: size_t) mod 2 ^ 32)) False =
      (1, s', [254, 253], Some 2)"
    using i(2) by auto
  obtain olen' v'' where o: "cfe_cipher_ctx_update demo_env 262320 [1, 2] 2 (2 ^ 40)
      (cipher_state demo_env 262320 EVP_aes_128_cbc s v) = Some (0, [254, 253], olen', v'')"
      "unat olen' = 2 ^ 32 * (unat (2 ^ 40 :: size_t) div 2 ^ 32) + unat (2 :: cint)"
    using cipher_update_lengths [OF l u, of "2 ^ 40"] by auto
  have "olen' = 2 ^ 40 + 2" using o(2) by (simp add: word_unat_eq_iff)
  then show ?thesis using v(1) bad i(1) o(1) by auto
qed

end
