(* ===== verification/Cfe_Header.thy ===== *)
theory Cfe_Header
  imports Cfe_Counted Cfe_Demo
begin

text \<open>
  \<^verbatim>\<open>src/fs/header.c\<close>, \<^verbatim>\<open>src/fs/header-internal.h\<close> and \<^verbatim>\<open>src/fs/header-v1.c\<close>: the registry of header
  formats with its default (the highest registered version), the creation of a header for a file and
  its closing, and the version 1 format with its preallocation and mapping. The lemmas show that the
  default is the maximum in every reachable registry, what the size normalisation computes and where
  it overflows, and what each failure of the kernel leaves behind.
\<close>

unbundle bit_operations_syntax

subsection \<open>The registry\<close>

text \<open>The offset of \<open>next\<close> in \<open>struct cfe_header_type\<close>: after the version (padded) and the counter.\<close>

definition HEADER_NEXT :: addr where "HEADER_NEXT = 16"

definition CFE_HEADER_VERSION_DEFAULT :: int where "CFE_HEADER_VERSION_DEFAULT = - 1"

abbreviation on_header ::
  "(cfe_header_type registry \<Rightarrow> cfe_header_type registry option) \<Rightarrow> world \<Rightarrow> world option" where
  "on_header f w \<equiv> map_option (\<lambda>R. w\<lparr>w_header := R\<rparr>) (f (w_header w))"

definition cfe_header_find :: "uint16 \<Rightarrow> world \<Rightarrow> addr option" where
  "cfe_header_find version w = do {
     r \<leftarrow> list_for_each
       (\<lambda>pos. let tmp = list_entry pos HEADER_NEXT in do {
          ty \<leftarrow> rg_types (w_header w) tmp;
          Some (if hdt_version ty = version then Some tmp else None)
        })
       (rg_nodes (w_header w)) (rg_head (w_header w));
     Some (case r of Some tmp \<Rightarrow> tmp | None \<Rightarrow> NULL)
   }"

text \<open>A new type becomes the default when there is none, or when its version is higher.\<close>

definition header_set_default :: "addr \<Rightarrow> world \<Rightarrow> world option" where
  "header_set_default type w =
     (if header_default w = NULL then Some (w\<lparr>header_default := type\<rparr>)
      else do {
        d \<leftarrow> rg_types (w_header w) (header_default w);
        ty \<leftarrow> rg_types (w_header w) type;
        Some (if hdt_version d < hdt_version ty then w\<lparr>header_default := type\<rparr> else w)
      })"

definition cfe_header_register :: "addr \<Rightarrow> world \<Rightarrow> (int \<times> world) option" where
  "cfe_header_register type w = do {
     ty \<leftarrow> rg_types (w_header w) type;
     w \<leftarrow> on_header reg_wrlock w;
     tmp \<leftarrow> cfe_header_find (hdt_version ty) w;
     (ret, w) \<leftarrow>
       (if tmp \<noteq> NULL then Some (1, w\<lparr>errno := EBUSY\<rparr>)
        else do {
          w \<leftarrow> on_header (reg_store type (hdt_refcnt_update (\<lambda>v. cfe_atomic_set v 1))) w;
          w \<leftarrow> on_header (reg_list (list_add_tail (type + HEADER_NEXT) (rg_head (w_header w)))) w;
          w \<leftarrow> header_set_default type w;
          Some (0, w)
        });
     w \<leftarrow> on_header reg_unlock w;
     Some (ret, w)
   }"

definition cfe_header_unregister :: "addr \<Rightarrow> world \<Rightarrow> (int \<times> world) option" where
  "cfe_header_unregister type w = do {
     w \<leftarrow> on_header reg_wrlock w;
     (ret, w) \<leftarrow>
       (if header_default w = type then Some (1, w\<lparr>errno := EBUSY\<rparr>)
        else do {
          ty \<leftarrow> rg_types (w_header w) type;
          (if cfe_atomic_get (hdt_refcnt ty) \<noteq> 1 then Some (1, w\<lparr>errno := EBUSY\<rparr>)
           else do {
             w \<leftarrow> on_header (reg_list (list_del_init (type + HEADER_NEXT))) w;
             Some (0, w)
           })
        });
     w \<leftarrow> on_header reg_unlock w;
     Some (ret, w)
   }"

subsection \<open>The size of a header\<close>

text \<open>
  The size is rounded up to pages. The sum is an \<open>unsigned long\<close>; the result is cut to 32 bits.
\<close>

definition normalize_headersize :: "env \<Rightarrow> uint32 \<Rightarrow> uint32" where
  "normalize_headersize E sz =
     (let pagesize = e_pagesize (libc E)
      in ucast (if sz \<noteq> 0 then (ucast sz + (pagesize - 1)) AND NOT (pagesize - 1) else pagesize))"

subsection \<open>Version 1 headers\<close>

text \<open>
  \<open>struct cfe_header_v1\<close>: a lock of 56 bytes and four words. \<open>MAP_FAILED\<close> is the address -1.
\<close>

definition SIZEOF_HEADER_V1 :: size_t where "SIZEOF_HEADER_V1 = 88"

definition MAP_FAILED :: addr where "MAP_FAILED = - 1"

text \<open>The two calls on mappings: a failure sets \<open>errno\<close>; a success adds or removes a mapping.\<close>

definition mmap_shared :: "env \<Rightarrow> size_t \<Rightarrow> int \<Rightarrow> world \<Rightarrow> addr \<times> world" where
  "mmap_shared E len fd w =
     (case e_mmap (libc E) len fd w of
        Inl a \<Rightarrow> (a, w\<lparr>w_maps := (w_maps w)(a \<mapsto> len)\<rparr>)
      | Inr e \<Rightarrow> (MAP_FAILED, w\<lparr>errno := e\<rparr>))"

definition munmap :: "env \<Rightarrow> addr \<Rightarrow> size_t \<Rightarrow> world \<Rightarrow> world" where
  "munmap E a len w =
     (let e = e_munmap (libc E) a len w
      in if e = 0 then w\<lparr>w_maps := (w_maps w)(a := None)\<rparr> else w\<lparr>errno := e\<rparr>)"

text \<open>Destroying a lock that is held, or was never initialised, is undefined.\<close>

definition rwlock_destroy :: "rwlock option \<Rightarrow> rwlock option option" where
  "rwlock_destroy l = (if l = Some Unlocked then Some None else None)"

definition cfe_header_v1_destroy :: "env \<Rightarrow> addr \<Rightarrow> world \<Rightarrow> world option" where
  "cfe_header_v1_destroy E header w =
     (if header = NULL then Some w
      else do {
        h \<leftarrow> w_headers w header;
        let w = (if hd_mapping h \<noteq> NULL then munmap E (hd_mapping h) (hd_msize h) w else w);
        l \<leftarrow> rwlock_destroy (hd_lock h);
        Some (w\<lparr>w_headers := (w_headers w)(header \<mapsto> h\<lparr>hd_lock := l\<rparr>)\<rparr>)
      })"

definition cfe_header_v1_free :: "env \<Rightarrow> addr \<Rightarrow> world \<Rightarrow> world option" where
  "cfe_header_v1_free E header w = do {
     w \<leftarrow> cfe_header_v1_destroy E header w;
     h \<leftarrow> cfe_free header (w_headers w);
     Some (w\<lparr>w_headers := h\<rparr>)
   }"

text \<open>\<open>V1_HEADER\<close> subtracts the offset of \<open>base\<close>, which is 0.\<close>

definition V1_HEADER :: "addr \<Rightarrow> addr" where "V1_HEADER header = header - 0"

definition cfe_header_free :: "env \<Rightarrow> addr \<Rightarrow> world \<Rightarrow> world option" where
  "cfe_header_free E header w =
     (if header = NULL then Some w else cfe_header_v1_free E (V1_HEADER header) w)"

definition cfe_header_v1_init :: "addr \<Rightarrow> world \<Rightarrow> (int \<times> world) option" where
  "cfe_header_v1_init header w = do {
     h \<leftarrow> w_headers w header;
     Some (0, w\<lparr>w_headers := (w_headers w)(header \<mapsto> h\<lparr>hd_lock := Some Unlocked\<rparr>)\<rparr>)
   }"

text \<open>The object that \<open>calloc\<close> returns: all zero.\<close>

definition zero_header :: cfe_header_v1 where
  "zero_header = \<lparr>hd_lock = None, hd_type = NULL, hd_ops = None, hd_mapping = NULL, hd_msize = 0\<rparr>"

definition cfe_header_v1_new :: "env \<Rightarrow> world \<Rightarrow> (addr \<times> world) option" where
  "cfe_header_v1_new E w = do {
     let (header, w) = cfe_calloc E 1 SIZEOF_HEADER_V1 w;
     if header = NULL then Some (NULL, w)
     else do {
       (r, w) \<leftarrow> cfe_header_v1_init header (w\<lparr>w_headers := (w_headers w)(header \<mapsto> zero_header)\<rparr>);
       if r \<noteq> 0 then do {
         w \<leftarrow> cfe_header_v1_free E header w;
         Some (NULL, w)
       }
       else Some (header, w)
     }
   }"

text \<open>
  On the failure path the header is freed with whatever the fields hold by then: \<open>mapping\<close> is
  \<open>MAP_FAILED\<close> there when it was \<open>mmap\<close> that failed.
\<close>

definition cfe_header_v1_alloc :: "env \<Rightarrow> int \<Rightarrow> size_t \<Rightarrow> world \<Rightarrow> (addr \<times> world) option" where
  "cfe_header_v1_alloc E fd sz w = do {
     (header, w) \<leftarrow> cfe_header_v1_new E w;
     if header = NULL then Some (NULL, w)
     else do {
       let (ret, w) = cfe_fallocate E fd 0 sz w;
       if ret \<noteq> 0 then do {
         w \<leftarrow> cfe_header_v1_free E header (w\<lparr>errno := ret\<rparr>);
         Some (NULL, w)
       }
       else do {
         h \<leftarrow> w_headers w header;
         let (m, w) = mmap_shared E sz fd w;
         let w = w\<lparr>w_headers := (w_headers w)(header \<mapsto>
           h\<lparr>hd_ops := Some Cfe_header_v1_ops, hd_msize := sz, hd_mapping := m\<rparr>)\<rparr>;
         if m = MAP_FAILED then do {
           w \<leftarrow> cfe_header_v1_free E header w;
           Some (NULL, w)
         }
         else Some (header, w)
       }
     }
   }"

definition header_v1_type :: cfe_header_type where
  "header_v1_type = \<lparr>hdt_version = 1, hdt_refcnt = 0, hdt_alloc = Some Fn_cfe_header_v1_alloc\<rparr>"

definition header_v1_init :: "env \<Rightarrow> world \<Rightarrow> (bool \<times> world) option" where
  "header_v1_init E w = do {
     (r, w) \<leftarrow> cfe_header_register (sym E ''header_v1_type'') w;
     Some (r \<noteq> 0, w)
   }"

subsection \<open>Creating and closing a header\<close>

fun call_header_alloc :: "env \<Rightarrow> header_alloc_fn \<Rightarrow> int \<Rightarrow> size_t \<Rightarrow> world \<Rightarrow> (addr \<times> world) option" where
  "call_header_alloc E Fn_cfe_header_v1_alloc fd sz w = cfe_header_v1_alloc E fd sz w"
| "call_header_alloc E (Ext_header_alloc n) fd sz w = e_ext_header_alloc (app E) n fd sz w"

fun call_header_free :: "env \<Rightarrow> header_ops \<Rightarrow> addr \<Rightarrow> world \<Rightarrow> world option" where
  "call_header_free E Cfe_header_v1_ops header w = cfe_header_free E header w"
| "call_header_free E (Ext_header_ops n) header w = e_ext_header_free (app E) n header w"

text \<open>
  The version is an \<open>int\<close> here and 16 bits in the lookup; the size is a \<open>size_t\<close> here and 32 bits in
  the normalisation.
\<close>

definition cfe_header_create :: "env \<Rightarrow> int \<Rightarrow> int \<Rightarrow> size_t \<Rightarrow> world \<Rightarrow> (addr \<times> world) option" where
  "cfe_header_create E version fd sz w = do {
     w \<leftarrow> on_header reg_rdlock w;
     type \<leftarrow> (if version = CFE_HEADER_VERSION_DEFAULT then Some (header_default w)
             else cfe_header_find (of_int version) w);
     w \<leftarrow> (if type \<noteq> NULL then on_header (reg_store type (hdt_refcnt_update cfe_atomic_inc)) w
          else Some w);
     w \<leftarrow> on_header reg_unlock w;
     if type = NULL then Some (NULL, w\<lparr>errno := ENOSYS\<rparr>)
     else do {
       let sz = ucast (normalize_headersize E (ucast sz));
       ty \<leftarrow> rg_types (w_header w) type;
       f \<leftarrow> hdt_alloc ty;
       (header, w) \<leftarrow> call_header_alloc E f fd sz w;
       if header = NULL then do {
         w \<leftarrow> on_header (reg_store type (hdt_refcnt_update cfe_atomic_dec)) w;
         Some (NULL, w)
       }
       else do {
         h \<leftarrow> w_headers w header;
         Some (header, w\<lparr>w_headers := (w_headers w)(header \<mapsto> h\<lparr>hd_type := type\<rparr>)\<rparr>)
       }
     }
   }"

definition cfe_header_close :: "env \<Rightarrow> addr \<Rightarrow> world \<Rightarrow> world option" where
  "cfe_header_close E header w =
     (if header = NULL then Some w
      else do {
        h \<leftarrow> w_headers w header;
        let type = hd_type h;
        ops \<leftarrow> hd_ops h;
        w \<leftarrow> call_header_free E ops header w;
        on_header (reg_store type (hdt_refcnt_update cfe_atomic_dec)) w
      })"

subsection \<open>The contract\<close>

text \<open>The version of a type, and the invariant of the default.\<close>

definition header_version :: "cfe_header_type registry \<Rightarrow> addr \<Rightarrow> uint16 option" where
  "header_version R t = map_option hdt_version (rg_types R t)"

definition header_default_ok :: "world \<Rightarrow> addr list \<Rightarrow> bool" where
  "header_default_ok w = default_ok (header_version (w_header w)) (header_default w)"

definition header_layout :: "(cfe_header_type, uint16, uint16) layout" where
  "header_layout =
     \<lparr>ly_get = w_header, ly_put = (\<lambda>R w. w\<lparr>w_header := R\<rparr>), ly_off = HEADER_NEXT,
      ly_valid = (\<lambda>_. True), ly_name = (\<lambda>ty. Some (hdt_version ty)), ly_canon = (\<lambda>n. n),
      ly_match = (\<lambda>n ty. Some (hdt_version ty = n)),
      ly_refcnt = hdt_refcnt, ly_refcnt_upd = hdt_refcnt_update,
      ly_post = header_set_default, ly_pinned = (\<lambda>w t. header_default w = t),
      ly_inv = header_default_ok,
      ly_frame = (\<lambda>w w'. \<exists>R d. w' = w\<lparr>w_header := R, header_default := d\<rparr>)\<rparr>"

lemma header_key_eq: "reg_key header_layout R = header_version R"
  by (auto simp: fun_eq_iff reg_key_def header_version_def header_layout_def split: option.splits)

lemma header_same: "\<exists>R d. w = w\<lparr>w_header := R, header_default := d\<rparr>"
  by (rule exI [of _ "w_header w"], rule exI [of _ "header_default w"]) simp

lemma header_default_frame:
  "\<exists>R d'. w\<lparr>header_default := d\<rparr> = w\<lparr>w_header := R, header_default := d'\<rparr>"
  by (rule exI [of _ "w_header w"], rule exI [of _ d]) simp

lemma header_put_frame: "\<exists>R' d. w\<lparr>w_header := R\<rparr> = w\<lparr>w_header := R', header_default := d\<rparr>"
  by (rule exI [of _ R], rule exI [of _ "header_default w"]) simp

lemma header_any_frame:
  "\<exists>R' d'. w\<lparr>w_header := R, header_default := d\<rparr> = w\<lparr>w_header := R', header_default := d'\<rparr>"
  by blast

lemma header_set_default_ok:
  assumes inv: "header_default_ok w xs" and ok: "reg_ok header_layout (w_header w) (xs @ [t])"
  shows "\<exists>d. header_set_default t w = Some (w\<lparr>header_default := d\<rparr>) \<and>
    header_default_ok (w\<lparr>header_default := d\<rparr>) (xs @ [t])"
proof -
  have dm: "\<forall>u \<in> set (xs @ [t]). \<exists>ty. rg_types (w_header w) u = Some ty"
    using ok by (auto simp: reg_ok_def header_key_eq header_version_def)
  have nn: "NULL \<notin> set (xs @ [t])" using reg_ok_nonnull [OF ok] .
  show ?thesis
  proof (cases "header_default w = NULL")
    case True
    then show ?thesis
      using default_ok_first [of "header_version (w_header w)" xs t] inv nn
      by (intro exI [of _ t]) (simp add: header_set_default_def header_default_ok_def)
  next
    case False
    let ?d = "header_default w"
    have "xs \<noteq> []" using inv False by (auto simp: header_default_ok_def default_ok_def)
    then have "?d \<in> set xs" using inv by (simp add: header_default_ok_def default_ok_def)
    then obtain dt ty where e: "rg_types (w_header w) ?d = Some dt" "rg_types (w_header w) t = Some ty"
      using dm by auto
    then show ?thesis
      using default_ok_snoc [of "header_version (w_header w)" ?d xs t] inv False
      by (intro exI [of _ "if hdt_version dt < hdt_version ty then t else ?d"])
         (simp add: header_set_default_def header_default_ok_def header_version_def)
  qed
qed

interpretation header_lay: type_layout header_layout
proof (unfold_locales, goal_cases)
  case (16 R w xs)
  then show ?case
    by (simp add: header_key_eq) (simp add: header_layout_def header_default_ok_def)
next
  case (17 w xs t)
  then show ?case
    by (simp add: header_layout_def header_default_ok_def default_ok_remove1)
next
  case (18 w xs t)
  then obtain d where "header_set_default t w = Some (w\<lparr>header_default := d\<rparr>)"
      "header_default_ok (w\<lparr>header_default := d\<rparr>) (xs @ [t])"
    using header_set_default_ok [of w xs t] by (auto simp: header_layout_def)
  then show ?case using header_default_frame [of d w] by (simp add: header_layout_def)
qed (auto simp: header_layout_def header_put_frame header_any_frame header_default_ok_def)

lemma cfe_header_find_eq: "cfe_header_find = tmpl_find header_layout"
  by (simp add: fun_eq_iff cfe_header_find_def tmpl_find_def header_layout_def)

lemma cfe_header_register_eq: "cfe_header_register = tmpl_register header_layout"
  unfolding fun_eq_iff cfe_header_register_def tmpl_register_def cfe_header_find_eq on_reg_def
  by (simp add: header_layout_def cong: if_cong)

lemma cfe_header_unregister_eq: "cfe_header_unregister = tmpl_unregister header_layout"
  unfolding fun_eq_iff cfe_header_unregister_def tmpl_unregister_def on_reg_def
  by (simp add: header_layout_def cong: if_cong)

interpretation header: type_registry "tmpl_repr header_layout" "tmpl_key header_layout"
  "tmpl_refs header_layout" "tmpl_body header_layout" "\<lambda>w t. header_default w = t"
  "\<lambda>w w'. \<exists>R d. w' = w\<lparr>w_header := R, header_default := d\<rparr>" "\<lambda>n. n" cfe_header_find
  cfe_header_register cfe_header_unregister "tmpl_acquire header_layout" "tmpl_release header_layout"
  using header_lay.reg.type_registry_axioms
  unfolding cfe_header_find_eq cfe_header_register_eq cfe_header_unregister_eq
  by (simp add: header_layout_def)

subsection \<open>What the normalisation computes\<close>

lemma normalize_headersize_unat:
  assumes p: "e_pagesize (libc E) = 2 ^ k" and k: "k < 32"
  shows "unat (normalize_headersize E sz) =
    (if sz = 0 then 2 ^ k else 2 ^ k * ((unat sz + 2 ^ k - 1) div 2 ^ k) mod 2 ^ 32)"
proof (cases "sz = 0")
  case True
  have "unat (ucast (2 ^ k :: uint64) :: uint32) = 2 ^ k"
    using k by (simp add: unsigned_ucast_eq unat_power2 take_bit_nat_eq_self)
  then show ?thesis using True p by (simp add: normalize_headersize_def Let_def)
next
  case False
  have m: "(2 ^ k :: uint64) - 1 = mask k" by (simp add: mask_eq_exp_minus_1)
  have pk: "(2 :: nat) ^ k \<le> 2 ^ 32" by (rule power_increasing) (use k in auto)
  have "unat (2 ^ k - 1 :: uint64) = 2 ^ k - 1"
    using k by (simp add: unat_sub_if' unat_power2 word_le_nat_alt)
  moreover have "unat sz < 2 ^ 32" using unsigned_less [of sz, where 'a=nat] by simp
  moreover have "unat (ucast sz :: uint64) = unat sz" by (simp add: unat_ucast_up)
  ultimately have x: "unat ((ucast sz :: uint64) + (2 ^ k - 1)) = unat sz + 2 ^ k - 1"
    using pk by (simp add: unat_word_ariths)
  have "unat (normalize_headersize E sz) =
      unat (((ucast sz :: uint64) + (2 ^ k - 1)) AND NOT (mask k)) mod 2 ^ 32"
    using False p m by (simp add: normalize_headersize_def Let_def unsigned_ucast_eq take_bit_eq_mod)
  also have "\<dots> = 2 ^ k * ((unat sz + 2 ^ k - 1) div 2 ^ k) mod 2 ^ 32"
    unfolding and_not_mask_round unat_round x ..
  finally show ?thesis using False by simp
qed

text \<open>
  Up to the last page of the 32-bit range the result is the least positive multiple of the page size
  that holds the size; beyond it the result is 0.
\<close>

lemma normalize_headersize_least:
  assumes p: "e_pagesize (libc E) = 2 ^ k" and k: "k < 32" and le: "unat sz \<le> 2 ^ 32 - 2 ^ k"
  shows "2 ^ k dvd unat (normalize_headersize E sz)" and "unat sz \<le> unat (normalize_headersize E sz)"
    and "unat (normalize_headersize E sz) < max 1 (unat sz) + 2 ^ k"
proof -
  let ?p = "(2 :: nat) ^ k" and ?r = "unat (normalize_headersize E sz)"
  let ?q = "(unat sz + ?p - 1) div ?p"
  have pk: "?p \<le> 2 ^ 32" "0 < ?p"
    by (rule power_increasing) (use k in auto)
  have b: "?p * ?q \<le> unat sz + ?p - 1" "unat sz + ?p - 1 < ?p * ?q + ?p"
    using times_div_less_eq_dividend [of ?p "unat sz + ?p - 1"]
      dividend_less_times_div [of ?p "unat sz + ?p - 1"] pk(2) by linarith+
  have "?p * ?q < 2 ^ 32" using b(1) le pk by linarith
  then have r: "?r = (if sz = 0 then ?p else ?p * ?q)"
    by (simp add: normalize_headersize_unat [OF p k])
  then show "?p dvd ?r" by simp
  show "unat sz \<le> ?r" using r b(2) by (cases "sz = 0") auto
  show "?r < max 1 (unat sz) + ?p"
  proof (cases "sz = 0")
    case False
    then have "?r = ?p * ?q" using r by simp
    then show ?thesis using b(1) pk(2) by linarith
  qed (use r in simp)
qed

lemma normalize_headersize_overflow:
  assumes p: "e_pagesize (libc E) = 2 ^ k" and k: "k < 32" and gt: "2 ^ 32 - 2 ^ k < unat sz"
  shows "normalize_headersize E sz = 0"
proof -
  let ?p = "(2 :: nat) ^ k"
  let ?q = "(unat sz + ?p - 1) div ?p"
  have pk: "?p \<le> 2 ^ 32" "0 < ?p"
    by (rule power_increasing) (use k in auto)
  have e: "(2 :: nat) ^ 32 = ?p * 2 ^ (32 - k)" using k by (simp flip: power_add)
  have "unat sz < 2 ^ 32" using unsigned_less [of sz, where 'a=nat] by simp
  then have "unat sz + ?p - 1 < ?p * (2 ^ (32 - k) + 1)" "?p * 2 ^ (32 - k) \<le> unat sz + ?p - 1"
    using gt e pk by (simp_all add: algebra_simps)
  then have "?q = 2 ^ (32 - k)"
    by (intro div_nat_eqI) (simp_all add: mult.commute)
  moreover have "sz \<noteq> 0" using gt by auto
  ultimately have "unat (normalize_headersize E sz) = 0"
    using e by (simp add: normalize_headersize_unat [OF p k])
  then show ?thesis by (simp add: unat_eq_zero)
qed

subsection \<open>Selecting a type\<close>

text \<open>The version selects a type: the default for -1, else the type with the low 16 bits.\<close>

definition header_select :: "int \<Rightarrow> world \<Rightarrow> addr option" where
  "header_select version w =
     (if version = CFE_HEADER_VERSION_DEFAULT then Some (header_default w)
      else cfe_header_find (of_int version) w)"

text \<open>A store to a type object, and the reference that a header takes.\<close>

definition header_type_put :: "addr \<Rightarrow> cfe_header_type \<Rightarrow> world \<Rightarrow> world" where
  "header_type_put t ty w =
     w\<lparr>w_header := (w_header w)\<lparr>rg_types := (rg_types (w_header w))(t \<mapsto> ty)\<rparr>\<rparr>"

abbreviation header_inc :: "addr \<Rightarrow> cfe_header_type \<Rightarrow> world \<Rightarrow> world" where
  "header_inc t ty \<equiv> header_type_put t (hdt_refcnt_update cfe_atomic_inc ty)"

lemma header_inc_repr:
  assumes "tmpl_repr header_layout w xs" and "rg_types (w_header w) t = Some ty"
  shows "tmpl_repr header_layout (header_inc t ty w) xs"
    and "tmpl_refs header_layout (header_inc t ty w) = (tmpl_refs header_layout w)(t \<mapsto> hdt_refcnt ty + 1)"
proof -
  have ty: "rg_types (ly_get header_layout w) t = Some ty"
    and e: "header_inc t ty w = ly_put header_layout ((ly_get header_layout w)\<lparr>rg_types :=
      (rg_types (ly_get header_layout w))(t \<mapsto> ly_refcnt_upd header_layout cfe_atomic_inc ty)\<rparr>) w"
    using assms(2) by (simp_all add: header_layout_def header_type_put_def)
  show "tmpl_repr header_layout (header_inc t ty w) xs"
    by (rule header_lay.store_repr(1) [OF assms(1) ty e])
  show "tmpl_refs header_layout (header_inc t ty w) = (tmpl_refs header_layout w)(t \<mapsto> hdt_refcnt ty + 1)"
    using header_lay.store_repr(3) [OF assms(1) ty e] by (simp add: header_layout_def)
qed

lemma header_select_lock [simp]:
  "header_select version (w\<lparr>w_header := (w_header w)\<lparr>rg_lock := l\<rparr>\<rparr>) = header_select version w"
  by (simp add: header_select_def cfe_header_find_def)

lemma header_dec_inc:
  assumes "rg_types (w_header w) t = Some ty"
  shows "on_header (reg_store t (hdt_refcnt_update cfe_atomic_dec)) (header_inc t ty w) = Some w"
  using assms by (simp add: header_type_put_def reg_store_def fun_upd_idem)

lemma cfe_header_create_eq:
  assumes r: "tmpl_repr header_layout w xs" and t: "header_select version w = Some t" "t \<noteq> NULL"
    and ty: "rg_types (w_header w) t = Some ty" "hdt_alloc ty = Some f"
  shows "cfe_header_create E version fd sz w = do {
     (header, w) \<leftarrow> call_header_alloc E f fd (ucast (normalize_headersize E (ucast sz))) (header_inc t ty w);
     if header = NULL then do {
       w \<leftarrow> on_header (reg_store t (hdt_refcnt_update cfe_atomic_dec)) w;
       Some (NULL, w)
     }
     else do {
       h \<leftarrow> w_headers w header;
       Some (header, w\<lparr>w_headers := (w_headers w)(header \<mapsto> h\<lparr>hd_type := t\<rparr>)\<rparr>)
     }
   }"
proof -
  have l: "rg_lock (w_header w) = Unlocked" using r by (simp add: tmpl_repr_def header_layout_def)
  show ?thesis
    unfolding cfe_header_create_def header_select_def [symmetric]
    using l t ty by (simp add: reg_lock_steps reg_store_def header_type_put_def Let_def lock_restore_types)
qed

lemma cfe_header_create_missing:
  assumes r: "tmpl_repr header_layout w xs" and t: "header_select version w = Some NULL"
  shows "cfe_header_create E version fd sz w = Some (NULL, w\<lparr>errno := ENOSYS\<rparr>)"
proof -
  have l: "rg_lock (w_header w) = Unlocked" using r by (simp add: tmpl_repr_def header_layout_def)
  have "w\<lparr>w_header := (w_header w)\<lparr>rg_lock := Unlocked\<rparr>\<rparr> = w" using l by simp
  then show ?thesis
    unfolding cfe_header_create_def header_select_def [symmetric]
    using l t by (simp add: reg_lock_steps)
qed

subsection \<open>The life of a version 1 header\<close>

text \<open>A new header: the zeroed object with its lock initialised.\<close>

definition new_header :: "addr \<Rightarrow> world \<Rightarrow> world" where
  "new_header a w = w\<lparr>w_headers := (w_headers w)(a \<mapsto> zero_header\<lparr>hd_lock := Some Unlocked\<rparr>)\<rparr>"

lemma cfe_header_v1_new_eq:
  "cfe_header_v1_new E w =
    (let a = e_calloc (libc E) SIZEOF_HEADER_V1 w
     in if a = NULL then Some (NULL, w\<lparr>errno := ENOMEM\<rparr>) else Some (a, new_header a w))"
  by (simp add: cfe_header_v1_new_def calloc_1 cfe_header_v1_init_def new_header_def Let_def)

text \<open>The block that the allocator answers while a header is made is not in use.\<close>

lemma header_calloc_free:
  assumes "calloc_ok E" and "e_calloc (libc E) SIZEOF_HEADER_V1 (header_inc t ty w) = a" and "a \<noteq> NULL"
  shows "w_headers w a = None"
proof -
  have "fresh (header_inc t ty w) a SIZEOF_HEADER_V1" using assms unfolding calloc_ok_def by metis
  then have "w_headers (header_inc t ty w) a = None" by (rule freshD(2)) (simp add: SIZEOF_HEADER_V1_def)
  then show ?thesis by (simp add: header_type_put_def)
qed

text \<open>Freeing a header whose mapping is not set, and one with a mapping.\<close>

lemma cfe_header_v1_free_unmapped:
  assumes "w_headers w a = Some h" and "hd_lock h = Some Unlocked" and "a \<noteq> NULL"
    and "hd_mapping h = NULL"
  shows "cfe_header_v1_free E a w = Some (w\<lparr>w_headers := (w_headers w)(a := None)\<rparr>)"
  using assms by (simp add: cfe_header_v1_free_def cfe_header_v1_destroy_def rwlock_destroy_def free_defs)

lemma cfe_header_v1_free_mapped:
  assumes "w_headers w a = Some h" and "hd_lock h = Some Unlocked" and "a \<noteq> NULL"
    and "hd_mapping h \<noteq> NULL"
  shows "cfe_header_v1_free E a w =
    Some ((munmap E (hd_mapping h) (hd_msize h) w)\<lparr>w_headers := (w_headers w)(a := None)\<rparr>)"
  using assms
  by (simp add: cfe_header_v1_free_def cfe_header_v1_destroy_def rwlock_destroy_def free_defs
      munmap_def Let_def)

text \<open>The three outcomes of the allocation: no space, no mapping, a header.\<close>

lemma cfe_header_v1_alloc_nospace:
  assumes a: "e_calloc (libc E) SIZEOF_HEADER_V1 w = a" "a \<noteq> NULL" "w_headers w a = None"
    and f: "fst (cfe_fallocate E fd 0 sz (new_header a w)) = r" "r \<noteq> 0"
  shows "cfe_header_v1_alloc E fd sz w = Some (NULL, w\<lparr>errno := r\<rparr>)"
proof -
  obtain e where e: "cfe_fallocate E fd 0 sz (new_header a w) = (r, (new_header a w)\<lparr>errno := e\<rparr>)"
  proof -
    have "\<exists>e. snd (cfe_fallocate E fd 0 sz (new_header a w)) = (new_header a w)\<lparr>errno := e\<rparr>"
      using f
      by (auto simp: cfe_fallocate_def posix_fallocate_def fcntl_preallocate_def Let_def
          split: if_splits intro: exI [of _ "errno (new_header a w)"])
    then show ?thesis using that f(1) by (metis prod.collapse)
  qed
  have "cfe_header_v1_free E a ((new_header a w)\<lparr>errno := r\<rparr>) = Some (w\<lparr>errno := r\<rparr>)"
    using a(2,3)
    by (subst cfe_header_v1_free_unmapped [where h = "zero_header\<lparr>hd_lock := Some Unlocked\<rparr>"])
       (simp_all add: new_header_def zero_header_def fun_upd_idem)
  then show ?thesis
    using a e f(2) by (simp add: cfe_header_v1_alloc_def cfe_header_v1_new_eq)
qed

text \<open>The size of the file after a preallocation of its first \<open>n\<close> bytes.\<close>

definition fsize_after :: "env \<Rightarrow> int \<Rightarrow> uint64 \<Rightarrow> (int \<Rightarrow> uint64) \<Rightarrow> int \<Rightarrow> uint64" where
  "fsize_after E fd n s = (if e_have_posix_fallocate (libc E) then s(fd := max (s fd) n) else s)"

lemma cfe_fallocate_ok:
  "fst (cfe_fallocate E fd 0 n v) = 0 \<Longrightarrow>
    cfe_fallocate E fd 0 n v = (0, v\<lparr>w_fsize := fsize_after E fd n (w_fsize v)\<rparr>)"
  by (auto simp: cfe_fallocate_def posix_fallocate_def fcntl_preallocate_def Let_def fsize_after_def
      split: if_splits)

text \<open>The world in which the mapping is asked for: the new object, and the space in the file.\<close>

definition header_room :: "env \<Rightarrow> int \<Rightarrow> size_t \<Rightarrow> addr \<Rightarrow> world \<Rightarrow> world" where
  "header_room E fd n a w = (new_header a w)\<lparr>w_fsize := fsize_after E fd n (w_fsize w)\<rparr>"

lemma header_room_fallocate:
  "fst (cfe_fallocate E fd 0 n (new_header a w)) = 0 \<Longrightarrow>
    cfe_fallocate E fd 0 n (new_header a w) = (0, header_room E fd n a w)"
  by (simp add: cfe_fallocate_ok header_room_def) (simp add: new_header_def)

lemma cfe_header_v1_alloc_nomap:
  assumes a: "e_calloc (libc E) SIZEOF_HEADER_V1 w = a" "a \<noteq> NULL" "w_headers w a = None"
    and f: "fst (cfe_fallocate E fd 0 sz (new_header a w)) = 0"
    and m: "e_mmap (libc E) sz fd (header_room E fd sz a w) = Inr e" "\<And>v. e_munmap (libc E) MAP_FAILED sz v = e'" "e' \<noteq> 0"
  shows "cfe_header_v1_alloc E fd sz w =
    Some (NULL, w\<lparr>w_fsize := fsize_after E fd sz (w_fsize w), errno := e'\<rparr>)"
proof -
  let ?v = "new_header a w"
  let ?h = "zero_header\<lparr>hd_lock := Some Unlocked, hd_ops := Some Cfe_header_v1_ops, hd_msize := sz,
    hd_mapping := MAP_FAILED\<rparr>"
  let ?u = "?v\<lparr>w_fsize := fsize_after E fd sz (w_fsize w), errno := e,
    w_headers := (w_headers w)(a \<mapsto> ?h)\<rparr>"
  note fa = header_room_fallocate [OF f]
  have "cfe_header_v1_free E a ?u = Some (w\<lparr>w_fsize := fsize_after E fd sz (w_fsize w), errno := e'\<rparr>)"
    by (subst cfe_header_v1_free_mapped [where h = ?h])
       (use a m in \<open>simp_all add: MAP_FAILED_def munmap_def Let_def new_header_def fun_upd_idem\<close>)
  moreover have "cfe_header_v1_alloc E fd sz w = do {
      w \<leftarrow> cfe_header_v1_free E a ?u;
      Some (NULL, w)
    }"
    using a fa m(1)
    by (simp add: cfe_header_v1_alloc_def cfe_header_v1_new_eq mmap_shared_def Let_def)
       (simp add: new_header_def header_room_def)
  ultimately show ?thesis by simp
qed

definition header_v1 :: "addr \<Rightarrow> size_t \<Rightarrow> addr \<Rightarrow> cfe_header_v1" where
  "header_v1 m sz t = \<lparr>hd_lock = Some Unlocked, hd_type = t, hd_ops = Some Cfe_header_v1_ops,
     hd_mapping = m, hd_msize = sz\<rparr>"

lemma cfe_header_v1_alloc_ok:
  assumes a: "e_calloc (libc E) SIZEOF_HEADER_V1 w = a" "a \<noteq> NULL"
    and f: "fst (cfe_fallocate E fd 0 sz (new_header a w)) = 0"
    and m: "e_mmap (libc E) sz fd (header_room E fd sz a w) = Inl m" "m \<noteq> MAP_FAILED"
  shows "cfe_header_v1_alloc E fd sz w =
    Some (a, w\<lparr>w_fsize := fsize_after E fd sz (w_fsize w), w_maps := (w_maps w)(m \<mapsto> sz),
      w_headers := (w_headers w)(a \<mapsto> header_v1 m sz NULL)\<rparr>)"
  using a header_room_fallocate [OF f] m
  by (simp add: cfe_header_v1_alloc_def cfe_header_v1_new_eq mmap_shared_def Let_def)
     (simp add: new_header_def header_room_def zero_header_def header_v1_def)

text \<open>Closing a version 1 header: it is unmapped and freed, and its type's counter goes down.\<close>

lemma cfe_header_close_v1:
  assumes h: "w_headers v a = Some (header_v1 m n t)" "a \<noteq> NULL" "m \<noteq> NULL" "w_maps v m = Some n"
    and u: "\<And>v. w_maps v m = Some n \<Longrightarrow> e_munmap (libc E) m n v = 0" and ty: "rg_types (w_header v) t = Some ty"
  shows "cfe_header_close E a v =
    Some (header_type_put t (hdt_refcnt_update cfe_atomic_dec ty)
      (v\<lparr>w_maps := (w_maps v)(m := None), w_headers := (w_headers v)(a := None)\<rparr>))"
proof -
  have "cfe_header_free E a v =
      Some (v\<lparr>w_maps := (w_maps v)(m := None), w_headers := (w_headers v)(a := None)\<rparr>)"
    using h u
    by (simp add: cfe_header_free_def V1_HEADER_def cfe_header_v1_free_mapped
        [where h = "header_v1 m n t"] header_v1_def munmap_def Let_def)
  then show ?thesis
    using h ty by (simp add: cfe_header_close_def header_v1_def header_type_put_def reg_store_def)
qed

text \<open>
  Creating a version 1 header and closing it again: the type's counter is raised in between; at the
  end everything is as before, but for the size of the file.
\<close>

lemma cfe_header_create_close:
  assumes r: "tmpl_repr header_layout w xs" and t: "header_select version w = Some t" "t \<noteq> NULL"
    and ty: "rg_types (w_header w) t = Some ty" "hdt_alloc ty = Some Fn_cfe_header_v1_alloc"
    and n: "n = ucast (normalize_headersize E (ucast sz))"
    and a: "calloc_ok E" "e_calloc (libc E) SIZEOF_HEADER_V1 (header_inc t ty w) = a" "a \<noteq> NULL"
    and f: "fst (cfe_fallocate E fd 0 n (new_header a (header_inc t ty w))) = 0"
    and m: "e_mmap (libc E) n fd (header_room E fd n a (header_inc t ty w)) = Inl m" "m \<noteq> MAP_FAILED" "m \<noteq> NULL"
      "w_maps w m = None"
    and u: "\<And>v. w_maps v m = Some n \<Longrightarrow> e_munmap (libc E) m n v = 0"
  shows "\<exists>w'. cfe_header_create E version fd sz w = Some (a, w') \<and>
    w' = (header_inc t ty w)\<lparr>w_fsize := fsize_after E fd n (w_fsize w), w_maps := (w_maps w)(m \<mapsto> n),
      w_headers := (w_headers w)(a \<mapsto> header_v1 m n t)\<rparr> \<and>
    tmpl_repr header_layout w' xs \<and>
    tmpl_refs header_layout w' = (tmpl_refs header_layout w)(t \<mapsto> hdt_refcnt ty + 1) \<and>
    cfe_header_close E a w' = Some (w\<lparr>w_fsize := fsize_after E fd n (w_fsize w)\<rparr>)"
proof -
  note nn = a(3) and na = header_calloc_free [OF a]
  let ?v = "header_inc t ty w"
  have vs: "w_fsize ?v = w_fsize w" "w_maps ?v = w_maps w" "w_headers ?v = w_headers w"
    by (simp_all add: header_type_put_def)
  define w' where "w' = ?v\<lparr>w_fsize := fsize_after E fd n (w_fsize w), w_maps := (w_maps w)(m \<mapsto> n),
      w_headers := (w_headers w)(a \<mapsto> header_v1 m n t)\<rparr>"
  have "cfe_header_create E version fd sz w = Some (a, w')"
    using cfe_header_v1_alloc_ok [of E ?v a fd n m] a(2) nn f m(1,2) vs
    by (simp add: cfe_header_create_eq [OF r t ty] n w'_def header_v1_def)
  moreover have "w_header w' = w_header ?v" "header_default w' = header_default ?v"
    by (simp_all add: w'_def)
  then have "tmpl_repr header_layout w' xs = tmpl_repr header_layout ?v xs"
      "tmpl_refs header_layout w' = tmpl_refs header_layout ?v"
    by (simp_all add: tmpl_repr_def tmpl_refs_def header_layout_def header_default_ok_def fun_eq_iff)
  moreover have "cfe_header_close E a w' = Some (w\<lparr>w_fsize := fsize_after E fd n (w_fsize w)\<rparr>)"
    by (subst cfe_header_close_v1 [where ty = "hdt_refcnt_update cfe_atomic_inc ty" and m = m and n = n and t = t])
       (use nn na u m(3,4) ty(1) in \<open>simp_all add: w'_def header_type_put_def fun_upd_idem\<close>)
  ultimately show ?thesis using header_inc_repr [OF r ty(1)] w'_def by auto
qed

subsection \<open>The constructor\<close>

lemma header_v1_init_ok:
  assumes w: "w_header w = load_registry head HEADER_NEXT [(a, header_v1_type)]" "header_default w = NULL"
    and a: "a = sym E ''header_v1_type''" and d: "a \<noteq> NULL" "head \<noteq> a + HEADER_NEXT"
  shows "\<exists>w'. header_v1_init E w = Some (False, w') \<and> tmpl_repr header_layout w' [a] \<and>
    header_default w' = a \<and> tmpl_key header_layout w' a = Some 1 \<and>
    rg_types (w_header w') a = Some (header_v1_type\<lparr>hdt_refcnt := 1\<rparr>) \<and>
    errno w' = errno w \<and> (\<exists>R d. w' = w\<lparr>w_header := R, header_default := d\<rparr>)"
proof -
  have l: "ly_get header_layout w = load_registry head (ly_off header_layout) [(a, header_v1_type)]"
      "ly_inv header_layout w []"
    using w by (simp_all add: header_layout_def header_default_ok_def default_ok_def)
  have k: "map (tmpl_key header_layout w) (map fst [(a, header_v1_type)]) = map Some [1]"
    using w(1) by (simp add: tmpl_key_def reg_key_def header_layout_def header_v1_type_def)
  obtain w' where w': "register_each (tmpl_register header_layout) [a] w = Some ([0], w')"
      "tmpl_repr header_layout w' [a]" "tmpl_key header_layout w' a = Some 1"
      "rg_types (w_header w') a = Some (header_v1_type\<lparr>hdt_refcnt := 1\<rparr>)"
      "errno w' = errno w" "\<exists>R d. w' = w\<lparr>w_header := R, header_default := d\<rparr>"
    using header_lay.load_all [OF l _ _ _ k] d by (auto simp: header_layout_def)
  have "header_default w' = a"
    using w'(2) by (simp add: tmpl_repr_def header_layout_def header_default_ok_def default_ok_def)
  moreover have "cfe_header_register a w = Some (0, w')"
    using w'(1) by (auto simp: cfe_header_register_eq split: bind_splits)
  ultimately show ?thesis using w' a by (auto simp: header_v1_init_def)
qed

subsection \<open>The life of the registry\<close>

text \<open>
  What clients do to the registry: they register type objects, deregister types that a lookup finds,
  and create and close headers, which moves the counters.
\<close>

inductive header_calls :: "world \<Rightarrow> world \<Rightarrow> bool" for w where
  start: "header_calls w w"
| register: "header_calls w v \<Longrightarrow> rg_types (w_header v) t \<noteq> None \<Longrightarrow> cfe_header_register t v = Some (r, u) \<Longrightarrow>
    header_calls w u"
| unregister: "header_calls w v \<Longrightarrow> cfe_header_find n v = Some t \<Longrightarrow> t \<noteq> NULL \<Longrightarrow>
    cfe_header_unregister t v = Some (r, u) \<Longrightarrow> header_calls w u"
| count: "header_calls w v \<Longrightarrow> rg_types (w_header v) t = Some ty \<Longrightarrow>
    header_calls w (header_type_put t (hdt_refcnt_update f ty) v)"

lemma header_key: "tmpl_key header_layout w t = map_option hdt_version (rg_types (w_header w) t)"
  by (simp add: tmpl_key_def header_key_eq header_version_def) (simp add: header_layout_def)

lemma header_register_step:
  assumes r: "tmpl_repr header_layout w xs" and t: "rg_types (w_header w) t \<noteq> None"
  shows "\<exists>r w' ys. cfe_header_register t w = Some (r, w') \<and> tmpl_repr header_layout w' ys"
proof -
  obtain k where k: "tmpl_key header_layout w t = Some k" using t by (auto simp: header_key)
  show ?thesis
  proof (cases "Some k \<in> tmpl_key header_layout w ` set xs")
    case True
    then show ?thesis using header.register_busy [OF r k] header.repr_errno r by auto
  next
    case False
    then show ?thesis using header.register_new [OF r k] by blast
  qed
qed

lemma header_find_in:
  assumes r: "tmpl_repr header_layout w xs" and f: "cfe_header_find n w = Some t" "t \<noteq> NULL"
  shows "t \<in> set xs"
proof (cases "List.find (\<lambda>t. tmpl_key header_layout w t = Some n) xs")
  case None
  then show ?thesis using header.find_key [OF r, of n] f by simp
next
  case (Some u)
  have "u = t" using Some header.find_key [OF r, of n] f by simp
  moreover have "u \<in> set xs" using Some by (auto simp: find_Some_iff)
  ultimately show ?thesis by simp
qed

lemma header_unregister_step:
  assumes r: "tmpl_repr header_layout w xs" and t: "t \<in> set xs"
  shows "\<exists>r w' ys. cfe_header_unregister t w = Some (r, w') \<and> tmpl_repr header_layout w' ys"
proof -
  obtain c where c: "tmpl_refs header_layout w t = Some c"
    using header.refs_keyof header.repr_keyed [OF r t] by auto
  show ?thesis
  proof (cases "header_default w = t \<or> cfe_atomic_get c \<noteq> 1")
    case True
    then show ?thesis using header.unregister_busy [OF r c] header.repr_errno r by auto
  next
    case False
    then show ?thesis using header.unregister_free [OF r t c] by blast
  qed
qed

lemma header_count_step:
  assumes "tmpl_repr header_layout w xs" and "rg_types (w_header w) t = Some ty"
  shows "tmpl_repr header_layout (header_type_put t (hdt_refcnt_update f ty) w) xs"
  by (rule header_lay.store_repr(1) [OF assms(1), of t ty _ f])
    (use assms(2) in \<open>simp_all add: header_layout_def header_type_put_def\<close>)

lemma header_calls_repr:
  assumes "header_calls w v" and "tmpl_repr header_layout w xs"
  shows "\<exists>ys. tmpl_repr header_layout v ys"
  using assms
proof (induction rule: header_calls.induct)
  case start
  then show ?case by blast
next
  case (register v t r u)
  then show ?case using header_register_step [of v _ t] by fastforce
next
  case (unregister v n t r u)
  then obtain ys where ys: "tmpl_repr header_layout v ys" by blast
  from header_unregister_step [OF ys header_find_in [OF ys unregister.hyps(2,3)]]
  show ?case using unregister.hyps(4) by auto
next
  case (count v t ty f)
  then show ?case using header_count_step by blast
qed

subsection \<open>The concrete environment\<close>

definition header_demo :: world where
  "header_demo = blank_world\<lparr>w_header := load_registry 80 HEADER_NEXT [(20480, header_v1_type)]\<rparr>"

definition header_up :: world where
  "header_up = snd (the (header_v1_init demo_env header_demo))"

lemma header_up:
  "header_v1_init demo_env header_demo = Some (False, header_up)"
  "tmpl_repr header_layout header_up [20480]" "header_default header_up = 20480"
  "tmpl_key header_layout header_up 20480 = Some 1"
  "rg_types (w_header header_up) 20480 = Some (header_v1_type\<lparr>hdt_refcnt := 1\<rparr>)"
  "\<exists>R d. header_up = blank_world\<lparr>w_header := R, header_default := d\<rparr>"
proof -
  have i: "w_header header_demo = load_registry 80 HEADER_NEXT [(20480, header_v1_type)]"
      "header_default header_demo = NULL" "20480 = sym demo_env ''header_v1_type''"
      "(20480 :: addr) \<noteq> NULL" "80 \<noteq> 20480 + HEADER_NEXT"
    by (simp_all add: header_demo_def blank_world_def HEADER_NEXT_def)
  obtain w' R d where w': "header_v1_init demo_env header_demo = Some (False, w')" "tmpl_repr header_layout w' [20480]"
    "header_default w' = 20480" "tmpl_key header_layout w' 20480 = Some 1"
    "rg_types (w_header w') 20480 = Some (header_v1_type\<lparr>hdt_refcnt := 1\<rparr>)"
    "w' = header_demo\<lparr>w_header := R, header_default := d\<rparr>"
    using header_v1_init_ok [OF i] by blast
  have u: "w' = header_up" using w'(1) by (simp add: header_up_def)
  show "header_v1_init demo_env header_demo = Some (False, header_up)"
    "tmpl_repr header_layout header_up [20480]" "header_default header_up = 20480"
    "tmpl_key header_layout header_up 20480 = Some 1"
    "rg_types (w_header header_up) 20480 = Some (header_v1_type\<lparr>hdt_refcnt := 1\<rparr>)"
    using w'(1-5) by (simp_all add: u)
  show "\<exists>R d. header_up = blank_world\<lparr>w_header := R, header_default := d\<rparr>"
    using w'(6) by (auto simp: u header_demo_def)
qed

lemma header_up_calloc: "e_calloc demo_libc 88 (header_type_put t ty header_up) = 131072"
proof -
  obtain R d where u: "header_up = blank_world\<lparr>w_header := R, header_default := d\<rparr>" using header_up(6) by blast
  show ?thesis
    by (simp add: u demo_calloc demo_block_def header_type_put_def fresh_def block_free_def blank_world_def)
qed

lemma header_up_parts [simp]:
  "w_headers header_up = Map.empty" "w_maps header_up = Map.empty" "w_fsize header_up = (\<lambda>_. 0)"
  "header_select CFE_HEADER_VERSION_DEFAULT header_up = Some 20480"
proof -
  obtain R d where R: "header_up = blank_world\<lparr>w_header := R, header_default := d\<rparr>"
    using header_up(6) by blast
  show "w_headers header_up = Map.empty" "w_maps header_up = Map.empty" "w_fsize header_up = (\<lambda>_. 0)"
    by (simp_all add: R blank_world_def)
  show "header_select CFE_HEADER_VERSION_DEFAULT header_up = Some 20480"
    by (simp add: header_select_def header_up(3))
qed

subsection \<open>Properties\<close>

text \<open>C15: However often header types are registered and deregistered and headers hold and drop references, the
  default type is NULL exactly when the registry is empty, and otherwise it is the registered type with
  the greatest version; it cannot be deregistered (EBUSY, nothing else changes), and registering any
  type object is a defined operation that keeps the registry well-formed.\<close>

theorem header_default_newest:
  assumes "header_calls w v" and "tmpl_repr header_layout w xs"
  shows "\<exists>ys. tmpl_repr header_layout v ys \<and>
    (if ys = [] then header_default v = NULL
     else header_default v \<in> set ys \<and>
       (\<forall>t \<in> set ys. the (header_version (w_header v) t) \<le> the (header_version (w_header v) (header_default v))) \<and>
       cfe_header_unregister (header_default v) v = Some (1, v\<lparr>errno := EBUSY\<rparr>)) \<and>
    (\<forall>t. rg_types (w_header v) t \<noteq> None \<longrightarrow>
       (\<exists>r u zs. cfe_header_register t v = Some (r, u) \<and> tmpl_repr header_layout u zs))"
proof -
  obtain ys where ys: "tmpl_repr header_layout v ys" using header_calls_repr [OF assms] by blast
  then have "header_default_ok v ys" by (simp add: tmpl_repr_def header_layout_def)
  moreover have "cfe_header_unregister (header_default v) v = Some (1, v\<lparr>errno := EBUSY\<rparr>)"
    if "header_default v \<in> set ys"
    using header.unregister_busy [OF ys] header.refs_keyof header.repr_keyed [OF ys that] by blast
  ultimately show ?thesis
    using ys header_register_step [OF ys]
    by (intro exI [of _ ys]) (auto simp: header_default_ok_def default_ok_def)
qed

theorem header_default_newest_witness:
  "\<exists>u ys. cfe_header_register 20480 header_up = Some (1, u) \<and> tmpl_repr header_layout u ys \<and>
    ys \<noteq> [] \<and> header_default u \<in> set ys"
proof -
  have u: "cfe_header_register 20480 header_up = Some (1, header_up\<lparr>errno := EBUSY\<rparr>)"
    using header.register_busy [OF header_up(2,4)] header_up(4) by simp
  have c: "header_calls header_up (header_up\<lparr>errno := EBUSY\<rparr>)"
    by (rule header_calls.register [OF header_calls.start _ u]) (simp add: header_up(5))
  obtain ys where ys: "tmpl_repr header_layout (header_up\<lparr>errno := EBUSY\<rparr>) ys"
      "if ys = [] then header_default (header_up\<lparr>errno := EBUSY\<rparr>) = NULL
       else header_default (header_up\<lparr>errno := EBUSY\<rparr>) \<in> set ys"
    using header_default_newest [OF c header_up(2)] by (auto split: if_splits)
  then have "ys \<noteq> []" using header_up(3) by (auto split: if_splits)
  then show ?thesis using u ys by auto
qed

text \<open>C34: Header sizes, on a machine whose page size is a power of two: up to the last page of the 32-bit range
  the normalised size is a multiple of the page size that holds the requested size with less than a page
  to spare (one page for a request of 0); beyond it the sum leaves 32 bits and the result is 0.\<close>

theorem normalize_headersize_pages:
  assumes "e_pagesize (libc E) = 2 ^ k" and "k < 32"
  shows "if unat sz \<le> 2 ^ 32 - 2 ^ k
    then 2 ^ k dvd unat (normalize_headersize E sz) \<and> unat sz \<le> unat (normalize_headersize E sz) \<and>
      0 < unat (normalize_headersize E sz) \<and>
      unat (normalize_headersize E sz) < max 1 (unat sz) + 2 ^ k
    else normalize_headersize E sz = 0"
proof (cases "unat sz \<le> 2 ^ 32 - 2 ^ k")
  case True
  note l = normalize_headersize_least [OF assms True]
  have "0 < unat (normalize_headersize E sz)"
  proof (cases "sz = 0")
    case True
    have "(2 :: nat) ^ k < 2 ^ 32" using assms(2) by (intro power_strict_increasing) auto
    then show ?thesis using True normalize_headersize_unat [OF assms, of sz] by simp
  next
    case False
    then have "0 < unat sz" by (simp add: unat_gt_0)
    then show ?thesis using l(2) by linarith
  qed
  then show ?thesis using True l by simp
next
  case False
  then show ?thesis using normalize_headersize_overflow [OF assms, of sz] by simp
qed

theorem normalize_headersize_pages_witness:
  "normalize_headersize demo_env 4097 = 8192 \<and> normalize_headersize demo_env 4294967295 = 0"
proof -
  have p: "e_pagesize (libc demo_env) = 2 ^ 12" by (simp add: demo_libc_def)
  have "normalize_headersize demo_env 4294967295 = 0"
    using normalize_headersize_pages [OF p, of 4294967295] by simp
  then show ?thesis by (simp add: normalize_headersize_def demo_libc_def)
qed

text \<open>C22: When the file cannot be given the space of the header, creating a version 1 header fails: the result is
  NULL, errno is the error of the allocation, and the header object and the reference to the type that
  were taken on the way are given back, so that nothing else has changed.\<close>

theorem header_create_nospace:
  assumes r: "tmpl_repr header_layout w xs" and t: "header_select version w = Some t" "t \<noteq> NULL"
    and ty: "rg_types (w_header w) t = Some ty" "hdt_alloc ty = Some Fn_cfe_header_v1_alloc"
    and n: "n = ucast (normalize_headersize E (ucast sz))"
    and a: "calloc_ok E" "e_calloc (libc E) SIZEOF_HEADER_V1 (header_inc t ty w) = a" "a \<noteq> NULL"
    and f: "fst (cfe_fallocate E fd 0 n (new_header a (header_inc t ty w))) = e" "e \<noteq> 0"
  shows "cfe_header_create E version fd sz w = Some (NULL, w\<lparr>errno := e\<rparr>)"
proof -
  have "cfe_header_v1_alloc E fd n (header_inc t ty w) = Some (NULL, (header_inc t ty w)\<lparr>errno := e\<rparr>)"
    by (rule cfe_header_v1_alloc_nospace [OF a(2,3) _ f]) (simp add: header_type_put_def header_calloc_free [OF a])
  then show ?thesis
    using ty(1) by (simp add: cfe_header_create_eq [OF r t ty] n header_type_put_def reg_store_def fun_upd_idem)
qed

theorem header_create_nospace_witness:
  "cfe_header_create nospace_env CFE_HEADER_VERSION_DEFAULT 3 100 header_up =
    Some (NULL, header_up\<lparr>errno := ENOSPC\<rparr>)"
  by (rule header_create_nospace [OF header_up(2) header_up_parts(4) _ header_up(5) _ refl, where a = 131072])
    (simp_all add: demo_calloc_ok header_up_calloc header_v1_type_def SIZEOF_HEADER_V1_def,
      simp_all add: cfe_fallocate_def posix_fallocate_def demo_libc_def ENOSPC_def)

text \<open>C23: When the kernel grants no mapping, creating a version 1 header fails and gives back the object and the
  reference, but the file keeps the space that was allocated in it, and the error path unmaps MAP_FAILED:
  errno is the error of that munmap, not the reason of the failure.\<close>

theorem header_create_nomap:
  assumes r: "tmpl_repr header_layout w xs" and t: "header_select version w = Some t" "t \<noteq> NULL"
    and ty: "rg_types (w_header w) t = Some ty" "hdt_alloc ty = Some Fn_cfe_header_v1_alloc"
    and n: "n = ucast (normalize_headersize E (ucast sz))"
    and a: "calloc_ok E" "e_calloc (libc E) SIZEOF_HEADER_V1 (header_inc t ty w) = a" "a \<noteq> NULL"
    and f: "fst (cfe_fallocate E fd 0 n (new_header a (header_inc t ty w))) = 0"
    and m: "e_mmap (libc E) n fd (header_room E fd n a (header_inc t ty w)) = Inr e" "\<And>v. e_munmap (libc E) MAP_FAILED n v = e'" "e' \<noteq> 0"
  shows "cfe_header_create E version fd sz w =
    Some (NULL, w\<lparr>w_fsize := fsize_after E fd n (w_fsize w), errno := e'\<rparr>)"
proof -
  have "cfe_header_v1_alloc E fd n (header_inc t ty w) = Some (NULL, (header_inc t ty w)
      \<lparr>w_fsize := fsize_after E fd n (w_fsize (header_inc t ty w)), errno := e'\<rparr>)"
    by (rule cfe_header_v1_alloc_nomap [OF a(2,3) _ f m]) (simp add: header_type_put_def header_calloc_free [OF a])
  then show ?thesis
    using ty(1) by (simp add: cfe_header_create_eq [OF r t ty] n header_type_put_def reg_store_def fun_upd_idem)
qed

theorem header_create_nomap_witness:
  "cfe_header_create nomap_env CFE_HEADER_VERSION_DEFAULT 3 100 header_up =
    Some (NULL, header_up\<lparr>w_fsize := (\<lambda>_. 0)(3 := 4096), errno := EINVAL\<rparr>)"
proof -
  have n: "ucast (normalize_headersize nomap_env (ucast (100 :: size_t))) = (4096 :: size_t)"
    by (simp add: normalize_headersize_def demo_libc_def)
  have "cfe_header_create nomap_env CFE_HEADER_VERSION_DEFAULT 3 100 header_up =
    Some (NULL, header_up\<lparr>w_fsize := fsize_after nomap_env 3 4096 (w_fsize header_up), errno := EINVAL\<rparr>)"
    by (rule header_create_nomap [OF header_up(2) header_up_parts(4) _ header_up(5) _ n [symmetric], where a = 131072])
      (simp_all add: demo_calloc_ok header_up_calloc header_v1_type_def SIZEOF_HEADER_V1_def,
        simp_all add: cfe_fallocate_def posix_fallocate_def demo_libc_def EINVAL_def MAP_FAILED_def)
  then show ?thesis by (simp add: fsize_after_def demo_libc_def)
qed

end
