(* ===== verification/Cfe_Filewriter.thy ===== *)
theory Cfe_Filewriter
  imports Cfe_Cipher Cfe_Header
begin

text \<open>
  \<^verbatim>\<open>src/fs/filewriter.c\<close> and \<^verbatim>\<open>src/fs/filewriter-v1.c\<close>: the registry of file writers with its
  default, the creation of a writer for a cipher, and the version 1 writer. The lemmas show the
  registry contract with the default, and that every failure of the creation gives back the two
  references it took.
\<close>

subsection \<open>The registry\<close>

text \<open>The offset of \<open>next\<close> in \<open>struct cfe_filewriter_type\<close>: the last field, after \<open>alloc\<close>.\<close>

definition WRITER_NEXT :: addr where "WRITER_NEXT = 24"

definition CFE_FILEWRITER_VERSION_DEFAULT :: int where "CFE_FILEWRITER_VERSION_DEFAULT = - 1"

abbreviation on_writer ::
  "(cfe_filewriter_type registry \<Rightarrow> cfe_filewriter_type registry option) \<Rightarrow> world \<Rightarrow> world option" where
  "on_writer f w \<equiv> map_option (\<lambda>R. w\<lparr>w_writer := R\<rparr>) (f (w_writer w))"

definition cfe_filewriter_find :: "uint32 \<Rightarrow> world \<Rightarrow> addr option" where
  "cfe_filewriter_find version w = do {
     r \<leftarrow> list_for_each
       (\<lambda>pos. let tmp = list_entry pos WRITER_NEXT in do {
          ty \<leftarrow> rg_types (w_writer w) tmp;
          Some (if fwt_version ty = version then Some tmp else None)
        })
       (rg_nodes (w_writer w)) (rg_head (w_writer w));
     Some (case r of Some tmp \<Rightarrow> tmp | None \<Rightarrow> NULL)
   }"

definition writer_set_default :: "addr \<Rightarrow> world \<Rightarrow> world option" where
  "writer_set_default type w =
     (if writer_default w = NULL then Some (w\<lparr>writer_default := type\<rparr>)
      else do {
        d \<leftarrow> rg_types (w_writer w) (writer_default w);
        ty \<leftarrow> rg_types (w_writer w) type;
        Some (if fwt_version d < fwt_version ty then w\<lparr>writer_default := type\<rparr> else w)
      })"

definition cfe_filewriter_register :: "addr \<Rightarrow> world \<Rightarrow> (int \<times> world) option" where
  "cfe_filewriter_register type w = do {
     ty \<leftarrow> rg_types (w_writer w) type;
     w \<leftarrow> on_writer reg_wrlock w;
     tmp \<leftarrow> cfe_filewriter_find (fwt_version ty) w;
     (ret, w) \<leftarrow>
       (if tmp \<noteq> NULL then Some (1, w\<lparr>errno := EBUSY\<rparr>)
        else do {
          w \<leftarrow> on_writer (reg_store type (fwt_refcnt_update (\<lambda>v. cfe_atomic_set v 1))) w;
          w \<leftarrow> on_writer (reg_list (list_add_tail (type + WRITER_NEXT) (rg_head (w_writer w)))) w;
          w \<leftarrow> writer_set_default type w;
          Some (0, w)
        });
     w \<leftarrow> on_writer reg_unlock w;
     Some (ret, w)
   }"

definition cfe_filewriter_unregister :: "addr \<Rightarrow> world \<Rightarrow> (int \<times> world) option" where
  "cfe_filewriter_unregister type w = do {
     w \<leftarrow> on_writer reg_wrlock w;
     (ret, w) \<leftarrow>
       (if writer_default w = type then Some (1, w\<lparr>errno := EBUSY\<rparr>)
        else do {
          ty \<leftarrow> rg_types (w_writer w) type;
          (if cfe_atomic_get (fwt_refcnt ty) \<noteq> 1 then Some (1, w\<lparr>errno := EBUSY\<rparr>)
           else do {
             w \<leftarrow> on_writer (reg_list (list_del_init (type + WRITER_NEXT))) w;
             Some (0, w)
           })
        });
     w \<leftarrow> on_writer reg_unlock w;
     Some (ret, w)
   }"

subsection \<open>Version 1 writers\<close>

text \<open>\<open>struct cfe_filewriter_v1\<close>: the block size (padded), a lock of 56 bytes and five words.\<close>

definition SIZEOF_FILEWRITER_V1 :: size_t where "SIZEOF_FILEWRITER_V1 = 104"

definition V1_FILEWRITER :: "addr \<Rightarrow> addr" where "V1_FILEWRITER writer = writer - 0"

definition cfe_filewriter_v1_destroy :: "addr \<Rightarrow> world \<Rightarrow> world option" where
  "cfe_filewriter_v1_destroy writer w =
     (if writer = NULL then Some w
      else do {
        fw \<leftarrow> w_writers w writer;
        l \<leftarrow> rwlock_destroy (fw_lock fw);
        let w = w\<lparr>w_writers := (w_writers w)(writer \<mapsto> fw\<lparr>fw_lock := l\<rparr>)\<rparr>;
        b \<leftarrow> cfe_free_secure (fw_key fw) (w_blocks w);
        Some (w\<lparr>w_blocks := b\<rparr>)
      })"

definition cfe_filewriter_v1_free :: "addr \<Rightarrow> world \<Rightarrow> world option" where
  "cfe_filewriter_v1_free writer w = do {
     w \<leftarrow> cfe_filewriter_v1_destroy writer w;
     h \<leftarrow> cfe_free writer (w_writers w);
     Some (w\<lparr>w_writers := h\<rparr>)
   }"

definition cfe_filewriter_free :: "addr \<Rightarrow> world \<Rightarrow> world option" where
  "cfe_filewriter_free writer w =
     (if writer = NULL then Some w else cfe_filewriter_v1_free (V1_FILEWRITER writer) w)"

definition cfe_filewriter_v1_init :: "addr \<Rightarrow> world \<Rightarrow> (int \<times> world) option" where
  "cfe_filewriter_v1_init writer w = do {
     fw \<leftarrow> w_writers w writer;
     Some (0, w\<lparr>w_writers := (w_writers w)(writer \<mapsto> fw\<lparr>fw_lock := Some Unlocked\<rparr>)\<rparr>)
   }"

definition zero_writer :: cfe_filewriter where
  "zero_writer = \<lparr>fw_blocksize = 0, fw_lock = None, fw_key = NULL, fw_keysize = 0, fw_cipher = NULL,
     fw_type = NULL, fw_ops = None\<rparr>"

definition cfe_filewriter_v1_new :: "env \<Rightarrow> world \<Rightarrow> (addr \<times> world) option" where
  "cfe_filewriter_v1_new E w = do {
     let (writer, w) = cfe_calloc E 1 SIZEOF_FILEWRITER_V1 w;
     if writer = NULL then Some (NULL, w)
     else do {
       (r, w) \<leftarrow> cfe_filewriter_v1_init writer (w\<lparr>w_writers := (w_writers w)(writer \<mapsto> zero_writer)\<rparr>);
       if r \<noteq> 0 then do {
         w \<leftarrow> cfe_filewriter_v1_free writer w;
         Some (NULL, w)
       }
       else Some (writer, w)
     }
   }"

text \<open>The cipher and the block size are not stored.\<close>

definition cfe_filewriter_v1_alloc :: "env \<Rightarrow> addr \<Rightarrow> uint32 \<Rightarrow> world \<Rightarrow> (addr \<times> world) option" where
  "cfe_filewriter_v1_alloc E cipher blocksize w = do {
     (writer, w) \<leftarrow> cfe_filewriter_v1_new E w;
     if writer = NULL then Some (NULL, w)
     else do {
       fw \<leftarrow> w_writers w writer;
       Some (writer, w\<lparr>w_writers := (w_writers w)(writer \<mapsto> fw\<lparr>fw_ops := Some Cfe_filewriter_v1_ops\<rparr>)\<rparr>)
     }
   }"

definition writer_v1_type :: cfe_filewriter_type where
  "writer_v1_type = \<lparr>fwt_version = 1, fwt_refcnt = 0, fwt_alloc = Some Fn_cfe_filewriter_v1_alloc\<rparr>"

definition writer_v1_init :: "env \<Rightarrow> world \<Rightarrow> (bool \<times> world) option" where
  "writer_v1_init E w = do {
     (r, w) \<leftarrow> cfe_filewriter_register (sym E ''writer_v1_type'') w;
     Some (r \<noteq> 0, w)
   }"

subsection \<open>Creating a writer\<close>

fun call_writer_alloc :: "env \<Rightarrow> writer_alloc_fn \<Rightarrow> addr \<Rightarrow> uint32 \<Rightarrow> world \<Rightarrow> (addr \<times> world) option" where
  "call_writer_alloc E Fn_cfe_filewriter_v1_alloc cipher bs w = cfe_filewriter_v1_alloc E cipher bs w"
| "call_writer_alloc E (Ext_writer_alloc n) cipher bs w = e_ext_writer_alloc (app E) n cipher bs w"

definition cfe_filewriter_create ::
  "env \<Rightarrow> int \<Rightarrow> string \<Rightarrow> uint32 \<Rightarrow> world \<Rightarrow> (addr \<times> world) option" where
  "cfe_filewriter_create E version cipher blocksize w = do {
     w \<leftarrow> on_writer reg_rdlock w;
     type \<leftarrow> (if version = CFE_FILEWRITER_VERSION_DEFAULT then Some (writer_default w)
             else cfe_filewriter_find (of_int version) w);
     w \<leftarrow> (if type \<noteq> NULL then on_writer (reg_store type (fwt_refcnt_update cfe_atomic_inc)) w
          else Some w);
     w \<leftarrow> on_writer reg_unlock w;
     if type = NULL then Some (NULL, w\<lparr>errno := ENOSYS\<rparr>)
     else do {
       (ctype, w) \<leftarrow> cfe_cipher_ref cipher w;
       if ctype = NULL then do {
         w \<leftarrow> on_writer (reg_store type (fwt_refcnt_update cfe_atomic_dec)) w;
         Some (NULL, w)
       }
       else do {
         ty \<leftarrow> rg_types (w_writer w) type;
         f \<leftarrow> fwt_alloc ty;
         (writer, w) \<leftarrow> call_writer_alloc E f ctype blocksize w;
         if writer = NULL then do {
           w \<leftarrow> on_writer (reg_store type (fwt_refcnt_update cfe_atomic_dec)) w;
           w \<leftarrow> cfe_cipher_put ctype w;
           Some (NULL, w)
         }
         else do {
           fw \<leftarrow> w_writers w writer;
           Some (writer, w\<lparr>w_writers := (w_writers w)(writer \<mapsto> fw\<lparr>fw_type := type\<rparr>)\<rparr>)
         }
       }
     }
   }"

subsection \<open>The contract\<close>

definition writer_version :: "cfe_filewriter_type registry \<Rightarrow> addr \<Rightarrow> uint32 option" where
  "writer_version R t = map_option fwt_version (rg_types R t)"

definition writer_default_ok :: "world \<Rightarrow> addr list \<Rightarrow> bool" where
  "writer_default_ok w = default_ok (writer_version (w_writer w)) (writer_default w)"

definition writer_layout :: "(cfe_filewriter_type, uint32, uint32) layout" where
  "writer_layout =
     \<lparr>ly_get = w_writer, ly_put = (\<lambda>R w. w\<lparr>w_writer := R\<rparr>), ly_off = WRITER_NEXT,
      ly_valid = (\<lambda>_. True), ly_name = (\<lambda>ty. Some (fwt_version ty)), ly_canon = (\<lambda>n. n),
      ly_match = (\<lambda>n ty. Some (fwt_version ty = n)),
      ly_refcnt = fwt_refcnt, ly_refcnt_upd = fwt_refcnt_update,
      ly_post = writer_set_default, ly_pinned = (\<lambda>w t. writer_default w = t),
      ly_inv = writer_default_ok,
      ly_frame = (\<lambda>w w'. \<exists>R d. w' = w\<lparr>w_writer := R, writer_default := d\<rparr>)\<rparr>"

lemma writer_key_eq: "reg_key writer_layout R = writer_version R"
  by (auto simp: fun_eq_iff reg_key_def writer_version_def writer_layout_def split: option.splits)

lemma writer_frames:
  "\<exists>R d'. w\<lparr>writer_default := d\<rparr> = w\<lparr>w_writer := R, writer_default := d'\<rparr>"
  "\<exists>R' d. w\<lparr>w_writer := R\<rparr> = w\<lparr>w_writer := R', writer_default := d\<rparr>"
  "\<exists>R' d'. w\<lparr>w_writer := R, writer_default := d\<rparr> = w\<lparr>w_writer := R', writer_default := d'\<rparr>"
  by (rule exI [of _ "w_writer w"], rule exI [of _ d], simp)
     (rule exI [of _ R], rule exI [of _ "writer_default w"], simp, blast)

lemma writer_set_default_ok:
  assumes inv: "writer_default_ok w xs" and ok: "reg_ok writer_layout (w_writer w) (xs @ [t])"
  shows "\<exists>d. writer_set_default t w = Some (w\<lparr>writer_default := d\<rparr>) \<and>
    writer_default_ok (w\<lparr>writer_default := d\<rparr>) (xs @ [t])"
proof -
  have dm: "\<forall>u \<in> set (xs @ [t]). \<exists>ty. rg_types (w_writer w) u = Some ty"
    using ok by (auto simp: reg_ok_def writer_key_eq writer_version_def)
  have nn: "NULL \<notin> set (xs @ [t])" using reg_ok_nonnull [OF ok] .
  show ?thesis
  proof (cases "writer_default w = NULL")
    case True
    then show ?thesis
      using default_ok_first [of "writer_version (w_writer w)" xs t] inv nn
      by (intro exI [of _ t]) (simp add: writer_set_default_def writer_default_ok_def)
  next
    case False
    let ?d = "writer_default w"
    have "xs \<noteq> []" using inv False by (auto simp: writer_default_ok_def default_ok_def)
    then have "?d \<in> set xs" using inv by (simp add: writer_default_ok_def default_ok_def)
    then obtain dt ty where e: "rg_types (w_writer w) ?d = Some dt" "rg_types (w_writer w) t = Some ty"
      using dm by auto
    then show ?thesis
      using default_ok_snoc [of "writer_version (w_writer w)" ?d xs t] inv False
      by (intro exI [of _ "if fwt_version dt < fwt_version ty then t else ?d"])
         (simp add: writer_set_default_def writer_default_ok_def writer_version_def)
  qed
qed

interpretation writer_lay: type_layout writer_layout
proof (unfold_locales, goal_cases)
  case (16 R w xs)
  then show ?case
    by (simp add: writer_key_eq) (simp add: writer_layout_def writer_default_ok_def)
next
  case (17 w xs t)
  then show ?case
    by (simp add: writer_layout_def writer_default_ok_def default_ok_remove1)
next
  case (18 w xs t)
  then obtain d where "writer_set_default t w = Some (w\<lparr>writer_default := d\<rparr>)"
      "writer_default_ok (w\<lparr>writer_default := d\<rparr>) (xs @ [t])"
    using writer_set_default_ok [of w xs t] by (auto simp: writer_layout_def)
  then show ?case using writer_frames(1) [of d w] by (simp add: writer_layout_def)
qed (auto simp: writer_layout_def writer_frames writer_default_ok_def)

lemma cfe_filewriter_find_eq: "cfe_filewriter_find = tmpl_find writer_layout"
  by (simp add: fun_eq_iff cfe_filewriter_find_def tmpl_find_def writer_layout_def)

lemma cfe_filewriter_register_eq: "cfe_filewriter_register = tmpl_register writer_layout"
  unfolding fun_eq_iff cfe_filewriter_register_def tmpl_register_def cfe_filewriter_find_eq on_reg_def
  by (simp add: writer_layout_def cong: if_cong)

lemma cfe_filewriter_unregister_eq: "cfe_filewriter_unregister = tmpl_unregister writer_layout"
  unfolding fun_eq_iff cfe_filewriter_unregister_def tmpl_unregister_def on_reg_def
  by (simp add: writer_layout_def cong: if_cong)

interpretation writer: type_registry "tmpl_repr writer_layout" "tmpl_key writer_layout"
  "tmpl_refs writer_layout" "tmpl_body writer_layout" "\<lambda>w t. writer_default w = t"
  "\<lambda>w w'. \<exists>R d. w' = w\<lparr>w_writer := R, writer_default := d\<rparr>" "\<lambda>n. n" cfe_filewriter_find
  cfe_filewriter_register cfe_filewriter_unregister "tmpl_acquire writer_layout" "tmpl_release writer_layout"
  using writer_lay.reg.type_registry_axioms
  unfolding cfe_filewriter_find_eq cfe_filewriter_register_eq cfe_filewriter_unregister_eq
  by (simp add: writer_layout_def)

subsection \<open>Selecting a type\<close>

definition writer_select :: "int \<Rightarrow> world \<Rightarrow> addr option" where
  "writer_select version w =
     (if version = CFE_FILEWRITER_VERSION_DEFAULT then Some (writer_default w)
      else cfe_filewriter_find (of_int version) w)"

definition writer_type_put :: "addr \<Rightarrow> cfe_filewriter_type \<Rightarrow> world \<Rightarrow> world" where
  "writer_type_put t ty w =
     w\<lparr>w_writer := (w_writer w)\<lparr>rg_types := (rg_types (w_writer w))(t \<mapsto> ty)\<rparr>\<rparr>"

abbreviation writer_inc :: "addr \<Rightarrow> cfe_filewriter_type \<Rightarrow> world \<Rightarrow> world" where
  "writer_inc t ty \<equiv> writer_type_put t (fwt_refcnt_update cfe_atomic_inc ty)"

lemma writer_inc_repr:
  assumes "tmpl_repr writer_layout w xs" and "rg_types (w_writer w) t = Some ty"
  shows "tmpl_repr writer_layout (writer_inc t ty w) xs"
    and "tmpl_refs writer_layout (writer_inc t ty w) = (tmpl_refs writer_layout w)(t \<mapsto> fwt_refcnt ty + 1)"
proof -
  have ty: "rg_types (ly_get writer_layout w) t = Some ty"
    and e: "writer_inc t ty w = ly_put writer_layout ((ly_get writer_layout w)\<lparr>rg_types :=
      (rg_types (ly_get writer_layout w))(t \<mapsto> ly_refcnt_upd writer_layout cfe_atomic_inc ty)\<rparr>) w"
    using assms(2) by (simp_all add: writer_layout_def writer_type_put_def)
  show "tmpl_repr writer_layout (writer_inc t ty w) xs"
    by (rule writer_lay.store_repr(1) [OF assms(1) ty e])
  show "tmpl_refs writer_layout (writer_inc t ty w) = (tmpl_refs writer_layout w)(t \<mapsto> fwt_refcnt ty + 1)"
    using writer_lay.store_repr(3) [OF assms(1) ty e] by (simp add: writer_layout_def)
qed

lemma writer_select_lock [simp]:
  "writer_select version (w\<lparr>w_writer := (w_writer w)\<lparr>rg_lock := l\<rparr>\<rparr>) = writer_select version w"
  by (simp add: writer_select_def cfe_filewriter_find_def)

lemma writer_dec_inc:
  assumes "rg_types (w_writer w) t = Some ty"
  shows "on_writer (reg_store t (fwt_refcnt_update cfe_atomic_dec)) (writer_inc t ty w) = Some w"
  using assms by (simp add: writer_type_put_def reg_store_def fun_upd_idem)

lemma cfe_filewriter_create_eq:
  assumes r: "tmpl_repr writer_layout w xs" and t: "writer_select version w = Some t" "t \<noteq> NULL"
    and ty: "rg_types (w_writer w) t = Some ty"
  shows "cfe_filewriter_create E version cipher bs w = do {
     (ctype, w) \<leftarrow> cfe_cipher_ref cipher (writer_inc t ty w);
     if ctype = NULL then do {
       w \<leftarrow> on_writer (reg_store t (fwt_refcnt_update cfe_atomic_dec)) w;
       Some (NULL, w)
     }
     else do {
       ty \<leftarrow> rg_types (w_writer w) t;
       f \<leftarrow> fwt_alloc ty;
       (writer, w) \<leftarrow> call_writer_alloc E f ctype bs w;
       if writer = NULL then do {
         w \<leftarrow> on_writer (reg_store t (fwt_refcnt_update cfe_atomic_dec)) w;
         w \<leftarrow> cfe_cipher_put ctype w;
         Some (NULL, w)
       }
       else do {
         fw \<leftarrow> w_writers w writer;
         Some (writer, w\<lparr>w_writers := (w_writers w)(writer \<mapsto> fw\<lparr>fw_type := t\<rparr>)\<rparr>)
       }
     }
   }"
proof -
  have l: "rg_lock (w_writer w) = Unlocked" using r by (simp add: tmpl_repr_def writer_layout_def)
  show ?thesis
    unfolding cfe_filewriter_create_def writer_select_def [symmetric]
    using l t ty by (simp add: reg_lock_steps reg_store_def writer_type_put_def lock_restore_types)
qed

lemma cfe_filewriter_create_missing:
  assumes r: "tmpl_repr writer_layout w xs" and t: "writer_select version w = Some NULL"
  shows "cfe_filewriter_create E version cipher bs w = Some (NULL, w\<lparr>errno := ENOSYS\<rparr>)"
proof -
  have l: "rg_lock (w_writer w) = Unlocked" using r by (simp add: tmpl_repr_def writer_layout_def)
  have "w\<lparr>w_writer := (w_writer w)\<lparr>rg_lock := Unlocked\<rparr>\<rparr> = w" using l by simp
  then show ?thesis
    unfolding cfe_filewriter_create_def writer_select_def [symmetric]
    using l t by (simp add: reg_lock_steps)
qed

text \<open>The cipher registry does not depend on the registry of writers.\<close>

lemma cipher_repr_writer [simp]:
  "tmpl_repr cipher_layout (writer_type_put t ty w) ys = tmpl_repr cipher_layout w ys"
  "tmpl_key cipher_layout (writer_type_put t ty w) = tmpl_key cipher_layout w"
  "tmpl_refs cipher_layout (writer_type_put t ty w) = tmpl_refs cipher_layout w"
  "w_cipher (writer_type_put t ty w) = w_cipher w"
  by (simp_all add: tmpl_repr_def tmpl_key_def tmpl_refs_def fun_eq_iff cipher_layout_def writer_type_put_def)

text \<open>An unknown cipher: NULL, and the world as it was, \<open>errno\<close> included.\<close>

lemma cfe_filewriter_create_nocipher:
  assumes r: "tmpl_repr writer_layout w xs" and t: "writer_select version w = Some t" "t \<noteq> NULL"
    and ty: "rg_types (w_writer w) t = Some ty"
    and c: "tmpl_repr cipher_layout w ys" "Some (cstr cipher) \<notin> tmpl_key cipher_layout w ` set ys"
  shows "cfe_filewriter_create E version cipher bs w = Some (NULL, w)"
proof -
  have "cfe_cipher_ref cipher (writer_inc t ty w) = Some (NULL, writer_inc t ty w)"
    by (rule cipher.acquire_missing [of _ ys]) (use c in simp_all)
  then show ?thesis by (simp add: cfe_filewriter_create_eq [OF r t ty] writer_dec_inc [OF ty])
qed

subsection \<open>The life of a version 1 writer\<close>

lemma cfe_filewriter_v1_alloc_eq:
  "cfe_filewriter_v1_alloc E cipher bs w =
    (let a = e_calloc (libc E) SIZEOF_FILEWRITER_V1 w
     in if a = NULL then Some (NULL, w\<lparr>errno := ENOMEM\<rparr>)
        else Some (a, w\<lparr>w_writers := (w_writers w)(a \<mapsto>
          zero_writer\<lparr>fw_lock := Some Unlocked, fw_ops := Some Cfe_filewriter_v1_ops\<rparr>)\<rparr>))"
  by (simp add: cfe_filewriter_v1_alloc_def cfe_filewriter_v1_new_def calloc_1 cfe_filewriter_v1_init_def
      Let_def)

text \<open>Without memory both references are given back.\<close>

lemma cfe_filewriter_create_oom:
  assumes r: "tmpl_repr writer_layout w xs" and t: "writer_select version w = Some t" "t \<noteq> NULL"
    and ty: "rg_types (w_writer w) t = Some ty" "fwt_alloc ty = Some Fn_cfe_filewriter_v1_alloc"
    and c: "tmpl_repr cipher_layout w ys" "c \<in> set ys" "tmpl_key cipher_layout w c = Some (cstr cipher)"
    and a: "\<And>v. e_calloc (libc E) SIZEOF_FILEWRITER_V1 v = NULL"
  shows "cfe_filewriter_create E version cipher bs w = Some (NULL, w\<lparr>errno := ENOMEM\<rparr>)"
proof -
  obtain cty where cty: "rg_types (w_cipher w) c = Some cty"
    using c(3) by (auto simp: tmpl_key_def reg_key_def cipher_layout_def split: option.splits)
  obtain v where v: "cfe_cipher_ref cipher (writer_inc t ty w) = Some (c, v)" "c \<noteq> NULL"
      "\<exists>R. v = (writer_inc t ty w)\<lparr>w_cipher := R\<rparr>" "cfe_cipher_put c v = Some (writer_inc t ty w)"
    using cipher_acquired [of "writer_inc t ty w" ys c cipher cty] c cty by auto
  obtain R where R: "v = (writer_inc t ty w)\<lparr>w_cipher := R\<rparr>" using v(3) by blast
  then have types: "rg_types (w_writer v) t = Some (fwt_refcnt_update cfe_atomic_inc ty)"
    by (simp add: writer_type_put_def)
  have dec: "on_writer (reg_store t (fwt_refcnt_update cfe_atomic_dec)) (v\<lparr>errno := ENOMEM\<rparr>) =
      Some (w\<lparr>w_cipher := R, errno := ENOMEM\<rparr>)"
    using R ty(1) by (simp add: writer_type_put_def reg_store_def fun_upd_idem)
  have put: "cfe_cipher_put c (w\<lparr>w_cipher := R, errno := ENOMEM\<rparr>) = Some (w\<lparr>errno := ENOMEM\<rparr>)"
  proof -
    obtain cv where cv: "rg_types R c = Some cv"
        "writer_inc t ty w = (writer_inc t ty w)\<lparr>w_cipher := R\<lparr>rg_types := (rg_types R)(c \<mapsto>
          ct_refcnt_update cfe_atomic_dec cv)\<rparr>\<rparr>"
      using v(4) R by (auto simp: cipher_put_iff [OF v(2)])
    have "w_cipher w = R\<lparr>rg_types := (rg_types R)(c \<mapsto> ct_refcnt_update cfe_atomic_dec cv)\<rparr>"
      using arg_cong [OF cv(2), of w_cipher] by simp
    then show ?thesis using cv(1) by (simp add: cipher_put_iff [OF v(2)])
  qed
  show ?thesis
    using v(1,2) types ty(2) a dec put
    by (auto simp: cfe_filewriter_create_eq [OF r t ty(1)] cfe_filewriter_v1_alloc_eq)
qed

text \<open>With memory the writer holds both references; nothing else changes.\<close>

lemma cfe_filewriter_create_ok:
  assumes r: "tmpl_repr writer_layout w xs" and t: "writer_select version w = Some t" "t \<noteq> NULL"
    and ty: "rg_types (w_writer w) t = Some ty" "fwt_alloc ty = Some Fn_cfe_filewriter_v1_alloc"
    and c: "tmpl_repr cipher_layout w ys" "c \<in> set ys" "tmpl_key cipher_layout w c = Some (cstr cipher)"
      "rg_types (w_cipher w) c = Some cty"
    and a: "e_calloc (libc E) SIZEOF_FILEWRITER_V1 (cipher_inc c cty (writer_inc t ty w)) = a" "a \<noteq> NULL"
  shows "\<exists>w' R. cfe_filewriter_create E version cipher bs w = Some (a, w') \<and>
    w' = (writer_inc t ty w)\<lparr>w_cipher := R, w_writers := (w_writers w)(a \<mapsto>
      zero_writer\<lparr>fw_lock := Some Unlocked, fw_ops := Some Cfe_filewriter_v1_ops, fw_type := t\<rparr>)\<rparr> \<and>
    tmpl_repr writer_layout w' xs \<and> tmpl_repr cipher_layout w' ys \<and>
    tmpl_refs writer_layout w' = (tmpl_refs writer_layout w)(t \<mapsto> fwt_refcnt ty + 1) \<and>
    tmpl_refs cipher_layout w' = (tmpl_refs cipher_layout w)(c \<mapsto> ct_refcnt cty + 1)"
proof -
  let ?fw = "zero_writer\<lparr>fw_lock := Some Unlocked, fw_ops := Some Cfe_filewriter_v1_ops, fw_type := t\<rparr>"
  obtain v where v: "cfe_cipher_ref cipher (writer_inc t ty w) = Some (c, v)" "c \<noteq> NULL"
      "\<exists>R. v = (writer_inc t ty w)\<lparr>w_cipher := R\<rparr>" "tmpl_repr cipher_layout v ys"
      "tmpl_refs cipher_layout v = (tmpl_refs cipher_layout w)(c \<mapsto> ct_refcnt cty + 1)"
    using cipher_acquired [of "writer_inc t ty w" ys c cipher cty] c by auto
  have vi: "v = cipher_inc c cty (writer_inc t ty w)"
    using cipher_ref_inc [of "writer_inc t ty w" ys c cipher cty] c v(1) by simp
  then have a1: "e_calloc (libc E) SIZEOF_FILEWRITER_V1 v = a" using a(1) by simp
  obtain R where R: "v = (writer_inc t ty w)\<lparr>w_cipher := R\<rparr>" using v(3) by blast
  then have types: "rg_types (w_writer v) t = Some (fwt_refcnt_update cfe_atomic_inc ty)"
      and ws: "w_writers v = w_writers w"
    by (simp_all add: writer_type_put_def)
  let ?w' = "v\<lparr>w_writers := (w_writers w)(a \<mapsto> ?fw)\<rparr>"
  have "cfe_filewriter_create E version cipher bs w = Some (a, ?w')"
    using v(1,2) types ws ty(2) a1 a(2)
    by (simp add: cfe_filewriter_create_eq [OF r t ty(1)] cfe_filewriter_v1_alloc_eq)
  moreover have "tmpl_repr writer_layout ?w' xs"
      "tmpl_refs writer_layout ?w' = (tmpl_refs writer_layout w)(t \<mapsto> fwt_refcnt ty + 1)"
    using writer_inc_repr [OF r ty(1)] R
    by (simp_all add: tmpl_repr_def tmpl_refs_def writer_layout_def writer_default_ok_def fun_eq_iff)
  moreover have "tmpl_repr cipher_layout ?w' ys"
      "tmpl_refs cipher_layout ?w' = (tmpl_refs cipher_layout w)(c \<mapsto> ct_refcnt cty + 1)"
    using v(4,5) by (simp_all add: tmpl_repr_def tmpl_refs_def cipher_layout_def fun_eq_iff)
  ultimately show ?thesis using R by (intro exI [of _ ?w'] exI [of _ R]) simp
qed

subsection \<open>The constructor\<close>

lemma writer_v1_init_ok:
  assumes w: "w_writer w = load_registry head WRITER_NEXT [(a, writer_v1_type)]" "writer_default w = NULL"
    and a: "a = sym E ''writer_v1_type''" and d: "a \<noteq> NULL" "head \<noteq> a + WRITER_NEXT"
  shows "\<exists>w'. writer_v1_init E w = Some (False, w') \<and> tmpl_repr writer_layout w' [a] \<and>
    writer_default w' = a \<and> tmpl_key writer_layout w' a = Some 1 \<and>
    rg_types (w_writer w') a = Some (writer_v1_type\<lparr>fwt_refcnt := 1\<rparr>) \<and>
    errno w' = errno w \<and> (\<exists>R d. w' = w\<lparr>w_writer := R, writer_default := d\<rparr>)"
proof -
  have l: "ly_get writer_layout w = load_registry head (ly_off writer_layout) [(a, writer_v1_type)]"
      "ly_inv writer_layout w []"
    using w by (simp_all add: writer_layout_def writer_default_ok_def default_ok_def)
  have k: "map (tmpl_key writer_layout w) (map fst [(a, writer_v1_type)]) = map Some [1]"
    using w(1) by (simp add: tmpl_key_def reg_key_def writer_layout_def writer_v1_type_def)
  obtain w' where w': "register_each (tmpl_register writer_layout) [a] w = Some ([0], w')"
      "tmpl_repr writer_layout w' [a]" "tmpl_key writer_layout w' a = Some 1"
      "rg_types (w_writer w') a = Some (writer_v1_type\<lparr>fwt_refcnt := 1\<rparr>)"
      "errno w' = errno w" "\<exists>R d. w' = w\<lparr>w_writer := R, writer_default := d\<rparr>"
    using writer_lay.load_all [OF l _ _ _ k] d by (auto simp: writer_layout_def)
  have "writer_default w' = a"
    using w'(2) by (simp add: tmpl_repr_def writer_layout_def writer_default_ok_def default_ok_def)
  moreover have "cfe_filewriter_register a w = Some (0, w')"
    using w'(1) by (auto simp: cfe_filewriter_register_eq split: bind_splits)
  ultimately show ?thesis using w' a by (auto simp: writer_v1_init_def)
qed

end
