(* ===== verification/Cfe_Open.thy ===== *)
theory Cfe_Open
  imports Cfe_Filewriter
begin

text \<open>
  \<^verbatim>\<open>src/open.c\<close>, the interface of the library: a \<open>cfe_file\<close> is a header and a writer. \<open>cfe_create\<close>
  checks its arguments and the file, and builds the three objects; the lemmas give its result on
  every branch, what a successful creation holds, and what a failed one leaves behind.
\<close>

subsection \<open>Data\<close>

text \<open>\<open>key_ident\<close> is a pointer that may be NULL; the code checks it and advances it.\<close>

record cfe_open_params =
  op_header_size :: uint32
  op_key_ident :: "string option"
  op_cipher :: string
  op_blocksize :: uint32

text \<open>\<open>struct cfe_file\<close>: two pointers and the counter.\<close>

definition SIZEOF_FILE :: size_t where "SIZEOF_FILE = 24"

subsection \<open>File objects\<close>

definition cfe_file_destroy :: "env \<Rightarrow> addr \<Rightarrow> world \<Rightarrow> world option" where
  "cfe_file_destroy E file w =
     (if file = NULL then Some w
      else do {
        f \<leftarrow> w_files w file;
        if f_header f \<noteq> NULL then cfe_header_close E (f_header f) w else Some w
      })"

definition cfe_file_free :: "env \<Rightarrow> addr \<Rightarrow> world \<Rightarrow> world option" where
  "cfe_file_free E file w = do {
     w \<leftarrow> cfe_file_destroy E file w;
     h \<leftarrow> free file (w_files w);
     Some (w\<lparr>w_files := h\<rparr>)
   }"

definition cfe_file_init :: "addr \<Rightarrow> world \<Rightarrow> (int \<times> world) option" where
  "cfe_file_init file w = do {
     f \<leftarrow> w_files w file;
     Some (0, w\<lparr>w_files := (w_files w)(file \<mapsto> f\<lparr>f_refcnt := cfe_atomic_set (f_refcnt f) 1\<rparr>)\<rparr>)
   }"

definition zero_file :: cfe_file where
  "zero_file = \<lparr>f_header = NULL, f_writer = NULL, f_refcnt = 0\<rparr>"

definition cfe_file_new :: "env \<Rightarrow> world \<Rightarrow> (addr \<times> world) option" where
  "cfe_file_new E w = do {
     let (file, w) = calloc E 1 SIZEOF_FILE w;
     if file \<noteq> NULL then do {
       (r, w) \<leftarrow> cfe_file_init file (w\<lparr>w_files := (w_files w)(file \<mapsto> zero_file)\<rparr>);
       if r \<noteq> 0 then do {
         w \<leftarrow> cfe_file_free E file w;
         Some (NULL, w)
       }
       else Some (file, w)
     }
     else Some (file, w)
   }"

subsection \<open>Opening and creating\<close>

definition do_open :: "int \<Rightarrow> int \<Rightarrow> cfe_open_params option \<Rightarrow> world \<Rightarrow> (addr \<times> world) option" where
  "do_open fd flags params w = Some (NULL, w\<lparr>errno := ENOSYS\<rparr>)"

text \<open>The stores to the fields of the file come before the checks of their values, as in the code.\<close>

definition do_create ::
  "env \<Rightarrow> int \<Rightarrow> int \<Rightarrow> uint32 \<Rightarrow> cfe_open_params \<Rightarrow> world \<Rightarrow> (addr \<times> world) option" where
  "do_create E fd flags mode params w = do {
     (file, w) \<leftarrow> cfe_file_new E w;
     if file = NULL then Some (NULL, w)
     else do {
       (header, w) \<leftarrow> cfe_header_create E CFE_HEADER_VERSION_DEFAULT fd (ucast (op_header_size params)) w;
       f \<leftarrow> w_files w file;
       let w = w\<lparr>w_files := (w_files w)(file \<mapsto> f\<lparr>f_header := header\<rparr>)\<rparr>;
       if header = NULL then do {
         w \<leftarrow> cfe_file_free E file w;
         Some (NULL, w)
       }
       else do {
         (writer, w) \<leftarrow> cfe_filewriter_create E CFE_FILEWRITER_VERSION_DEFAULT (op_cipher params)
           (op_blocksize params) w;
         f \<leftarrow> w_files w file;
         let w = w\<lparr>w_files := (w_files w)(file \<mapsto> f\<lparr>f_writer := writer\<rparr>)\<rparr>;
         if writer = NULL then do {
           w \<leftarrow> cfe_file_free E file w;
           Some (NULL, w)
         }
         else Some (file, w)
       }
     }
   }"

definition cfe_open ::
  "int \<Rightarrow> int \<Rightarrow> uint32 \<Rightarrow> cfe_open_params option \<Rightarrow> world \<Rightarrow> (addr \<times> world) option" where
  "cfe_open fd flags mode params w = Some (NULL, w\<lparr>errno := ENOSYS\<rparr>)"

text \<open>\<open>fstat\<close> answers the type of the file and its size, or fails with an error number.\<close>

definition fstat :: "env \<Rightarrow> int \<Rightarrow> world \<Rightarrow> int \<times> bool \<times> uint64 \<times> world" where
  "fstat E fd w =
     (let e = e_fstat (libc E) fd w
      in if e = 0 then (0, e_isreg (libc E) fd w, w_fsize w fd, w)
         else (- 1, False, 0, w\<lparr>errno := e\<rparr>))"

text \<open>The result is the file, the parameters as the call leaves them and the world.\<close>

definition cfe_create ::
  "env \<Rightarrow> int \<Rightarrow> int \<Rightarrow> uint32 \<Rightarrow> cfe_open_params option \<Rightarrow> world \<Rightarrow>
    (addr \<times> cfe_open_params option \<times> world) option" where
  "cfe_create E fd flags mode params w =
     (case params of
        None \<Rightarrow> Some (NULL, None, w\<lparr>errno := EINVAL\<rparr>)
      | Some p \<Rightarrow>
          (case op_key_ident p of
             None \<Rightarrow> Some (NULL, Some p, w\<lparr>errno := EINVAL\<rparr>)
           | Some ident \<Rightarrow>
               if fd < 0 then Some (NULL, Some p, w\<lparr>errno := EINVAL\<rparr>)
               else if strncmp ident ''cfe:'' 4 \<noteq> 0 then Some (NULL, Some p, w\<lparr>errno := EINVAL\<rparr>)
               else
                 let p = p\<lparr>op_key_ident := Some (drop 4 ident)\<rparr>;
                     (r, isreg, st_size, w) = fstat E fd w
                 in if r \<noteq> 0 then Some (NULL, Some p, w)
                    else if \<not> isreg \<or> st_size \<noteq> 0 then Some (NULL, Some p, w\<lparr>errno := EINVAL\<rparr>)
                    else map_option (\<lambda>(file, w). (file, Some p, w)) (do_create E fd flags mode p w)))"

subsection \<open>The checks\<close>

text \<open>The arguments that pass the first checks.\<close>

definition create_args_ok :: "int \<Rightarrow> cfe_open_params option \<Rightarrow> bool" where
  "create_args_ok fd params \<longleftrightarrow> 0 \<le> fd \<and>
     (\<exists>p ident. params = Some p \<and> op_key_ident p = Some ident \<and> strncmp ident ''cfe:'' 4 = 0)"

lemma cfe_create_einval:
  "\<not> create_args_ok fd params \<Longrightarrow>
    cfe_create E fd flags mode params w = Some (NULL, params, w\<lparr>errno := EINVAL\<rparr>)"
  by (auto simp: cfe_create_def create_args_ok_def split: option.splits)

text \<open>A key identifier that passes is the prefix and a rest, and the rest is what is left.\<close>

lemma strncmp_cfe:
  assumes "strncmp ident ''cfe:'' 4 = 0"
  shows "cstr ident = ''cfe:'' @ cstr (drop 4 ident)"
proof -
  have t: "take 4 (cstr ident) = ''cfe:''"
    using assms by (simp add: strncmp_eq_0_iff)
  show ?thesis using t
    by (cases ident; cases "tl ident"; cases "tl (tl ident)"; cases "tl (tl (tl ident))")
       (auto split: if_splits)
qed

subsection \<open>Building the three objects\<close>

lemma cfe_file_new_eq:
  "cfe_file_new E w =
    (let a = e_calloc (libc E) SIZEOF_FILE w
     in if a = NULL then Some (NULL, w\<lparr>errno := ENOMEM\<rparr>)
        else Some (a, w\<lparr>w_files := (w_files w)(a \<mapsto> zero_file\<lparr>f_refcnt := 1\<rparr>)\<rparr>))"
  using calloc_1 [of E SIZEOF_FILE w]
  by (simp add: cfe_file_new_def cfe_calloc_def cfe_file_init_def Let_def zero_file_def)

text \<open>The registries do not depend on the objects, nor on each other.\<close>

lemma header_repr_other [simp]:
  "tmpl_repr header_layout (w\<lparr>w_files := x\<rparr>) = tmpl_repr header_layout w"
  "tmpl_refs header_layout (w\<lparr>w_files := x\<rparr>) = tmpl_refs header_layout w"
  "tmpl_repr header_layout (writer_type_put t ty w) = tmpl_repr header_layout w"
  "tmpl_refs header_layout (writer_type_put t ty w) = tmpl_refs header_layout w"
  by (simp_all add: tmpl_repr_def tmpl_refs_def fun_eq_iff header_layout_def header_default_ok_def
      writer_type_put_def)

lemma header_repr_cipher:
  "w_header v = w_header w \<Longrightarrow> header_default v = header_default w \<Longrightarrow>
    tmpl_repr header_layout v = tmpl_repr header_layout w \<and>
    tmpl_refs header_layout v = tmpl_refs header_layout w"
  by (simp add: tmpl_repr_def tmpl_refs_def fun_eq_iff header_layout_def header_default_ok_def)

lemma writer_repr_cong:
  "w_writer v = w_writer w \<Longrightarrow> writer_default v = writer_default w \<Longrightarrow>
    tmpl_repr writer_layout v = tmpl_repr writer_layout w \<and>
    tmpl_refs writer_layout v = tmpl_refs writer_layout w"
  by (simp add: tmpl_repr_def tmpl_refs_def fun_eq_iff writer_layout_def writer_default_ok_def)

lemma cipher_repr_cong:
  "w_cipher v = w_cipher w \<Longrightarrow>
    tmpl_repr cipher_layout v = tmpl_repr cipher_layout w \<and>
    tmpl_key cipher_layout v = tmpl_key cipher_layout w \<and>
    tmpl_refs cipher_layout v = tmpl_refs cipher_layout w"
  by (simp add: tmpl_repr_def tmpl_key_def tmpl_refs_def fun_eq_iff cipher_layout_def)

text \<open>A new file object, its counter one.\<close>

definition new_file :: "addr \<Rightarrow> world \<Rightarrow> world" where
  "new_file a w = w\<lparr>w_files := (w_files w)(a \<mapsto> zero_file\<lparr>f_refcnt := 1\<rparr>)\<rparr>"

text \<open>
  The state in which a file can be created: both registries of formats hold their version 1 type as
  the default, the allocator answers \<open>a\<close> for the file object and then \<open>b\<close> for the header, the kernel
  grants \<open>n\<close> bytes of space and then a mapping of them at \<open>m\<close>, where nothing is mapped, and takes back
  what is mapped there. Each call is asked in the world in which the code makes it.
\<close>

definition create_ready ::
  "env \<Rightarrow> int \<Rightarrow> size_t \<Rightarrow> addr \<Rightarrow> addr \<Rightarrow> addr \<Rightarrow> world \<Rightarrow> addr list \<Rightarrow> cfe_header_type \<Rightarrow> addr list \<Rightarrow>
    cfe_filewriter_type \<Rightarrow> bool" where
  "create_ready E fd n a b m w hs hty ws wty \<longleftrightarrow>
     tmpl_repr header_layout w hs \<and> header_default w \<noteq> NULL \<and>
     rg_types (w_header w) (header_default w) = Some hty \<and> hdt_alloc hty = Some Fn_cfe_header_v1_alloc \<and>
     tmpl_repr writer_layout w ws \<and> writer_default w \<noteq> NULL \<and>
     rg_types (w_writer w) (writer_default w) = Some wty \<and>
     fwt_alloc wty = Some Fn_cfe_filewriter_v1_alloc \<and>
     calloc_ok E \<and> e_calloc (libc E) SIZEOF_FILE w = a \<and> a \<noteq> NULL \<and>
     (let v = header_inc (header_default w) hty (new_file a w)
      in e_calloc (libc E) SIZEOF_HEADER_V1 v = b \<and> b \<noteq> NULL \<and>
        fst (cfe_fallocate E fd 0 n (new_header b v)) = 0 \<and>
        e_mmap (libc E) n fd (header_room E fd n b v) = Inl m) \<and>
     m \<noteq> MAP_FAILED \<and> m \<noteq> NULL \<and> w_maps w m = None \<and>
     (\<forall>v. w_maps v m = Some n \<longrightarrow> e_munmap (libc E) m n v = 0)"

lemma create_readyD:
  assumes "create_ready E fd n a b m w hs hty ws wty"
  shows "e_calloc (libc E) SIZEOF_FILE w = a" and "a \<noteq> NULL" and "w_files w a = None"
    and "b \<noteq> NULL" and "w_headers w b = None"
proof -
  have c: "calloc_ok E" "e_calloc (libc E) SIZEOF_FILE w = a" "a \<noteq> NULL"
    "e_calloc (libc E) SIZEOF_HEADER_V1 (header_inc (header_default w) hty (new_file a w)) = b" "b \<noteq> NULL"
    using assms by (simp_all add: create_ready_def Let_def)
  have "fresh w a SIZEOF_FILE" using c(1-3) unfolding calloc_ok_def by metis
  then have "w_files w a = None" by (rule freshD(4)) (simp add: SIZEOF_FILE_def)
  then show "e_calloc (libc E) SIZEOF_FILE w = a" "a \<noteq> NULL" "w_files w a = None" "b \<noteq> NULL" "w_headers w b = None"
    using c header_calloc_free [OF c(1,4,5)] by (simp_all add: new_file_def)
qed

text \<open>The first half of the creation: the file object and its header.\<close>

definition half_file :: "addr \<Rightarrow> addr \<Rightarrow> size_t \<Rightarrow> addr \<Rightarrow> env \<Rightarrow> int \<Rightarrow> cfe_header_type \<Rightarrow> world \<Rightarrow> world" where
  "half_file a b n m E fd hty w = (header_inc (header_default w) hty w)\<lparr>
     w_fsize := fsize_after E fd n (w_fsize w), w_maps := (w_maps w)(m \<mapsto> n),
     w_headers := (w_headers w)(b \<mapsto> header_v1 m n (header_default w)),
     w_files := (w_files w)(a \<mapsto> \<lparr>f_header = b, f_writer = NULL, f_refcnt = 1\<rparr>)\<rparr>"

lemma do_create_half:
  assumes c: "create_ready E fd n a b m w hs hty ws wty"
    and n: "n = ucast (normalize_headersize E (op_header_size p))"
  shows "do_create E fd flags mode p w = do {
    (writer, w) \<leftarrow> cfe_filewriter_create E CFE_FILEWRITER_VERSION_DEFAULT (op_cipher p) (op_blocksize p)
      (half_file a b n m E fd hty w);
    f \<leftarrow> w_files w a;
    let w = w\<lparr>w_files := (w_files w)(a \<mapsto> f\<lparr>f_writer := writer\<rparr>)\<rparr>;
    if writer = NULL then do {
      w \<leftarrow> cfe_file_free E a w;
      Some (NULL, w)
    }
    else Some (a, w)
  }"
proof -
  note f = create_readyD [OF c]
  let ?w = "new_file a w"
  have r: "tmpl_repr header_layout ?w hs" using c by (simp add: create_ready_def new_file_def)
  have t: "header_select CFE_HEADER_VERSION_DEFAULT ?w = Some (header_default w)" "header_default w \<noteq> NULL"
    using c by (simp_all add: header_select_def create_ready_def new_file_def)
  have ty: "rg_types (w_header ?w) (header_default w) = Some hty" "hdt_alloc hty = Some Fn_cfe_header_v1_alloc"
    using c by (simp_all add: create_ready_def new_file_def)
  have n': "n = ucast (normalize_headersize E (ucast (ucast (op_header_size p) :: size_t)))"
    by (simp add: n)
  have "cfe_header_create E CFE_HEADER_VERSION_DEFAULT fd (ucast (op_header_size p)) ?w =
      Some (b, (header_inc (header_default w) hty ?w)\<lparr>w_fsize := fsize_after E fd n (w_fsize w),
        w_maps := (w_maps w)(m \<mapsto> n), w_headers := (w_headers w)(b \<mapsto> header_v1 m n (header_default w))\<rparr>)"
    using cfe_header_create_close [OF r t ty n', of b fd m] c
    by (auto simp: create_ready_def Let_def new_file_def)
  then show ?thesis
    using f
    by (simp add: do_create_def cfe_file_new_eq Let_def half_file_def header_type_put_def zero_file_def new_file_def)
qed

lemma half_file_writer:
  assumes c: "create_ready E fd n a b m w hs hty ws wty"
  shows "tmpl_repr writer_layout (half_file a b n m E fd hty w) ws"
    and "tmpl_refs writer_layout (half_file a b n m E fd hty w) = tmpl_refs writer_layout w"
    and "writer_select CFE_FILEWRITER_VERSION_DEFAULT (half_file a b n m E fd hty w) = Some (writer_default w)"
    and "writer_default w \<noteq> NULL"
    and "rg_types (w_writer (half_file a b n m E fd hty w)) (writer_default w) = Some wty"
    and "fwt_alloc wty = Some Fn_cfe_filewriter_v1_alloc"
proof -
  let ?v = "half_file a b n m E fd hty w"
  have e: "w_writer ?v = w_writer w" "writer_default ?v = writer_default w"
    by (simp_all add: half_file_def header_type_put_def)
  show "tmpl_repr writer_layout ?v ws" "tmpl_refs writer_layout ?v = tmpl_refs writer_layout w"
    using writer_repr_cong [OF e] c by (simp_all add: create_ready_def)
  show "writer_select CFE_FILEWRITER_VERSION_DEFAULT ?v = Some (writer_default w)"
    by (simp add: writer_select_def e)
  show "writer_default w \<noteq> NULL" "rg_types (w_writer ?v) (writer_default w) = Some wty"
    "fwt_alloc wty = Some Fn_cfe_filewriter_v1_alloc"
    using c by (simp_all add: create_ready_def e)
qed

lemma half_file_cipher:
  "tmpl_repr cipher_layout (half_file a b n m E fd hty w) = tmpl_repr cipher_layout w"
  "tmpl_key cipher_layout (half_file a b n m E fd hty w) = tmpl_key cipher_layout w"
  "tmpl_refs cipher_layout (half_file a b n m E fd hty w) = tmpl_refs cipher_layout w"
  using cipher_repr_cong [of "half_file a b n m E fd hty w" w]
  by (simp_all add: half_file_def header_type_put_def)

text \<open>Freeing the half-built file undoes the first half, but for the size of the file.\<close>

lemma half_file_free:
  assumes c: "create_ready E fd n a b m w hs hty ws wty"
  shows "cfe_file_free E a (half_file a b n m E fd hty w) =
    Some (w\<lparr>w_fsize := fsize_after E fd n (w_fsize w)\<rparr>)"
proof -
  note f = create_readyD [OF c]
  let ?v = "half_file a b n m E fd hty w" and ?d = "header_default w"
  have ty: "rg_types (w_header w) ?d = Some hty" using c by (simp add: create_ready_def)
  have "cfe_header_close E b ?v = Some (header_type_put ?d (hdt_refcnt_update cfe_atomic_dec
      (hdt_refcnt_update cfe_atomic_inc hty))
      (?v\<lparr>w_maps := (w_maps ?v)(m := None), w_headers := (w_headers ?v)(b := None)\<rparr>))"
    by (rule cfe_header_close_v1)
       (use c f in \<open>auto simp: create_ready_def half_file_def header_type_put_def\<close>)
  also have "\<dots> = Some (w\<lparr>w_fsize := fsize_after E fd n (w_fsize w),
      w_files := (w_files w)(a \<mapsto> \<lparr>f_header = b, f_writer = NULL, f_refcnt = 1\<rparr>)\<rparr>)"
    using c f ty by (simp add: create_ready_def half_file_def header_type_put_def fun_upd_idem)
  finally show ?thesis
    using f by (simp add: cfe_file_free_def cfe_file_destroy_def free_defs)
       (simp add: half_file_def fun_upd_idem)
qed

text \<open>
  The cipher is not registered: everything is undone but the size of the file, which the
  preallocation has changed, and \<open>errno\<close> is not set.
\<close>

lemma do_create_nocipher:
  assumes c: "create_ready E fd n a b m w hs hty ws wty"
    and n: "n = ucast (normalize_headersize E (op_header_size p))"
    and ci: "tmpl_repr cipher_layout w cs" "Some (cstr (op_cipher p)) \<notin> tmpl_key cipher_layout w ` set cs"
  shows "do_create E fd flags mode p w = Some (NULL, w\<lparr>w_fsize := fsize_after E fd n (w_fsize w)\<rparr>)"
proof -
  let ?v = "half_file a b n m E fd hty w"
  have "cfe_filewriter_create E CFE_FILEWRITER_VERSION_DEFAULT (op_cipher p) (op_blocksize p) ?v = Some (NULL, ?v)"
    by (rule cfe_filewriter_create_nocipher [OF half_file_writer(1,3,4,5) [OF c]])
       (use ci in \<open>simp_all add: half_file_cipher\<close>)
  moreover have f: "w_files ?v a = Some \<lparr>f_header = b, f_writer = NULL, f_refcnt = 1\<rparr>"
    by (simp add: half_file_def)
  moreover have "?v\<lparr>w_files := (w_files ?v)(a \<mapsto> \<lparr>f_header = b, f_writer = NULL, f_refcnt = 1\<rparr>)\<rparr> = ?v"
    using f by (simp add: fun_upd_idem)
  ultimately show ?thesis
    using do_create_half [OF c n] half_file_free [OF c] by simp
qed

text \<open>Everything is there: the file holds a header and a writer, and each of the three types one more
  reference.\<close>

lemma do_create_ok:
  assumes c: "create_ready E fd n a b m w hs hty ws wty"
    and n: "n = ucast (normalize_headersize E (op_header_size p))"
    and d: "e_calloc (libc E) SIZEOF_FILEWRITER_V1
        (cipher_inc ct cty (writer_inc (writer_default w) wty (half_file a b n m E fd hty w))) = d" "d \<noteq> NULL"
    and ci: "tmpl_repr cipher_layout w cs" "ct \<in> set cs"
      "tmpl_key cipher_layout w ct = Some (cstr (op_cipher p))" "rg_types (w_cipher w) ct = Some cty"
  shows "\<exists>w'. do_create E fd flags mode p w = Some (a, w') \<and>
    w_files w' = (w_files w)(a \<mapsto> \<lparr>f_header = b, f_writer = d, f_refcnt = 1\<rparr>) \<and>
    w_headers w' = (w_headers w)(b \<mapsto> header_v1 m n (header_default w)) \<and>
    w_maps w' = (w_maps w)(m \<mapsto> n) \<and> w_fsize w' = fsize_after E fd n (w_fsize w) \<and>
    w_writers w' = (w_writers w)(d \<mapsto> zero_writer\<lparr>fw_lock := Some Unlocked,
      fw_ops := Some Cfe_filewriter_v1_ops, fw_type := writer_default w\<rparr>) \<and>
    tmpl_repr header_layout w' hs \<and> tmpl_repr writer_layout w' ws \<and> tmpl_repr cipher_layout w' cs \<and>
    tmpl_refs header_layout w' = (tmpl_refs header_layout w)(header_default w \<mapsto> hdt_refcnt hty + 1) \<and>
    tmpl_refs writer_layout w' = (tmpl_refs writer_layout w)(writer_default w \<mapsto> fwt_refcnt wty + 1) \<and>
    tmpl_refs cipher_layout w' = (tmpl_refs cipher_layout w)(ct \<mapsto> ct_refcnt cty + 1) \<and>
    errno w' = errno w"
proof -
  let ?v = "half_file a b n m E fd hty w" and ?t = "writer_default w"
  let ?fw = "zero_writer\<lparr>fw_lock := Some Unlocked, fw_ops := Some Cfe_filewriter_v1_ops, fw_type := ?t\<rparr>"
  have "tmpl_repr cipher_layout ?v cs" "tmpl_key cipher_layout ?v ct = Some (cstr (op_cipher p))"
      "rg_types (w_cipher ?v) ct = Some cty"
    using ci by (simp_all add: half_file_cipher) (simp add: half_file_def header_type_put_def)
  then obtain u R where u: "cfe_filewriter_create E CFE_FILEWRITER_VERSION_DEFAULT (op_cipher p)
        (op_blocksize p) ?v = Some (d, u)"
      "u = (writer_inc ?t wty ?v)\<lparr>w_cipher := R, w_writers := (w_writers ?v)(d \<mapsto> ?fw)\<rparr>"
      "tmpl_repr writer_layout u ws" "tmpl_repr cipher_layout u cs"
      "tmpl_refs writer_layout u = (tmpl_refs writer_layout w)(?t \<mapsto> fwt_refcnt wty + 1)"
      "tmpl_refs cipher_layout u = (tmpl_refs cipher_layout w)(ct \<mapsto> ct_refcnt cty + 1)"
    using cfe_filewriter_create_ok [OF half_file_writer(1,3,4,5,6) [OF c] _ ci(2) _ _ d]
    by (fastforce simp: half_file_writer(2) [OF c] half_file_cipher)
  let ?w' = "u\<lparr>w_files := (w_files w)(a \<mapsto> \<lparr>f_header = b, f_writer = d, f_refcnt = 1\<rparr>)\<rparr>"
  have "w_files u = (w_files w)(a \<mapsto> \<lparr>f_header = b, f_writer = NULL, f_refcnt = 1\<rparr>)"
    by (simp add: u(2) half_file_def writer_type_put_def)
  then have "do_create E fd flags mode p w = Some (a, ?w')"
    using do_create_half [OF c n] u(1) d(2) by simp
  moreover have "tmpl_repr header_layout ?w' hs" "tmpl_refs header_layout ?w' =
      (tmpl_refs header_layout w)(header_default w \<mapsto> hdt_refcnt hty + 1)"
  proof -
    have h: "tmpl_repr header_layout w hs" "rg_types (w_header w) (header_default w) = Some hty"
      using c by (simp_all add: create_ready_def)
    have e: "w_header ?w' = w_header (header_inc (header_default w) hty w)"
        "header_default ?w' = header_default (header_inc (header_default w) hty w)"
      by (simp_all add: u(2) half_file_def writer_type_put_def header_type_put_def)
    show "tmpl_repr header_layout ?w' hs" "tmpl_refs header_layout ?w' =
        (tmpl_refs header_layout w)(header_default w \<mapsto> hdt_refcnt hty + 1)"
      using header_repr_cipher [OF e] header_inc_repr [OF h] by simp_all
  qed
  moreover have "tmpl_repr writer_layout ?w' ws" "tmpl_refs writer_layout ?w' =
      (tmpl_refs writer_layout w)(?t \<mapsto> fwt_refcnt wty + 1)"
    using writer_repr_cong [of ?w' u] u(3,5) by simp_all
  moreover have "tmpl_repr cipher_layout ?w' cs" "tmpl_refs cipher_layout ?w' =
      (tmpl_refs cipher_layout w)(ct \<mapsto> ct_refcnt cty + 1)"
    using cipher_repr_cong [of ?w' u] u(4,6) by simp_all
  moreover have "errno ?w' = errno w" "w_headers ?w' = (w_headers w)(b \<mapsto> header_v1 m n (header_default w))"
      "w_maps ?w' = (w_maps w)(m \<mapsto> n)" "w_fsize ?w' = fsize_after E fd n (w_fsize w)"
      "w_writers ?w' = (w_writers w)(d \<mapsto> ?fw)"
    by (simp_all add: u(2) half_file_def writer_type_put_def header_type_put_def)
  ultimately show ?thesis by (intro exI [of _ ?w']) simp
qed

subsection \<open>The whole call\<close>

lemma cfe_create_checked:
  assumes "0 \<le> fd" and "op_key_ident p = Some ident" and "strncmp ident ''cfe:'' 4 = 0"
    and "e_fstat (libc E) fd w = 0" and "e_isreg (libc E) fd w" and "w_fsize w fd = 0"
  shows "cfe_create E fd flags mode (Some p) w = map_option (\<lambda>(file, w). (file, Some (p\<lparr>op_key_ident := Some (drop 4 ident)\<rparr>), w))
    (do_create E fd flags mode (p\<lparr>op_key_ident := Some (drop 4 ident)\<rparr>) w)"
  using assms by (simp add: cfe_create_def fstat_def Let_def)

lemma cfe_create_statted:
  assumes "0 \<le> fd" and "op_key_ident p = Some ident" and "strncmp ident ''cfe:'' 4 = 0"
    and "e_fstat (libc E) fd w = e" and "e \<noteq> 0 \<or> \<not> e_isreg (libc E) fd w \<or> w_fsize w fd \<noteq> 0"
  shows "cfe_create E fd flags mode (Some p) w = Some (NULL, Some (p\<lparr>op_key_ident := Some (drop 4 ident)\<rparr>),
    w\<lparr>errno := (if e \<noteq> 0 then e else EINVAL)\<rparr>)"
  using assms by (auto simp: cfe_create_def fstat_def Let_def)

text \<open>
  A file object as the creation leaves it, freed again: the header goes, and its reference; nothing
  is done about the writer.
\<close>

lemma cfe_file_free_v1:
  assumes f: "w_files v a = Some \<lparr>f_header = b, f_writer = d, f_refcnt = r\<rparr>" "a \<noteq> NULL" "b \<noteq> NULL"
    and h: "w_headers v b = Some (header_v1 m n t)" "m \<noteq> NULL" "w_maps v m = Some n"
      "\<And>v. w_maps v m = Some n \<Longrightarrow> e_munmap (libc E) m n v = 0"
    and ty: "rg_types (w_header v) t = Some ty"
  shows "cfe_file_free E a v = Some (header_type_put t (hdt_refcnt_update cfe_atomic_dec ty)
    (v\<lparr>w_maps := (w_maps v)(m := None), w_headers := (w_headers v)(b := None), w_files := (w_files v)(a := None)\<rparr>))"
proof -
  have "cfe_header_close E b v = Some (header_type_put t (hdt_refcnt_update cfe_atomic_dec ty)
      (v\<lparr>w_maps := (w_maps v)(m := None), w_headers := (w_headers v)(b := None)\<rparr>))"
    by (rule cfe_header_close_v1 [OF h(1) f(3) h(2,3,4) ty])
  then show ?thesis
    using f by (simp add: cfe_file_free_def cfe_file_destroy_def free_def header_type_put_def)
qed

end
