(* ===== verification/Cfe_Keystore.thy ===== *)
theory Cfe_Keystore
  imports Cfe_Demo
begin

text \<open>
  \<^verbatim>\<open>src/keystore.c\<close>, \<^verbatim>\<open>src/keystore-linux.c\<close> and \<^verbatim>\<open>src/keystore-darwin.c\<close>: the process has one key
  store, set once; its operations go through a table of functions, to the keyrings of Linux or to a
  dictionary of Core Foundation. Those two are parameters; what their manuals say of them is a
  hypothesis where it is needed.
\<close>

subsection \<open>State and environment\<close>

text \<open>
  Beside the world: the kernel's keyrings, and the static data of the Core Foundation store (its lock
  and its dictionary, which is NULL before the constructor has run).
\<close>

record ('s, 'd) ks_state =
  ks_w :: world
  ks_kernel :: 's
  ks_store_lock :: rwlock
  ks_store :: "'d option"

text \<open>
  The functions of keyutils answer a serial number or a size, or an error number; a read also says
  what it wrote to the buffer. A failure of Core Foundation to make a string or a data object is
  \<open>False\<close>.
\<close>

record ('s, 'd) ks_env =
  k_request_key :: "string \<Rightarrow> string option \<Rightarrow> int \<Rightarrow> 's \<Rightarrow> (int + int) \<times> 's"
  k_add_key :: "string \<Rightarrow> string option \<Rightarrow> bytes option \<Rightarrow> size_t \<Rightarrow> int \<Rightarrow> 's \<Rightarrow> (int + int) \<times> 's"
  k_invalidate :: "int \<Rightarrow> 's \<Rightarrow> int \<times> 's"
  k_read :: "int \<Rightarrow> bool \<Rightarrow> size_t \<Rightarrow> 's \<Rightarrow> (int \<times> bytes) + int"
  cf_string_ok :: "string \<Rightarrow> bool"
  cf_data_ok :: "bytes \<Rightarrow> bool"
  cf_dict_create :: "'d option"
  cf_remove :: "'d \<Rightarrow> string \<Rightarrow> 'd"
  cf_add :: "'d \<Rightarrow> string \<Rightarrow> bytes \<Rightarrow> 'd"
  cf_get :: "'d \<Rightarrow> string \<Rightarrow> bytes option"
  x_add_key :: "nat \<Rightarrow> string option \<Rightarrow> bytes option \<Rightarrow> size_t \<Rightarrow> ('s, 'd) ks_state \<Rightarrow>
    (int \<times> ('s, 'd) ks_state) option"
  x_remove_key :: "nat \<Rightarrow> string option \<Rightarrow> ('s, 'd) ks_state \<Rightarrow> ('s, 'd) ks_state option"
  x_read_key :: "nat \<Rightarrow> string option \<Rightarrow> bool \<Rightarrow> size_t option \<Rightarrow> ('s, 'd) ks_state \<Rightarrow>
    (int \<times> bytes \<times> size_t option \<times> ('s, 'd) ks_state) option"

definition KEY_SPEC_USER_KEYRING :: int where "KEY_SPEC_USER_KEYRING = - 4"

definition ks_errno :: "int \<Rightarrow> ('s, 'd) ks_state \<Rightarrow> ('s, 'd) ks_state" where
  "ks_errno e s = s\<lparr>ks_w := (ks_w s)\<lparr>errno := e\<rparr>\<rparr>"

text \<open>What a message prints for a string argument that is NULL.\<close>

definition str_arg :: "string option \<Rightarrow> string" where
  "str_arg d = (case d of None \<Rightarrow> ''(null)'' | Some s \<Rightarrow> s)"

subsection \<open>The keyrings of Linux\<close>

definition ks_linux_find_key ::
  "('s, 'd) ks_env \<Rightarrow> string option \<Rightarrow> ('s, 'd) ks_state \<Rightarrow> int \<times> ('s, 'd) ks_state" where
  "ks_linux_find_key K description s =
     (case k_request_key K ''user'' description KEY_SPEC_USER_KEYRING (ks_kernel s) of
        (Inl key, k) \<Rightarrow> (key, s\<lparr>ks_kernel := k\<rparr>)
      | (Inr e, k) \<Rightarrow> (- 1, ks_errno e (s\<lparr>ks_kernel := k\<rparr>)))"

definition ks_linux_remove_key ::
  "env \<Rightarrow> ('s, 'd) ks_env \<Rightarrow> string option \<Rightarrow> ('s, 'd) ks_state \<Rightarrow> ('s, 'd) ks_state" where
  "ks_linux_remove_key E K desc s =
     (let (key, s) = ks_linux_find_key K desc s
      in if key = - 1 then s
         else let (e, k) = k_invalidate K key (ks_kernel s);
                  s = s\<lparr>ks_kernel := k\<rparr>
              in if e \<noteq> 0 then
                   let s = ks_errno e s
                   in s\<lparr>ks_w := cfe_log_notice E ''Unable to remove key '%s': %m'' [str_arg desc] (ks_w s)\<rparr>
                 else s)"

definition ks_linux_add_key ::
  "('s, 'd) ks_env \<Rightarrow> string option \<Rightarrow> bytes option \<Rightarrow> size_t \<Rightarrow> ('s, 'd) ks_state \<Rightarrow>
    int \<times> ('s, 'd) ks_state" where
  "ks_linux_add_key K desc payload len s =
     (case k_add_key K ''user'' desc payload len KEY_SPEC_USER_KEYRING (ks_kernel s) of
        (Inl key, k) \<Rightarrow> (if key = - 1 then 1 else 0, s\<lparr>ks_kernel := k\<rparr>)
      | (Inr e, k) \<Rightarrow> (1, ks_errno e (s\<lparr>ks_kernel := k\<rparr>)))"

text \<open>
  \<open>len\<close> is a pointer: NULL is undefined. The result is the return code, the bytes stored in the buffer
  and \<open>*len\<close>; the size that the kernel reports is stored there whether the buffer held it or not.
\<close>

definition ks_linux_read_key ::
  "('s, 'd) ks_env \<Rightarrow> string option \<Rightarrow> bool \<Rightarrow> size_t option \<Rightarrow> ('s, 'd) ks_state \<Rightarrow>
    (int \<times> bytes \<times> size_t option \<times> ('s, 'd) ks_state) option" where
  "ks_linux_read_key K desc buffer_null len s =
     (let (key, s) = ks_linux_find_key K desc s
      in if key = - 1 then Some (1, [], len, s)
         else do {
           n \<leftarrow> len;
           (case k_read K key buffer_null n (ks_kernel s) of
              Inr e \<Rightarrow> Some (1, [], len, ks_errno e s)
            | Inl (r, out) \<Rightarrow>
                if r = - 1 then Some (1, [], len, s)
                else Some (0, out, Some (of_int r), s))
         })"

subsection \<open>The dictionary of Core Foundation\<close>

definition on_store_lock ::
  "(rwlock \<Rightarrow> rwlock option) \<Rightarrow> ('s, 'd) ks_state \<Rightarrow> ('s, 'd) ks_state option" where
  "on_store_lock f s = map_option (\<lambda>l. s\<lparr>ks_store_lock := l\<rparr>) (f (ks_store_lock s))"

text \<open>
  When the string cannot be made, the message says that the key stays, and then the dictionary and
  \<open>CFRelease\<close> are called with NULL, which is undefined.
\<close>

definition ks_darwin_remove_key ::
  "env \<Rightarrow> ('s, 'd) ks_env \<Rightarrow> string option \<Rightarrow> ('s, 'd) ks_state \<Rightarrow> ('s, 'd) ks_state option" where
  "ks_darwin_remove_key E K desc s =
     (case desc of
        None \<Rightarrow> Some (s\<lparr>ks_w := cfe_log_notice E ''%s(): empty description'' [''ks_darwin_remove_key''] (ks_w s)\<rparr>)
      | Some d \<Rightarrow> do {
          let s = (if \<not> cf_string_ok K d
             then s\<lparr>ks_w := cfe_log_warning E
               ''%s(): CFStringCreateWithCString failed. Key '%s' will NOT be deleted''
               [''ks_darwin_remove_key'', d] (ks_w s)\<rparr>
             else s);
          s \<leftarrow> on_store_lock rwlock_wrlock s;
          store \<leftarrow> ks_store s;
          s \<leftarrow> (if cf_string_ok K d then Some (s\<lparr>ks_store := Some (cf_remove K store d)\<rparr>) else None);
          on_store_lock rwlock_unlock s
        })"

definition ks_darwin_add_key ::
  "('s, 'd) ks_env \<Rightarrow> string option \<Rightarrow> bytes option \<Rightarrow> size_t \<Rightarrow> ('s, 'd) ks_state \<Rightarrow>
    (int \<times> ('s, 'd) ks_state) option" where
  "ks_darwin_add_key K desc payload len s =
     (case (desc, payload) of
        (Some d, Some p) \<Rightarrow>
          if len = 0 then Some (1, ks_errno EINVAL s)
          else if \<not> cf_string_ok K d then Some (1, ks_errno ENOMEM s)
          else if \<not> cf_data_ok K (take (unat len) p) then Some (1, ks_errno ENOMEM s)
          else do {
            s \<leftarrow> on_store_lock rwlock_wrlock s;
            store \<leftarrow> ks_store s;
            let store = cf_remove K store d;
            let store = cf_add K store d (take (unat len) p);
            let s = s\<lparr>ks_store := Some store\<rparr>;
            s \<leftarrow> on_store_lock rwlock_unlock s;
            Some (0, s)
          }
      | _ \<Rightarrow> Some (1, ks_errno EINVAL s))"

definition ks_darwin_read_key ::
  "('s, 'd) ks_env \<Rightarrow> string option \<Rightarrow> bool \<Rightarrow> size_t option \<Rightarrow> ('s, 'd) ks_state \<Rightarrow>
    (int \<times> bytes \<times> size_t option \<times> ('s, 'd) ks_state) option" where
  "ks_darwin_read_key K desc buffer_null len s =
     (case (desc, len) of
        (Some d, Some n) \<Rightarrow>
          if \<not> cf_string_ok K d then Some (1, [], len, ks_errno ENOMEM s)
          else do {
            s \<leftarrow> on_store_lock rwlock_rdlock s;
            store \<leftarrow> ks_store s;
            let data = cf_get K store d;
            s \<leftarrow> on_store_lock rwlock_unlock s;
            (case data of
               None \<Rightarrow> Some (1, [], len, ks_errno ENOENT s)
             | Some p \<Rightarrow>
                 if n < of_nat (length p) then Some (1, [], len, ks_errno ENOSPC s)
                 else Some (0, if buffer_null then [] else p, Some (of_nat (length p)), s))
          }
      | _ \<Rightarrow> Some (1, [], len, ks_errno EINVAL s))"

subsection \<open>The key store of the process\<close>

definition cfe_keystore_set_default :: "env \<Rightarrow> addr \<Rightarrow> world \<Rightarrow> (int \<times> world) option" where
  "cfe_keystore_set_default E type w =
     (if type = NULL then Some (1, w\<lparr>errno := EINVAL\<rparr>)
      else if keystore w \<noteq> NULL then Some (1, w\<lparr>errno := EBUSY\<rparr>)
      else do {
        ty \<leftarrow> w_ks_types w type;
        let w = cfe_log_notice E ''Keystore type '%s' set as default'' [ks_name ty] w;
        Some (0, w\<lparr>keystore := type\<rparr>)
      })"

text \<open>The table of functions of the key store; there is none before one was set.\<close>

definition keystore_ops :: "world \<Rightarrow> keystore_ops option" where
  "keystore_ops w = do {
     ty \<leftarrow> (if keystore w = NULL then None else w_ks_types w (keystore w));
     ks_ops ty
   }"

definition cfe_keystore_add_key ::
  "('s, 'd) ks_env \<Rightarrow> string option \<Rightarrow> bytes option \<Rightarrow> size_t \<Rightarrow> ('s, 'd) ks_state \<Rightarrow>
    (int \<times> ('s, 'd) ks_state) option" where
  "cfe_keystore_add_key K description payload len s = do {
     ops \<leftarrow> keystore_ops (ks_w s);
     (case ops of
        Ks_linux_ops \<Rightarrow> Some (ks_linux_add_key K description payload len s)
      | Ks_darwin_ops \<Rightarrow> ks_darwin_add_key K description payload len s
      | Ext_ks_ops n \<Rightarrow> x_add_key K n description payload len s)
   }"

definition cfe_keystore_remove_key ::
  "env \<Rightarrow> ('s, 'd) ks_env \<Rightarrow> string option \<Rightarrow> ('s, 'd) ks_state \<Rightarrow> ('s, 'd) ks_state option" where
  "cfe_keystore_remove_key E K description s = do {
     ops \<leftarrow> keystore_ops (ks_w s);
     (case ops of
        Ks_linux_ops \<Rightarrow> Some (ks_linux_remove_key E K description s)
      | Ks_darwin_ops \<Rightarrow> ks_darwin_remove_key E K description s
      | Ext_ks_ops n \<Rightarrow> x_remove_key K n description s)
   }"

definition cfe_keystore_read_key ::
  "('s, 'd) ks_env \<Rightarrow> string option \<Rightarrow> bool \<Rightarrow> size_t option \<Rightarrow> ('s, 'd) ks_state \<Rightarrow>
    (int \<times> bytes \<times> size_t option \<times> ('s, 'd) ks_state) option" where
  "cfe_keystore_read_key K description buffer_null len s = do {
     ops \<leftarrow> keystore_ops (ks_w s);
     (case ops of
        Ks_linux_ops \<Rightarrow> ks_linux_read_key K description buffer_null len s
      | Ks_darwin_ops \<Rightarrow> ks_darwin_read_key K description buffer_null len s
      | Ext_ks_ops n \<Rightarrow> x_read_key K n description buffer_null len s)
   }"

subsection \<open>The constructors\<close>

definition ks_linux :: cfe_keystore_type where
  "ks_linux = \<lparr>ks_name = ''keystore-linux'', ks_ops = Some Ks_linux_ops\<rparr>"

definition ks_darwin :: cfe_keystore_type where
  "ks_darwin = \<lparr>ks_name = ''keystore-darwin'', ks_ops = Some Ks_darwin_ops\<rparr>"

definition ks_linux_register_type :: "env \<Rightarrow> world \<Rightarrow> (bool \<times> world) option" where
  "ks_linux_register_type E w = do {
     (r, w) \<leftarrow> cfe_keystore_set_default E (sym E ''ks_linux'') w;
     Some (if r \<noteq> 0 then (True, cfe_log_critical E ''could not set default key store'' [] w)
           else (False, w))
   }"

definition ks_darwin_register_type ::
  "env \<Rightarrow> ('s, 'd) ks_env \<Rightarrow> ('s, 'd) ks_state \<Rightarrow> (bool \<times> ('s, 'd) ks_state) option" where
  "ks_darwin_register_type E K s = do {
     let s = s\<lparr>ks_store := cf_dict_create K\<rparr>;
     if ks_store s = None then
       Some (True, s\<lparr>ks_w := cfe_log_critical E ''could not allocate dictionary'' [] (ks_w s)\<rparr>)
     else do {
       (r, w) \<leftarrow> cfe_keystore_set_default E (sym E ''ks_darwin'') (ks_w s);
       Some (if r \<noteq> 0
         then (True, s\<lparr>ks_w := cfe_log_critical E ''could not set default key store'' [] w\<rparr>)
         else (False, s\<lparr>ks_w := w\<rparr>))
     }
   }"

subsection \<open>What the manuals say\<close>

text \<open>
  Of the keyrings: \<open>up\<close> are the states in which a search of the process comes to the user's keyring
  (which is linked to its session) and the keys there are the process's own, \<open>kr\<close> is the contents of that
  keyring by description, \<open>holds\<close> says which description a serial number is for. Adding a key may fail, for
  the quota or for its arguments; a payload of the type \<open>user\<close> has 1 to 32767 bytes. A read answers the
  size of the key whatever the size of the buffer, which has the key when it is large enough; what is in a
  buffer that is too small is not said. Descriptions are C strings.
\<close>

definition keyutils_ok ::
  "('s, 'd) ks_env \<Rightarrow> ('s \<Rightarrow> bool) \<Rightarrow> ('s \<Rightarrow> string \<Rightarrow> bytes option) \<Rightarrow> ('s \<Rightarrow> int \<Rightarrow> string \<Rightarrow> bool) \<Rightarrow> bool" where
  "keyutils_ok K up kr holds \<longleftrightarrow>
     (\<forall>s d p. up s \<longrightarrow> cstr d = d \<longrightarrow> length p < 2 ^ 64 \<longrightarrow>
       (case k_add_key K ''user'' (Some d) (Some p) (of_nat (length p)) KEY_SPEC_USER_KEYRING s of
          (Inl key, s') \<Rightarrow> key \<noteq> - 1 \<and> 0 < length p \<and> length p \<le> 32767 \<and> up s' \<and> kr s' = (kr s)(d \<mapsto> p)
        | (Inr e, s') \<Rightarrow> up s' \<and> kr s' = kr s)) \<and>
     (\<forall>s d. up s \<longrightarrow> cstr d = d \<longrightarrow>
       (case k_request_key K ''user'' (Some d) KEY_SPEC_USER_KEYRING s of
          (Inl key, s') \<Rightarrow> kr s d \<noteq> None \<and> key \<noteq> - 1 \<and> up s' \<and> kr s' = kr s \<and> holds s' key d
        | (Inr e, s') \<Rightarrow> kr s d = None \<and> up s' \<and> kr s' = kr s)) \<and>
     (\<forall>s key d p n. up s \<longrightarrow> holds s key d \<longrightarrow> kr s d = Some p \<longrightarrow>
       (\<exists>out. k_read K key False n s = Inl (int (length p), out) \<and> (length p \<le> unat n \<longrightarrow> out = p))) \<and>
     (\<forall>s key d. up s \<longrightarrow> holds s key d \<longrightarrow>
       (\<exists>s'. k_invalidate K key s = (0, s') \<and> up s' \<and> kr s' = (kr s)(d := None)))"

lemma keyutils_okD:
  assumes K: "keyutils_ok K up kr holds" and u: "up s"
  shows "cstr d = d \<Longrightarrow> length p < 2 ^ 64 \<Longrightarrow>
      k_add_key K ''user'' (Some d) (Some p) (of_nat (length p)) KEY_SPEC_USER_KEYRING s = (Inl key, s') \<Longrightarrow>
      key \<noteq> - 1 \<and> 0 < length p \<and> length p \<le> 32767 \<and> up s' \<and> kr s' = (kr s)(d \<mapsto> p)"
    and "cstr d = d \<Longrightarrow> length p < 2 ^ 64 \<Longrightarrow>
      k_add_key K ''user'' (Some d) (Some p) (of_nat (length p)) KEY_SPEC_USER_KEYRING s = (Inr e, s') \<Longrightarrow>
      up s' \<and> kr s' = kr s"
    and "cstr d = d \<Longrightarrow> k_request_key K ''user'' (Some d) KEY_SPEC_USER_KEYRING s = (Inl key, s') \<Longrightarrow>
      kr s d \<noteq> None \<and> key \<noteq> - 1 \<and> up s' \<and> kr s' = kr s \<and> holds s' key d"
    and "cstr d = d \<Longrightarrow> k_request_key K ''user'' (Some d) KEY_SPEC_USER_KEYRING s = (Inr e, s') \<Longrightarrow>
      kr s d = None \<and> up s' \<and> kr s' = kr s"
    and "holds s key d \<Longrightarrow> kr s d = Some p \<Longrightarrow>
      \<exists>out. k_read K key False n s = Inl (int (length p), out) \<and> (length p \<le> unat n \<longrightarrow> out = p)"
    and "holds s key d \<Longrightarrow> \<exists>s'. k_invalidate K key s = (0, s') \<and> up s' \<and> kr s' = (kr s)(d := None)"
proof -
  note K = K [unfolded keyutils_ok_def]
  have add: "case k_add_key K ''user'' (Some d) (Some p) (of_nat (length p)) KEY_SPEC_USER_KEYRING s of
      (Inl key, s') \<Rightarrow> key \<noteq> - 1 \<and> 0 < length p \<and> length p \<le> 32767 \<and> up s' \<and> kr s' = (kr s)(d \<mapsto> p)
    | (Inr e, s') \<Rightarrow> up s' \<and> kr s' = kr s" if "cstr d = d" "length p < 2 ^ 64"
    by (rule K [THEN conjunct1, rule_format, OF u that])
  have find: "case k_request_key K ''user'' (Some d) KEY_SPEC_USER_KEYRING s of
      (Inl key, s') \<Rightarrow> kr s d \<noteq> None \<and> key \<noteq> - 1 \<and> up s' \<and> kr s' = kr s \<and> holds s' key d
    | (Inr e, s') \<Rightarrow> kr s d = None \<and> up s' \<and> kr s' = kr s" if "cstr d = d"
    by (rule K [THEN conjunct2, THEN conjunct1, rule_format, OF u that])
  show "cstr d = d \<Longrightarrow> length p < 2 ^ 64 \<Longrightarrow>
      k_add_key K ''user'' (Some d) (Some p) (of_nat (length p)) KEY_SPEC_USER_KEYRING s = (Inl key, s') \<Longrightarrow>
      key \<noteq> - 1 \<and> 0 < length p \<and> length p \<le> 32767 \<and> up s' \<and> kr s' = (kr s)(d \<mapsto> p)"
    "cstr d = d \<Longrightarrow> length p < 2 ^ 64 \<Longrightarrow>
      k_add_key K ''user'' (Some d) (Some p) (of_nat (length p)) KEY_SPEC_USER_KEYRING s = (Inr e, s') \<Longrightarrow>
      up s' \<and> kr s' = kr s"
    using add by auto
  show "cstr d = d \<Longrightarrow> k_request_key K ''user'' (Some d) KEY_SPEC_USER_KEYRING s = (Inl key, s') \<Longrightarrow>
      kr s d \<noteq> None \<and> key \<noteq> - 1 \<and> up s' \<and> kr s' = kr s \<and> holds s' key d"
    "cstr d = d \<Longrightarrow> k_request_key K ''user'' (Some d) KEY_SPEC_USER_KEYRING s = (Inr e, s') \<Longrightarrow>
      kr s d = None \<and> up s' \<and> kr s' = kr s"
    using find by auto
  show "holds s key d \<Longrightarrow> kr s d = Some p \<Longrightarrow>
      \<exists>out. k_read K key False n s = Inl (int (length p), out) \<and> (length p \<le> unat n \<longrightarrow> out = p)"
    "holds s key d \<Longrightarrow> \<exists>s'. k_invalidate K key s = (0, s') \<and> up s' \<and> kr s' = (kr s)(d := None)"
    using K u by blast+
qed

text \<open>Of the dictionary: adding a key that is there does nothing.\<close>

definition cf_ok :: "('s, 'd) ks_env \<Rightarrow> bool" where
  "cf_ok K \<longleftrightarrow>
     (\<forall>D k k'. cf_get K (cf_remove K D k) k' = (if k' = k then None else cf_get K D k')) \<and>
     (\<forall>D k v k'. cf_get K (cf_add K D k v) k' =
       (if k' = k \<and> cf_get K D k = None then Some v else cf_get K D k'))"

subsection \<open>Lemmas\<close>

text \<open>The key store is set once: the first type stays, whatever is tried afterwards.\<close>

lemma cfe_keystore_set_default_first:
  assumes "keystore w = NULL" and "t \<noteq> NULL" and "w_ks_types w t = Some ty"
  shows "\<exists>w'. cfe_keystore_set_default E t w = Some (0, w') \<and> keystore w' = t \<and>
    keystore_ops w' = ks_ops ty \<and> errno w' = errno w"
  using assms by (simp add: cfe_keystore_set_default_def cfe_log_notice_def cfe_log_message_frame
      keystore_ops_def)

lemma cfe_keystore_set_default_again:
  assumes "keystore w \<noteq> NULL" and "t \<noteq> NULL"
  shows "cfe_keystore_set_default E t w = Some (1, w\<lparr>errno := EBUSY\<rparr>)"
  using assms by (simp add: cfe_keystore_set_default_def)

lemma ks_linux_register_ok:
  assumes "keystore w = NULL" and "sym E ''ks_linux'' \<noteq> NULL" and "w_ks_types w (sym E ''ks_linux'') = Some ks_linux"
  shows "\<exists>w'. ks_linux_register_type E w = Some (False, w') \<and> keystore w' \<noteq> NULL \<and>
    keystore_ops w' = Some Ks_linux_ops \<and> (\<exists>k m. w' = w\<lparr>w_stderr := m, keystore := k\<rparr>)"
proof -
  let ?v = "cfe_log_notice E ''Keystore type '%s' set as default'' [ks_name ks_linux] w"
  let ?w = "?v\<lparr>keystore := sym E ''ks_linux''\<rparr>"
  have v: "?v = w\<lparr>w_stderr := w_stderr ?v\<rparr>" by (simp add: cfe_log_notice_def cfe_log_message_frame)
  have "w_ks_types ?v = w_ks_types w" by (subst v) simp
  then have "keystore_ops ?w = Some Ks_linux_ops"
    using assms(2,3) by (simp add: keystore_ops_def ks_linux_def)
  moreover have "ks_linux_register_type E w = Some (False, ?w)"
    using assms by (simp add: ks_linux_register_type_def cfe_keystore_set_default_def)
  moreover have "?w = w\<lparr>w_stderr := w_stderr ?v, keystore := sym E ''ks_linux''\<rparr>" using v by simp
  ultimately show ?thesis using assms(2) by (intro exI [of _ ?w]) auto
qed

text \<open>
  Linux: an operation leaves everything but the state of the kernel, and \<open>errno\<close> when it fails. A key that was
  added is read back when the buffer is large enough.
\<close>

lemma ks_linux_find:
  assumes K: "keyutils_ok K up kr holds" and u: "up (ks_kernel s)" "cstr d = d"
  shows "(kr (ks_kernel s) d \<noteq> None \<longrightarrow> (\<exists>key k. ks_linux_find_key K (Some d) s = (key, s\<lparr>ks_kernel := k\<rparr>) \<and>
      key \<noteq> - 1 \<and> up k \<and> kr k = kr (ks_kernel s) \<and> holds k key d)) \<and>
    (kr (ks_kernel s) d = None \<longrightarrow> (\<exists>e k. ks_linux_find_key K (Some d) s = (- 1, ks_errno e (s\<lparr>ks_kernel := k\<rparr>)) \<and>
      up k \<and> kr k = kr (ks_kernel s)))"
proof (cases "k_request_key K ''user'' (Some d) KEY_SPEC_USER_KEYRING (ks_kernel s)")
  case (Pair a k)
  show ?thesis
  proof (cases a)
    case (Inl key)
    then show ?thesis using keyutils_okD(3) [OF K u] Pair by (auto simp: ks_linux_find_key_def)
  next
    case (Inr e)
    then show ?thesis using keyutils_okD(4) [OF K u] Pair by (auto simp: ks_linux_find_key_def)
  qed
qed

lemma ks_linux_read:
  assumes K: "keyutils_ok K up kr holds" and u: "up (ks_kernel s)" "cstr d = d" and p: "kr (ks_kernel s) d = Some p"
  shows "\<exists>k out. ks_linux_read_key K (Some d) False (Some n) s =
      Some (0, out, Some (of_nat (length p)), s\<lparr>ks_kernel := k\<rparr>) \<and> (length p \<le> unat n \<longrightarrow> out = p) \<and>
    up k \<and> kr k = kr (ks_kernel s)"
proof -
  obtain key k where k: "ks_linux_find_key K (Some d) s = (key, s\<lparr>ks_kernel := k\<rparr>)" "key \<noteq> - 1" "up k"
      "kr k = kr (ks_kernel s)" "holds k key d"
    using ks_linux_find [OF K u] p by auto
  obtain out where "k_read K key False n k = Inl (int (length p), out)" "length p \<le> unat n \<longrightarrow> out = p"
    using keyutils_okD(5) [OF K k(3,5), of p n] k(4) p by auto
  then show ?thesis using k by (auto simp: ks_linux_read_key_def)
qed

lemma ks_linux_add:
  assumes K: "keyutils_ok K up kr holds" and u: "up (ks_kernel s)" "cstr d = d" "length p < 2 ^ 64"
  shows "\<exists>r e k. ks_linux_add_key K (Some d) (Some p) (of_nat (length p)) s = (r, ks_errno e (s\<lparr>ks_kernel := k\<rparr>)) \<and> up k \<and>
    (if r = 0 then 0 < length p \<and> length p \<le> 32767 \<and> kr k = (kr (ks_kernel s))(d \<mapsto> p)
     else r = 1 \<and> kr k = kr (ks_kernel s))"
proof -
  let ?add = "k_add_key K ''user'' (Some d) (Some p) (of_nat (length p)) KEY_SPEC_USER_KEYRING (ks_kernel s)"
  have same: "ks_errno (errno (ks_w s)) (s\<lparr>ks_kernel := k\<rparr>) = s\<lparr>ks_kernel := k\<rparr>" for k
    by (simp add: ks_errno_def)
  obtain a k where ak: "?add = (a, k)" by (cases ?add)
  show ?thesis
  proof (cases a)
    case (Inl key)
    then show ?thesis using keyutils_okD(1) [OF K u] ak same [of k]
      by (intro exI [of _ 0] exI [of _ "errno (ks_w s)"] exI [of _ k]) (simp add: ks_linux_add_key_def)
  next
    case (Inr e)
    then show ?thesis using keyutils_okD(2) [OF K u] ak
      by (intro exI [of _ 1] exI [of _ e] exI [of _ k]) (simp add: ks_linux_add_key_def)
  qed
qed

text \<open>The dictionary: an added key replaces the one before it, and is read back.\<close>

definition darwin_lookup :: "('s, 'd) ks_env \<Rightarrow> ('s, 'd) ks_state \<Rightarrow> string \<Rightarrow> bytes option" where
  "darwin_lookup K s d = (case ks_store s of None \<Rightarrow> None | Some D \<Rightarrow> cf_get K D d)"

lemma ks_darwin_add:
  assumes K: "cf_ok K" and s: "ks_store_lock s = Unlocked" "ks_store s = Some D"
    and ok: "cf_string_ok K d" "cf_data_ok K p" "p \<noteq> []" "length p < 2 ^ 64"
  shows "\<exists>s'. ks_darwin_add_key K (Some d) (Some p) (of_nat (length p)) s = Some (0, s') \<and>
    darwin_lookup K s' = (darwin_lookup K s)(d \<mapsto> p) \<and> ks_store_lock s' = Unlocked \<and>
    ks_w s' = ks_w s \<and> ks_kernel s' = ks_kernel s \<and> ks_store s' \<noteq> None"
proof -
  have n: "unat (of_nat (length p) :: size_t) = length p"
    using ok(4) by (simp add: unat_of_nat take_bit_nat_eq_self)
  then have "(of_nat (length p) :: size_t) \<noteq> 0" using ok(3) by (metis length_0_conv unat_0)
  then show ?thesis
    using s ok n K
    by (simp add: ks_darwin_add_key_def on_store_lock_def Let_def darwin_lookup_def cf_ok_def fun_eq_iff)
qed

lemma ks_relock:
  "ks_store_lock s = Unlocked \<Longrightarrow> s\<lparr>ks_store_lock := Unlocked\<rparr> = s"
  "ks_store_lock s = Unlocked \<Longrightarrow> ks_errno e (s\<lparr>ks_store_lock := Unlocked\<rparr>) = ks_errno e s"
  by simp_all (cases s, simp add: ks_errno_def)

lemma ks_darwin_read:
  assumes s: "ks_store_lock s = Unlocked" "ks_store s \<noteq> None" and "cf_string_ok K d"
    and p: "darwin_lookup K s d = Some p" and "length p < 2 ^ 64"
  shows "ks_darwin_read_key K (Some d) False (Some n) s =
    (if length p \<le> unat n then Some (0, p, Some (of_nat (length p)), s)
     else Some (1, [], Some n, ks_errno ENOSPC s))"
proof -
  have "n < of_nat (length p) \<longleftrightarrow> unat n < length p"
    using assms(5) by (simp add: word_less_nat_alt unat_of_nat take_bit_nat_eq_self)
  then show ?thesis
    using s p assms(3) by (auto simp: ks_darwin_read_key_def on_store_lock_def darwin_lookup_def Let_def ks_relock)
qed

lemma ks_darwin_read_missing:
  assumes s: "ks_store_lock s = Unlocked" "ks_store s \<noteq> None" and "cf_string_ok K d"
    and p: "darwin_lookup K s d = None"
  shows "ks_darwin_read_key K (Some d) b (Some n) s = Some (1, [], Some n, ks_errno ENOENT s)"
proof -
  show ?thesis
    using s p assms(3) by (auto simp: ks_darwin_read_key_def on_store_lock_def darwin_lookup_def Let_def ks_relock)
qed

lemma ks_darwin_remove:
  assumes K: "cf_ok K" and s: "ks_store_lock s = Unlocked" "ks_store s = Some D" and ok: "cf_string_ok K d"
  shows "\<exists>s'. ks_darwin_remove_key E K (Some d) s = Some s' \<and>
    darwin_lookup K s' = (darwin_lookup K s)(d := None) \<and> ks_store_lock s' = Unlocked \<and>
    ks_w s' = ks_w s \<and> ks_store s' \<noteq> None"
  using s ok K
  by (simp add: ks_darwin_remove_key_def on_store_lock_def Let_def darwin_lookup_def cf_ok_def fun_eq_iff)

lemma ks_linux_remove:
  assumes K: "keyutils_ok K up kr holds" and u: "up (ks_kernel s)" "cstr d = d" and p: "kr (ks_kernel s) d \<noteq> None"
  shows "\<exists>k. ks_linux_remove_key E K (Some d) s = s\<lparr>ks_kernel := k\<rparr> \<and> up k \<and> kr k = (kr (ks_kernel s))(d := None)"
proof -
  obtain key k where k: "ks_linux_find_key K (Some d) s = (key, s\<lparr>ks_kernel := k\<rparr>)" "key \<noteq> - 1" "up k"
      "kr k = kr (ks_kernel s)" "holds k key d"
    using ks_linux_find [OF K u] p by blast
  obtain k' where "k_invalidate K key k = (0, k')" "up k'" "kr k' = (kr k)(d := None)"
    using keyutils_okD(6) [OF K k(3,5)] by blast
  then show ?thesis using k by (auto simp: ks_linux_remove_key_def)
qed

lemma ks_linux_read_missing:
  assumes K: "keyutils_ok K up kr holds" and u: "up (ks_kernel s)" "cstr d = d" and p: "kr (ks_kernel s) d = None"
  shows "\<exists>s'. ks_linux_read_key K (Some d) b len s = Some (1, [], len, s')"
  using ks_linux_find [OF K u] p by (auto simp: ks_linux_read_key_def)

text \<open>The errors of the store, 0 for none: what is missing or cannot be made, what is not there.\<close>

definition darwin_add_error :: "('s, 'd) ks_env \<Rightarrow> string option \<Rightarrow> bytes option \<Rightarrow> size_t \<Rightarrow> int" where
  "darwin_add_error K desc payload len =
     (if desc = None \<or> payload = None \<or> len = 0 then EINVAL
      else if \<not> cf_string_ok K (the desc) \<or> \<not> cf_data_ok K (take (unat len) (the payload)) then ENOMEM
      else 0)"

definition darwin_read_error ::
  "('s, 'd) ks_env \<Rightarrow> ('s, 'd) ks_state \<Rightarrow> string option \<Rightarrow> size_t option \<Rightarrow> int" where
  "darwin_read_error K s desc n =
     (if desc = None \<or> n = None then EINVAL
      else if \<not> cf_string_ok K (the desc) then ENOMEM
      else case darwin_lookup K s (the desc) of
          None \<Rightarrow> ENOENT
        | Some p \<Rightarrow> if unat (the n) < length p then ENOSPC else 0)"

lemmas darwin_errnos = EINVAL_def ENOMEM_def ENOENT_def ENOSPC_def

lemma ks_darwin_add_fails:
  "darwin_add_error K desc payload len \<noteq> 0 \<Longrightarrow>
    ks_darwin_add_key K desc payload len s = Some (1, ks_errno (darwin_add_error K desc payload len) s)"
  by (auto simp: darwin_add_error_def ks_darwin_add_key_def split: option.splits)

lemma ks_darwin_add_any:
  assumes K: "cf_ok K" and s: "ks_store_lock s = Unlocked" "ks_store s = Some D"
    and e: "darwin_add_error K desc payload len = 0"
  shows "\<exists>s'. ks_darwin_add_key K desc payload len s = Some (0, s') \<and> ks_store_lock s' = Unlocked \<and>
    darwin_lookup K s' = (darwin_lookup K s)(the desc \<mapsto> take (unat len) (the payload)) \<and> ks_w s' = ks_w s"
proof -
  obtain d p where a: "desc = Some d" "payload = Some p" "len \<noteq> 0" "cf_string_ok K d" "cf_data_ok K (take (unat len) p)"
    using e by (auto simp: darwin_add_error_def darwin_errnos split: if_splits)
  show ?thesis
    using a K s by (simp add: ks_darwin_add_key_def on_store_lock_def Let_def darwin_lookup_def cf_ok_def fun_eq_iff)
qed

lemma ks_darwin_read_any:
  assumes s: "ks_store_lock s = Unlocked" "ks_store s \<noteq> None"
    and l: "\<And>d p. darwin_lookup K s d = Some p \<Longrightarrow> length p < 2 ^ 64"
  shows "ks_darwin_read_key K desc null n s =
    (let e = darwin_read_error K s desc n; p = the (darwin_lookup K s (the desc))
     in if e = 0 then Some (0, if null then [] else p, Some (of_nat (length p)), s)
        else Some (1, [], n, ks_errno e s))"
proof (cases "desc = None \<or> n = None \<or> \<not> cf_string_ok K (the desc)")
  case True
  then show ?thesis
    by (auto simp: ks_darwin_read_key_def darwin_read_error_def darwin_errnos Let_def split: option.splits)
next
  case False
  then obtain d m where a: "desc = Some d" "n = Some m" "cf_string_ok K d" by auto
  show ?thesis
  proof (cases "darwin_lookup K s d")
    case None
    then show ?thesis
      using ks_darwin_read_missing [OF s a(3) None] a by (simp add: darwin_read_error_def darwin_errnos)
  next
    case (Some p)
    have "m < of_nat (length p) \<longleftrightarrow> unat m < length p"
      using l [OF Some] by (simp add: word_less_nat_alt unat_of_nat take_bit_nat_eq_self)
    then show ?thesis
      using s Some a
      by (auto simp: ks_darwin_read_key_def darwin_read_error_def on_store_lock_def darwin_lookup_def Let_def
          ks_relock darwin_errnos)
  qed
qed

lemma ks_darwin_remove_any:
  assumes K: "cf_ok K" and s: "ks_store_lock s = Unlocked" "ks_store s = Some D"
  shows "case ks_darwin_remove_key E K desc s of
      None \<Rightarrow> \<exists>d. desc = Some d \<and> \<not> cf_string_ok K d
    | Some s' \<Rightarrow> ks_store_lock s' = Unlocked \<and>
        (case desc of
           None \<Rightarrow> \<exists>m. s' = s\<lparr>ks_w := (ks_w s)\<lparr>w_stderr := m\<rparr>\<rparr>
         | Some d \<Rightarrow> cf_string_ok K d \<and> darwin_lookup K s' = (darwin_lookup K s)(d := None) \<and> ks_w s' = ks_w s)"
proof (cases desc)
  case None
  then show ?thesis
    using s(1) by (auto simp: ks_darwin_remove_key_def cfe_log_notice_def cfe_log_message_frame)
next
  case (Some d)
  show ?thesis
  proof (cases "cf_string_ok K d")
    case True
    obtain s' where "ks_darwin_remove_key E K (Some d) s = Some s'"
        "darwin_lookup K s' = (darwin_lookup K s)(d := None)" "ks_store_lock s' = Unlocked" "ks_w s' = ks_w s"
      using ks_darwin_remove [OF K s True] by blast
    then show ?thesis using Some True by simp
  next
    case False
    have "ks_darwin_remove_key E K (Some d) s = None"
      using False by (simp add: ks_darwin_remove_key_def Let_def split: bind_split)
    then show ?thesis using Some False by simp
  qed
qed

lemma keystore_ops_errno: "keystore_ops (w\<lparr>errno := e\<rparr>) = keystore_ops w"
  by (simp add: keystore_ops_def)

subsection \<open>The concrete environments\<close>

text \<open>
  A keyring with its contents and the description that was asked for last, to which the serial number 7
  belongs; a dictionary that is a map.
\<close>

definition demo_ks :: "((string \<rightharpoonup> bytes) \<times> string, string \<rightharpoonup> bytes) ks_env" where
  "demo_ks =
     \<lparr>k_request_key = (\<lambda>t d ring s. case d of None \<Rightarrow> (Inr EINVAL, s)
        | Some d \<Rightarrow> if fst s d = None then (Inr ENOENT, s) else (Inl 7, (fst s, d))),
      k_add_key = (\<lambda>t d p n ring s. case (d, p) of
          (Some d, Some p) \<Rightarrow> if n = 0 \<or> 32767 < n then (Inr EINVAL, s)
            else (Inl 7, ((fst s)(d \<mapsto> take (unat n) p), d))
        | _ \<Rightarrow> (Inr EINVAL, s)),
      k_invalidate = (\<lambda>key s. (0, ((fst s)(snd s := None), snd s))),
      k_read = (\<lambda>key b n s. case fst s (snd s) of None \<Rightarrow> Inr ENOENT
        | Some p \<Rightarrow> Inl (int (length p), if length p \<le> unat n then p else [])),
      cf_string_ok = (\<lambda>d. d \<noteq> [CHR 0xFF]), cf_data_ok = (\<lambda>p. True), cf_dict_create = Some Map.empty,
      cf_remove = (\<lambda>D k. D(k := None)), cf_add = (\<lambda>D k v. if D k = None then D(k \<mapsto> v) else D), cf_get = (\<lambda>D. D),
      x_add_key = (\<lambda>n d p l s. None), x_remove_key = (\<lambda>n d s. None), x_read_key = (\<lambda>n d b l s. None)\<rparr>"

lemma demo_ks_ok:
  "keyutils_ok demo_ks (\<lambda>_. True) fst (\<lambda>s key d. key = 7 \<and> snd s = d)" "cf_ok demo_ks"
proof -
  have n: "(of_nat (length p) :: size_t) = 0 \<longleftrightarrow> length p = 0" "32767 < (of_nat (length p) :: size_t) \<longleftrightarrow> 32767 < length p"
    if "length p < 2 ^ 64" for p :: bytes
    using that by (simp_all add: word_less_nat_alt unat_of_nat take_bit_nat_eq_self flip: unat_eq_zero)
  show "keyutils_ok demo_ks (\<lambda>_. True) fst (\<lambda>s key d. key = 7 \<and> snd s = d)"
    by (auto simp: keyutils_ok_def demo_ks_def n unat_of_nat take_bit_nat_eq_self split: prod.splits sum.splits if_splits)
  show "cf_ok demo_ks" by (simp add: cf_ok_def demo_ks_def)
qed

definition ks_demo :: world where
  "ks_demo = blank_world\<lparr>w_ks_types := [28672 \<mapsto> ks_linux, 28800 \<mapsto> ks_darwin]\<rparr>"

definition ks_demo_state :: "((string \<rightharpoonup> bytes) \<times> string, string \<rightharpoonup> bytes) ks_state" where
  "ks_demo_state = \<lparr>ks_w = ks_demo, ks_kernel = (Map.empty, []), ks_store_lock = Unlocked, ks_store = None\<rparr>"

subsection \<open>Properties\<close>

text \<open>C21: The key store of the process is set once. The Linux constructor, on a process that has none, installs the
  keyring operations and does not abort; after that every attempt to set another is refused (EINVAL for
  NULL, else EBUSY) and leaves the store as it is, and a second constructor aborts.\<close>

theorem keystore_set_once:
  assumes "keystore w = NULL" and "sym E ''ks_linux'' \<noteq> NULL" and "w_ks_types w (sym E ''ks_linux'') = Some ks_linux"
  shows "\<exists>w'. ks_linux_register_type E w = Some (False, w') \<and> keystore_ops w' = Some Ks_linux_ops \<and>
    errno w' = errno w \<and>
    (\<forall>t. cfe_keystore_set_default E t w' = Some (1, w'\<lparr>errno := (if t = NULL then EINVAL else EBUSY)\<rparr>)) \<and>
    (\<exists>w''. ks_linux_register_type E w' = Some (True, w'') \<and> keystore w'' = keystore w')"
proof -
  obtain w' where w': "cfe_keystore_set_default E (sym E ''ks_linux'') w = Some (0, w')"
      "keystore w' = sym E ''ks_linux''" "keystore_ops w' = Some Ks_linux_ops" "errno w' = errno w"
    using cfe_keystore_set_default_first [OF assms] by (auto simp: ks_linux_def)
  have again: "cfe_keystore_set_default E t w' = Some (1, w'\<lparr>errno := (if t = NULL then EINVAL else EBUSY)\<rparr>)" for t
    using cfe_keystore_set_default_again [of w' t E] w'(2) assms(2)
    by (cases "t = NULL") (simp_all add: cfe_keystore_set_default_def)
  show ?thesis
    using w' again assms(2)
    by (intro exI [of _ w']) (auto simp: ks_linux_register_type_def cfe_log_critical_def cfe_log_message_frame)
qed

theorem keystore_set_once_witness:
  "\<exists>w'. ks_linux_register_type demo_env ks_demo = Some (False, w') \<and>
    cfe_keystore_set_default demo_env 28800 w' = Some (1, w'\<lparr>errno := EBUSY\<rparr>)"
  using keystore_set_once [of ks_demo demo_env] by (auto simp: ks_demo_def blank_world_def)

text \<open>C26: On Linux, through the operations of the process's key store, while the keyring of the user is what the
  process searches and nobody else changes it: adding a key answers 0 or 1. When it answers 0 the key has a
  size that keyutils allows and is stored: a read under its description answers 0 with its true size in
  *len whatever the size of the buffer, which holds the key when it is large enough (a buffer that is too
  small is not reported), and removing the key takes exactly it out of the keyring and makes the next read
  fail. When it answers 1 nothing is stored.\<close>

theorem keystore_linux_roundtrip:
  assumes o: "keystore_ops (ks_w s) = Some Ks_linux_ops" and K: "keyutils_ok K up kr holds"
    and u: "up (ks_kernel s)" "cstr d = d" "length p < 2 ^ 64"
  shows "\<exists>r s1. cfe_keystore_add_key K (Some d) (Some p) (of_nat (length p)) s = Some (r, s1) \<and>
    (if r = 0 then 0 < length p \<and> length p \<le> 32767 \<and>
       (\<exists>out s2 s3 s4. cfe_keystore_read_key K (Some d) False (Some n) s1 =
          Some (0, out, Some (of_nat (length p)), s2) \<and> (length p \<le> unat n \<longrightarrow> out = p) \<and>
        cfe_keystore_remove_key E K (Some d) s2 = Some s3 \<and> kr (ks_kernel s3) = (kr (ks_kernel s))(d := None) \<and>
        cfe_keystore_read_key K (Some d) False (Some n) s3 = Some (1, [], Some n, s4))
     else r = 1 \<and> kr (ks_kernel s1) = kr (ks_kernel s))"
proof -
  obtain r e k1 where k1: "ks_linux_add_key K (Some d) (Some p) (of_nat (length p)) s = (r, ks_errno e (s\<lparr>ks_kernel := k1\<rparr>))"
      "up k1" "if r = 0 then 0 < length p \<and> length p \<le> 32767 \<and> kr k1 = (kr (ks_kernel s))(d \<mapsto> p)
        else r = 1 \<and> kr k1 = kr (ks_kernel s)"
    using ks_linux_add [OF K u] by blast
  let ?s1 = "ks_errno e (s\<lparr>ks_kernel := k1\<rparr>)"
  have ops: "keystore_ops (ks_w (?s1\<lparr>ks_kernel := k\<rparr>)) = Some Ks_linux_ops" for k
    using o by (simp add: ks_errno_def keystore_ops_errno)
  have kern: "ks_kernel ?s1 = k1" "?s1 = ?s1\<lparr>ks_kernel := k1\<rparr>" by (simp_all add: ks_errno_def)
  have add: "cfe_keystore_add_key K (Some d) (Some p) (of_nat (length p)) s = Some (r, ?s1)"
    using o k1(1) by (simp add: cfe_keystore_add_key_def)
  show ?thesis
  proof (cases "r = 0")
    case False
    then show ?thesis using add k1(3) kern(1) by auto
  next
    case True
    then have p: "kr k1 = (kr (ks_kernel s))(d \<mapsto> p)" using k1(3) by simp
    obtain k2 out where k2: "ks_linux_read_key K (Some d) False (Some n) ?s1 =
        Some (0, out, Some (of_nat (length p)), ?s1\<lparr>ks_kernel := k2\<rparr>)" "length p \<le> unat n \<longrightarrow> out = p" "up k2" "kr k2 = kr k1"
      using ks_linux_read [OF K _ u(2), of ?s1 p n] k1(2) p kern(1) by auto
    obtain k3 where k3: "ks_linux_remove_key E K (Some d) (?s1\<lparr>ks_kernel := k2\<rparr>) = ?s1\<lparr>ks_kernel := k3\<rparr>" "up k3"
        "kr k3 = (kr k2)(d := None)"
      using ks_linux_remove [OF K _ u(2), of "?s1\<lparr>ks_kernel := k2\<rparr>" E] k2(3,4) p by auto
    obtain s4 where s4: "ks_linux_read_key K (Some d) False (Some n) (?s1\<lparr>ks_kernel := k3\<rparr>) = Some (1, [], Some n, s4)"
      using ks_linux_read_missing [OF K _ u(2), of "?s1\<lparr>ks_kernel := k3\<rparr>" False "Some n"] k3(2,3) by auto
    have read: "cfe_keystore_read_key K (Some d) False (Some n) ?s1 =
        Some (0, out, Some (of_nat (length p)), ?s1\<lparr>ks_kernel := k2\<rparr>)"
      using ops [of k1] k2(1) kern(2) by (simp add: cfe_keystore_read_key_def)
    have rest: "cfe_keystore_remove_key E K (Some d) (?s1\<lparr>ks_kernel := k2\<rparr>) = Some (?s1\<lparr>ks_kernel := k3\<rparr>)"
        "cfe_keystore_read_key K (Some d) False (Some n) (?s1\<lparr>ks_kernel := k3\<rparr>) = Some (1, [], Some n, s4)"
      using ops k3(1) s4 by (simp_all add: cfe_keystore_read_key_def cfe_keystore_remove_key_def)
    have "kr (ks_kernel (?s1\<lparr>ks_kernel := k3\<rparr>)) = (kr (ks_kernel s))(d := None)" using k3(3) k2(4) p by simp
    then show ?thesis using True add read rest k2(2) k1(3) by (intro exI [of _ r] exI [of _ ?s1]) auto
  qed
qed

theorem keystore_linux_roundtrip_witness:
  "\<exists>s1 s2. cfe_keystore_add_key demo_ks (Some ''k'') (Some [1, 2]) 2
      (ks_demo_state\<lparr>ks_w := ks_demo\<lparr>keystore := 28672\<rparr>\<rparr>) = Some (0, s1) \<and>
    cfe_keystore_read_key demo_ks (Some ''k'') False (Some 2) s1 = Some (0, [1, 2], Some 2, s2)"
proof -
  let ?s = "ks_demo_state\<lparr>ks_w := ks_demo\<lparr>keystore := 28672\<rparr>\<rparr>"
  have o: "keystore_ops (ks_w ?s) = Some Ks_linux_ops"
    by (simp add: keystore_ops_def ks_demo_def ks_linux_def)
  have "\<exists>s1. cfe_keystore_add_key demo_ks (Some ''k'') (Some [1, 2]) 2 ?s = Some (0, s1)"
    using o by (simp add: cfe_keystore_add_key_def ks_linux_add_key_def demo_ks_def)
  then show ?thesis
    using keystore_linux_roundtrip [OF o demo_ks_ok(1), of "''k''" "[1, 2]" 2 demo_env] by (auto simp: cstr_def)
qed

text \<open>C25: With the Core Foundation store, through the operations of the process's key store: adding a key replaces
  what was stored under its description, a read gives the last payload and its size, or ENOSPC and
  nothing else when the buffer is too small, and after a removal a read answers ENOENT; the lock of the
  store is free after every call.\<close>

theorem keystore_darwin_roundtrip:
  assumes o: "keystore_ops (ks_w s) = Some Ks_darwin_ops" and K: "cf_ok K"
    and s: "ks_store_lock s = Unlocked" "ks_store s = Some D" and d: "cf_string_ok K d"
    and p: "cf_data_ok K p" "p \<noteq> []" "length p < 2 ^ 64"
  shows "\<exists>s1 s2. cfe_keystore_add_key K (Some d) (Some p) (of_nat (length p)) s = Some (0, s1) \<and>
    darwin_lookup K s1 = (darwin_lookup K s)(d \<mapsto> p) \<and> ks_store_lock s1 = Unlocked \<and>
    cfe_keystore_read_key K (Some d) False (Some n) s1 =
      (if length p \<le> unat n then Some (0, p, Some (of_nat (length p)), s1)
       else Some (1, [], Some n, ks_errno ENOSPC s1)) \<and>
    cfe_keystore_remove_key E K (Some d) s1 = Some s2 \<and>
    darwin_lookup K s2 = (darwin_lookup K s)(d := None) \<and> ks_store_lock s2 = Unlocked \<and>
    cfe_keystore_read_key K (Some d) False (Some n) s2 = Some (1, [], Some n, ks_errno ENOENT s2)"
proof -
  obtain s1 where s1: "ks_darwin_add_key K (Some d) (Some p) (of_nat (length p)) s = Some (0, s1)"
      "darwin_lookup K s1 = (darwin_lookup K s)(d \<mapsto> p)" "ks_store_lock s1 = Unlocked" "ks_w s1 = ks_w s"
      "ks_store s1 \<noteq> None"
    using ks_darwin_add [OF K s d p] by blast
  have r1: "ks_darwin_read_key K (Some d) False (Some n) s1 = (if length p \<le> unat n
      then Some (0, p, Some (of_nat (length p)), s1) else Some (1, [], Some n, ks_errno ENOSPC s1))"
    by (rule ks_darwin_read [OF s1(3,5) d _ p(3)]) (simp add: s1(2))
  obtain D' where "ks_store s1 = Some D'" using s1(5) by blast
  from ks_darwin_remove [OF K s1(3) this d] obtain s2 where s2: "ks_darwin_remove_key E K (Some d) s1 = Some s2"
      "darwin_lookup K s2 = (darwin_lookup K s1)(d := None)" "ks_store_lock s2 = Unlocked" "ks_w s2 = ks_w s1"
      "ks_store s2 \<noteq> None"
    by blast
  have r2: "ks_darwin_read_key K (Some d) False (Some n) s2 = Some (1, [], Some n, ks_errno ENOENT s2)"
    by (rule ks_darwin_read_missing [OF s2(3,5) d]) (simp add: s2(2))
  show ?thesis
    using s1 s2 r1 r2 o
    by (intro exI [of _ s1] exI [of _ s2])
      (simp add: cfe_keystore_add_key_def cfe_keystore_read_key_def cfe_keystore_remove_key_def)
qed

theorem keystore_darwin_roundtrip_witness:
  "\<exists>s1. cfe_keystore_add_key demo_ks (Some ''k'') (Some [1, 2]) 2
      (ks_demo_state\<lparr>ks_w := ks_demo\<lparr>keystore := 28800\<rparr>, ks_store := Some Map.empty\<rparr>) = Some (0, s1) \<and>
    cfe_keystore_read_key demo_ks (Some ''k'') False (Some 8) s1 = Some (0, [1, 2], Some 2, s1)"
proof -
  let ?s = "ks_demo_state\<lparr>ks_w := ks_demo\<lparr>keystore := 28800\<rparr>, ks_store := Some Map.empty\<rparr>"
  have o: "keystore_ops (ks_w ?s) = Some Ks_darwin_ops"
    by (simp add: keystore_ops_def ks_demo_def ks_darwin_def)
  show ?thesis
    using keystore_darwin_roundtrip [OF o demo_ks_ok(2) _ _ _ _ , of _ "''k''" "[1, 2]" 8 demo_env]
    by (auto simp: ks_demo_state_def demo_ks_def)
qed

text \<open>C38: The errors of the Core Foundation store, through the operations of the process's key store, with its lock
  free. Adding a key answers 0 exactly when description, payload and length are given and Core Foundation
  can make its objects of them, and then replaces what was stored; otherwise it answers 1 with EINVAL or
  ENOMEM. A read answers 0 exactly when, besides, the key is there and the buffer is large enough, and
  otherwise 1 with EINVAL, ENOMEM, ENOENT or ENOSPC, the buffer and *len untouched. A failed call changes
  errno and nothing else. A removal with a description is defined exactly when Core Foundation can make a
  string of it (otherwise NULL goes to the dictionary); without one it changes nothing but the log. The
  lock is free after every call.\<close>

theorem keystore_darwin_errors:
  assumes o: "keystore_ops (ks_w s) = Some Ks_darwin_ops" and K: "cf_ok K"
    and s: "ks_store_lock s = Unlocked" "ks_store s = Some D"
    and l: "\<forall>d p. darwin_lookup K s d = Some p \<longrightarrow> length p < 2 ^ 64"
  shows "(let e = darwin_add_error K desc payload len
      in \<exists>s'. cfe_keystore_add_key K desc payload len s = Some (if e = 0 then 0 else 1, s') \<and>
        ks_store_lock s' = Unlocked \<and>
        (if e = 0 then darwin_lookup K s' = (darwin_lookup K s)(the desc \<mapsto> take (unat len) (the payload)) \<and> ks_w s' = ks_w s
         else s' = ks_errno e s)) \<and>
    (let e = darwin_read_error K s desc n; p = the (darwin_lookup K s (the desc))
      in cfe_keystore_read_key K desc null n s =
        (if e = 0 then Some (0, if null then [] else p, Some (of_nat (length p)), s)
         else Some (1, [], n, ks_errno e s))) \<and>
    (case cfe_keystore_remove_key E K desc s of
       None \<Rightarrow> \<exists>d. desc = Some d \<and> \<not> cf_string_ok K d
     | Some s' \<Rightarrow> ks_store_lock s' = Unlocked \<and>
         (case desc of
            None \<Rightarrow> \<exists>m. s' = s\<lparr>ks_w := (ks_w s)\<lparr>w_stderr := m\<rparr>\<rparr>
          | Some d \<Rightarrow> cf_string_ok K d \<and> darwin_lookup K s' = (darwin_lookup K s)(d := None) \<and> ks_w s' = ks_w s))"
proof (intro conjI)
  let ?e = "darwin_add_error K desc payload len"
  have "\<exists>s'. ks_darwin_add_key K desc payload len s = Some (if ?e = 0 then 0 else 1, s') \<and> ks_store_lock s' = Unlocked \<and>
      (if ?e = 0 then darwin_lookup K s' = (darwin_lookup K s)(the desc \<mapsto> take (unat len) (the payload)) \<and> ks_w s' = ks_w s
       else s' = ks_errno ?e s)"
    using ks_darwin_add_any [OF K s] ks_darwin_add_fails [of K desc payload len s] s(1)
    by (cases "?e = 0") (auto simp: ks_errno_def)
  then show "let e = ?e
      in \<exists>s'. cfe_keystore_add_key K desc payload len s = Some (if e = 0 then 0 else 1, s') \<and>
        ks_store_lock s' = Unlocked \<and>
        (if e = 0 then darwin_lookup K s' = (darwin_lookup K s)(the desc \<mapsto> take (unat len) (the payload)) \<and> ks_w s' = ks_w s
         else s' = ks_errno e s)"
    using o by (simp add: cfe_keystore_add_key_def Let_def)
  show "let e = darwin_read_error K s desc n; p = the (darwin_lookup K s (the desc))
      in cfe_keystore_read_key K desc null n s =
        (if e = 0 then Some (0, if null then [] else p, Some (of_nat (length p)), s)
         else Some (1, [], n, ks_errno e s))"
    using ks_darwin_read_any [OF s(1) _ l [rule_format]] s(2) o by (simp add: cfe_keystore_read_key_def Let_def)
  show "case cfe_keystore_remove_key E K desc s of
       None \<Rightarrow> \<exists>d. desc = Some d \<and> \<not> cf_string_ok K d
     | Some s' \<Rightarrow> ks_store_lock s' = Unlocked \<and>
         (case desc of
            None \<Rightarrow> \<exists>m. s' = s\<lparr>ks_w := (ks_w s)\<lparr>w_stderr := m\<rparr>\<rparr>
          | Some d \<Rightarrow> cf_string_ok K d \<and> darwin_lookup K s' = (darwin_lookup K s)(d := None) \<and> ks_w s' = ks_w s)"
    using ks_darwin_remove_any [OF K s, where E = E and desc = desc] o by (simp add: cfe_keystore_remove_key_def)
qed

theorem keystore_darwin_errors_witness:
  "\<exists>s. ks_store s = Some Map.empty \<and>
    cfe_keystore_add_key demo_ks (Some [CHR 0xFF]) (Some [1]) 1 s = Some (1, ks_errno ENOMEM s) \<and>
    cfe_keystore_read_key demo_ks (Some ''k'') False (Some 8) s = Some (1, [], Some 8, ks_errno ENOENT s) \<and>
    cfe_keystore_remove_key demo_env demo_ks (Some [CHR 0xFF]) s = None"
proof -
  let ?s = "ks_demo_state\<lparr>ks_w := ks_demo\<lparr>keystore := 28800\<rparr>, ks_store := Some Map.empty\<rparr>"
  have o: "keystore_ops (ks_w ?s) = Some Ks_darwin_ops"
    by (simp add: keystore_ops_def ks_demo_def ks_darwin_def)
  have s: "ks_store_lock ?s = Unlocked" "ks_store ?s = Some Map.empty" by (simp_all add: ks_demo_state_def)
  have l: "\<forall>d p. darwin_lookup demo_ks ?s d = Some p \<longrightarrow> length p < 2 ^ 64"
    by (simp add: darwin_lookup_def demo_ks_def)
  note all = keystore_darwin_errors [OF o demo_ks_ok(2) s l]
  have "cfe_keystore_add_key demo_ks (Some [CHR 0xFF]) (Some [1]) 1 ?s = Some (1, ks_errno ENOMEM ?s)"
    using all [where desc = "Some [CHR 0xFF]" and payload = "Some [1]" and len = 1, THEN conjunct1]
    by (simp add: darwin_add_error_def demo_ks_def ENOMEM_def)
  moreover have "cfe_keystore_read_key demo_ks (Some ''k'') False (Some 8) ?s = Some (1, [], Some 8, ks_errno ENOENT ?s)"
    using all [where desc = "Some ''k''" and n = "Some 8" and null = False, THEN conjunct2, THEN conjunct1]
    by (simp add: darwin_read_error_def darwin_lookup_def demo_ks_def ENOENT_def Let_def)
  moreover have "cfe_keystore_remove_key demo_env demo_ks (Some [CHR 0xFF]) ?s = None"
    using all [where E = demo_env and desc = "Some [CHR 0xFF]", THEN conjunct2, THEN conjunct2]
    by (auto simp: demo_ks_def split: option.splits)
  ultimately show ?thesis using s(2) by blast
qed

end
