(* ===== verification/Cfe_Library.thy ===== *)
theory Cfe_Library
  imports Cfe_Pbkdf Cfe_Rand Cfe_Hash Cfe_Open Cfe_Keystore
begin

text \<open>
  The library as it is loaded on Linux: the constructors of the six source files that register types and
  of the key store run before \<^verbatim>\<open>main\<close>, in an order that the linker chooses. Each leaves the state of the
  others alone, so every order ends in the same kind of state: all types registered, once, none of them
  missing, and the key store set.
\<close>

subsection \<open>The constructors\<close>

datatype constructor =
    Init_pbkdf | Init_rand | Init_hash | Init_cipher | Init_header | Init_writer | Init_keystore

text \<open>Whether the constructor calls \<open>abort\<close>, and the world; the digests' constructor drops the results.\<close>

fun run_constructor :: "env \<Rightarrow> constructor \<Rightarrow> world \<Rightarrow> (bool \<times> world) option" where
  "run_constructor E Init_pbkdf w = pbkdf_openssl_init E w"
| "run_constructor E Init_rand w = rand_openssl_init E w"
| "run_constructor E Init_hash w = map_option (Pair False) (hash_openssl_init E w)"
| "run_constructor E Init_cipher w = cipher_openssl_init E w"
| "run_constructor E Init_header w = header_v1_init E w"
| "run_constructor E Init_writer w = writer_v1_init E w"
| "run_constructor E Init_keystore w = ks_linux_register_type E w"

text \<open>An \<open>abort\<close> ends the process: nothing runs after it.\<close>

fun run_constructors :: "env \<Rightarrow> constructor list \<Rightarrow> world \<Rightarrow> (bool \<times> world) option" where
  "run_constructors E [] w = Some (False, w)"
| "run_constructors E (c # cs) w = do {
     (aborted, w) \<leftarrow> run_constructor E c w;
     if aborted then Some (True, w) else run_constructors E cs w
   }"

subsection \<open>Before and after\<close>

text \<open>The static objects are at different addresses, and none of them is the list head.\<close>

definition placed :: "addr \<Rightarrow> addr \<Rightarrow> (addr \<times> 't) list \<Rightarrow> bool" where
  "placed head off objs \<longleftrightarrow> distinct (map fst objs) \<and> NULL \<notin> fst ` set objs \<and>
     head \<notin> (\<lambda>t. t + off) ` fst ` set objs"

lemma placedD:
  assumes "placed head off objs"
  shows "distinct (map fst objs)" and "NULL \<notin> fst ` set objs" and "head \<notin> (\<lambda>t. t + off) ` fst ` set objs"
  using assms by (simp_all add: placed_def)

text \<open>The part of the load image that a constructor starts from.\<close>

fun unloaded :: "env \<Rightarrow> constructor \<Rightarrow> world \<Rightarrow> bool" where
  "unloaded E Init_pbkdf w = (\<exists>h. w_pbkdf w = load_registry h PBKDF_NEXT (pbkdf_statics E) \<and>
     placed h PBKDF_NEXT (pbkdf_statics E))"
| "unloaded E Init_rand w = (\<exists>h. w_rand w = load_registry h RAND_NEXT [(sym E ''openssl_type_rand'', openssl_type_rand)] \<and>
     placed h RAND_NEXT [(sym E ''openssl_type_rand'', openssl_type_rand)])"
| "unloaded E Init_hash w = (\<exists>h. w_hash w = load_registry h HASH_NEXT (hash_statics E) \<and>
     placed h HASH_NEXT (hash_statics E))"
| "unloaded E Init_cipher w = (\<exists>h. w_cipher w = load_registry h CIPHER_NEXT (cipher_statics E) \<and>
     placed h CIPHER_NEXT (cipher_statics E))"
| "unloaded E Init_header w = (header_default w = NULL \<and>
     (\<exists>h. w_header w = load_registry h HEADER_NEXT [(sym E ''header_v1_type'', header_v1_type)] \<and>
       placed h HEADER_NEXT [(sym E ''header_v1_type'', header_v1_type)]))"
| "unloaded E Init_writer w = (writer_default w = NULL \<and>
     (\<exists>h. w_writer w = load_registry h WRITER_NEXT [(sym E ''writer_v1_type'', writer_v1_type)] \<and>
       placed h WRITER_NEXT [(sym E ''writer_v1_type'', writer_v1_type)]))"
| "unloaded E Init_keystore w = (keystore w = NULL \<and> sym E ''ks_linux'' \<noteq> NULL \<and>
     w_ks_types w (sym E ''ks_linux'') = Some ks_linux)"

text \<open>What it leaves: its types registered in order, each with one reference; for the formats, the default;
  and the key store.\<close>

fun loaded :: "env \<Rightarrow> constructor \<Rightarrow> world \<Rightarrow> bool" where
  "loaded E Init_pbkdf w = (tmpl_repr pbkdf_layout w (map fst (pbkdf_statics E)) \<and>
     (\<forall>(a, ty) \<in> set (pbkdf_statics E). rg_types (w_pbkdf w) a = Some (ty\<lparr>pt_refcnt := 1\<rparr>)))"
| "loaded E Init_rand w = (tmpl_repr rand_layout w [sym E ''openssl_type_rand''] \<and>
     rg_types (w_rand w) (sym E ''openssl_type_rand'') = Some (openssl_type_rand\<lparr>rt_refcnt := 1\<rparr>))"
| "loaded E Init_hash w = (tmpl_repr hash_layout w (map fst (hash_statics E)) \<and>
     (\<forall>(a, ty) \<in> set (hash_statics E). rg_types (w_hash w) a = Some (ty\<lparr>ht_refcnt := 1\<rparr>)))"
| "loaded E Init_cipher w = (tmpl_repr cipher_layout w (map fst (cipher_statics E)) \<and>
     (\<forall>(a, ty) \<in> set (cipher_statics E). rg_types (w_cipher w) a = Some (ty\<lparr>ct_refcnt := 1\<rparr>)))"
| "loaded E Init_header w = (tmpl_repr header_layout w [sym E ''header_v1_type''] \<and>
     header_default w = sym E ''header_v1_type'' \<and>
     rg_types (w_header w) (sym E ''header_v1_type'') = Some (header_v1_type\<lparr>hdt_refcnt := 1\<rparr>))"
| "loaded E Init_writer w = (tmpl_repr writer_layout w [sym E ''writer_v1_type''] \<and>
     writer_default w = sym E ''writer_v1_type'' \<and>
     rg_types (w_writer w) (sym E ''writer_v1_type'') = Some (writer_v1_type\<lparr>fwt_refcnt := 1\<rparr>))"
| "loaded E Init_keystore w = (keystore w \<noteq> NULL \<and> keystore_ops w = Some Ks_linux_ops)"

text \<open>The part of the world that a constructor may change.\<close>

fun touches :: "constructor \<Rightarrow> world \<Rightarrow> world \<Rightarrow> bool" where
  "touches Init_pbkdf w w' = (\<exists>R. w' = w\<lparr>w_pbkdf := R\<rparr>)"
| "touches Init_rand w w' = (\<exists>R m. w' = w\<lparr>w_rand := R, w_stderr := m\<rparr>)"
| "touches Init_hash w w' = (\<exists>R. w' = w\<lparr>w_hash := R\<rparr>)"
| "touches Init_cipher w w' = (\<exists>R. w' = w\<lparr>w_cipher := R\<rparr>)"
| "touches Init_header w w' = (\<exists>R d. w' = w\<lparr>w_header := R, header_default := d\<rparr>)"
| "touches Init_writer w w' = (\<exists>R d. w' = w\<lparr>w_writer := R, writer_default := d\<rparr>)"
| "touches Init_keystore w w' = (\<exists>k m. w' = w\<lparr>w_stderr := m, keystore := k\<rparr>)"

lemma run_constructor_ok:
  assumes "unloaded E c w"
  shows "\<exists>w'. run_constructor E c w = Some (False, w') \<and> loaded E c w' \<and> touches c w w'"
proof (cases c)
  case Init_pbkdf
  with assms obtain h where h: "w_pbkdf w = load_registry h PBKDF_NEXT (pbkdf_statics E)" "placed h PBKDF_NEXT (pbkdf_statics E)"
    by auto
  show ?thesis using pbkdf_init_ok [OF h(1) h(2) [THEN placedD(1)] h(2) [THEN placedD(2)] h(2) [THEN placedD(3)]] Init_pbkdf
    by auto
next
  case Init_hash
  with assms obtain h where h: "w_hash w = load_registry h HASH_NEXT (hash_statics E)" "placed h HASH_NEXT (hash_statics E)"
    by auto
  show ?thesis using hash_init_ok [OF h(1) h(2) [THEN placedD(1)] h(2) [THEN placedD(2)] h(2) [THEN placedD(3)]] Init_hash
    by auto
next
  case Init_cipher
  with assms obtain h where h: "w_cipher w = load_registry h CIPHER_NEXT (cipher_statics E)" "placed h CIPHER_NEXT (cipher_statics E)"
    by auto
  show ?thesis using cipher_init_ok [OF h(1) h(2) [THEN placedD(1)] h(2) [THEN placedD(2)] h(2) [THEN placedD(3)]] Init_cipher
    by auto
next
  case Init_rand
  with assms obtain h where h: "w_rand w = load_registry h RAND_NEXT [(sym E ''openssl_type_rand'', openssl_type_rand)]"
      "sym E ''openssl_type_rand'' \<noteq> NULL" "sym E ''openssl_type_rand'' + RAND_NEXT \<noteq> h"
    by (auto simp: placed_def)
  show ?thesis using rand_openssl_init_ok [OF h(1) refl h(2,3)] Init_rand by auto
next
  case Init_header
  with assms obtain h where h: "w_header w = load_registry h HEADER_NEXT [(sym E ''header_v1_type'', header_v1_type)]" "header_default w = NULL"
      "sym E ''header_v1_type'' \<noteq> NULL" "h \<noteq> sym E ''header_v1_type'' + HEADER_NEXT"
    by (auto simp: placed_def)
  show ?thesis using header_v1_init_ok [OF h(1,2) refl h(3,4)] Init_header by auto
next
  case Init_writer
  with assms obtain h where h: "w_writer w = load_registry h WRITER_NEXT [(sym E ''writer_v1_type'', writer_v1_type)]" "writer_default w = NULL"
      "sym E ''writer_v1_type'' \<noteq> NULL" "h \<noteq> sym E ''writer_v1_type'' + WRITER_NEXT"
    by (auto simp: placed_def)
  show ?thesis using writer_v1_init_ok [OF h(1,2) refl h(3,4)] Init_writer by auto
next
  case Init_keystore
  with assms have k: "keystore w = NULL" "sym E ''ks_linux'' \<noteq> NULL" "w_ks_types w (sym E ''ks_linux'') = Some ks_linux"
    by auto
  show ?thesis using ks_linux_register_ok [OF k] Init_keystore by auto
qed

lemma repr_local:
  "w_pbkdf w' = w_pbkdf w \<Longrightarrow> tmpl_repr pbkdf_layout w' = tmpl_repr pbkdf_layout w"
  "w_rand w' = w_rand w \<Longrightarrow> tmpl_repr rand_layout w' = tmpl_repr rand_layout w"
  "w_hash w' = w_hash w \<Longrightarrow> tmpl_repr hash_layout w' = tmpl_repr hash_layout w"
  by (simp_all add: fun_eq_iff tmpl_repr_def pbkdf_layout_def rand_layout_def hash_layout_def)

lemma touches_parts:
  assumes "touches c w w'"
  shows "(c \<noteq> Init_pbkdf \<longrightarrow> w_pbkdf w' = w_pbkdf w) \<and> (c \<noteq> Init_rand \<longrightarrow> w_rand w' = w_rand w) \<and>
    (c \<noteq> Init_hash \<longrightarrow> w_hash w' = w_hash w) \<and> (c \<noteq> Init_cipher \<longrightarrow> w_cipher w' = w_cipher w) \<and>
    (c \<noteq> Init_header \<longrightarrow> w_header w' = w_header w \<and> header_default w' = header_default w) \<and>
    (c \<noteq> Init_writer \<longrightarrow> w_writer w' = w_writer w \<and> writer_default w' = writer_default w) \<and>
    (c \<noteq> Init_keystore \<longrightarrow> keystore w' = keystore w) \<and> w_ks_types w' = w_ks_types w"
  using assms by (cases c) auto

lemma other_constructor:
  assumes "touches c w w'" and "d \<noteq> c"
  shows "unloaded E d w' = unloaded E d w" and "loaded E d w' = loaded E d w"
proof -
  have u: "unloaded E d w' = unloaded E d w \<and> loaded E d w' = loaded E d w"
    using touches_parts [OF assms(1)] assms(2) header_repr_cipher [of w' w] writer_repr_cong [of w' w]
      cipher_repr_cong [of w' w] repr_local [of w' w]
    by (cases d) (simp_all add: keystore_ops_def)
  then show "unloaded E d w' = unloaded E d w" "loaded E d w' = loaded E d w" by simp_all
qed

text \<open>Only the registries, the key store and the log differ.\<close>

definition registries_of :: "world \<Rightarrow> world \<Rightarrow> world" where
  "registries_of w w' = w'\<lparr>w_pbkdf := w_pbkdf w, w_rand := w_rand w, w_hash := w_hash w, w_cipher := w_cipher w,
     w_header := w_header w, header_default := header_default w, w_writer := w_writer w,
     writer_default := writer_default w, keystore := keystore w, w_stderr := w_stderr w\<rparr>"

definition registries_only :: "world \<Rightarrow> world \<Rightarrow> bool" where
  "registries_only w w' \<longleftrightarrow> registries_of w w' = w"

lemma registries_only_trans:
  assumes "registries_only w v" and "registries_only v w'"
  shows "registries_only w w'"
proof -
  have "registries_of w w' = registries_of w (registries_of v w')" by (simp add: registries_of_def)
  then show ?thesis using assms by (simp add: registries_only_def)
qed

lemma run_constructors_ok:
  assumes "distinct cs" and "\<forall>c \<in> set cs. unloaded E c w"
  shows "\<exists>w'. run_constructors E cs w = Some (False, w') \<and> (\<forall>c \<in> set cs. loaded E c w') \<and>
    (\<forall>d. d \<notin> set cs \<longrightarrow> loaded E d w' = loaded E d w) \<and>
    registries_only w w'"
  using assms
proof (induction cs arbitrary: w)
  case Nil
  then show ?case by (simp add: registries_only_def registries_of_def)
next
  case (Cons c cs)
  obtain v where v: "run_constructor E c w = Some (False, v)" "loaded E c v" "touches c w v"
    using run_constructor_ok [of E c w] Cons.prems(2) by auto
  have "unloaded E d v" if d: "d \<in> set cs" for d
  proof -
    have "d \<noteq> c" using Cons.prems(1) d by auto
    then show ?thesis using other_constructor(1) [OF v(3), of d E] Cons.prems(2) d by simp
  qed
  then obtain w' where w': "run_constructors E cs v = Some (False, w')" "\<forall>d \<in> set cs. loaded E d w'"
      "\<forall>d. d \<notin> set cs \<longrightarrow> loaded E d w' = loaded E d v"
      "registries_only v w'"
    using Cons.IH Cons.prems(1) by force
  have "registries_only w v"
    using v(3) by (cases c) (auto simp: registries_only_def registries_of_def)
  then have "registries_only w w'" using w'(4) by (rule registries_only_trans)
  then show ?case
    using v(1,2) w'(1-3) Cons.prems(1) other_constructor(2) [OF v(3)] by (intro exI [of _ w']) auto
qed

lemma constructor_UNIV: "UNIV = {Init_pbkdf, Init_rand, Init_hash, Init_cipher, Init_header, Init_writer, Init_keystore}"
  using constructor.exhaust by blast

subsection \<open>The concrete environment\<close>

definition demo_order :: "constructor list" where
  "demo_order = [Init_writer, Init_cipher, Init_rand, Init_keystore, Init_header, Init_hash, Init_pbkdf]"

definition library_demo :: world where
  "library_demo = blank_world\<lparr>
     w_pbkdf := load_registry 16 PBKDF_NEXT (pbkdf_statics demo_env),
     w_rand := load_registry 32 RAND_NEXT [(16384, openssl_type_rand)],
     w_hash := load_registry 48 HASH_NEXT (hash_statics demo_env),
     w_cipher := load_registry 64 CIPHER_NEXT (cipher_statics demo_env),
     w_header := load_registry 80 HEADER_NEXT [(20480, header_v1_type)],
     w_writer := load_registry 96 WRITER_NEXT [(24576, writer_v1_type)],
     w_ks_types := [28672 \<mapsto> ks_linux]\<rparr>"

lemma library_demo_unloaded: "unloaded demo_env c library_demo"
  by (cases c) (auto simp: library_demo_def placed_def blank_world_def pbkdf_statics_def hash_statics_def
    cipher_statics_def PBKDF_NEXT_def RAND_NEXT_def HASH_NEXT_def CIPHER_NEXT_def HEADER_NEXT_def WRITER_NEXT_def)

definition library_up :: world where
  "library_up = snd (the (run_constructors demo_env demo_order library_demo))"

lemma library_up:
  "run_constructors demo_env demo_order library_demo = Some (False, library_up)"
  "loaded demo_env c library_up" "registries_only library_demo library_up"
proof -
  obtain w' where w': "run_constructors demo_env demo_order library_demo = Some (False, w')"
      "\<forall>c \<in> set demo_order. loaded demo_env c w'" "registries_only library_demo w'"
    using run_constructors_ok [of demo_order demo_env library_demo] library_demo_unloaded
    by (auto simp: demo_order_def)
  have u: "w' = library_up" using w'(1) by (simp add: library_up_def)
  show "run_constructors demo_env demo_order library_demo = Some (False, library_up)"
    "registries_only library_demo library_up" using w'(1,3) by (simp_all add: u)
  show "loaded demo_env c library_up" using w'(2) by (cases c) (simp_all add: u demo_order_def)
qed

lemma library_up_parts [simp]:
  "w_files library_up = Map.empty" "w_headers library_up = Map.empty" "w_writers library_up = Map.empty"
  "w_hash_ctxs library_up = Map.empty" "w_hash_octxs library_up = Map.empty" "w_cipher_ctxs library_up = Map.empty"
  "w_cipher_octxs library_up = Map.empty" "w_blocks library_up = Map.empty" "w_maps library_up = Map.empty"
  "w_fsize library_up = (\<lambda>_. 0)"
  using arg_cong [OF library_up(3) [unfolded registries_only_def], of w_files]
    arg_cong [OF library_up(3) [unfolded registries_only_def], of w_headers]
    arg_cong [OF library_up(3) [unfolded registries_only_def], of w_writers]
    arg_cong [OF library_up(3) [unfolded registries_only_def], of w_hash_ctxs]
    arg_cong [OF library_up(3) [unfolded registries_only_def], of w_hash_octxs]
    arg_cong [OF library_up(3) [unfolded registries_only_def], of w_cipher_ctxs]
    arg_cong [OF library_up(3) [unfolded registries_only_def], of w_cipher_octxs]
    arg_cong [OF library_up(3) [unfolded registries_only_def], of w_blocks]
    arg_cong [OF library_up(3) [unfolded registries_only_def], of w_maps]
    arg_cong [OF library_up(3) [unfolded registries_only_def], of w_fsize]
  by (simp_all add: registries_of_def library_demo_def blank_world_def)

lemma library_up_fresh [simp]:
  "fresh library_up p n \<longleftrightarrow> p \<noteq> NULL \<and> unat p + unat n \<le> 2 ^ 64"
  by (simp add: fresh_def block_free_def)

text \<open>The blocks of a creation in the demonstration environment do not overlap.\<close>

lemma library_up_header_fresh:
  "e_calloc demo_libc 88 (header_type_put t ty (new_file 65536 library_up)) = 131072"
  by (simp add: demo_calloc demo_block_def header_type_put_def new_file_def fresh_def block_free_def)

lemma library_up_writer_fresh:
  "e_calloc demo_libc 104 (cipher_inc ct cty (writer_type_put t ty (half_file 65536 131072 n 1048576 demo_env fd hty library_up))) =
    196608"
  by (simp add: demo_calloc demo_block_def cipher_inc_def writer_type_put_def half_file_def header_type_put_def
      fresh_def block_free_def)

lemma library_up_ready:
  assumes "n \<noteq> 0"
  shows "create_ready demo_env 3 n 65536 131072 1048576 library_up [20480] (header_v1_type\<lparr>hdt_refcnt := 1\<rparr>)
    [24576] (writer_v1_type\<lparr>fwt_refcnt := 1\<rparr>)"
proof -
  have regs: "tmpl_repr header_layout library_up [20480]" "header_default library_up = 20480"
    "rg_types (w_header library_up) 20480 = Some (header_v1_type\<lparr>hdt_refcnt := 1\<rparr>)"
    "tmpl_repr writer_layout library_up [24576]" "writer_default library_up = 24576"
    "rg_types (w_writer library_up) 24576 = Some (writer_v1_type\<lparr>fwt_refcnt := 1\<rparr>)"
    using library_up(2) [of Init_header] library_up(2) [of Init_writer] by simp_all
  have obj: "e_calloc demo_libc SIZEOF_FILE library_up = 65536"
    by (simp add: demo_calloc demo_block_def SIZEOF_FILE_def)
  have space: "fst (cfe_fallocate demo_env 3 0 n v) = 0" for v
    by (simp add: cfe_fallocate_def posix_fallocate_def demo_libc_def)
  have room: "w_maps v 1048576 = None \<Longrightarrow> e_mmap demo_libc n 3 v = Inl 1048576" for v
    by (simp add: demo_libc_def)
  have unmap: "e_munmap demo_libc 1048576 n v = 0" for v by (simp add: demo_libc_def)
  show ?thesis
    using regs obj space room unmap library_up_header_fresh demo_calloc_ok(1)
    by (simp add: create_ready_def SIZEOF_HEADER_V1_def header_room_def new_header_def header_type_put_def new_file_def
        MAP_FAILED_def header_v1_type_def writer_v1_type_def)
qed

lemma library_up_ciphers:
  "tmpl_repr cipher_layout library_up [8192, 8320, 8448, 8576, 8704, 8832]"
  "tmpl_key cipher_layout library_up 8192 = Some (cstr ''aes-cbc-128'')"
  "rg_types (w_cipher library_up) 8192 = Some (openssl_type_aes_cbc128\<lparr>ct_refcnt := 1\<rparr>)"
  using library_up(2) [of Init_cipher]
  by (simp_all add: cipher_statics_def tmpl_key_def reg_key_def cipher_layout_def openssl_type_aes_cbc128_def)

end
