(* ===== verification/Cfe_Hlist.thy ===== *)
theory Cfe_Hlist
  imports Cfe_List
begin

text \<open>
  \<^verbatim>\<open>include/cfe/list.h\<close>, the second half: lists with a head of one pointer, for hash tables. A
  \<open>struct hlist_node\<close> points forwards to the next node and backwards to the pointer that points to it,
  which is the field \<open>first\<close> of the head or the field \<open>next\<close> of the node before. Both fields are at
  offset 0, so that the address of the pointer is the address of the object that holds it.
  \<open>hlist h head xs\<close> says that the nodes from \<open>head\<close> are \<open>xs\<close>, with the backward pointers right and
  NULL at the end; the operations are shown to be operations on \<open>xs\<close>.
\<close>

subsection \<open>Heads, nodes and single stores\<close>

record hlist_head =
  hh_first :: addr

record hlist_node =
  hn_next :: addr
  hn_pprev :: addr

record hheap =
  hl_heads :: "addr \<rightharpoonup> hlist_head"
  hl_nodes :: "addr \<rightharpoonup> hlist_node"

definition hget_first :: "addr \<Rightarrow> hheap \<Rightarrow> addr option" where
  "hget_first a h = map_option hh_first (hl_heads h a)"

definition hget_next :: "addr \<Rightarrow> hheap \<Rightarrow> addr option" where
  "hget_next a h = map_option hn_next (hl_nodes h a)"

definition hget_pprev :: "addr \<Rightarrow> hheap \<Rightarrow> addr option" where
  "hget_pprev a h = map_option hn_pprev (hl_nodes h a)"

definition hset_first :: "addr \<Rightarrow> addr \<Rightarrow> hheap \<Rightarrow> hheap option" where
  "hset_first a v h = do {
     n \<leftarrow> hl_heads h a;
     Some (h\<lparr>hl_heads := (hl_heads h)(a \<mapsto> n\<lparr>hh_first := v\<rparr>)\<rparr>)
   }"

definition hset_next :: "addr \<Rightarrow> addr \<Rightarrow> hheap \<Rightarrow> hheap option" where
  "hset_next a v h = do {
     n \<leftarrow> hl_nodes h a;
     Some (h\<lparr>hl_nodes := (hl_nodes h)(a \<mapsto> n\<lparr>hn_next := v\<rparr>)\<rparr>)
   }"

definition hset_pprev :: "addr \<Rightarrow> addr \<Rightarrow> hheap \<Rightarrow> hheap option" where
  "hset_pprev a v h = do {
     n \<leftarrow> hl_nodes h a;
     Some (h\<lparr>hl_nodes := (hl_nodes h)(a \<mapsto> n\<lparr>hn_pprev := v\<rparr>)\<rparr>)
   }"

text \<open>A store through a \<open>struct hlist_node **\<close>: to the field of a head or of a node.\<close>

definition hstore :: "addr \<Rightarrow> addr \<Rightarrow> hheap \<Rightarrow> hheap option" where
  "hstore p v h = (if p \<in> dom (hl_heads h) then hset_first p v h else hset_next p v h)"

subsection \<open>The operations\<close>

definition INIT_HLIST_HEAD :: "addr \<Rightarrow> hheap \<Rightarrow> hheap option" where
  "INIT_HLIST_HEAD ptr h = hset_first ptr NULL h"

definition INIT_HLIST_NODE :: "addr \<Rightarrow> hheap \<Rightarrow> hheap option" where
  "INIT_HLIST_NODE n h = do {
     h \<leftarrow> hset_next n NULL h;
     hset_pprev n NULL h
   }"

definition hlist_unhashed :: "addr \<Rightarrow> hheap \<Rightarrow> bool option" where
  "hlist_unhashed n h = do {
     p \<leftarrow> hget_pprev n h;
     Some (p = NULL)
   }"

definition hlist_empty :: "addr \<Rightarrow> hheap \<Rightarrow> bool option" where
  "hlist_empty head h = do {
     f \<leftarrow> hget_first head h;
     Some (f = NULL)
   }"

text \<open>\<open>__hlist_del\<close>\<close>

definition hlist_del_node :: "addr \<Rightarrow> hheap \<Rightarrow> hheap option" where
  "hlist_del_node n h = do {
     nxt \<leftarrow> hget_next n h;
     pprev \<leftarrow> hget_pprev n h;
     h \<leftarrow> hstore pprev nxt h;
     if nxt \<noteq> NULL then hset_pprev nxt pprev h else Some h
   }"

definition hlist_del :: "addr \<Rightarrow> hheap \<Rightarrow> hheap option" where
  "hlist_del n h = hlist_del_node n h"

definition hlist_del_init :: "addr \<Rightarrow> hheap \<Rightarrow> hheap option" where
  "hlist_del_init n h = do {
     u \<leftarrow> hlist_unhashed n h;
     if \<not> u then do {
       h \<leftarrow> hlist_del_node n h;
       INIT_HLIST_NODE n h
     }
     else Some h
   }"

definition hlist_add_head :: "addr \<Rightarrow> addr \<Rightarrow> hheap \<Rightarrow> hheap option" where
  "hlist_add_head n head h = do {
     first \<leftarrow> hget_first head h;
     h \<leftarrow> hset_next n first h;
     h \<leftarrow> (if first \<noteq> NULL then hset_pprev first n h else Some h);
     h \<leftarrow> hset_first head n h;
     hset_pprev n head h
   }"

definition hlist_add_before :: "addr \<Rightarrow> addr \<Rightarrow> hheap \<Rightarrow> hheap option" where
  "hlist_add_before n nxt h = do {
     p \<leftarrow> hget_pprev nxt h;
     h \<leftarrow> hset_pprev n p h;
     h \<leftarrow> hset_next n nxt h;
     h \<leftarrow> hset_pprev nxt n h;
     p \<leftarrow> hget_pprev n h;
     hstore p n h
   }"

text \<open>The node \<open>nxt\<close> is added after \<open>n\<close>.\<close>

definition hlist_add_after :: "addr \<Rightarrow> addr \<Rightarrow> hheap \<Rightarrow> hheap option" where
  "hlist_add_after n nxt h = do {
     m \<leftarrow> hget_next n h;
     h \<leftarrow> hset_next nxt m h;
     h \<leftarrow> hset_next n nxt h;
     h \<leftarrow> hset_pprev nxt n h;
     m \<leftarrow> hget_next nxt h;
     if m \<noteq> NULL then hset_pprev m nxt h else Some h
   }"

definition hlist_add_fake :: "addr \<Rightarrow> hheap \<Rightarrow> hheap option" where
  "hlist_add_fake n h = hset_pprev n n h"

definition hlist_move_list :: "addr \<Rightarrow> addr \<Rightarrow> hheap \<Rightarrow> hheap option" where
  "hlist_move_list old new h = do {
     f \<leftarrow> hget_first old h;
     h \<leftarrow> hset_first new f h;
     f \<leftarrow> hget_first new h;
     h \<leftarrow> (if f \<noteq> NULL then hset_pprev f new h else Some h);
     hset_first old NULL h
   }"

text \<open>The loops; \<open>hlist_for_each_safe\<close> reads the successor before the body runs.\<close>

partial_function (option) hlist_for_each_from ::
  "(addr \<Rightarrow> 'r option option) \<Rightarrow> hheap \<Rightarrow> addr \<Rightarrow> 'r option option" where
  "hlist_for_each_from body h pos =
     (if pos = NULL then Some None
      else do {
        r \<leftarrow> body pos;
        (case r of
           Some v \<Rightarrow> Some (Some v)
         | None \<Rightarrow> do {
             n \<leftarrow> hget_next pos h;
             hlist_for_each_from body h n
           })
      })"

definition hlist_for_each :: "(addr \<Rightarrow> 'r option option) \<Rightarrow> hheap \<Rightarrow> addr \<Rightarrow> 'r option option" where
  "hlist_for_each body h head = do {
     pos \<leftarrow> hget_first head h;
     hlist_for_each_from body h pos
   }"

partial_function (option) hlist_for_each_safe_from ::
  "(addr \<Rightarrow> hheap \<Rightarrow> hheap option) \<Rightarrow> addr \<Rightarrow> hheap \<Rightarrow> hheap option" where
  "hlist_for_each_safe_from body pos h =
     (if pos = NULL then Some h
      else do {
        n \<leftarrow> hget_next pos h;
        h \<leftarrow> body pos h;
        hlist_for_each_safe_from body n h
      })"

definition hlist_for_each_safe :: "(addr \<Rightarrow> hheap \<Rightarrow> hheap option) \<Rightarrow> addr \<Rightarrow> hheap \<Rightarrow> hheap option" where
  "hlist_for_each_safe body head h = do {
     pos \<leftarrow> hget_first head h;
     hlist_for_each_safe_from body pos h
   }"

text \<open>
  The loops over the objects that the nodes are embedded in, \<open>off\<close> bytes after their beginning:
  \<open>hlist_entry_safe\<close> keeps NULL, and the loops end at an object at NULL.
\<close>

definition hlist_entry :: "addr \<Rightarrow> addr \<Rightarrow> addr" where
  "hlist_entry ptr off = ptr - off"

definition hlist_entry_safe :: "addr \<Rightarrow> addr \<Rightarrow> addr" where
  "hlist_entry_safe ptr off = (if ptr \<noteq> NULL then hlist_entry ptr off else NULL)"

partial_function (option) hlist_for_each_entry_from ::
  "(addr \<Rightarrow> 'r option option) \<Rightarrow> hheap \<Rightarrow> addr \<Rightarrow> addr \<Rightarrow> 'r option option" where
  "hlist_for_each_entry_from body h off pos =
     (if pos = NULL then Some None
      else do {
        r \<leftarrow> body pos;
        (case r of
           Some v \<Rightarrow> Some (Some v)
         | None \<Rightarrow> do {
             n \<leftarrow> hget_next (pos + off) h;
             hlist_for_each_entry_from body h off (hlist_entry_safe n off)
           })
      })"

definition hlist_for_each_entry ::
  "(addr \<Rightarrow> 'r option option) \<Rightarrow> hheap \<Rightarrow> addr \<Rightarrow> addr \<Rightarrow> 'r option option" where
  "hlist_for_each_entry body h head off = do {
     n \<leftarrow> hget_first head h;
     hlist_for_each_entry_from body h off (hlist_entry_safe n off)
   }"

definition hlist_for_each_entry_continue ::
  "(addr \<Rightarrow> 'r option option) \<Rightarrow> hheap \<Rightarrow> addr \<Rightarrow> addr \<Rightarrow> 'r option option" where
  "hlist_for_each_entry_continue body h off pos = do {
     n \<leftarrow> hget_next (pos + off) h;
     hlist_for_each_entry_from body h off (hlist_entry_safe n off)
   }"

partial_function (option) hlist_for_each_entry_safe_from ::
  "(addr \<Rightarrow> hheap \<Rightarrow> hheap option) \<Rightarrow> addr \<Rightarrow> addr \<Rightarrow> hheap \<Rightarrow> hheap option" where
  "hlist_for_each_entry_safe_from body off pos h =
     (if pos = NULL then Some h
      else do {
        n \<leftarrow> hget_next (pos + off) h;
        h \<leftarrow> body pos h;
        hlist_for_each_entry_safe_from body off (hlist_entry_safe n off) h
      })"

definition hlist_for_each_entry_safe ::
  "(addr \<Rightarrow> hheap \<Rightarrow> hheap option) \<Rightarrow> addr \<Rightarrow> addr \<Rightarrow> hheap \<Rightarrow> hheap option" where
  "hlist_for_each_entry_safe body head off h = do {
     n \<leftarrow> hget_first head h;
     hlist_for_each_entry_safe_from body off (hlist_entry_safe n off) h
   }"

subsection \<open>Stores as heap updates\<close>

definition hupd_first :: "addr \<Rightarrow> addr \<Rightarrow> hheap \<Rightarrow> hheap" where
  "hupd_first a v h = h\<lparr>hl_heads := (hl_heads h)(a := map_option (hh_first_update (\<lambda>_. v)) (hl_heads h a))\<rparr>"

definition hupd_next :: "addr \<Rightarrow> addr \<Rightarrow> hheap \<Rightarrow> hheap" where
  "hupd_next a v h = h\<lparr>hl_nodes := (hl_nodes h)(a := map_option (hn_next_update (\<lambda>_. v)) (hl_nodes h a))\<rparr>"

definition hupd_pprev :: "addr \<Rightarrow> addr \<Rightarrow> hheap \<Rightarrow> hheap" where
  "hupd_pprev a v h = h\<lparr>hl_nodes := (hl_nodes h)(a := map_option (hn_pprev_update (\<lambda>_. v)) (hl_nodes h a))\<rparr>"

lemma hset_upd [simp]:
  "a \<in> dom (hl_heads h) \<Longrightarrow> hset_first a v h = Some (hupd_first a v h)"
  "a \<in> dom (hl_nodes h) \<Longrightarrow> hset_next a v h = Some (hupd_next a v h)"
  "a \<in> dom (hl_nodes h) \<Longrightarrow> hset_pprev a v h = Some (hupd_pprev a v h)"
  by (auto simp: hset_first_def hset_next_def hset_pprev_def hupd_first_def hupd_next_def hupd_pprev_def)

lemma hupd_dom [simp]:
  "dom (hl_heads (hupd_first a v h)) = dom (hl_heads h)" "dom (hl_nodes (hupd_first a v h)) = dom (hl_nodes h)"
  "dom (hl_heads (hupd_next a v h)) = dom (hl_heads h)" "dom (hl_nodes (hupd_next a v h)) = dom (hl_nodes h)"
  "dom (hl_heads (hupd_pprev a v h)) = dom (hl_heads h)" "dom (hl_nodes (hupd_pprev a v h)) = dom (hl_nodes h)"
  by (auto simp: hupd_first_def hupd_next_def hupd_pprev_def dom_def)

lemma hget_hupd [simp]:
  "hget_first b (hupd_first a v h) = (if b = a \<and> a \<in> dom (hl_heads h) then Some v else hget_first b h)"
  "hget_next b (hupd_first a v h) = hget_next b h" "hget_pprev b (hupd_first a v h) = hget_pprev b h"
  "hget_first b (hupd_next a v h) = hget_first b h"
  "hget_next b (hupd_next a v h) = (if b = a \<and> a \<in> dom (hl_nodes h) then Some v else hget_next b h)"
  "hget_pprev b (hupd_next a v h) = hget_pprev b h"
  "hget_first b (hupd_pprev a v h) = hget_first b h" "hget_next b (hupd_pprev a v h) = hget_next b h"
  "hget_pprev b (hupd_pprev a v h) = (if b = a \<and> a \<in> dom (hl_nodes h) then Some v else hget_pprev b h)"
  by (auto simp: hget_first_def hget_next_def hget_pprev_def hupd_first_def hupd_next_def hupd_pprev_def
      option.map_comp comp_def dom_def map_option_case split: option.splits)

lemma hget_dom:
  "hget_first a h = Some v \<Longrightarrow> a \<in> dom (hl_heads h)"
  "hget_next a h = Some v \<Longrightarrow> a \<in> dom (hl_nodes h)" "hget_pprev a h = Some v \<Longrightarrow> a \<in> dom (hl_nodes h)"
  by (auto simp: hget_first_def hget_next_def hget_pprev_def)

lemma hget_None:
  "hget_first a h = None \<longleftrightarrow> a \<notin> dom (hl_heads h)" "hget_next a h = None \<longleftrightarrow> a \<notin> dom (hl_nodes h)"
  "hget_pprev a h = None \<longleftrightarrow> a \<notin> dom (hl_nodes h)"
  by (auto simp: hget_first_def hget_next_def hget_pprev_def)

text \<open>The pointer at an address, and a store to it.\<close>

definition hcell :: "addr \<Rightarrow> hheap \<Rightarrow> addr option" where
  "hcell p h = (if p \<in> dom (hl_heads h) then hget_first p h else hget_next p h)"

definition hupd :: "addr \<Rightarrow> addr \<Rightarrow> hheap \<Rightarrow> hheap" where
  "hupd p v h = (if p \<in> dom (hl_heads h) then hupd_first p v h else hupd_next p v h)"

lemma hstore_hupd: "hcell p h \<noteq> None \<Longrightarrow> hstore p v h = Some (hupd p v h)"
  by (cases "p \<in> dom (hl_heads h)")
     (auto simp: hstore_def hcell_def hupd_def hget_first_def hget_next_def domIff intro!: hset_upd)

lemma hupd_dom' [simp]:
  "dom (hl_heads (hupd p v h)) = dom (hl_heads h)" "dom (hl_nodes (hupd p v h)) = dom (hl_nodes h)"
  by (simp_all add: hupd_def)

lemma hcell_upd [simp]:
  "hcell q (hupd p v h) = (if q = p \<and> hcell p h \<noteq> None then Some v else hcell q h)"
  "hcell q (hupd_pprev a v h) = hcell q h" "hget_pprev a (hupd p v h) = hget_pprev a h"
proof -
  show "hcell q (hupd p v h) = (if q = p \<and> hcell p h \<noteq> None then Some v else hcell q h)"
    by (cases "q = p"; cases "p \<in> dom (hl_heads h)"; cases "q \<in> dom (hl_heads h)";
        simp add: hcell_def hupd_def hget_None del: not_None_eq)
qed (simp_all add: hcell_def hupd_def)

text \<open>A heap in which heads and nodes are different objects, none of them at NULL.\<close>

definition hheap_ok :: "hheap \<Rightarrow> bool" where
  "hheap_ok h \<longleftrightarrow> dom (hl_heads h) \<inter> dom (hl_nodes h) = {} \<and>
     NULL \<notin> dom (hl_heads h) \<and> NULL \<notin> dom (hl_nodes h)"

lemma hheap_ok_cong:
  "dom (hl_heads h') = dom (hl_heads h) \<Longrightarrow> dom (hl_nodes h') = dom (hl_nodes h) \<Longrightarrow> hheap_ok h' = hheap_ok h"
  by (simp add: hheap_ok_def)

lemma hcell_head: "a \<in> dom (hl_heads h) \<Longrightarrow> hcell a h = hget_first a h" "a \<in> dom (hl_heads h) \<Longrightarrow> hupd a v h = hupd_first a v h"
  by (simp_all add: hcell_def hupd_def)

lemma hcell_node:
  assumes "hheap_ok h" and "a \<in> dom (hl_nodes h)"
  shows "hcell a h = hget_next a h" and "hupd a v h = hupd_next a v h" and "a \<noteq> NULL"
    and "hcell a h \<noteq> None" and "hget_pprev a h \<noteq> None" and "a \<notin> dom (hl_heads h)"
  using assms by (auto simp: hheap_ok_def hcell_def hupd_def hget_next_def hget_pprev_def)

text \<open>The loads and stores of the code as loads and stores of cells.\<close>

lemma hcell_conv:
  "a \<in> dom (hl_heads h) \<Longrightarrow> hupd_first a v h = hupd a v h" "a \<notin> dom (hl_heads h) \<Longrightarrow> hupd_next a v h = hupd a v h"
  "a \<in> dom (hl_heads h) \<Longrightarrow> hget_first a h = hcell a h" "a \<notin> dom (hl_heads h) \<Longrightarrow> hget_next a h = hcell a h"
  by (simp_all add: hcell_def hupd_def)

subsection \<open>Segments and lists\<close>

definition hlink :: "hheap \<Rightarrow> addr \<Rightarrow> addr \<Rightarrow> bool" where
  "hlink h p x \<longleftrightarrow> hcell p h = Some x \<and> (x \<noteq> NULL \<longrightarrow> hget_pprev x h = Some p)"

fun hseg :: "hheap \<Rightarrow> addr \<Rightarrow> addr list \<Rightarrow> addr \<Rightarrow> bool" where
  "hseg h p [] e \<longleftrightarrow> hlink h p e"
| "hseg h p (x # xs) e \<longleftrightarrow> hlink h p x \<and> hseg h x xs e"

definition hlist :: "hheap \<Rightarrow> addr \<Rightarrow> addr list \<Rightarrow> bool" where
  "hlist h head xs \<longleftrightarrow> hheap_ok h \<and> head \<in> dom (hl_heads h) \<and> set xs \<subseteq> dom (hl_nodes h) \<and>
     distinct xs \<and> hseg h head xs NULL"

lemma hseg_append: "hseg h p (xs @ y # ys) e \<longleftrightarrow> hseg h p xs y \<and> hseg h y ys e"
  by (induction xs arbitrary: p) auto

lemma hseg_cong:
  assumes "\<And>c. c \<in> set (p # xs) \<Longrightarrow> hcell c h' = hcell c h"
    and "\<And>c. c \<in> set (xs @ [e]) \<Longrightarrow> c \<noteq> NULL \<Longrightarrow> hget_pprev c h' = hget_pprev c h"
  shows "hseg h' p xs e = hseg h p xs e"
  using assms by (induction xs arbitrary: p) (auto simp: hlink_def)

lemma hseg_snoc_cell: "hseg h p xs e \<Longrightarrow> hcell (last (p # xs)) h = Some e"
  by (induction xs arbitrary: p) (auto simp: hlink_def)

lemma hseg_pprev: "hseg h p xs e \<Longrightarrow> e \<noteq> NULL \<Longrightarrow> hget_pprev e h = Some (last (p # xs))"
  by (induction xs arbitrary: p) (auto simp: hlink_def)

lemma hseg_cell: "hseg h p xs e \<Longrightarrow> hcell p h = Some (hd (xs @ [e]))"
  by (cases xs) (auto simp: hlink_def)

lemma hlistD:
  assumes "hlist h head xs"
  shows "hheap_ok h" "head \<in> dom (hl_heads h)" "\<And>x. x \<in> set xs \<Longrightarrow> x \<in> dom (hl_nodes h)"
    and "distinct xs" "hseg h head xs NULL" "NULL \<notin> set xs" "head \<notin> set xs"
  using assms by (auto simp: hlist_def hheap_ok_def)

text \<open>What a segment needs to become another: the cells and backward pointers of its parts.\<close>

lemma hseg_relink:
  assumes "hseg h p us e" and "distinct (p # us)"
    and cell: "\<And>c. c \<in> set (p # us) \<Longrightarrow> hcell c h' = (if c = last (p # us) then Some e' else hcell c h)"
    and pprev: "\<And>c. c \<in> set us \<Longrightarrow> hget_pprev c h' = hget_pprev c h"
    and e': "e' \<noteq> NULL \<Longrightarrow> hget_pprev e' h' = Some (last (p # us))"
  shows "hseg h' p us e'"
  using assms
proof (induction us arbitrary: p)
  case Nil
  then show ?case by (simp add: hlink_def)
next
  case (Cons u us)
  have "last (u # us) \<noteq> p" using Cons.prems(2) last_in_set [of "u # us"] by auto
  then have "hcell p h' = hcell p h" using Cons.prems(3) [of p] by auto
  then show ?case using Cons by (auto simp: hlink_def)
qed

lemma hseg_rebase:
  assumes "hseg h q vs e" and "\<And>c. c \<in> set vs \<Longrightarrow> hcell c h' = hcell c h"
    and "\<And>c. c \<in> set (vs @ [e]) \<Longrightarrow> c \<noteq> NULL \<Longrightarrow>
      hget_pprev c h' = (if c = hd (vs @ [e]) then Some p else hget_pprev c h)"
    and "distinct (vs @ [e])" and "hcell p h' = Some (hd (vs @ [e]))"
  shows "hseg h' p vs e"
proof (cases vs)
  case Nil
  then show ?thesis using assms by (auto simp: hlink_def)
next
  case (Cons v ws)
  have "hseg h v ws e" using assms(1) Cons by simp
  then have "hseg h' v ws e"
    by (subst hseg_cong [of v ws h' h]) (use assms(2-4) Cons in auto)
  then show ?thesis using assms(3,5) Cons by (auto simp: hlink_def)
qed

subsection \<open>Insertion and deletion\<close>

text \<open>A heap in which a new node has been linked in after \<open>us\<close>, or a node has been taken out.\<close>

lemma hlist_insert:
  assumes l: "hlist h head (us @ vs)" and new: "new \<in> dom (hl_nodes h)" "new \<notin> set (us @ vs)"
    and dom: "dom (hl_heads h') = dom (hl_heads h)" "dom (hl_nodes h') = dom (hl_nodes h)"
    and p: "p = last (head # us)" and e: "e = hd (vs @ [NULL])"
    and cell: "\<And>c. hcell c h' = (if c = p then Some new else if c = new then Some e else hcell c h)"
    and pprev: "\<And>c. c \<noteq> NULL \<Longrightarrow>
      hget_pprev c h' = (if c = new then Some p else if c = e then Some new else hget_pprev c h)"
  shows "hlist h' head (us @ new # vs)"
proof -
  note D = hlistD [OF l]
  have nn: "new \<noteq> NULL" "new \<noteq> head" using hcell_node [OF D(1) new(1)] D(2) by auto
  have p': "p \<notin> set vs" "p \<noteq> new"
    using D(2,4,7) p new(2) nn(2) last_in_set [of us] by (auto split: if_splits dest: last_in_set)
  have e': "e \<notin> set us" "e \<noteq> new"
    using D(4,6) e new(2) nn(1) by (cases vs; auto)+
  have "hseg h head us e \<and> hseg h p vs NULL"
  proof (cases vs)
    case Nil
    then show ?thesis using D(5) e p hseg_snoc_cell [of h head us NULL] by (auto simp: hlink_def)
  next
    case (Cons v ws)
    then have "hseg h head us v" "hseg h v ws NULL" "v \<noteq> NULL"
      using D(5,6) by (auto simp: hseg_append)
    then show ?thesis using Cons e p hseg_snoc_cell hseg_pprev by (auto simp: hlink_def)
  qed
  then have s: "hseg h head us e" "hseg h p vs NULL" by simp_all
  have "hseg h' head us new"
  proof (rule hseg_relink [OF s(1)])
    show "distinct (head # us)" using D(4,7) by auto
    show "hget_pprev c h' = hget_pprev c h" if "c \<in> set us" for c
      by (subst pprev) (use that D(6) e' new in auto)
  qed (use cell pprev new nn p in \<open>auto split: if_splits\<close>)
  moreover have "hseg h' new vs NULL"
  proof (rule hseg_rebase [OF s(2)])
    show "hcell c h' = hcell c h" if "c \<in> set vs" for c
      by (subst cell) (use that p' new in auto)
    show "hget_pprev c h' = (if c = hd (vs @ [NULL]) then Some new else hget_pprev c h)"
      if "c \<in> set (vs @ [NULL])" "c \<noteq> NULL" for c
      by (subst pprev [OF that(2)]) (use that new e in auto)
    show "distinct (vs @ [NULL])" using D(4,6) by simp
    show "hcell new h' = Some (hd (vs @ [NULL]))" using cell p' e by simp
  qed
  ultimately show ?thesis
    using D new dom hheap_ok_cong [OF dom] by (auto simp: hlist_def hseg_append)
qed

lemma hlist_delete:
  assumes l: "hlist h head (us @ x # vs)"
    and dom: "dom (hl_heads h') = dom (hl_heads h)" "dom (hl_nodes h') = dom (hl_nodes h)"
    and p: "p = last (head # us)" and e: "e = hd (vs @ [NULL])"
    and cell: "\<And>c. c \<noteq> x \<Longrightarrow> hcell c h' = (if c = p then Some e else hcell c h)"
    and pprev: "\<And>c. c \<noteq> x \<Longrightarrow> c \<noteq> NULL \<Longrightarrow>
      hget_pprev c h' = (if c = e then Some p else hget_pprev c h)"
  shows "hlist h' head (us @ vs)"
proof -
  note D = hlistD [OF l]
  have p': "p \<notin> set vs" "p \<noteq> x"
    using D(2,4,7) p last_in_set [of us] by (auto split: if_splits dest: last_in_set)
  have e': "e \<notin> set us" "e \<noteq> x"
    using D(4,6) e by (cases vs; auto)+
  have s: "hseg h head us x" "hseg h x vs NULL" using D(5) by (simp_all add: hseg_append)
  have left: "hseg h' head us e"
  proof (rule hseg_relink [OF s(1)])
    show "distinct (head # us)" using D(4,7) by auto
    show "hcell c h' = (if c = last (head # us) then Some e else hcell c h)" if "c \<in> set (head # us)" for c
      by (subst cell) (use that D(4,7) p in auto)
    show "hget_pprev c h' = hget_pprev c h" if "c \<in> set us" for c
      by (subst pprev) (use that D(4,6) e' in auto)
    show "e \<noteq> NULL \<Longrightarrow> hget_pprev e h' = Some (last (head # us))"
      using pprev e' p by simp
  qed
  have right: "hseg h' p vs NULL"
  proof (rule hseg_rebase [OF s(2)])
    show "hcell c h' = hcell c h" if "c \<in> set vs" for c
      by (subst cell) (use that p' D(4) in auto)
    show "hget_pprev c h' = (if c = hd (vs @ [NULL]) then Some p else hget_pprev c h)"
      if "c \<in> set (vs @ [NULL])" "c \<noteq> NULL" for c
      by (subst pprev) (use that D(4) e in auto)
    show "distinct (vs @ [NULL])" using D(4,6) by simp
    show "hcell p h' = Some (hd (vs @ [NULL]))" using cell p' e by simp
  qed
  have "hseg h' head (us @ vs) NULL"
    using left right e by (cases vs) (simp_all add: hseg_append)
  then show ?thesis
    using D dom hheap_ok_cong [OF dom] by (auto simp: hlist_def)
qed

text \<open>Around a node of a list: its pointer, and the pointer that points to it.\<close>

lemma hlist_node:
  assumes "hlist h head (us @ x # vs)"
  shows "hget_next x h = Some (hd (vs @ [NULL]))" and "hget_pprev x h = Some (last (head # us))"
    and "hcell (last (head # us)) h = Some x" and "x \<in> dom (hl_nodes h)" and "x \<noteq> NULL"
    and "last (head # us) \<noteq> NULL" and "hd (vs @ [NULL]) \<noteq> NULL \<Longrightarrow> hd (vs @ [NULL]) \<in> dom (hl_nodes h)"
proof -
  note D = hlistD [OF assms]
  have s: "hseg h head us x" "hseg h x vs NULL" using D(5) by (simp_all add: hseg_append)
  show x: "x \<in> dom (hl_nodes h)" "x \<noteq> NULL" using D(3,6) by auto
  show "hget_next x h = Some (hd (vs @ [NULL]))" using hseg_cell [OF s(2)] hcell_node(1) [OF D(1) x(1)] by simp
  show "hget_pprev x h = Some (last (head # us))" using hseg_pprev [OF s(1) x(2)] .
  show "hcell (last (head # us)) h = Some x" by (rule hseg_snoc_cell [OF s(1)])
  show "last (head # us) \<noteq> NULL"
    using D(1,2,6) by (cases us rule: rev_cases) (auto simp: hheap_ok_def)
  show "hd (vs @ [NULL]) \<noteq> NULL \<Longrightarrow> hd (vs @ [NULL]) \<in> dom (hl_nodes h)"
    using D(3) by (cases vs) auto
qed

lemma hlist_del_node_hlist:
  assumes "hlist h head (us @ x # vs)"
  shows "\<exists>h'. hlist_del_node x h = Some h' \<and> hlist h' head (us @ vs) \<and>
    dom (hl_heads h') = dom (hl_heads h) \<and> dom (hl_nodes h') = dom (hl_nodes h) \<and>
    hget_pprev x h' = Some (last (head # us)) \<and>
    (\<forall>c. c \<noteq> NULL \<longrightarrow> c \<noteq> hd (vs @ [NULL]) \<longrightarrow> hget_pprev c h' = hget_pprev c h)"
proof -
  let ?p = "last (head # us)" and ?e = "hd (vs @ [NULL])"
  note D = hlistD [OF assms] and N = hlist_node [OF assms]
  let ?g = "hupd ?p ?e h"
  let ?h = "if ?e \<noteq> NULL then hupd_pprev ?e ?p ?g else ?g"
  have "?e \<noteq> x" using D(4,6) by (cases vs) auto
  have "hlist_del_node x h = Some ?h"
    using N by (simp add: hlist_del_node_def hstore_hupd del: last.simps)
  moreover have "hlist ?h head (us @ vs)"
    by (rule hlist_delete [OF assms _ _ refl refl]) (use N in \<open>auto simp del: last.simps\<close>)
  moreover have "hget_pprev x ?h = Some ?p" using N \<open>?e \<noteq> x\<close> by (simp del: last.simps)
  ultimately show ?thesis by (intro exI [of _ ?h]) (simp del: last.simps)
qed

lemma hlist_add_head_hlist:
  assumes "hlist h head xs" and "n \<in> dom (hl_nodes h)" and "n \<notin> set xs"
  shows "\<exists>h'. hlist_add_head n head h = Some h' \<and> hlist h' head (n # xs) \<and>
    dom (hl_heads h') = dom (hl_heads h) \<and> dom (hl_nodes h') = dom (hl_nodes h) \<and>
    (\<forall>c. c \<notin> set (n # xs) \<longrightarrow> hget_pprev c h' = hget_pprev c h)"
proof -
  let ?e = "hd (xs @ [NULL])"
  note D = hlistD [OF assms(1)]
  have f: "hget_first head h = Some ?e" using hseg_cell [OF D(5)] hcell_head(1) [OF D(2)] by simp
  have e: "?e \<noteq> NULL \<Longrightarrow> ?e \<in> dom (hl_nodes h)" using D(3) by (cases xs) auto
  have n: "n \<noteq> head" "n \<noteq> NULL" "?e \<noteq> n" "?e \<noteq> NULL \<Longrightarrow> ?e \<in> set xs" "hcell n h \<noteq> None"
      "n \<notin> dom (hl_heads h)"
    using hcell_node [OF D(1) assms(2)] D(2) assms(3) by (cases xs; auto)+
  let ?g = "hupd n ?e h"
  let ?g' = "if ?e \<noteq> NULL then hupd_pprev ?e n ?g else ?g"
  let ?h = "hupd_pprev n head (hupd head n ?g')"
  have "hlist_add_head n head h = Some ?h"
    using f e n(6) D(2) assms(2) by (simp add: hlist_add_head_def hcell_conv)
  moreover have "hlist ?h head ([] @ n # xs)"
    by (rule hlist_insert [of _ _ "[]", OF _ assms(2) _ _ _ refl refl])
       (use assms f e n hcell_head(1) [OF D(2)] in \<open>auto simp: hget_None\<close>)
  ultimately show ?thesis
    using n by (intro exI [of _ ?h]) auto
qed

lemma hlist_add_before_hlist:
  assumes l: "hlist h head (us @ x # vs)" and new: "n \<in> dom (hl_nodes h)" "n \<notin> set (us @ x # vs)"
  shows "\<exists>h'. hlist_add_before n x h = Some h' \<and> hlist h' head (us @ n # x # vs) \<and>
    dom (hl_heads h') = dom (hl_heads h) \<and> dom (hl_nodes h') = dom (hl_nodes h) \<and>
    (\<forall>c. c \<notin> set (n # us @ x # vs) \<longrightarrow> hget_pprev c h' = hget_pprev c h)"
proof -
  let ?p = "last (head # us)"
  note D = hlistD [OF l] and N = hlist_node [OF l]
  have n: "n \<noteq> NULL" "n \<noteq> ?p" "n \<noteq> x" "hcell n h \<noteq> None" "n \<noteq> head" "n \<notin> dom (hl_heads h)"
    using hcell_node [OF D(1) new(1)] D(2) new(2) last_in_set [of us] by auto
  let ?g = "hupd_pprev x n (hupd n x (hupd_pprev n ?p h))"
  let ?h = "hupd ?p n ?g"
  have "hlist_add_before n x h = Some ?h"
    using N n new(1) hstore_hupd [of ?p ?g n]
    by (simp add: hlist_add_before_def hcell_conv del: last.simps)
  moreover have "hlist ?h head (us @ n # x # vs)"
    by (rule hlist_insert [OF l new _ _ refl refl]) (use N n new(1) in \<open>auto simp del: last.simps\<close>)
  ultimately show ?thesis by (intro exI [of _ ?h]) auto
qed

lemma hlist_add_after_hlist:
  assumes l: "hlist h head (us @ x # vs)" and new: "n \<in> dom (hl_nodes h)" "n \<notin> set (us @ x # vs)"
  shows "\<exists>h'. hlist_add_after x n h = Some h' \<and> hlist h' head (us @ x # n # vs) \<and>
    dom (hl_heads h') = dom (hl_heads h) \<and> dom (hl_nodes h') = dom (hl_nodes h) \<and>
    (\<forall>c. c \<notin> set (n # us @ x # vs) \<longrightarrow> hget_pprev c h' = hget_pprev c h)"
proof -
  let ?e = "hd (vs @ [NULL])"
  note D = hlistD [OF l] and N = hlist_node [OF l]
  have n: "n \<noteq> NULL" "n \<noteq> x" "hcell n h \<noteq> None" "?e \<noteq> n" "?e \<noteq> NULL \<Longrightarrow> ?e \<in> set vs" "hcell x h \<noteq> None"
      "n \<notin> dom (hl_heads h)" "x \<notin> dom (hl_heads h)"
    using hcell_node [OF D(1) new(1)] hcell_node(4,6) [OF D(1) N(4)] new(2) by (cases vs; auto)+
  let ?g = "hupd_pprev n x (hupd x n (hupd n ?e h))"
  let ?h = "if ?e \<noteq> NULL then hupd_pprev ?e n ?g else ?g"
  have "hlist_add_after x n h = Some ?h"
    using N n new(1) by (simp add: hlist_add_after_def hcell_conv)
  moreover have "hlist ?h head ((us @ [x]) @ n # vs)"
    by (rule hlist_insert [OF _ new(1) _ _ _ refl refl])
       (use l N n new in auto)
  ultimately show ?thesis using n by (intro exI [of _ ?h]) auto
qed

lemma hlist_INIT_HEAD:
  assumes "hheap_ok h" and "head \<in> dom (hl_heads h)"
  shows "\<exists>h'. INIT_HLIST_HEAD head h = Some h' \<and> hlist h' head [] \<and> hlist_empty head h' = Some True \<and>
    hl_nodes h' = hl_nodes h \<and> dom (hl_heads h') = dom (hl_heads h)"
proof (intro exI conjI)
  show "INIT_HLIST_HEAD head h = Some (hupd_first head NULL h)" using assms(2) by (simp add: INIT_HLIST_HEAD_def)
  show "hlist (hupd_first head NULL h) head []"
    using assms hheap_ok_cong [of "hupd_first head NULL h" h] hcell_head(1) [of head "hupd_first head NULL h"]
    by (simp add: hlist_def hlink_def)
  show "hlist_empty head (hupd_first head NULL h) = Some True" using assms(2) by (simp add: hlist_empty_def)
  show "dom (hl_heads (hupd_first head NULL h)) = dom (hl_heads h)" by simp
qed (simp add: hupd_first_def)

text \<open>Moving a whole list to another head, whatever that head pointed to before.\<close>

lemma hlist_move_list_hlist:
  assumes "hlist h old xs" and "new \<in> dom (hl_heads h)" and "new \<noteq> old"
  shows "\<exists>h'. hlist_move_list old new h = Some h' \<and> hlist h' new xs \<and> hlist h' old []"
proof -
  let ?e = "hd (xs @ [NULL])"
  note D = hlistD [OF assms(1)]
  have f: "hget_first old h = Some ?e" using hseg_cell [OF D(5)] D(2) by (simp add: hcell_conv)
  have e: "?e \<noteq> NULL \<Longrightarrow> ?e \<in> set xs" "?e \<noteq> NULL \<Longrightarrow> ?e \<in> dom (hl_nodes h)"
    using D(3) by (cases xs; auto)+
  have d: "c \<notin> dom (hl_heads h)" if "c \<in> set xs" for c using D(1,3) that by (auto simp: hheap_ok_def)
  let ?g = "hupd new ?e h"
  let ?g' = "if ?e \<noteq> NULL then hupd_pprev ?e new ?g else ?g"
  let ?h = "hupd old NULL ?g'"
  have c: "hcell old h \<noteq> None" "hcell new h \<noteq> None" using D(2) assms(2) by (simp_all add: hcell_head hget_None)
  have "hget_first new ?g = Some ?e" using c assms(2) by (simp add: hcell_conv)
  then have "hlist_move_list old new h = Some ?h"
    using f e D(2) assms(2) by (simp add: hlist_move_list_def hcell_conv)
  moreover have ok: "hheap_ok ?h" using hheap_ok_cong [of ?h h] D(1) by simp
  moreover have "hseg ?h new xs NULL"
  proof (rule hseg_rebase [OF D(5)])
    show "hcell a ?h = hcell a h" if "a \<in> set xs" for a using d [OF that] D(2) assms(2) by auto
    show "distinct (xs @ [NULL])" using D(4,6) by simp
    show "hcell new ?h = Some ?e" using c assms(3) by simp
    show "hget_pprev a ?h = (if a = ?e then Some new else hget_pprev a h)"
      if "a \<in> set (xs @ [NULL])" "a \<noteq> NULL" for a using that e by auto
  qed
  moreover have "hseg ?h old [] NULL" using c assms(3) by (simp add: hlink_def)
  ultimately show ?thesis using D(2-4) assms(2) by (intro exI [of _ ?h]) (auto simp: hlist_def)
qed

subsection \<open>The loops\<close>

lemma hlist_for_each_from_hseg:
  assumes "hheap_ok h"
  shows "hseg h p xs NULL \<Longrightarrow> set xs \<subseteq> dom (hl_nodes h) \<Longrightarrow>
    hlist_for_each_from body h (hd (xs @ [NULL])) = scan body xs"
proof (induction xs arbitrary: p)
  case Nil
  then show ?case by (simp add: hlist_for_each_from.simps)
next
  case (Cons x xs)
  then have x: "x \<in> dom (hl_nodes h)" "hseg h x xs NULL" by simp_all
  have "hget_next x h = Some (hd (xs @ [NULL]))"
    using hseg_cell [OF x(2)] hcell_node(1) [OF assms x(1)] by simp
  then show ?case
    using Cons.IH [OF x(2)] Cons.prems(2) hcell_node(3) [OF assms x(1)]
    by (subst hlist_for_each_from.simps) (simp cong: option.case_cong)
qed

lemma hlist_for_each_hlist: "hlist h head xs \<Longrightarrow> hlist_for_each body h head = scan body xs"
  using hlist_for_each_from_hseg [of h head xs body] hseg_cell [of h head xs NULL]
  by (auto simp: hlist_for_each_def hlist_def hcell_conv)

definition hdelete_if :: "(addr \<Rightarrow> bool) \<Rightarrow> addr \<Rightarrow> hheap \<Rightarrow> hheap option" where
  "hdelete_if P pos h = (if P pos then hlist_del_init pos h else Some h)"

lemma hlist_del_init_hlist:
  assumes "hlist h head (us @ x # vs)"
  shows "\<exists>h'. hlist_del_init x h = Some h' \<and> hlist h' head (us @ vs) \<and>
    dom (hl_heads h') = dom (hl_heads h) \<and> dom (hl_nodes h') = dom (hl_nodes h) \<and>
    hget_pprev x h' = Some NULL \<and>
    (\<forall>c. c \<notin> set (us @ x # vs) \<longrightarrow> hget_pprev c h' = hget_pprev c h)"
proof -
  note D = hlistD [OF assms] and N = hlist_node [OF assms]
  obtain g where g: "hlist_del_node x h = Some g" "hlist g head (us @ vs)"
    "dom (hl_heads g) = dom (hl_heads h)" "dom (hl_nodes g) = dom (hl_nodes h)"
    "\<forall>c. c \<noteq> NULL \<longrightarrow> c \<noteq> hd (vs @ [NULL]) \<longrightarrow> hget_pprev c g = hget_pprev c h"
    using hlist_del_node_hlist [OF assms] by blast
  let ?h = "hupd_pprev x NULL (hupd x NULL g)"
  have x: "x \<in> dom (hl_nodes g)" "x \<notin> dom (hl_heads g)" "x \<notin> set (us @ vs)" "x \<noteq> head"
    using N(4) g(3,4) D(1,4) D(2) by (auto simp: hheap_ok_def)
  have "hlist_del_init x h = Some ?h"
    using g(1) N(2,6) x(1,2)
    by (simp add: hlist_del_init_def hlist_unhashed_def INIT_HLIST_NODE_def hcell_conv del: last.simps)
  moreover have "hlist ?h head (us @ vs)"
  proof -
    note G = hlistD [OF g(2)]
    have "hseg ?h head (us @ vs) NULL = hseg g head (us @ vs) NULL"
      by (rule hseg_cong) (use x in auto)
    then show ?thesis
      using g(2) G x hheap_ok_cong [of ?h g] by (simp add: hlist_def)
  qed
  moreover have "hget_pprev c ?h = hget_pprev c h" if "c \<notin> set (us @ x # vs)" for c
  proof (cases "c = NULL")
    case True
    then show ?thesis using D(1) g(4) hget_None(3) [of NULL g] hget_None(3) [of NULL h] x(1) by (auto simp: hheap_ok_def)
  next
    case False
    then have "c \<noteq> hd (vs @ [NULL])" using that by (cases vs) auto
    then show ?thesis using False that g(5) by simp
  qed
  ultimately show ?thesis using g(3,4) x by (intro exI [of _ ?h]) simp
qed

lemma hlist_for_each_safe_from_filter:
  "hlist h head (us @ vs) \<Longrightarrow>
    \<exists>h'. hlist_for_each_safe_from (hdelete_if P) (hd (vs @ [NULL])) h = Some h' \<and>
      hlist h' head (us @ filter (\<lambda>x. \<not> P x) vs)"
proof (induction vs arbitrary: us h)
  case Nil
  then show ?case by (simp add: hlist_for_each_safe_from.simps)
next
  case (Cons x vs)
  let ?us = "us @ (if P x then [] else [x])"
  note N = hlist_node [OF Cons.prems]
  obtain g where g: "hdelete_if P x h = Some g" "hlist g head (?us @ vs)"
    using hlist_del_init_hlist [OF Cons.prems] Cons.prems that by (cases "P x") (auto simp: hdelete_if_def)
  show ?case
    using Cons.IH [OF g(2)] g(1) N(1,5) by (subst hlist_for_each_safe_from.simps) auto
qed

lemma hlist_for_each_safe_filter:
  assumes "hlist h head xs"
  shows "\<exists>h'. hlist_for_each_safe (hdelete_if P) head h = Some h' \<and>
    hlist h' head (filter (\<lambda>x. \<not> P x) xs)"
  using hlist_for_each_safe_from_filter [of h head "[]" xs P] assms
    hseg_cell [OF hlistD(5) [OF assms]] hlistD(2) [OF assms]
  by (simp add: hlist_for_each_safe_def hcell_conv)

text \<open>The loops over objects, none of which is at NULL, on a list of their nodes.\<close>

lemma hlist_entry_hd:
  "hlist_entry_safe (hd (map (\<lambda>t. t + off) ts @ [NULL])) off = (if ts = [] then NULL else hd ts)"
  if "\<And>t. t \<in> set ts \<Longrightarrow> t + off \<noteq> NULL"
  using that by (cases ts) (auto simp: hlist_entry_safe_def hlist_entry_def)

lemma hlist_for_each_entry_from_hseg:
  assumes "hheap_ok h" and "NULL \<notin> set ts"
  shows "hseg h p (map (\<lambda>t. t + off) ts) NULL \<Longrightarrow> set (map (\<lambda>t. t + off) ts) \<subseteq> dom (hl_nodes h) \<Longrightarrow>
    hlist_for_each_entry_from body h off (if ts = [] then NULL else hd ts) = scan body ts"
  using assms(2)
proof (induction ts arbitrary: p)
  case Nil
  then show ?case by (simp add: hlist_for_each_entry_from.simps)
next
  case (Cons t ts)
  then have x: "t + off \<in> dom (hl_nodes h)" "hseg h (t + off) (map (\<lambda>t. t + off) ts) NULL" by simp_all
  have nn: "u + off \<noteq> NULL" if "u \<in> set ts" for u
    using Cons.prems(2) that hcell_node(3) [OF assms(1), of "u + off"] by auto
  have "hget_next (t + off) h = Some (hd (map (\<lambda>t. t + off) ts @ [NULL]))"
    using hseg_cell [OF x(2)] hcell_node(1) [OF assms(1) x(1)] by simp
  then show ?case
    using Cons.IH [OF x(2)] Cons.prems(2,3) hlist_entry_hd [of ts off, OF nn]
    by (subst hlist_for_each_entry_from.simps) (simp cong: option.case_cong)
qed

lemma hlist_for_each_entry_safe_from_filter:
  "hlist h head (us @ map (\<lambda>t. t + off) ts) \<Longrightarrow> NULL \<notin> set ts \<Longrightarrow>
    \<exists>h'. hlist_for_each_entry_safe_from (\<lambda>pos. hdelete_if P (pos + off)) off (if ts = [] then NULL else hd ts) h = Some h' \<and>
      hlist h' head (us @ filter (\<lambda>x. \<not> P x) (map (\<lambda>t. t + off) ts))"
proof (induction ts arbitrary: us h)
  case Nil
  then show ?case by (simp add: hlist_for_each_entry_safe_from.simps)
next
  case (Cons t ts)
  let ?x = "t + off" and ?vs = "map (\<lambda>t. t + off) ts"
  let ?us = "us @ (if P ?x then [] else [?x])"
  have l: "hlist h head (us @ ?x # ?vs)" using Cons.prems(1) by simp
  note N = hlist_node [OF l]
  have nn: "u + off \<noteq> NULL" if "u \<in> set ts" for u using hlistD(6) [OF l] that by force
  obtain g where g: "hdelete_if P ?x h = Some g" "hlist g head (?us @ ?vs)"
    using hlist_del_init_hlist [OF l] l that by (cases "P ?x") (auto simp: hdelete_if_def)
  show ?case
    using Cons.IH [OF g(2)] Cons.prems(2) g(1) N(1) hlist_entry_hd [of ts off, OF nn]
    by (subst hlist_for_each_entry_safe_from.simps) auto
qed

subsection \<open>A node that is not on a list\<close>

text \<open>
  \<open>hlist_add_fake\<close> makes an initialised node look as if it were on a list: \<open>hlist_del\<close> then works on it,
  and changes nothing.
\<close>

lemma hlist_add_fake_del:
  assumes "hheap_ok h" and "n \<in> dom (hl_nodes h)"
  shows "\<exists>h1 h2. INIT_HLIST_NODE n h = Some h1 \<and> hlist_unhashed n h1 = Some True \<and>
    hlist_add_fake n h1 = Some h2 \<and> hlist_unhashed n h2 = Some False \<and> hlist_del n h2 = Some h2"
proof -
  let ?h1 = "hupd_pprev n NULL (hupd n NULL h)" and ?h2 = "hupd_pprev n n (hupd_pprev n NULL (hupd n NULL h))"
  note N = hcell_node [OF assms]
  have c: "hcell n ?h2 = Some NULL" using N(4) by (simp del: not_None_eq)
  obtain y where "hl_nodes h n = Some y" using assms(2) by blast
  then have "hupd n NULL ?h2 = ?h2"
    using N(6) by (cases y) (simp add: hupd_def hupd_next_def hupd_pprev_def domIff)
  then have "hlist_del n ?h2 = Some ?h2"
    using c N(6) assms(2) hstore_hupd [of n ?h2 NULL]
    by (simp add: hlist_del_def hlist_del_node_def hcell_conv)
  then show ?thesis
    using assms(2) N(3,6) by (simp add: INIT_HLIST_NODE_def hlist_unhashed_def hlist_add_fake_def hcell_conv)
qed

subsection \<open>Any sequence of calls\<close>

text \<open>
  The calls of a client of one list, and what they mean for the sequence of its nodes. Unlike with the
  circular lists, \<open>hlist_del_init\<close> is allowed on a node that is not on the list.
\<close>

datatype hlist_call = H_add_head addr | H_add_before addr addr | H_add_after addr addr | H_del_init addr

fun insert_before :: "'a \<Rightarrow> 'a \<Rightarrow> 'a list \<Rightarrow> 'a list" where
  "insert_before n y [] = []"
| "insert_before n y (x # xs) = (if x = y then n # x # xs else x # insert_before n y xs)"

fun insert_after :: "'a \<Rightarrow> 'a \<Rightarrow> 'a list \<Rightarrow> 'a list" where
  "insert_after y n [] = []"
| "insert_after y n (x # xs) = (if x = y then x # n # xs else x # insert_after y n xs)"

lemma insert_at: "y \<notin> set us \<Longrightarrow> insert_before n y (us @ y # vs) = us @ n # y # vs"
  "y \<notin> set us \<Longrightarrow> insert_after y n (us @ y # vs) = us @ y # n # vs"
  by (induction us) auto

lemma remove1_at: "y \<notin> set us \<Longrightarrow> remove1 y (us @ y # vs) = us @ vs"
  by (induction us) auto

fun hcall_ok :: "addr set \<Rightarrow> addr list \<Rightarrow> hlist_call \<Rightarrow> bool" where
  "hcall_ok D xs (H_add_head n) = (n \<in> D \<and> n \<notin> set xs)"
| "hcall_ok D xs (H_add_before n y) = (n \<in> D \<and> n \<notin> set xs \<and> y \<in> set xs)"
| "hcall_ok D xs (H_add_after y n) = (n \<in> D \<and> n \<notin> set xs \<and> y \<in> set xs)"
| "hcall_ok D xs (H_del_init n) = (n \<in> D)"

fun hcall_spec :: "hlist_call \<Rightarrow> addr list \<Rightarrow> addr list" where
  "hcall_spec (H_add_head n) xs = n # xs"
| "hcall_spec (H_add_before n y) xs = insert_before n y xs"
| "hcall_spec (H_add_after y n) xs = insert_after y n xs"
| "hcall_spec (H_del_init n) xs = remove1 n xs"

fun hcalls_spec :: "addr set \<Rightarrow> hlist_call list \<Rightarrow> addr list \<Rightarrow> addr list option" where
  "hcalls_spec D [] xs = Some xs"
| "hcalls_spec D (c # cs) xs = (if hcall_ok D xs c then hcalls_spec D cs (hcall_spec c xs) else None)"

fun hcall_run :: "addr \<Rightarrow> hlist_call \<Rightarrow> hheap \<Rightarrow> hheap option" where
  "hcall_run head (H_add_head n) h = hlist_add_head n head h"
| "hcall_run head (H_add_before n y) h = hlist_add_before n y h"
| "hcall_run head (H_add_after y n) h = hlist_add_after y n h"
| "hcall_run head (H_del_init n) h = hlist_del_init n h"

fun hcalls_run :: "addr \<Rightarrow> hlist_call list \<Rightarrow> hheap \<Rightarrow> hheap option" where
  "hcalls_run head [] h = Some h"
| "hcalls_run head (c # cs) h = do { h \<leftarrow> hcall_run head c h; hcalls_run head cs h }"

text \<open>A list whose client has initialised all its other nodes.\<close>

definition hlist_client :: "hheap \<Rightarrow> addr \<Rightarrow> addr list \<Rightarrow> bool" where
  "hlist_client h head xs \<longleftrightarrow> hlist h head xs \<and>
     (\<forall>n \<in> dom (hl_nodes h) - set xs. hget_pprev n h = Some NULL)"

lemma hlist_unhashed_iff:
  assumes "hlist_client h head xs" and "n \<in> dom (hl_nodes h)"
  shows "hlist_unhashed n h = Some (n \<notin> set xs)"
proof (cases "n \<in> set xs")
  case True
  then obtain us vs where "xs = us @ n # vs" by (auto simp: in_set_conv_decomp)
  then show ?thesis
    using hlist_node(2,6) [of h head us n vs] assms(1) by (simp add: hlist_client_def hlist_unhashed_def)
qed (use assms in \<open>simp add: hlist_client_def hlist_unhashed_def\<close>)

lemma hcall_refines:
  assumes "hlist_client h head xs" and "hcall_ok (dom (hl_nodes h)) xs c"
  shows "\<exists>h'. hcall_run head c h = Some h' \<and> hlist_client h' head (hcall_spec c xs) \<and>
    dom (hl_nodes h') = dom (hl_nodes h)"
proof (cases c)
  case (H_add_head n)
  then show ?thesis
    using assms hlist_add_head_hlist [of h head xs n] by (fastforce simp: hlist_client_def)
next
  case (H_add_before n y)
  with assms obtain us vs where xs: "xs = us @ y # vs" "y \<notin> set us" by (auto dest: split_list_first)
  then show ?thesis
    using H_add_before assms hlist_add_before_hlist [of h head us y vs n]
    by (fastforce simp: hlist_client_def insert_at)
next
  case (H_add_after y n)
  with assms obtain us vs where xs: "xs = us @ y # vs" "y \<notin> set us" by (auto dest: split_list_first)
  then show ?thesis
    using H_add_after assms hlist_add_after_hlist [of h head us y vs n]
    by (fastforce simp: hlist_client_def insert_at)
next
  case (H_del_init n)
  show ?thesis
  proof (cases "n \<in> set xs")
    case True
    then obtain us vs where xs: "xs = us @ n # vs" "n \<notin> set us" by (auto dest: split_list_first)
    then have "n \<notin> set vs" using assms(1) by (simp add: hlist_client_def hlist_def)
    then show ?thesis
      using H_del_init assms(1) xs hlist_del_init_hlist [of h head us n vs]
      by (fastforce simp: hlist_client_def remove1_at)
  next
    case False
    then show ?thesis
      using H_del_init assms hlist_unhashed_iff [OF assms(1), of n]
      by (simp add: hlist_del_init_def remove1_idem)
  qed
qed

lemma hcalls_refine:
  "hlist_client h head xs \<Longrightarrow> hcalls_spec (dom (hl_nodes h)) cs xs = Some ys \<Longrightarrow>
    \<exists>h'. hcalls_run head cs h = Some h' \<and> hlist_client h' head ys \<and> dom (hl_nodes h') = dom (hl_nodes h)"
proof (induction cs arbitrary: h xs)
  case (Cons c cs)
  then have ok: "hcall_ok (dom (hl_nodes h)) xs c" "hcalls_spec (dom (hl_nodes h)) cs (hcall_spec c xs) = Some ys"
    by (auto split: if_splits)
  obtain g where g: "hcall_run head c h = Some g" "hlist_client g head (hcall_spec c xs)"
      "dom (hl_nodes g) = dom (hl_nodes h)"
    using hcall_refines [OF Cons.prems(1) ok(1)] by blast
  from Cons.IH [OF g(2)] ok(2) g(1,3) show ?case by simp
qed simp

text \<open>C19: The hash list refines the sequence of its nodes: any sequence of hlist_add_head, hlist_add_before,
  hlist_add_after and hlist_del_init calls that keeps the rules (a node is added once, next to a node of the
  list) runs without an undefined access and ends in a well-formed list with the nodes that the
  specification says; hlist_unhashed and hlist_empty then answer which nodes are on it, a loop visits
  exactly them and terminates, and a safe loop that deletes some leaves exactly the others.\<close>

theorem hlist_calls_refine:
  assumes "hlist_client h head xs" and "hcalls_spec (dom (hl_nodes h)) cs xs = Some ys"
  shows "\<exists>h'. hcalls_run head cs h = Some h' \<and> hlist h' head ys \<and>
    hlist_empty head h' = Some (ys = []) \<and>
    (\<forall>n \<in> dom (hl_nodes h). hlist_unhashed n h' = Some (n \<notin> set ys)) \<and>
    (\<forall>body. hlist_for_each body h' head = scan body ys) \<and>
    (\<forall>P. \<exists>h''. hlist_for_each_safe (hdelete_if P) head h' = Some h'' \<and> hlist h'' head (filter (\<lambda>x. \<not> P x) ys))"
proof -
  obtain g where g: "hcalls_run head cs h = Some g" "hlist_client g head ys" "dom (hl_nodes g) = dom (hl_nodes h)"
    using hcalls_refine [OF assms] by blast
  then have l: "hlist g head ys" by (simp add: hlist_client_def)
  then have "hget_first head g = Some (hd (ys @ [NULL]))" "NULL \<notin> set ys"
    using hseg_cell hlistD [OF l] by (auto simp: hcell_conv)
  then have "hlist_empty head g = Some (ys = [])" by (cases ys) (auto simp: hlist_empty_def)
  then show ?thesis
    using g l hlist_unhashed_iff [OF g(2)] hlist_for_each_hlist [OF l] hlist_for_each_safe_filter [OF l] by auto
qed

definition demo_hlist :: hheap where
  "demo_hlist = \<lparr>hl_heads = [16 \<mapsto> \<lparr>hh_first = NULL\<rparr>, 24 \<mapsto> \<lparr>hh_first = NULL\<rparr>],
     hl_nodes = [32 \<mapsto> \<lparr>hn_next = NULL, hn_pprev = NULL\<rparr>, 48 \<mapsto> \<lparr>hn_next = NULL, hn_pprev = NULL\<rparr>,
       64 \<mapsto> \<lparr>hn_next = NULL, hn_pprev = NULL\<rparr>]\<rparr>"

lemma demo_hlist_client: "hlist_client demo_hlist 16 []" and demo_hlist_nodes: "dom (hl_nodes demo_hlist) = {32, 48, 64}"
  by (auto simp: demo_hlist_def hlist_client_def hlist_def hheap_ok_def hlink_def hcell_def hget_first_def hget_pprev_def)

theorem hlist_calls_refine_witness:
  "\<exists>h'. hcalls_run 16 [H_add_head 32, H_add_after 32 48, H_add_before 64 48, H_del_init 32, H_del_init 32]
    demo_hlist = Some h' \<and> hlist h' 16 [64, 48]"
  using hlist_calls_refine [OF demo_hlist_client,
      of "[H_add_head 32, H_add_after 32 48, H_add_before 64 48, H_del_init 32, H_del_init 32]" "[64, 48]"]
  by (auto simp: demo_hlist_nodes)

text \<open>The loops over the objects of a hash list, none of them at NULL: hlist_for_each_entry visits all, in order,
  hlist_for_each_entry_from begins at a given one and hlist_for_each_entry_continue after it, and the safe
  loop may delete what it visits and leaves exactly the others; all terminate.\<close>

theorem hlist_for_each_entry_loops:
  assumes l: "hlist h head (map (\<lambda>t. t + off) (us @ t # vs))" and nn: "NULL \<notin> set (us @ t # vs)"
  shows "hlist_for_each_entry body h head off = scan body (us @ t # vs) \<and>
    hlist_for_each_entry_from body h off t = scan body (t # vs) \<and>
    hlist_for_each_entry_continue body h off t = scan body vs \<and>
    (\<exists>h'. hlist_for_each_entry_safe (\<lambda>pos. hdelete_if P (pos + off)) head off h = Some h' \<and>
      hlist h' head (filter (\<lambda>x. \<not> P x) (map (\<lambda>t. t + off) (us @ t # vs))))"
proof -
  let ?ts = "us @ t # vs" and ?m = "map (\<lambda>t. t + off)"
  note D = hlistD [OF l]
  have n0: "u + off \<noteq> NULL" if "u \<in> set ?ts" for u using D(6) that by force
  have f: "hget_first head h = Some (hd (?m ?ts @ [NULL]))"
    using hseg_cell [OF D(5)] D(2) by (simp add: hcell_conv)
  have e: "hlist_entry_safe (hd (?m ?ts @ [NULL])) off = (if ?ts = [] then NULL else hd ?ts)"
    by (rule hlist_entry_hd [OF n0])
  have s: "hseg h (t + off) (?m vs) NULL" "hseg h (last (head # ?m us)) (?m (t # vs)) NULL"
    using D(5) hlist_node(2,3,5) [of h head "?m us" "t + off" "?m vs"] l
    by (simp_all add: hseg_append hlink_def)
  have sub: "set (?m ?ts) \<subseteq> dom (hl_nodes h)" using D(3) by blast
  have a: "hlist_for_each_entry body h head off = scan body ?ts"
    using hlist_for_each_entry_from_hseg [OF D(1) nn D(5) sub, of body] f e
    by (simp only: hlist_for_each_entry_def bind.bind_lunit)
  have b: "hlist_for_each_entry_from body h off t = scan body (t # vs)"
    using hlist_for_each_entry_from_hseg [OF D(1) _ s(2), of body] sub nn by simp
  have "hget_next (t + off) h = Some (hd (?m vs @ [NULL]))"
    using hlist_node(1) [of h head "?m us" "t + off" "?m vs"] l by simp
  then have c: "hlist_for_each_entry_continue body h off t = scan body vs"
    using hlist_for_each_entry_from_hseg [OF D(1) _ s(1), of body] sub nn hlist_entry_hd [of vs off, OF n0]
    by (simp add: hlist_for_each_entry_continue_def)
  have d: "\<exists>h'. hlist_for_each_entry_safe (\<lambda>pos. hdelete_if P (pos + off)) head off h = Some h' \<and>
      hlist h' head (filter (\<lambda>x. \<not> P x) (?m ?ts))"
    using hlist_for_each_entry_safe_from_filter [of h head "[]" off ?ts P] l nn f e
    by (simp only: hlist_for_each_entry_safe_def bind.bind_lunit append_Nil simp_thms)
  from a b c d show ?thesis by blast
qed

theorem hlist_for_each_entry_loops_witness:
  "\<exists>h. hcalls_run 16 [H_add_head 64, H_add_head 48, H_add_head 32] demo_hlist = Some h \<and>
    hlist_for_each_entry_continue (\<lambda>pos. Some (Some pos)) h 8 40 = Some (Some 56) \<and>
    (\<exists>h'. hlist_for_each_entry_safe (\<lambda>pos. hdelete_if (\<lambda>x. x = 48) (pos + 8)) 16 8 h = Some h' \<and> hlist h' 16 [32, 64])"
proof -
  obtain h where h: "hcalls_run 16 [H_add_head 64, H_add_head 48, H_add_head 32] demo_hlist = Some h"
      "hlist_client h 16 [32, 48, 64]"
    using hcalls_refine [OF demo_hlist_client, of "[H_add_head 64, H_add_head 48, H_add_head 32]"]
    by (auto simp: demo_hlist_nodes)
  then show ?thesis
    using hlist_for_each_entry_loops [of h 16 8 "[24]" 40 "[56]" "\<lambda>pos. Some (Some pos)" "\<lambda>x. x = 48"]
    by (simp add: hlist_client_def)
qed

end
