(* ===== verification/Cfe_Shared.thy ===== *)
theory Cfe_Shared
  imports Cfe_Regspec
begin

text \<open>
  Threads that share a registry. The operations of the common shape of the six registries (register,
  deregister, take a reference by name or to the default, drop a reference) are cut where they touch
  what threads share, each piece one step, and a step relation interleaves the steps of any number of
  threads. A reference that a call has taken is handed to the clients and lives on between calls, in a
  context, a header or a writer; any thread may drop it. The invariant says how the lock, the counters,
  the references and the threads agree. It is proved once, for every layout.
\<close>

subsection \<open>The operations, cut into steps\<close>

text \<open>The operations of \<open>Cfe_Regspec\<close>, and the default version that a file may be created with.\<close>

datatype 'n shared_op = Op "'n reg_op" | Acquire_default

text \<open>Where a thread is, with its local variables; what is looked up is a name, or \<open>None\<close> for the default.\<close>

datatype 'n shared_pc =
    S_idle
  | S_returned reg_result "int option"
  | S_acq_lock "'n option" | S_acq_find "'n option" | S_acq_inc "'n option" addr | S_acq_unlock addr
  | S_rel addr
  | S_reg_check addr | S_reg_lock addr | S_reg_find addr | S_reg_set addr | S_reg_add addr
  | S_reg_unlock int "int option"
  | S_unreg_lock addr | S_unreg_check addr | S_unreg_del addr | S_unreg_unlock int "int option"

fun op_start :: "'n reg_op \<Rightarrow> 'n shared_pc" where
  "op_start (Register t) = S_reg_check t"
| "op_start (Unregister t) = S_unreg_lock t"
| "op_start (Acquire n) = S_acq_lock (Some n)"
| "op_start (Release t) = S_rel t"

fun shared_start :: "'n shared_op \<Rightarrow> 'n shared_pc" where
  "shared_start (Op op) = op_start op"
| "shared_start Acquire_default = S_acq_lock None"

text \<open>The lookup under the read lock, by name or of the default \<open>d\<close>.\<close>

definition look_up :: "('t, 'k, 'n) layout \<Rightarrow> (world \<Rightarrow> addr) \<Rightarrow> 'n option \<Rightarrow> world \<Rightarrow> addr option" where
  "look_up L d n w = (case n of None \<Rightarrow> Some (d w) | Some n \<Rightarrow> tmpl_find L n w)"

fun shared_step ::
  "('t, 'k, 'n) layout \<Rightarrow> (world \<Rightarrow> addr) \<Rightarrow> 'n shared_pc \<Rightarrow> world \<Rightarrow> ('n shared_pc \<times> world) option" where
  "shared_step L d S_idle w = None"
| "shared_step L d (S_returned r e) w = None"
| "shared_step L d (S_acq_lock n) w = do {
     w \<leftarrow> on_reg L reg_rdlock w;
     Some (S_acq_find n, w)
   }"
| "shared_step L d (S_acq_find n) w = do {
     t \<leftarrow> look_up L d n w;
     Some (S_acq_inc n t, w)
   }"
| "shared_step L d (S_acq_inc n t) w = do {
     w \<leftarrow> (if t \<noteq> NULL then on_reg L (reg_store t (ly_refcnt_upd L cfe_atomic_inc)) w else Some w);
     Some (S_acq_unlock t, w)
   }"
| "shared_step L d (S_acq_unlock t) w = do {
     w \<leftarrow> on_reg L reg_unlock w;
     Some (S_returned (Type t) None, w)
   }"
| "shared_step L d (S_rel t) w = do {
     w \<leftarrow> on_reg L (reg_store t (ly_refcnt_upd L cfe_atomic_dec)) w;
     Some (S_returned Done None, w)
   }"
| "shared_step L d (S_reg_check t) w = do {
     ty \<leftarrow> rg_types (ly_get L w) t;
     Some (if \<not> ly_valid L ty then S_returned (Code 1) (Some EINVAL) else S_reg_lock t, w)
   }"
| "shared_step L d (S_reg_lock t) w = do {
     w \<leftarrow> on_reg L reg_wrlock w;
     Some (S_reg_find t, w)
   }"
| "shared_step L d (S_reg_find t) w = do {
     ty \<leftarrow> rg_types (ly_get L w) t;
     n \<leftarrow> ly_name L ty;
     tmp \<leftarrow> tmpl_find L n w;
     Some (if tmp \<noteq> NULL then S_reg_unlock 1 (Some EBUSY) else S_reg_set t, w)
   }"
| "shared_step L d (S_reg_set t) w = do {
     w \<leftarrow> on_reg L (reg_store t (ly_refcnt_upd L (\<lambda>v. cfe_atomic_set v 1))) w;
     Some (S_reg_add t, w)
   }"
| "shared_step L d (S_reg_add t) w = do {
     w \<leftarrow> on_reg L (reg_list (list_add_tail (t + ly_off L) (rg_head (ly_get L w)))) w;
     w \<leftarrow> ly_post L t w;
     Some (S_reg_unlock 0 None, w)
   }"
| "shared_step L d (S_reg_unlock r e) w = do {
     w \<leftarrow> on_reg L reg_unlock w;
     Some (S_returned (Code r) e, w)
   }"
| "shared_step L d (S_unreg_lock t) w = do {
     w \<leftarrow> on_reg L reg_wrlock w;
     Some (S_unreg_check t, w)
   }"
| "shared_step L d (S_unreg_check t) w =
     (if ly_pinned L w t then Some (S_unreg_unlock 1 (Some EBUSY), w)
      else do {
        ty \<leftarrow> rg_types (ly_get L w) t;
        Some (if cfe_atomic_get (ly_refcnt L ty) \<noteq> 1 then S_unreg_unlock 1 (Some EBUSY) else S_unreg_del t, w)
      })"
| "shared_step L d (S_unreg_del t) w = do {
     w \<leftarrow> on_reg L (reg_list (list_del_init (t + ly_off L))) w;
     Some (S_unreg_unlock 0 None, w)
   }"
| "shared_step L d (S_unreg_unlock r e) w = do {
     w \<leftarrow> on_reg L reg_unlock w;
     Some (S_returned (Code r) e, w)
   }"

subsection \<open>One thread alone runs the operations\<close>

fun has_returned :: "'n shared_pc \<Rightarrow> bool" where
  "has_returned (S_returned r e) = True"
| "has_returned pc = False"

fun answer_of :: "'n shared_pc \<times> world \<Rightarrow> (reg_result \<times> world) option" where
  "answer_of (S_returned r e, w) = Some (r, case e of None \<Rightarrow> w | Some n \<Rightarrow> w\<lparr>errno := n\<rparr>)"
| "answer_of (pc, w) = None"

text \<open>At most \<open>n\<close> steps of one thread, and what it then answers.\<close>

primrec runs_alone ::
  "nat \<Rightarrow> ('t, 'k, 'n) layout \<Rightarrow> (world \<Rightarrow> addr) \<Rightarrow> 'n shared_pc \<Rightarrow> world \<Rightarrow> (reg_result \<times> world) option" where
  "runs_alone 0 L d pc w = answer_of (pc, w)"
| "runs_alone (Suc n) L d pc w =
     (if has_returned pc then answer_of (pc, w) else do { (pc, w) \<leftarrow> shared_step L d pc w; runs_alone n L d pc w })"

lemma runs_alone_returned:
  "runs_alone n L d (S_returned r e) w = Some (r, case e of None \<Rightarrow> w | Some n \<Rightarrow> w\<lparr>errno := n\<rparr>)"
  by (cases n) simp_all

lemma runs_alone_step:
  "\<not> has_returned pc \<Longrightarrow> runs_alone (Suc n) L d pc w = do { (pc, w) \<leftarrow> shared_step L d pc w; runs_alone n L d pc w }"
  by simp

context type_layout
begin

lemma on_reg_errno: "on_reg L f (w\<lparr>errno := e\<rparr>) = map_option (\<lambda>w. w\<lparr>errno := e\<rparr>) (on_reg L f w)"
  by (simp add: on_reg_def option.map_comp comp_def)

lemma s_alone_unlock:
  "runs_alone (Suc n) L d (S_reg_unlock r e) w =
     map_option (\<lambda>w. (Code r, case e of None \<Rightarrow> w | Some n \<Rightarrow> w\<lparr>errno := n\<rparr>)) (on_reg L reg_unlock w)"
  "runs_alone (Suc n) L d (S_unreg_unlock r e) w =
     map_option (\<lambda>w. (Code r, case e of None \<Rightarrow> w | Some n \<Rightarrow> w\<lparr>errno := n\<rparr>)) (on_reg L reg_unlock w)"
  by (cases "on_reg L reg_unlock w"; simp add: runs_alone_step runs_alone_returned)+

lemma wrlock_types: "on_reg L reg_wrlock w = Some v \<Longrightarrow> rg_types (ly_get L v) = rg_types (ly_get L w)"
  by (auto simp: on_reg_def reg_wrlock_def)

lemma s_alone_register:
  "runs_alone 6 L d (S_reg_check t) w = map_option (\<lambda>(r, w). (Code r, w)) (tmpl_register L t w)"
proof -
  have "runs_alone (Suc (Suc (Suc (Suc (Suc (Suc 0)))))) L d (S_reg_check t) w =
      map_option (\<lambda>(r, w). (Code r, w)) (tmpl_register L t w)"
  proof (cases "rg_types (ly_get L w) t")
    case None
    then show ?thesis by (simp add: runs_alone_step tmpl_register_def)
  next
    case ty: (Some ty)
    show ?thesis
    proof (cases "ly_valid L ty \<and> on_reg L reg_wrlock w \<noteq> None")
      case False
      then show ?thesis using ty
        by (auto simp: runs_alone_step [of "S_reg_check t"] runs_alone_step [of "S_reg_lock t"] runs_alone_returned tmpl_register_def)
    next
      case True
      then obtain v where v: "on_reg L reg_wrlock w = Some v" "rg_types (ly_get L v) t = Some ty"
        using wrlock_types ty by fastforce
      show ?thesis
        using True ty v
        by (cases "ly_name L ty"; cases "tmpl_find L (the (ly_name L ty)) v")
           (auto simp: runs_alone_step [of "S_reg_check t"] runs_alone_step [of "S_reg_lock t"]
             runs_alone_step [of "S_reg_find t"] runs_alone_step [of "S_reg_set t"] runs_alone_step [of "S_reg_add t"]
             s_alone_unlock tmpl_register_def on_reg_errno option.map_comp comp_def map_option_bind bind_map_option)
    qed
  qed
  then show ?thesis by (simp add: eval_nat_numeral)
qed

lemma s_alone_unregister:
  "runs_alone 6 L d (S_unreg_lock t) w = map_option (\<lambda>(r, w). (Code r, w)) (tmpl_unregister L t w)"
proof -
  have "runs_alone (Suc (Suc (Suc (Suc (Suc (Suc 0)))))) L d (S_unreg_lock t) w =
      map_option (\<lambda>(r, w). (Code r, w)) (tmpl_unregister L t w)"
  proof (cases "on_reg L reg_wrlock w")
    case None
    then show ?thesis by (simp add: runs_alone_step tmpl_unregister_def)
  next
    case (Some v)
    then show ?thesis
      by (cases "rg_types (ly_get L v) t")
         (auto simp: runs_alone_step [of "S_unreg_lock t"] runs_alone_step [of "S_unreg_check t"]
           runs_alone_step [of "S_unreg_del t"] s_alone_unlock tmpl_unregister_def on_reg_errno
           option.map_comp comp_def map_option_bind bind_map_option)
  qed
  then show ?thesis by (simp add: eval_nat_numeral)
qed

lemma s_alone_acquire:
  "runs_alone 6 L d (S_acq_lock n) w = do {
     w \<leftarrow> on_reg L reg_rdlock w;
     t \<leftarrow> look_up L d n w;
     w \<leftarrow> (if t \<noteq> NULL then on_reg L (reg_store t (ly_refcnt_upd L cfe_atomic_inc)) w else Some w);
     w \<leftarrow> on_reg L reg_unlock w;
     Some (Type t, w)
   }"
proof -
  have "runs_alone (Suc (Suc (Suc (Suc (Suc (Suc 0)))))) L d (S_acq_lock n) w = do {
     w \<leftarrow> on_reg L reg_rdlock w;
     t \<leftarrow> look_up L d n w;
     w \<leftarrow> (if t \<noteq> NULL then on_reg L (reg_store t (ly_refcnt_upd L cfe_atomic_inc)) w else Some w);
     w \<leftarrow> on_reg L reg_unlock w;
     Some (Type t, w)
   }"
    by (simp add: runs_alone_step [of "S_acq_lock _"] runs_alone_step [of "S_acq_find _"]
        runs_alone_step [of "S_acq_inc _ _"] runs_alone_step [of "S_acq_unlock _"] runs_alone_returned cong: if_cong)
  then show ?thesis by (simp add: eval_nat_numeral)
qed

text \<open>The steps of a thread that no other interleaves with are the operation.\<close>

lemma shared_alone:
  "runs_alone 6 L d (op_start op) w =
    reg_step (tmpl_register L) (tmpl_unregister L) (tmpl_acquire L) (tmpl_release L) op w"
proof (cases op)
  case (Acquire n)
  then show ?thesis
    unfolding tmpl_acquire_def
    by (cases "on_reg L reg_rdlock w") (auto simp: s_alone_acquire look_up_def map_option_bind option.map_comp comp_def)
next
  case (Release t)
  have "runs_alone (Suc (Suc n)) L d (S_rel t) w = map_option (\<lambda>w. (Done, w)) (tmpl_release L t w)" for n
    unfolding tmpl_release_def
    by (cases "on_reg L (reg_store t (ly_refcnt_upd L cfe_atomic_dec)) w")
       (simp_all add: runs_alone_step [of "S_rel t"] runs_alone_returned)
  then show ?thesis using Release by (simp add: eval_nat_numeral)
qed (simp_all add: s_alone_register s_alone_unregister)

end

subsection \<open>What threads have to do with a lock\<close>

definition count_pc :: "('p \<Rightarrow> bool) \<Rightarrow> 'p list \<Rightarrow> nat" where
  "count_pc P ts = length (filter P ts)"

lemma count_pc_simps [simp]:
  "count_pc P [] = 0" "count_pc P (pc # ts) = of_bool (P pc) + count_pc P ts"
  "count_pc P (ts @ us) = count_pc P ts + count_pc P us"
  by (simp_all add: count_pc_def)

lemma count_pc_0: "count_pc P ts = 0 \<longleftrightarrow> (\<forall>q \<in> set ts. \<not> P q)"
  by (simp add: count_pc_def filter_empty_conv)

lemma count_pc_le: "count_pc P ts \<le> length ts"
  by (simp add: count_pc_def)

lemma count_pc_mono: "(\<And>q. P q \<Longrightarrow> Q q) \<Longrightarrow> count_pc P ts \<le> count_pc Q ts"
  unfolding count_pc_def by (induction ts) (auto simp: le_Suc_eq)

lemma count_pc_replicate: "\<not> P z \<Longrightarrow> count_pc P (replicate n z) = 0"
  by (simp add: count_pc_def)

lemma count_pc_update:
  "i < length ts \<Longrightarrow> \<not> P z \<Longrightarrow> count_pc P (ts[i := x]) = count_pc P (ts[i := z]) + of_bool (P x)"
  unfolding count_pc_def by (induction ts arbitrary: i) (auto split: nat.splits)

lemma set_update_insert: "i < length ts \<Longrightarrow> insert y (set (ts[i := x])) = insert x (set (ts[i := y]))"
  by (auto simp: upd_conv_take_nth_drop)

text \<open>The lock against the number of threads that are inside for reading and for writing.\<close>

fun lock_agrees :: "rwlock \<Rightarrow> nat \<Rightarrow> nat \<Rightarrow> bool" where
  "lock_agrees Unlocked r wr = (r = 0 \<and> wr = 0)"
| "lock_agrees (RdLocked n) r wr = (r = n \<and> 0 < n \<and> wr = 0)"
| "lock_agrees WrLocked r wr = (r = 0 \<and> wr = 1)"

lemma lock_steps:
  "lock_agrees l r wr \<Longrightarrow> rwlock_rdlock l = Some l' \<Longrightarrow> lock_agrees l' (Suc r) wr"
  "lock_agrees l r wr \<Longrightarrow> rwlock_wrlock l = Some l' \<Longrightarrow> lock_agrees l' r (Suc wr)"
  "lock_agrees l (Suc r) wr \<Longrightarrow> \<exists>l'. rwlock_unlock l = Some l' \<and> lock_agrees l' r wr"
  "lock_agrees l r (Suc wr) \<Longrightarrow> \<exists>l'. rwlock_unlock l = Some l' \<and> lock_agrees l' r wr"
  by (cases l; auto)+

text \<open>A thread inside for writing is alone inside.\<close>

lemma writer_alone:
  assumes "lock_agrees l (count_pc rd rest + of_bool (rd pc)) (count_pc wr rest + of_bool (wr pc))"
    and "wr pc" and "q \<in> set rest"
  shows "l = WrLocked" and "\<not> rd q" and "\<not> wr q"
proof -
  have "l = WrLocked \<and> count_pc rd rest = 0 \<and> count_pc wr rest = 0"
    using assms(1,2) by (cases l) auto
  then show "l = WrLocked" "\<not> rd q" "\<not> wr q" using assms(3) by (simp_all add: count_pc_0)
qed

text \<open>A lock that is not free has a thread inside; without one it is free.\<close>

lemma lock_inside:
  "lock_agrees l (count_pc rd ts) (count_pc wr ts) \<Longrightarrow> l \<noteq> Unlocked \<longleftrightarrow> (\<exists>q \<in> set ts. rd q \<or> wr q)"
  using count_pc_0 [of rd ts] count_pc_0 [of wr ts] by (cases l) auto

text \<open>A measure of each thread that its steps lower bounds the number of steps; an invariant holds after any number.\<close>

lemma run_bound:
  fixes f :: "'p \<Rightarrow> nat" and R :: "'p list \<times> 'w \<Rightarrow> 'p list \<times> 'w \<Rightarrow> bool"
  assumes one: "\<And>x y. R x y \<Longrightarrow> \<exists>i < length (fst x). \<exists>pc. fst y = (fst x)[i := pc] \<and> f pc < f (fst x ! i)"
    and bound: "\<And>pc. f pc \<le> b" and run: "(R ^^ k) x y"
  shows "k \<le> b * length (fst x)" and "length (fst y) = length (fst x)"
proof -
  let ?s = "\<lambda>x. sum_list (map f (fst x))"
  have step: "?s y < ?s x \<and> length (fst y) = length (fst x)" if "R x y" for x y
  proof -
    obtain i pc where i: "i < length (fst x)" "fst y = (fst x)[i := pc]" "f pc < f (fst x ! i)"
      using one [OF \<open>R x y\<close>] by blast
    have "f (fst x ! i) \<le> ?s x" using i(1) member_le_sum_list [of "f (fst x ! i)" "map f (fst x)"] by simp
    then show ?thesis using i by (simp add: map_update sum_list_update)
  qed
  have "?s y + k \<le> ?s x \<and> length (fst y) = length (fst x)" using run
  proof (induction k arbitrary: y)
    case (Suc k)
    then obtain u where u: "(R ^^ k) x u" "R u y" by auto
    show ?case using Suc.IH [OF u(1)] step [OF u(2)] by linarith
  qed simp
  moreover have "?s x \<le> b * length (fst x)"
    using sum_list_mono [of "fst x" f "\<lambda>_. b"] bound by (simp add: sum_list_triv mult.commute)
  ultimately show "k \<le> b * length (fst x)" "length (fst y) = length (fst x)" by auto
qed

lemma run_invariant: "(R ^^ k) x y \<Longrightarrow> P x \<Longrightarrow> (\<And>x y. R x y \<Longrightarrow> P x \<Longrightarrow> P y) \<Longrightarrow> P y"
  by (induction k arbitrary: y) auto

text \<open>The counter of a type that is used \<open>n\<close> times, read as an \<open>int\<close>.\<close>

lemma get_count: "n < 2 ^ 31 \<Longrightarrow> cfe_atomic_get (of_nat (Suc n)) = 1 \<longleftrightarrow> n = 0"
proof -
  assume n: "n < 2 ^ 31"
  then have "unat (of_nat (Suc n) :: cfe_atomic_t) = Suc n"
    by (simp only: unat_of_nat) simp
  then show ?thesis
    using n atomic_get_eq_1_iff [of "of_nat (Suc n)"] by (auto simp: word_unat_eq_iff)
qed

subsection \<open>The invariant\<close>

fun s_reading :: "'n shared_pc \<Rightarrow> bool" where
  "s_reading (S_acq_find n) = True"
| "s_reading (S_acq_inc n t) = True"
| "s_reading (S_acq_unlock t) = True"
| "s_reading _ = False"

fun s_writing :: "'n shared_pc \<Rightarrow> bool" where
  "s_writing (S_reg_find t) = True"
| "s_writing (S_reg_set t) = True"
| "s_writing (S_reg_add t) = True"
| "s_writing (S_reg_unlock r e) = True"
| "s_writing (S_unreg_check t) = True"
| "s_writing (S_unreg_del t) = True"
| "s_writing (S_unreg_unlock r e) = True"
| "s_writing _ = False"

text \<open>A thread that has a reference to a type; one that has or takes or drops any.\<close>

fun s_holding :: "addr \<Rightarrow> 'n shared_pc \<Rightarrow> bool" where
  "s_holding t (S_acq_unlock u) = (u = t)"
| "s_holding t (S_returned (Type u) e) = (u = t)"
| "s_holding t (S_rel u) = (u = t)"
| "s_holding t _ = False"

fun s_referring :: "'n shared_pc \<Rightarrow> bool" where
  "s_referring (S_acq_lock n) = True"
| "s_referring (S_acq_find n) = True"
| "s_referring (S_acq_inc n t) = True"
| "s_referring (S_acq_unlock u) = True"
| "s_referring (S_returned (Type u) e) = True"
| "s_referring (S_rel u) = True"
| "s_referring _ = False"

text \<open>What a lookup finds in the list of registered types; \<open>newest\<close> is the default of a list.\<close>

definition found_by ::
  "('n \<Rightarrow> 'k) \<Rightarrow> ((addr \<Rightarrow> 'k option) \<Rightarrow> addr list \<Rightarrow> addr) \<Rightarrow> (addr \<Rightarrow> 'k option) \<Rightarrow> 'n option \<Rightarrow> addr list \<Rightarrow> addr" where
  "found_by canon newest key n xs =
     (case n of
        None \<Rightarrow> newest key xs
      | Some n \<Rightarrow> (case List.find (\<lambda>t. key t = Some (canon n)) xs of None \<Rightarrow> NULL | Some t \<Rightarrow> t))"

text \<open>What is known of the registry where a thread is; \<open>xs\<close> are the registered types.\<close>

fun s_ok ::
  "('t, 'k, 'n) layout \<Rightarrow> ((addr \<Rightarrow> 'k option) \<Rightarrow> addr list \<Rightarrow> addr) \<Rightarrow> world \<Rightarrow> addr list \<Rightarrow> 'n shared_pc \<Rightarrow> bool" where
  "s_ok L newest w xs (S_acq_inc n t) = (t = found_by (ly_canon L) newest (tmpl_key L w) n xs)"
| "s_ok L newest w xs (S_acq_unlock t) = (t = NULL \<or> t \<in> set xs)"
| "s_ok L newest w xs (S_returned (Type t) e) = (t = NULL \<or> t \<in> set xs)"
| "s_ok L newest w xs (S_rel t) = (t \<in> set xs)"
| "s_ok L newest w xs (S_reg_check t) = (t \<in> dom (rg_types (ly_get L w)))"
| "s_ok L newest w xs (S_reg_lock t) = (tmpl_key L w t \<noteq> None)"
| "s_ok L newest w xs (S_reg_find t) = (tmpl_key L w t \<noteq> None)"
| "s_ok L newest w xs (S_reg_set t) = (tmpl_key L w t \<noteq> None \<and> tmpl_key L w t \<notin> tmpl_key L w ` set xs)"
| "s_ok L newest w xs (S_reg_add t) =
     (tmpl_key L w t \<noteq> None \<and> tmpl_key L w t \<notin> tmpl_key L w ` set xs \<and> tmpl_refs L w t = Some 1)"
| "s_ok L newest w xs (S_unreg_lock t) = (t \<in> dom (rg_types (ly_get L w)))"
| "s_ok L newest w xs (S_unreg_check t) = (t \<in> dom (rg_types (ly_get L w)))"
| "s_ok L newest w xs (S_unreg_del t) =
     (\<not> ly_pinned L w t \<and> (\<exists>c. tmpl_refs L w t = Some c \<and> cfe_atomic_get c = 1))"
| "s_ok L newest w xs _ = True"

text \<open>
  The invariant, for one thread at \<open>pc\<close>, the others at \<open>rest\<close>, and the references \<open>hs\<close> that the clients
  have: the list in memory is that of the registered types; the lock is held as the threads are inside;
  each registered type has one reference and one more for each that a client or a thread has; a type
  that has a single reference but is not registered has a node that is linked to itself.
\<close>

definition shared_ok ::
  "('t, 'k, 'n) layout \<Rightarrow> ((addr \<Rightarrow> 'k option) \<Rightarrow> addr list \<Rightarrow> addr) \<Rightarrow> addr list \<Rightarrow> world \<Rightarrow> addr list \<Rightarrow>
    'n shared_pc \<Rightarrow> 'n shared_pc list \<Rightarrow> bool" where
  "shared_ok L newest xs w hs pc rest \<longleftrightarrow>
     reg_ok L (ly_get L w) xs \<and> ly_inv L w xs \<and>
     lock_agrees (rg_lock (ly_get L w)) (count_pc s_reading rest + of_bool (s_reading pc))
       (count_pc s_writing rest + of_bool (s_writing pc)) \<and>
     (\<forall>t \<in> set xs. tmpl_refs L w t =
       Some (of_nat (Suc (count_list hs t + count_pc (s_holding t) rest + of_bool (s_holding t pc))))) \<and>
     s_ok L newest w xs pc \<and> (\<forall>q \<in> set rest. s_ok L newest w xs q) \<and> set hs \<subseteq> set xs \<and>
     (\<forall>t \<in> dom (rg_types (ly_get L w)) - set xs. cfe_atomic_get (the (tmpl_refs L w t)) = 1 \<longrightarrow>
       S_reg_add t \<in> insert pc (set rest) \<or> dlist (rg_nodes (ly_get L w)) (t + ly_off L) []) \<and>
     Suc (length hs + count_pc s_referring rest + of_bool (s_referring pc)) < 2 ^ 31"

lemma shared_okD:
  assumes "shared_ok L newest xs w hs pc rest"
  shows "reg_ok L (ly_get L w) xs" and "ly_inv L w xs"
    and "lock_agrees (rg_lock (ly_get L w)) (count_pc s_reading rest + of_bool (s_reading pc))
       (count_pc s_writing rest + of_bool (s_writing pc))"
    and "\<And>t. t \<in> set xs \<Longrightarrow> tmpl_refs L w t =
       Some (of_nat (Suc (count_list hs t + count_pc (s_holding t) rest + of_bool (s_holding t pc))))"
    and "s_ok L newest w xs pc" and "\<And>q. q \<in> set rest \<Longrightarrow> s_ok L newest w xs q" and "set hs \<subseteq> set xs"
    and "\<And>t. t \<in> dom (rg_types (ly_get L w)) - set xs \<Longrightarrow> cfe_atomic_get (the (tmpl_refs L w t)) = 1 \<Longrightarrow>
      S_reg_add t \<in> insert pc (set rest) \<or> dlist (rg_nodes (ly_get L w)) (t + ly_off L) []"
    and "Suc (length hs + count_pc s_referring rest + of_bool (s_referring pc)) < 2 ^ 31"
  using assms unfolding shared_ok_def by blast+

lemma holding_referring: "s_holding t q \<Longrightarrow> s_referring q"
  by (cases "(t, q)" rule: s_holding.cases) auto

text \<open>The number of references to one type is in the range of an \<open>int\<close>.\<close>

lemma uses_bound:
  assumes "shared_ok L newest xs w hs pc rest"
  shows "count_list hs t + count_pc (s_holding t) rest + of_bool (s_holding t pc) < 2 ^ 31"
proof -
  have "count_list hs t \<le> length hs" by (rule count_le_length)
  moreover have "count_pc (s_holding t) rest \<le> count_pc s_referring rest" by (rule count_pc_mono [OF holding_referring])
  moreover have "(of_bool (s_holding t pc) :: nat) \<le> of_bool (s_referring pc)"
    using holding_referring [of t pc] by simp
  ultimately show ?thesis using shared_okD(9) [OF assms] by linarith
qed

text \<open>What the default of a registry has to be for the invariant to carry it.\<close>

locale shared_layout = type_layout +
  fixes dflt :: "world \<Rightarrow> addr" and newest :: "(addr \<Rightarrow> 'b option) \<Rightarrow> addr list \<Rightarrow> addr"
  assumes default: "ly_inv L w xs \<Longrightarrow> reg_ok L (ly_get L w) xs \<Longrightarrow> dflt w = newest (tmpl_key L w) xs"
    and newest_listed: "newest key xs = NULL \<or> newest key xs \<in> set xs"
    and pinned_default: "t \<noteq> NULL \<Longrightarrow> ly_pinned L w t \<longleftrightarrow> dflt w = t"

text \<open>The world after a change of the lock, of the counter of a type, of the nodes.\<close>

abbreviation put_lock :: "('t, 'k, 'n) layout \<Rightarrow> rwlock \<Rightarrow> world \<Rightarrow> world" where
  "put_lock L l w \<equiv> ly_put L ((ly_get L w)\<lparr>rg_lock := l\<rparr>) w"

abbreviation put_nodes :: "('t, 'k, 'n) layout \<Rightarrow> lheap \<Rightarrow> world \<Rightarrow> world" where
  "put_nodes L h w \<equiv> ly_put L ((ly_get L w)\<lparr>rg_nodes := h\<rparr>) w"

definition put_refcnt ::
  "('t, 'k, 'n) layout \<Rightarrow> addr \<Rightarrow> (cfe_atomic_t \<Rightarrow> cfe_atomic_t) \<Rightarrow> 't \<Rightarrow> world \<Rightarrow> world" where
  "put_refcnt L t f ty w = ly_put L ((ly_get L w)\<lparr>rg_types := (rg_types (ly_get L w))(t \<mapsto> ly_refcnt_upd L f ty)\<rparr>) w"

context type_layout
begin

lemma put_lock_key [simp]: "tmpl_key L (put_lock L l w) = tmpl_key L w"
  and put_lock_refs [simp]: "tmpl_refs L (put_lock L l w) = tmpl_refs L w"
  and put_lock_inv [simp]: "ly_inv L (put_lock L l w) xs = ly_inv L w xs"
  and put_nodes_key [simp]: "tmpl_key L (put_nodes L h w) = tmpl_key L w"
  and put_nodes_refs [simp]: "tmpl_refs L (put_nodes L h w) = tmpl_refs L w"
  and put_nodes_inv [simp]: "ly_inv L (put_nodes L h w) xs = ly_inv L w xs"
  by (simp_all add: tmpl_key_def tmpl_refs_def fun_eq_iff inv_put)

lemma put_lock_self: "put_lock L (rg_lock (ly_get L w)) w = w"
  by simp

lemma put_refcnt_simps:
  assumes "rg_types (ly_get L w) t = Some ty"
  shows "tmpl_key L (put_refcnt L t f ty w) = tmpl_key L w"
    and "tmpl_refs L (put_refcnt L t f ty w) = (tmpl_refs L w)(t \<mapsto> f (ly_refcnt L ty))"
    and "ly_inv L (put_refcnt L t f ty w) xs = ly_inv L w xs"
    and "reg_ok L (ly_get L (put_refcnt L t f ty w)) xs = reg_ok L (ly_get L w) xs"
    and "ly_pinned L (put_refcnt L t f ty w) = ly_pinned L w"
    and "dom (rg_types (ly_get L (put_refcnt L t f ty w))) = dom (rg_types (ly_get L w))"
    and "rg_lock (ly_get L (put_refcnt L t f ty w)) = rg_lock (ly_get L w)"
    and "rg_nodes (ly_get L (put_refcnt L t f ty w)) = rg_nodes (ly_get L w)"
  using assms by (auto simp: put_refcnt_def tmpl_key_def tmpl_refs_def ok_store inv_put fun_eq_iff)

lemma on_reg_store:
  "rg_types (ly_get L w) t = Some ty \<Longrightarrow> on_reg L (reg_store t (ly_refcnt_upd L f)) w = Some (put_refcnt L t f ty w)"
  by (simp add: on_reg_def reg_store_def put_refcnt_def)

lemma put_lock_ok [simp]: "s_ok L newest (put_lock L l w) xs q = s_ok L newest w xs q"
  by (cases "(L, newest, w, xs, q)" rule: s_ok.cases) simp_all

lemma put_refcnt_ok:
  assumes "rg_types (ly_get L w) t = Some ty" and "q \<noteq> S_reg_add t" and "q \<noteq> S_unreg_del t"
  shows "s_ok L newest (put_refcnt L t f ty w) xs q = s_ok L newest w xs q"
  using assms(2,3)
  by (cases "(L, newest, w, xs, q)" rule: s_ok.cases) (simp_all add: put_refcnt_simps [OF assms(1)] del: domIff)

text \<open>A step that changes nothing, or only the lock.\<close>

lemma shared_ok_lock:
  assumes T: "shared_ok L newest xs w hs pc rest" and "s_ok L newest w xs pc'"
    and "\<And>t. t \<in> set xs \<Longrightarrow> s_holding t pc' = s_holding t pc" and "s_referring pc' \<Longrightarrow> s_referring pc"
    and "\<And>t. pc \<noteq> S_reg_add t"
    and "lock_agrees l (count_pc s_reading rest + of_bool (s_reading pc')) (count_pc s_writing rest + of_bool (s_writing pc'))"
  shows "shared_ok L newest xs (put_lock L l w) hs pc' rest"
proof -
  note D = shared_okD [OF T]
  have "tmpl_refs L w t = Some (of_nat (Suc (count_list hs t + count_pc (s_holding t) rest + of_bool (s_holding t pc'))))"
    if "t \<in> set xs" for t
    using D(4) [OF that] assms(3) [OF that] by simp
  moreover have "S_reg_add t \<in> insert pc' (set rest) \<or> dlist (rg_nodes (ly_get L w)) (t + ly_off L) []"
    if "t \<in> dom (rg_types (ly_get L w)) - set xs" "cfe_atomic_get (the (tmpl_refs L w t)) = 1" for t
    using D(8) [OF that] assms(5) by blast
  moreover have "Suc (length hs + count_pc s_referring rest + of_bool (s_referring pc')) < 2 ^ 31"
    using D(9) assms(4) by (cases "s_referring pc'") auto
  ultimately show ?thesis
    using D(1,2,6,7) assms(2,6) unfolding shared_ok_def by simp
qed

lemma shared_ok_local:
  assumes "shared_ok L newest xs w hs pc rest" and "s_ok L newest w xs pc'"
    and "\<And>t. t \<in> set xs \<Longrightarrow> s_holding t pc' = s_holding t pc" and "s_referring pc' \<Longrightarrow> s_referring pc"
    and "\<And>t. pc \<noteq> S_reg_add t" and "s_reading pc' = s_reading pc" and "s_writing pc' = s_writing pc"
  shows "shared_ok L newest xs w hs pc' rest"
  using shared_ok_lock [OF assms(1-5), of "rg_lock (ly_get L w)"] shared_okD(3) [OF assms(1)] assms(6,7) by simp

text \<open>A store to the counter of a registered type.\<close>

lemma shared_ok_stored:
  assumes T: "shared_ok L newest xs w hs pc rest" and ty: "rg_types (ly_get L w) t = Some ty" and t: "t \<in> set xs"
    and pc': "s_ok L newest w xs pc'" "\<And>u. pc' \<noteq> S_reg_add u" "\<And>u. pc' \<noteq> S_unreg_del u"
      "s_reading pc' = s_reading pc" "s_writing pc' = s_writing pc" "s_referring pc' \<Longrightarrow> s_referring pc"
    and h: "\<And>u. u \<noteq> t \<Longrightarrow> s_holding u pc' = s_holding u pc"
    and f: "f (ly_refcnt L ty) = of_nat (Suc (count_list hs t + count_pc (s_holding t) rest + of_bool (s_holding t pc')))"
    and pc: "\<And>u. pc \<noteq> S_reg_add u" and del: "S_unreg_del t \<notin> set rest"
  shows "shared_ok L newest xs (put_refcnt L t f ty w) hs pc' rest"
proof -
  note D = shared_okD [OF T] and P = put_refcnt_simps [OF ty]
  let ?w = "put_refcnt L t f ty w"
  have "s_ok L newest ?w xs q" if "q \<in> set rest" for q
  proof -
    have "q \<noteq> S_reg_add t" using D(6) [OF that] t by auto
    moreover have "q \<noteq> S_unreg_del t" using del that by blast
    ultimately show ?thesis using D(6) [OF that] by (simp add: put_refcnt_ok [OF ty])
  qed
  moreover have "s_ok L newest ?w xs pc'" using pc' by (simp add: put_refcnt_ok [OF ty])
  moreover have "tmpl_refs L ?w u = Some (of_nat (Suc (count_list hs u + count_pc (s_holding u) rest + of_bool (s_holding u pc'))))"
    if "u \<in> set xs" for u
    using D(4) [OF that] f h [of u] by (simp add: P)
  moreover have "S_reg_add u \<in> insert pc' (set rest) \<or> dlist (rg_nodes (ly_get L ?w)) (u + ly_off L) []"
    if "u \<in> dom (rg_types (ly_get L ?w)) - set xs" "cfe_atomic_get (the (tmpl_refs L ?w u)) = 1" for u
  proof -
    have "u \<noteq> t" using t that(1) by blast
    then show ?thesis using D(8) [of u] that pc unfolding P by auto
  qed
  moreover have "Suc (length hs + count_pc s_referring rest + of_bool (s_referring pc')) < 2 ^ 31"
    using D(9) pc'(6) by (cases "s_referring pc'") auto
  ultimately show ?thesis
    using D(1,2,3,7) pc'(4,5) unfolding shared_ok_def P by simp
qed

text \<open>A thread outside knows nothing that a writer changes.\<close>

lemma outside_keeps:
  assumes "s_ok L newest w xs q" and "\<not> s_reading q" and "\<not> s_writing q"
    and "tmpl_key L v = tmpl_key L w" and "dom (rg_types (ly_get L v)) = dom (rg_types (ly_get L w))"
    and "\<And>t. s_holding t q \<Longrightarrow> t \<in> set xs \<Longrightarrow> t \<in> set ys"
  shows "s_ok L newest v ys q"
  using assms by (cases "(L, newest, w, xs, q)" rule: s_ok.cases) (auto simp del: domIff)

lemma shared_writer_alone:
  assumes "shared_ok L newest xs w hs pc rest" and "s_writing pc" and "q \<in> set rest"
  shows "rg_lock (ly_get L w) = WrLocked" and "\<not> s_reading q" and "\<not> s_writing q"
  using writer_alone [OF shared_okD(3) [OF assms(1)] assms(2,3)] by simp_all

lemma shared_ok_set:
  assumes T: "shared_ok L newest xs w hs (S_reg_set t) rest" and ty: "rg_types (ly_get L w) t = Some ty"
  shows "shared_ok L newest xs (put_refcnt L t (\<lambda>v. cfe_atomic_set v 1) ty w) hs (S_reg_add t) rest"
proof -
  note D = shared_okD [OF T] and P = put_refcnt_simps [OF ty]
  have t: "t \<notin> set xs" using D(5) by auto
  let ?w = "put_refcnt L t (\<lambda>v. cfe_atomic_set v 1) ty w"
  have "s_ok L newest ?w xs q" if "q \<in> set rest" for q
    by (rule outside_keeps [OF D(6) [OF that]]) (use shared_writer_alone [OF T _ that] in \<open>simp_all add: P\<close>)
  moreover have "s_ok L newest ?w xs (S_reg_add t)" using D(5) by (simp add: P)
  moreover have "tmpl_refs L ?w u = Some (of_nat (Suc (count_list hs u + count_pc (s_holding u) rest)))"
    if "u \<in> set xs" for u
    using D(4) [OF that] t that by (auto simp: P)
  moreover have "S_reg_add u \<in> insert (S_reg_add t) (set rest) \<or> dlist (rg_nodes (ly_get L ?w)) (u + ly_off L) []"
    if "u \<in> dom (rg_types (ly_get L ?w)) - set xs" "cfe_atomic_get (the (tmpl_refs L ?w u)) = 1" for u
    using D(8) [of u] that unfolding P by (cases "u = t") auto
  ultimately show ?thesis
    using D(1,2,3,7,9) unfolding shared_ok_def P by simp
qed

text \<open>Where the node of a type is, and which node is no type's.\<close>

lemma reg_ok_parts:
  assumes "reg_ok L R xs"
  shows "dlist (rg_nodes R) (rg_head R) (map (\<lambda>t. t + ly_off L) xs)"
    and "t \<in> dom (rg_types R) \<Longrightarrow> t + ly_off L \<in> dom (rg_nodes R)"
    and "t \<in> dom (rg_types R) \<Longrightarrow> t \<notin> set xs \<Longrightarrow>
      t + ly_off L \<notin> set (rg_head R # map (\<lambda>t. t + ly_off L) xs)"
    and "NULL \<notin> dom (rg_types R)" and "t \<in> set xs \<Longrightarrow> t \<in> dom (rg_types R)" and "distinct xs"
  using assms reg_ok_node [OF assms, of t] reg_ok_key_dom [of L R t]
  by (auto simp: reg_ok_def distinct_map)

lemma reg_ok_nodesI:
  assumes "reg_ok L R xs" and "dlist h (rg_head R) (map (\<lambda>t. t + ly_off L) ys)"
    and "dom h = dom (rg_nodes R)" and "\<forall>t \<in> set ys. reg_key L R t \<noteq> None" and "distinct (map (reg_key L R) ys)"
  shows "reg_ok L (R\<lparr>rg_nodes := h\<rparr>) ys"
  using assms by (simp add: reg_ok_def)

lemma not_held_none:
  assumes "shared_ok L newest xs w hs pc rest" and "t \<notin> set xs" and "t \<noteq> NULL"
  shows "count_list hs t = 0" and "count_pc (s_holding t) rest = 0"
proof -
  note D = shared_okD [OF assms(1)]
  show "count_list hs t = 0" using D(7) assms(2) by (auto simp: count_list_0_iff)
  have "\<not> s_holding t q" if "q \<in> set rest" for q
    using D(6) [OF that] assms(2,3) by (cases "(t, q)" rule: s_holding.cases) auto
  then show "count_pc (s_holding t) rest = 0" unfolding count_pc_0 by blast
qed

lemma shared_ok_add:
  assumes T: "shared_ok L newest xs w hs (S_reg_add t) rest"
  shows "\<exists>h v. list_add_tail (t + ly_off L) (rg_head (ly_get L w)) (rg_nodes (ly_get L w)) = Some h \<and>
    ly_post L t (put_nodes L h w) = Some v \<and> ly_get L v = (ly_get L w)\<lparr>rg_nodes := h\<rparr> \<and>
    shared_ok L newest (xs @ [t]) v hs (S_reg_unlock 0 None) rest"
proof -
  let ?R = "ly_get L w" and ?ns = "map (\<lambda>t. t + ly_off L) xs"
  note D = shared_okD [OF T] and K = reg_ok_parts [OF shared_okD(1) [OF T]]
  have key: "tmpl_key L w t \<noteq> None" "tmpl_key L w t \<notin> tmpl_key L w ` set xs" "tmpl_refs L w t = Some 1"
    using D(5) by simp_all
  then have t: "t \<notin> set xs" "t \<in> dom (rg_types ?R)" by (auto simp: tmpl_refs_def)
  then have nn: "t \<noteq> NULL" using K(4) by blast
  obtain h where h: "list_add_tail (t + ly_off L) (rg_head ?R) (rg_nodes ?R) = Some h"
      "dlist h (rg_head ?R) (?ns @ [t + ly_off L])"
      "frame (insert (t + ly_off L) (set (rg_head ?R # ?ns))) (rg_nodes ?R) h"
    using list_add_tail_dlist [OF K(1) K(2) [OF t(2)] K(3) [OF t(2,1)]] by blast
  have ok: "reg_ok L (?R\<lparr>rg_nodes := h\<rparr>) (xs @ [t])"
    by (rule reg_ok_nodesI [OF D(1)])
      (use h frame_dom [OF h(3)] D(1) key t in \<open>auto simp: reg_ok_def tmpl_key_def\<close>)
  then obtain v where v: "ly_post L t (put_nodes L h w) = Some v" "ly_get L v = ?R\<lparr>rg_nodes := h\<rparr>"
      "ly_inv L v (xs @ [t])"
    using post [of "put_nodes L h w" xs t] D(2) by auto
  have kv: "tmpl_key L v = tmpl_key L w" "tmpl_refs L v = tmpl_refs L w"
    by (simp_all add: tmpl_key_def tmpl_refs_def fun_eq_iff v(2))
  have "s_ok L newest v (xs @ [t]) q" if "q \<in> set rest" for q
    by (rule outside_keeps [OF D(6) [OF that]]) (use shared_writer_alone [OF T _ that] in \<open>simp_all add: kv v(2)\<close>)
  moreover have "tmpl_refs L v u = Some (of_nat (Suc (count_list hs u + count_pc (s_holding u) rest)))"
    if "u \<in> set (xs @ [t])" for u
    using D(4) [of u] that key(3) not_held_none [OF T t(1) nn] by (cases "u = t") (auto simp: kv)
  moreover have "S_reg_add u \<in> set rest \<or> dlist h (u + ly_off L) []"
    if u: "u \<in> dom (rg_types ?R)" "u \<notin> set (xs @ [t])" "cfe_atomic_get (the (tmpl_refs L w u)) = 1" for u
  proof -
    have "u + ly_off L \<notin> insert (t + ly_off L) (set (rg_head ?R # ?ns))" using K(3) [of u] u by auto
    then have "dlist h (u + ly_off L) [] = dlist (rg_nodes ?R) (u + ly_off L) []"
      by (intro dlist_other [OF h(3)]) auto
    then show ?thesis using D(8) [of u] u by auto
  qed
  ultimately have "shared_ok L newest (xs @ [t]) v hs (S_reg_unlock 0 None) rest"
    using ok D(3,7,9) v(2,3) unfolding shared_ok_def by (auto simp: kv)
  then show ?thesis using h(1) v(1,2) by blast
qed

lemma shared_ok_del_listed:
  assumes T: "shared_ok L newest xs w hs (S_unreg_del t) rest" and t: "t \<in> set xs"
  shows "\<exists>h. list_del_init (t + ly_off L) (rg_nodes (ly_get L w)) = Some h \<and>
    shared_ok L newest (remove1 t xs) (put_nodes L h w) hs (S_unreg_unlock 0 None) rest"
proof -
  let ?R = "ly_get L w" and ?ns = "map (\<lambda>t. t + ly_off L) xs" and ?ys = "remove1 t xs"
  note D = shared_okD [OF T] and K = reg_ok_parts [OF shared_okD(1) [OF T]]
  obtain c where c: "tmpl_refs L w t = Some c" "cfe_atomic_get c = 1" "\<not> ly_pinned L w t" using D(5) by auto
  have "count_list hs t + count_pc (s_holding t) rest = 0"
    using get_count [OF uses_bound [OF T, of t]] D(4) [OF t] c(1,2) by simp
  then have none: "t \<notin> set hs" "\<not> s_holding t q" if "q \<in> set rest" for q
    using that by (auto simp: count_list_0_iff count_pc_0)
  have free: "t \<notin> set hs"
    using \<open>count_list hs t + count_pc (s_holding t) rest = 0\<close> by (simp add: count_list_0_iff)
  have sub: "set ?ys = set xs - {t}" using K(6) by simp
  obtain h where h: "list_del_init (t + ly_off L) (rg_nodes ?R) = Some h"
      "dlist h (rg_head ?R) (remove1 (t + ly_off L) ?ns)" "dlist h (t + ly_off L) []"
      "frame (set (rg_head ?R # ?ns)) (rg_nodes ?R) h"
    using list_del_init_dlist [OF K(1), of "t + ly_off L"] t by auto
  have rm: "remove1 (t + ly_off L) ?ns = map (\<lambda>t. t + ly_off L) ?ys" by (induction xs) auto
  have "reg_ok L (?R\<lparr>rg_nodes := h\<rparr>) ?ys"
  proof (rule reg_ok_nodesI [OF D(1)])
    show "distinct (map (reg_key L ?R) ?ys)" using D(1) by (simp add: reg_ok_def distinct_map_remove1)
  qed (use h rm frame_dom [OF h(4)] D(1) sub in \<open>auto simp: reg_ok_def\<close>)
  moreover have "s_ok L newest (put_nodes L h w) ?ys q" if "q \<in> set rest" for q
    by (rule outside_keeps [OF D(6) [OF that]])
      (use shared_writer_alone [OF T _ that] none(2) [OF that] sub in auto)
  moreover have "tmpl_refs L w u = Some (of_nat (Suc (count_list hs u + count_pc (s_holding u) rest)))"
    if "u \<in> set ?ys" for u
    using D(4) [of u] that sub by simp
  moreover have "S_reg_add u \<in> set rest \<or> dlist h (u + ly_off L) []"
    if u: "u \<in> dom (rg_types ?R)" "u \<notin> set ?ys" "cfe_atomic_get (the (tmpl_refs L w u)) = 1" for u
  proof (cases "u = t")
    case False
    then have "u \<notin> set xs" using u(2) sub by simp
    then have "u + ly_off L \<notin> set (rg_head ?R # ?ns)" using K(3) [of u] u(1) by blast
    then have "dlist h (u + ly_off L) [] = dlist (rg_nodes ?R) (u + ly_off L) []"
      by (intro dlist_other [OF h(4)]) auto
    then show ?thesis using D(8) [of u] u \<open>u \<notin> set xs\<close> by auto
  qed (use h(3) in simp)
  ultimately have "shared_ok L newest ?ys (put_nodes L h w) hs (S_unreg_unlock 0 None) rest"
    using inv_remove [OF D(2) t c(3)] D(3,7,9) free sub unfolding shared_ok_def by auto
  then show ?thesis using h(1) by blast
qed

lemma shared_ok_del:
  assumes T: "shared_ok L newest xs w hs (S_unreg_del t) rest"
  shows "\<exists>h. list_del_init (t + ly_off L) (rg_nodes (ly_get L w)) = Some h \<and>
    shared_ok L newest (remove1 t xs) (put_nodes L h w) hs (S_unreg_unlock 0 None) rest"
proof (cases "t \<in> set xs")
  case False
  note D = shared_okD [OF T]
  obtain c where c: "tmpl_refs L w t = Some c" "cfe_atomic_get c = 1" using D(5) by auto
  have "S_reg_add t \<notin> set rest" using shared_writer_alone(3) [OF T] by force
  then have "dlist (rg_nodes (ly_get L w)) (t + ly_off L) []"
    using D(8) [of t] False c by (auto simp: tmpl_refs_def domI)
  then have "list_del_init (t + ly_off L) (rg_nodes (ly_get L w)) = Some (rg_nodes (ly_get L w))"
    by (rule list_del_init_self)
  moreover have "shared_ok L newest xs w hs (S_unreg_unlock 0 None) rest"
    by (rule shared_ok_local [OF T]) simp_all
  ultimately show ?thesis using False by (simp add: remove1_idem)
qed (rule shared_ok_del_listed [OF T])

subsection \<open>Every step is defined, and keeps the invariant\<close>

end

text \<open>A thread that has to wait for the lock.\<close>

fun s_waits :: "rwlock \<Rightarrow> 'n shared_pc \<Rightarrow> bool" where
  "s_waits l (S_acq_lock n) = (rwlock_rdlock l = None)"
| "s_waits l (S_reg_lock t) = (rwlock_wrlock l = None)"
| "s_waits l (S_unreg_lock t) = (rwlock_wrlock l = None)"
| "s_waits l pc = False"

text \<open>The list of registered types after a step.\<close>

fun s_listed_after :: "'n shared_pc \<Rightarrow> addr list \<Rightarrow> addr list" where
  "s_listed_after (S_reg_add t) xs = xs @ [t]"
| "s_listed_after (S_unreg_del t) xs = remove1 t xs"
| "s_listed_after pc xs = xs"

definition s_moves ::
  "('t, 'k, 'n) layout \<Rightarrow> (world \<Rightarrow> addr) \<Rightarrow> ((addr \<Rightarrow> 'k option) \<Rightarrow> addr list \<Rightarrow> addr) \<Rightarrow> addr list \<Rightarrow>
    addr list \<Rightarrow> 'n shared_pc \<Rightarrow> 'n shared_pc list \<Rightarrow> world \<Rightarrow> bool" where
  "s_moves L d newest xs hs pc rest w \<longleftrightarrow>
     (\<exists>pc' v. shared_step L d pc w = Some (pc', v) \<and> shared_ok L newest (s_listed_after pc xs) v hs pc' rest)"

lemma s_movesI:
  "shared_step L d pc w = Some (pc', v) \<Longrightarrow> shared_ok L newest (s_listed_after pc xs) v hs pc' rest \<Longrightarrow>
    s_moves L d newest xs hs pc rest w"
  by (auto simp: s_moves_def)

context shared_layout
begin

lemma s_moves_lock:
  assumes T: "shared_ok L newest xs w hs pc rest" and "\<not> s_waits (rg_lock (ly_get L w)) pc"
    and pc: "(pc, pc') \<in> {(S_acq_lock n, S_acq_find n), (S_reg_lock t, S_reg_find t), (S_unreg_lock t, S_unreg_check t)}"
  shows "s_moves L dflt newest xs hs pc rest w"
proof -
  note D = shared_okD [OF T]
  have "\<exists>l. shared_step L dflt pc w = Some (pc', put_lock L l w) \<and>
    lock_agrees l (count_pc s_reading rest + of_bool (s_reading pc')) (count_pc s_writing rest + of_bool (s_writing pc'))"
  proof (cases "pc = S_acq_lock n")
    case True
    then obtain l where "rwlock_rdlock (rg_lock (ly_get L w)) = Some l" using assms(2) by auto
    then show ?thesis
      using lock_steps(1) [OF D(3)] pc True by (intro exI [of _ l]) (auto simp: on_reg_def reg_rdlock_def)
  next
    case False
    then obtain l where "rwlock_wrlock (rg_lock (ly_get L w)) = Some l" using assms(2) pc by auto
    then show ?thesis
      using lock_steps(2) [OF D(3)] pc False by (intro exI [of _ l]) (auto simp: on_reg_def reg_wrlock_def)
  qed
  then obtain l where l: "shared_step L dflt pc w = Some (pc', put_lock L l w)"
    "lock_agrees l (count_pc s_reading rest + of_bool (s_reading pc')) (count_pc s_writing rest + of_bool (s_writing pc'))"
    by blast
  have same: "s_listed_after pc xs = xs" using pc by auto
  show ?thesis
  proof (rule s_movesI [OF l(1)], unfold same, rule shared_ok_lock [OF T _ _ _ _ l(2)])
    show "s_ok L newest w xs pc'" using D(5) pc by auto
  qed (use pc in auto)
qed

lemma s_moves_unlock:
  fixes pc pc' :: "'c shared_pc"
  assumes T: "shared_ok L newest xs w hs pc rest"
    and pc: "(pc, pc') \<in> {(S_acq_unlock t, S_returned (Type t) None), (S_reg_unlock r e, S_returned (Code r) e),
      (S_unreg_unlock r e, S_returned (Code r) e)}"
  shows "s_moves L dflt newest xs hs pc rest w"
proof -
  note D = shared_okD [OF T]
  have "\<exists>l. rwlock_unlock (rg_lock (ly_get L w)) = Some l \<and>
      lock_agrees l (count_pc s_reading rest + of_bool (s_reading pc')) (count_pc s_writing rest + of_bool (s_writing pc'))"
  proof (cases "s_reading pc")
    case True
    then show ?thesis using lock_steps(3) [of "rg_lock (ly_get L w)"] D(3) pc by auto
  next
    case False
    then show ?thesis using lock_steps(4) [of "rg_lock (ly_get L w)"] D(3) pc by auto
  qed
  then obtain l where l: "rwlock_unlock (rg_lock (ly_get L w)) = Some l"
    "lock_agrees l (count_pc s_reading rest + of_bool (s_reading pc')) (count_pc s_writing rest + of_bool (s_writing pc'))"
    by blast
  have step: "shared_step L dflt pc w = Some (pc', put_lock L l w)"
    using l(1) pc by (auto simp: on_reg_def reg_unlock_def)
  have same: "s_listed_after pc xs = xs" using pc by auto
  show ?thesis
  proof (rule s_movesI [OF step], unfold same, rule shared_ok_lock [OF T _ _ _ _ l(2)])
    show "s_ok L newest w xs pc'" using D(5) pc by auto
  qed (use pc in auto)
qed

lemma s_holder_not_deleted:
  assumes "shared_ok L newest xs w hs pc rest" and "t \<in> set xs" and "s_holding t pc"
  shows "S_unreg_del t \<notin> set rest"
proof
  assume "S_unreg_del t \<in> set rest"
  then obtain c where "tmpl_refs L w t = Some c" "cfe_atomic_get c = 1"
    using shared_okD(6) [OF assms(1)] by fastforce
  then show False
    using get_count [OF uses_bound [OF assms(1), of t]] shared_okD(4) [OF assms(1,2)] assms(3) by simp
qed

lemma found_by_listed: "found_by c newest key n xs = NULL \<or> found_by c newest key n xs \<in> set xs"
  using newest_listed by (auto simp: found_by_def find_Some_iff split: option.splits)

lemma s_moves_find:
  assumes T: "shared_ok L newest xs w hs (S_acq_find n) rest"
  shows "s_moves L dflt newest xs hs (S_acq_find n) rest w"
proof -
  note D = shared_okD [OF T]
  have "look_up L dflt n w = Some (found_by (ly_canon L) newest (tmpl_key L w) n xs)"
    using default [OF D(2,1)] find_ok [OF D(1)]
    by (cases n) (simp_all add: look_up_def found_by_def tmpl_key_def)
  then show ?thesis
    by (intro s_movesI [where v = w]) (simp, simp only: s_listed_after.simps, rule shared_ok_local [OF T], simp_all)
qed

lemma s_moves_inc:
  assumes T: "shared_ok L newest xs w hs (S_acq_inc n t) rest"
  shows "s_moves L dflt newest xs hs (S_acq_inc n t) rest w"
proof -
  note D = shared_okD [OF T] and K = reg_ok_parts [OF shared_okD(1) [OF T]]
  have l: "t = NULL \<or> t \<in> set xs" using D(5) found_by_listed by simp
  show ?thesis
  proof (cases "t = NULL")
    case True
    have "NULL \<notin> set xs" using K(4,5) by blast
    then have "shared_ok L newest xs w hs (S_acq_unlock t) rest"
      by (intro shared_ok_local [OF T]) (use True in auto)
    then show ?thesis using True by (intro s_movesI [where v = w]) simp_all
  next
    case False
    then have t: "t \<in> set xs" using l by simp
    obtain ty where ty: "rg_types (ly_get L w) t = Some ty" using K(5) [OF t] by auto
    have "S_unreg_del t \<notin> set rest"
    proof
      assume "S_unreg_del t \<in> set rest"
      then have "count_pc s_writing rest \<noteq> 0" unfolding count_pc_0 by (auto intro: bexI [of _ "S_unreg_del t"])
      then show False using D(3) by (cases "rg_lock (ly_get L w)") auto
    qed
    moreover have "cfe_atomic_inc (ly_refcnt L ty) =
        of_nat (Suc (count_list hs t + count_pc (s_holding t) rest + of_bool (s_holding t (S_acq_unlock t))))"
      using D(4) [OF t] ty by (simp add: tmpl_refs_def)
    ultimately have "shared_ok L newest xs (put_refcnt L t cfe_atomic_inc ty w) hs (S_acq_unlock t) rest"
      by (intro shared_ok_stored [OF T ty t]) (use t in simp_all)
    then show ?thesis using False by (intro s_movesI) (simp_all add: on_reg_store [OF ty])
  qed
qed

lemma s_moves_dec:
  assumes T: "shared_ok L newest xs w hs (S_rel t) rest"
  shows "s_moves L dflt newest xs hs (S_rel t) rest w"
proof -
  note D = shared_okD [OF T]
  have t: "t \<in> set xs" using D(5) by simp
  obtain ty where ty: "rg_types (ly_get L w) t = Some ty" using reg_ok_parts(5) [OF D(1) t] by auto
  have "cfe_atomic_dec (ly_refcnt L ty) =
      of_nat (Suc (count_list hs t + count_pc (s_holding t) rest + of_bool (s_holding t (S_returned Done None))))"
    using D(4) [OF t] ty by (simp add: tmpl_refs_def)
  then have "shared_ok L newest xs (put_refcnt L t cfe_atomic_dec ty w) hs (S_returned Done None) rest"
    by (intro shared_ok_stored [OF T ty t]) (use s_holder_not_deleted [OF T t] in simp_all)
  then show ?thesis by (intro s_movesI) (simp_all add: on_reg_store [OF ty])
qed

lemma key_typed: "tmpl_key L w t = Some k \<Longrightarrow> \<exists>ty. rg_types (ly_get L w) t = Some ty"
  by (auto simp: tmpl_key_def reg_key_def split: option.splits)

lemma s_moves_register:
  assumes T: "shared_ok L newest xs w hs pc rest" and pc: "pc = S_reg_check t \<or> pc = S_reg_find t"
  shows "s_moves L dflt newest xs hs pc rest w"
proof -
  note D = shared_okD [OF T]
  obtain ty where ty: "rg_types (ly_get L w) t = Some ty" using D(5) pc key_typed [of w t] by auto
  from pc show ?thesis
  proof
    assume pc: "pc = S_reg_check t"
    let ?q = "if \<not> ly_valid L ty then S_returned (Code 1) (Some EINVAL) else S_reg_lock t"
    have "ly_valid L ty \<Longrightarrow> tmpl_key L w t \<noteq> None" using ty valid_named by (auto simp: tmpl_key_def reg_key_def)
    then have "shared_ok L newest xs w hs ?q rest"
      by (intro shared_ok_local [OF T]) (use pc in \<open>auto split: if_splits\<close>)
    then show ?thesis using pc ty by (intro s_movesI [where pc' = ?q and v = w]) simp_all
  next
    assume pc: "pc = S_reg_find t"
    then obtain k where k: "tmpl_key L w t = Some k" using D(5) by auto
    obtain n where n: "ly_name L ty = Some n" "ly_canon L n = k"
      using key_valid [OF k] ty by (metis option.inject)
    obtain u where u: "tmpl_find L n w = Some u" using find_ok [OF D(1)] by simp
    have new: "u = NULL \<longleftrightarrow> Some k \<notin> tmpl_key L w ` set xs"
      using find_ok_null [OF D(1), of n] u n(2) by (simp add: tmpl_key_def)
    let ?q = "if u \<noteq> NULL then S_reg_unlock 1 (Some EBUSY) else S_reg_set t"
    have "shared_ok L newest xs w hs ?q rest"
      by (rule shared_ok_local [OF T]) (use pc new k in \<open>auto split: if_splits\<close>)
    then show ?thesis using pc ty n(1) u by (intro s_movesI [where pc' = ?q and v = w]) simp_all
  qed
qed

lemma s_moves_unregister:
  assumes T: "shared_ok L newest xs w hs (S_unreg_check t) rest"
  shows "s_moves L dflt newest xs hs (S_unreg_check t) rest w"
proof -
  obtain ty where ty: "rg_types (ly_get L w) t = Some ty" using shared_okD(5) [OF T] by auto
  let ?q = "if ly_pinned L w t \<or> cfe_atomic_get (ly_refcnt L ty) \<noteq> 1 then S_unreg_unlock 1 (Some EBUSY) else S_unreg_del t"
  have "shared_ok L newest xs w hs ?q rest"
    by (rule shared_ok_local [OF T]) (use ty in \<open>auto simp: tmpl_refs_def split: if_splits\<close>)
  then show ?thesis using ty by (intro s_movesI [where pc' = ?q and v = w]) simp_all
qed

lemma s_moves_change:
  assumes T: "shared_ok L newest xs w hs pc rest" and pc: "pc = S_reg_set t \<or> pc = S_reg_add t \<or> pc = S_unreg_del t"
  shows "s_moves L dflt newest xs hs pc rest w"
  using pc
proof (elim disjE)
  assume pc: "pc = S_reg_set t"
  then obtain ty where ty: "rg_types (ly_get L w) t = Some ty"
    using shared_okD(5) [OF T] key_typed [of w t] by auto
  show ?thesis
    using shared_ok_set [OF T [unfolded pc] ty] pc by (intro s_movesI) (simp_all add: on_reg_store [OF ty])
next
  assume pc: "pc = S_reg_add t"
  obtain h v where "list_add_tail (t + ly_off L) (rg_head (ly_get L w)) (rg_nodes (ly_get L w)) = Some h"
    "ly_post L t (put_nodes L h w) = Some v" "shared_ok L newest (xs @ [t]) v hs (S_reg_unlock 0 None) rest"
    using shared_ok_add [OF T [unfolded pc]] by blast
  then show ?thesis using pc by (intro s_movesI) (simp_all add: on_reg_def reg_list_def)
next
  assume pc: "pc = S_unreg_del t"
  obtain h where "list_del_init (t + ly_off L) (rg_nodes (ly_get L w)) = Some h"
    "shared_ok L newest (remove1 t xs) (put_nodes L h w) hs (S_unreg_unlock 0 None) rest"
    using shared_ok_del [OF T [unfolded pc]] by blast
  then show ?thesis using pc by (intro s_movesI) (simp_all add: on_reg_def reg_list_def)
qed

text \<open>A thread in a call that does not wait for the lock makes a step, and the invariant stays.\<close>

lemma shared_ok_step:
  assumes T: "shared_ok L newest xs w hs pc rest" and "\<not> s_waits (rg_lock (ly_get L w)) pc"
    and "pc \<noteq> S_idle" and "\<not> has_returned pc"
  shows "s_moves L dflt newest xs hs pc rest w"
proof (cases pc)
  case (S_acq_find n)
  then show ?thesis using s_moves_find T by blast
next
  case (S_acq_inc n t)
  then show ?thesis using s_moves_inc T by blast
next
  case (S_rel t)
  then show ?thesis using s_moves_dec T by blast
next
  case (S_unreg_check t)
  then show ?thesis using s_moves_unregister T by blast
qed (use assms(3,4) s_moves_lock [OF T assms(2)] s_moves_unlock [OF T] s_moves_register [OF T] s_moves_change [OF T] in auto)

lemma s_waits_step: "s_waits (rg_lock (ly_get L w)) pc \<Longrightarrow> shared_step L dflt pc w = None"
  by (cases pc) (simp_all add: on_reg_def reg_rdlock_def reg_wrlock_def)

lemma shared_step_ok:
  assumes T: "shared_ok L newest xs w hs pc rest" and step: "shared_step L dflt pc w = Some (pc', v)"
  shows "shared_ok L newest (s_listed_after pc xs) v hs pc' rest"
proof -
  have "pc \<noteq> S_idle" "\<not> has_returned pc" using step by (cases pc; simp)+
  moreover have "\<not> s_waits (rg_lock (ly_get L w)) pc" using step s_waits_step by fastforce
  ultimately show ?thesis
    using shared_ok_step [OF T] step by (auto simp: s_moves_def)
qed

end

end
