(* ===== verification/Cfe_Threads.thy ===== *)
theory Cfe_Threads
  imports Cfe_Pbkdf Cfe_Shared
begin

text \<open>
  Threads that share the registry of key derivations (\<^verbatim>\<open>src/crypto/pbkdf.c\<close>). The three functions of the
  registry are cut where they touch what threads share, each piece one step; a step relation
  interleaves the steps of any number of threads, each of which calls the functions any number of
  times. The lock makes the pieces between taking and giving it back exclude the writers, the atomic
  counter is changed under the read lock and without any lock. The invariant says how the lock, the
  counters and the threads agree; from it follow that no step is undefined, that a type in use stays
  registered, and that the threads never block each other for good. \<open>errno\<close> is a variable of each thread
  and part of the result of a call.
\<close>

subsection \<open>The functions, cut into steps\<close>

record derive_args =
  da_name :: string
  da_rounds :: uint32
  da_in :: bytes
  da_ilen :: size_t
  da_salt :: bytes
  da_slen :: size_t
  da_olen :: size_t

text \<open>Where a thread is, with its local variables; \<open>P_returned\<close> is the result, the output and \<open>errno\<close> if set.\<close>

datatype pbkdf_pc =
    P_idle
  | P_returned int bytes "int option"
  | D_rdlock derive_args | D_find derive_args | D_inc derive_args addr | D_unlock derive_args addr
  | D_call derive_args addr | D_dec addr int bytes
  | R_check addr | R_wrlock addr | R_find addr | R_set addr | R_add addr | R_unlock int "int option"
  | U_wrlock addr | U_check addr | U_del addr | U_unlock int "int option"

datatype pbkdf_call =
    Derive "string option" uint32 "bytes option" size_t bytes size_t size_t
  | Register_type addr
  | Unregister_type addr

fun pc_start :: "pbkdf_call \<Rightarrow> pbkdf_pc" where
  "pc_start (Derive algname rounds inp ilen salt slen olen) =
     (case (algname, inp) of
        (Some name, Some buf) \<Rightarrow>
          if ilen = 0 then P_returned 1 [] (Some EINVAL)
          else D_rdlock \<lparr>da_name = name, da_rounds = rounds, da_in = buf, da_ilen = ilen, da_salt = salt,
            da_slen = slen, da_olen = olen\<rparr>
      | _ \<Rightarrow> P_returned 1 [] (Some EINVAL))"
| "pc_start (Register_type t) = R_check t"
| "pc_start (Unregister_type t) = U_wrlock t"

fun pc_step :: "env \<Rightarrow> pbkdf_pc \<Rightarrow> world \<Rightarrow> (pbkdf_pc \<times> world) option" where
  "pc_step E P_idle w = None"
| "pc_step E (P_returned r out e) w = None"
| "pc_step E (D_rdlock a) w = do {
     w \<leftarrow> on_pbkdf reg_rdlock w;
     Some (D_find a, w)
   }"
| "pc_step E (D_find a) w = do {
     t \<leftarrow> find_alg_pbkdf (da_name a) w;
     Some (D_inc a t, w)
   }"
| "pc_step E (D_inc a t) w = do {
     w \<leftarrow> (if t \<noteq> NULL then on_pbkdf (reg_store t (pt_refcnt_update cfe_atomic_inc)) w else Some w);
     Some (D_unlock a t, w)
   }"
| "pc_step E (D_unlock a t) w = do {
     w \<leftarrow> on_pbkdf reg_unlock w;
     Some (if t = NULL then P_returned 1 [] (Some ENOSYS) else D_call a t, w)
   }"
| "pc_step E (D_call a t) w = do {
     ty \<leftarrow> rg_types (w_pbkdf w) t;
     derive \<leftarrow> pt_derive ty;
     (ret, out, w) \<leftarrow> call_derive E derive (da_rounds a) (da_in a) (da_ilen a) (da_salt a) (da_slen a) (da_olen a) w;
     Some (D_dec t ret out, w)
   }"
| "pc_step E (D_dec t ret out) w = do {
     w \<leftarrow> on_pbkdf (reg_store t (pt_refcnt_update cfe_atomic_dec)) w;
     Some (P_returned ret out None, w)
   }"
| "pc_step E (R_check t) w = do {
     ty \<leftarrow> rg_types (w_pbkdf w) t;
     Some (if pt_derive ty = None then P_returned 1 [] (Some EINVAL) else R_wrlock t, w)
   }"
| "pc_step E (R_wrlock t) w = do {
     w \<leftarrow> on_pbkdf reg_wrlock w;
     Some (R_find t, w)
   }"
| "pc_step E (R_find t) w = do {
     ty \<leftarrow> rg_types (w_pbkdf w) t;
     tmp \<leftarrow> find_alg_pbkdf (pt_name ty) w;
     Some (if tmp \<noteq> NULL then R_unlock 1 (Some EBUSY) else R_set t, w)
   }"
| "pc_step E (R_set t) w = do {
     w \<leftarrow> on_pbkdf (reg_store t (pt_refcnt_update (\<lambda>v. cfe_atomic_set v 1))) w;
     Some (R_add t, w)
   }"
| "pc_step E (R_add t) w = do {
     w \<leftarrow> on_pbkdf (reg_list (list_add_tail (t + PBKDF_NEXT) (rg_head (w_pbkdf w)))) w;
     Some (R_unlock 0 None, w)
   }"
| "pc_step E (R_unlock ret e) w = do {
     w \<leftarrow> on_pbkdf reg_unlock w;
     Some (P_returned ret [] e, w)
   }"
| "pc_step E (U_wrlock t) w = do {
     w \<leftarrow> on_pbkdf reg_wrlock w;
     Some (U_check t, w)
   }"
| "pc_step E (U_check t) w = do {
     ty \<leftarrow> rg_types (w_pbkdf w) t;
     Some (if cfe_atomic_get (pt_refcnt ty) \<noteq> 1 then U_unlock 1 (Some EBUSY) else U_del t, w)
   }"
| "pc_step E (U_del t) w = do {
     w \<leftarrow> on_pbkdf (reg_list (list_del_init (t + PBKDF_NEXT))) w;
     Some (U_unlock 0 None, w)
   }"
| "pc_step E (U_unlock ret e) w = do {
     w \<leftarrow> on_pbkdf reg_unlock w;
     Some (P_returned ret [] e, w)
   }"

subsection \<open>One thread alone runs the functions\<close>

fun is_returned :: "pbkdf_pc \<Rightarrow> bool" where
  "is_returned (P_returned r out e) = True"
| "is_returned pc = False"

text \<open>At most \<open>n\<close> steps of one thread.\<close>

primrec solo :: "nat \<Rightarrow> env \<Rightarrow> pbkdf_pc \<Rightarrow> world \<Rightarrow> (pbkdf_pc \<times> world) option" where
  "solo 0 E pc w = Some (pc, w)"
| "solo (Suc n) E pc w =
     (if is_returned pc then Some (pc, w) else do { (pc, w) \<leftarrow> pc_step E pc w; solo n E pc w })"

definition set_errno :: "int option \<Rightarrow> world \<Rightarrow> world" where
  "set_errno e w = (case e of None \<Rightarrow> w | Some n \<Rightarrow> w\<lparr>errno := n\<rparr>)"

fun returned :: "(pbkdf_pc \<times> world) option \<Rightarrow> (int \<times> bytes \<times> world) option" where
  "returned (Some (P_returned r out e, w)) = Some (r, out, set_errno e w)"
| "returned _ = None"

lemma solo_returned: "solo n E (P_returned r out e) w = Some (P_returned r out e, w)"
  by (cases n) simp_all

text \<open>The result of a thread that runs alone, step by step.\<close>

definition alone :: "nat \<Rightarrow> env \<Rightarrow> pbkdf_pc \<Rightarrow> world \<Rightarrow> (int \<times> bytes \<times> world) option" where
  "alone n E pc w = returned (solo n E pc w)"

lemma alone_step:
  "\<not> is_returned pc \<Longrightarrow> alone (Suc n) E pc w = do { (pc, w) \<leftarrow> pc_step E pc w; alone n E pc w }"
  by (cases "pc_step E pc w") (auto simp: alone_def)

lemma alone_returned: "alone n E (P_returned r out e) w = Some (r, out, set_errno e w)"
  by (simp add: alone_def solo_returned)

lemma alone_call:
  "alone (Suc (Suc n)) E (D_call a t) w = do {
     ty \<leftarrow> rg_types (w_pbkdf w) t;
     derive \<leftarrow> pt_derive ty;
     (ret, out, w) \<leftarrow> call_derive E derive (da_rounds a) (da_in a) (da_ilen a) (da_salt a) (da_slen a) (da_olen a) w;
     w \<leftarrow> on_pbkdf (reg_store t (pt_refcnt_update cfe_atomic_dec)) w;
     Some (ret, out, w)
   }"
  by (simp add: alone_step alone_returned set_errno_def case_prod_unfold)

lemma alone_unlock:
  "alone (Suc (Suc (Suc n))) E (D_unlock a t) w = do {
     w \<leftarrow> on_pbkdf reg_unlock w;
     if t = NULL then Some (1, [], w\<lparr>errno := ENOSYS\<rparr>) else alone (Suc (Suc n)) E (D_call a t) w
   }"
  by (cases "t = NULL") (simp_all add: alone_step [of "D_unlock _ _"] alone_returned set_errno_def)

lemma alone_derive:
  "alone 6 E (pc_start (Derive algname rounds inp ilen salt slen olen)) w =
    cfe_pbkdf_derive E algname rounds inp ilen salt slen olen w"
proof (cases "\<exists>name buf. algname = Some name \<and> inp = Some buf \<and> ilen \<noteq> 0")
  case True
  then obtain name buf where n: "algname = Some name" "inp = Some buf" "ilen \<noteq> 0" by blast
  have "alone (Suc (Suc (Suc (Suc (Suc (Suc 0)))))) E (D_rdlock \<lparr>da_name = name, da_rounds = rounds, da_in = buf,
      da_ilen = ilen, da_salt = salt, da_slen = slen, da_olen = olen\<rparr>) w =
    cfe_pbkdf_derive E algname rounds inp ilen salt slen olen w"
    unfolding cfe_pbkdf_derive_def
    by (simp add: n alone_step [of "D_rdlock _"] alone_step [of "D_find _"] alone_step [of "D_inc _ _"]
        alone_unlock alone_call cong: if_cong)
  then show ?thesis using n by (simp add: eval_nat_numeral)
qed (auto simp: cfe_pbkdf_derive_def alone_returned set_errno_def split: option.splits)

lemma alone_unlock_write:
  "alone (Suc n) E (R_unlock r e) w = do { w \<leftarrow> on_pbkdf reg_unlock w; Some (r, [], set_errno e w) }"
  "alone (Suc n) E (U_unlock r e) w = do { w \<leftarrow> on_pbkdf reg_unlock w; Some (r, [], set_errno e w) }"
  by (simp_all add: alone_step alone_returned)

text \<open>\<open>errno\<close> is set before the lock is given back, or after.\<close>

lemma errno_pbkdf: "w\<lparr>errno := e, w_pbkdf := R\<rparr> = w\<lparr>w_pbkdf := R, errno := e\<rparr>"
  by simp

lemma alone_find:
  "alone (Suc (Suc (Suc (Suc n)))) E (R_find t) w = do {
     ty \<leftarrow> rg_types (w_pbkdf w) t;
     tmp \<leftarrow> find_alg_pbkdf (pt_name ty) w;
     if tmp \<noteq> NULL then alone (Suc n) E (R_unlock 1 (Some EBUSY)) w
     else alone (Suc (Suc (Suc n))) E (R_set t) w
   }"
  by (simp add: alone_step [of "R_find t"] alone_unlock_write if_distrib [of "\<lambda>pc. alone _ E pc w"] cong: if_cong)

lemma reg_wrlock_types: "on_pbkdf reg_wrlock w = Some v \<Longrightarrow> rg_types (w_pbkdf v) = rg_types (w_pbkdf w)"
  by (auto simp: reg_wrlock_def)

lemma alone_register:
  "alone 6 E (pc_start (Register_type t)) w = map_option (\<lambda>(r, w). (r, [], w)) (cfe_pbkdf_register t w)"
proof (cases "rg_types (w_pbkdf w) t")
  case (Some ty)
  have "alone (Suc (Suc (Suc (Suc (Suc (Suc 0)))))) E (R_check t) w =
      map_option (\<lambda>(r, w). (r, [], w)) (cfe_pbkdf_register t w)"
  proof (cases "pt_derive ty = None")
    case True
    then show ?thesis using Some by (simp add: alone_step alone_returned set_errno_def cfe_pbkdf_register_def)
  next
    case False
    then show ?thesis
    proof (cases "on_pbkdf reg_wrlock w")
      case None
      then show ?thesis using Some False by (simp add: alone_step cfe_pbkdf_register_def)
    next
      case (Some v)
      then have "rg_types (w_pbkdf v) t = Some ty"
        using reg_wrlock_types [OF Some] \<open>rg_types (w_pbkdf w) t = Some ty\<close> by simp
      then show ?thesis
        using Some False \<open>rg_types (w_pbkdf w) t = Some ty\<close>
        by (cases "find_alg_pbkdf (pt_name ty) v")
           (auto simp: alone_step [of "R_check t"] alone_step [of "R_wrlock t"] alone_find alone_step [of "R_set t"]
             alone_step [of "R_add t"] alone_unlock_write cfe_pbkdf_register_def set_errno_def
             option.map_comp comp_def map_option_bind bind_map_option errno_pbkdf)
    qed
  qed
  then show ?thesis by (simp add: eval_nat_numeral)
qed (simp add: eval_nat_numeral alone_step cfe_pbkdf_register_def)

lemma alone_unregister:
  "alone 4 E (pc_start (Unregister_type t)) w = map_option (\<lambda>(r, w). (r, [], w)) (cfe_pbkdf_unregister t w)"
proof -
  have "alone (Suc (Suc (Suc (Suc 0)))) E (U_wrlock t) w = map_option (\<lambda>(r, w). (r, [], w)) (cfe_pbkdf_unregister t w)"
  proof (cases "on_pbkdf reg_wrlock w")
    case None
    then show ?thesis by (simp add: alone_step cfe_pbkdf_unregister_def)
  next
    case (Some v)
    then show ?thesis
      by (cases "rg_types (w_pbkdf v) t")
         (auto simp: alone_step [of "U_wrlock t"] alone_step [of "U_check t"] alone_step [of "U_del t"]
           alone_unlock_write cfe_pbkdf_unregister_def set_errno_def option.map_comp comp_def map_option_bind bind_map_option errno_pbkdf)
  qed
  then show ?thesis by (simp add: eval_nat_numeral)
qed

subsection \<open>What the threads have to do with the lock and the counters\<close>

text \<open>Threads that hold the lock for reading, for writing; threads that hold a reference to a type.\<close>

fun reading :: "pbkdf_pc \<Rightarrow> bool" where
  "reading (D_find a) = True"
| "reading (D_inc a t) = True"
| "reading (D_unlock a t) = True"
| "reading _ = False"

fun writing :: "pbkdf_pc \<Rightarrow> bool" where
  "writing (R_find t) = True"
| "writing (R_set t) = True"
| "writing (R_add t) = True"
| "writing (R_unlock r e) = True"
| "writing (U_check t) = True"
| "writing (U_del t) = True"
| "writing (U_unlock r e) = True"
| "writing _ = False"

fun holding :: "addr \<Rightarrow> pbkdf_pc \<Rightarrow> bool" where
  "holding t (D_unlock a u) = (u = t)"
| "holding t (D_call a u) = (u = t)"
| "holding t (D_dec u r out) = (u = t)"
| "holding t _ = False"

abbreviation "key R \<equiv> reg_key pbkdf_layout R"
abbreviation "refs R t \<equiv> map_option pt_refcnt (rg_types R t)"

text \<open>What is known of the registry where a thread is; \<open>xs\<close> are the registered types.\<close>

fun pc_ok :: "cfe_pbkdf_type registry \<Rightarrow> addr list \<Rightarrow> pbkdf_pc \<Rightarrow> bool" where
  "pc_ok R xs (D_inc a t) = (t = NULL \<or> t \<in> set xs)"
| "pc_ok R xs (D_unlock a t) = (t = NULL \<or> t \<in> set xs)"
| "pc_ok R xs (D_call a t) = (t \<in> set xs)"
| "pc_ok R xs (D_dec t r out) = (t \<in> set xs)"
| "pc_ok R xs (R_check t) = (t \<in> dom (rg_types R))"
| "pc_ok R xs (R_wrlock t) = (key R t \<noteq> None)"
| "pc_ok R xs (R_find t) = (key R t \<noteq> None)"
| "pc_ok R xs (R_set t) = (key R t \<noteq> None \<and> key R t \<notin> key R ` set xs)"
| "pc_ok R xs (R_add t) = (key R t \<noteq> None \<and> key R t \<notin> key R ` set xs \<and> refs R t = Some 1)"
| "pc_ok R xs (U_wrlock t) = (t \<in> dom (rg_types R))"
| "pc_ok R xs (U_check t) = (t \<in> dom (rg_types R))"
| "pc_ok R xs (U_del t) = (\<exists>c. refs R t = Some c \<and> cfe_atomic_get c = 1)"
| "pc_ok R xs _ = True"

text \<open>A derivation function that computes its result and leaves the world alone, as those of OpenSSL do.\<close>

definition stateless :: "env \<Rightarrow> pbkdf_derive_fn \<Rightarrow> bool" where
  "stateless E f \<longleftrightarrow> (\<forall>rounds buf ilen salt slen olen w. \<exists>r out.
     call_derive E f rounds buf ilen salt slen olen w = Some (r, out, w))"

text \<open>
  The invariant, for one thread at \<open>pc\<close> and the others at \<open>rest\<close>: the list in memory is that of the
  registered types; the lock is held as the threads are inside; each registered type has one reference
  and one more for each thread that uses it; and a type that has the one reference that lets it be
  deregistered, but is not registered, has a node that is linked to itself.
\<close>

definition threads_ok ::
  "env \<Rightarrow> addr list \<Rightarrow> cfe_pbkdf_type registry \<Rightarrow> pbkdf_pc \<Rightarrow> pbkdf_pc list \<Rightarrow> bool" where
  "threads_ok E xs R pc rest \<longleftrightarrow>
     reg_ok pbkdf_layout R xs \<and>
     lock_agrees (rg_lock R) (count_pc reading rest + of_bool (reading pc)) (count_pc writing rest + of_bool (writing pc)) \<and>
     (\<forall>t \<in> set xs. refs R t = Some (of_nat (Suc (count_pc (holding t) rest + of_bool (holding t pc))))) \<and>
     pc_ok R xs pc \<and> (\<forall>q \<in> set rest. pc_ok R xs q) \<and>
     (\<forall>t \<in> dom (rg_types R) - set xs. cfe_atomic_get (the (refs R t)) = 1 \<longrightarrow>
       R_add t \<in> insert pc (set rest) \<or> dlist (rg_nodes R) (t + PBKDF_NEXT) []) \<and>
     (\<forall>t ty f. rg_types R t = Some ty \<longrightarrow> pt_derive ty = Some f \<longrightarrow> stateless E f) \<and>
     Suc (length rest) < 2 ^ 31"

lemma threads_okD:
  assumes "threads_ok E xs R pc rest"
  shows "reg_ok pbkdf_layout R xs"
    and "lock_agrees (rg_lock R) (count_pc reading rest + of_bool (reading pc)) (count_pc writing rest + of_bool (writing pc))"
    and "\<And>t. t \<in> set xs \<Longrightarrow> refs R t = Some (of_nat (Suc (count_pc (holding t) rest + of_bool (holding t pc))))"
    and "pc_ok R xs pc" and "\<And>q. q \<in> set rest \<Longrightarrow> pc_ok R xs q"
    and "\<And>t. t \<in> dom (rg_types R) - set xs \<Longrightarrow> cfe_atomic_get (the (refs R t)) = 1 \<Longrightarrow>
      R_add t \<in> insert pc (set rest) \<or> dlist (rg_nodes R) (t + PBKDF_NEXT) []"
    and "\<And>t ty f. rg_types R t = Some ty \<Longrightarrow> pt_derive ty = Some f \<Longrightarrow> stateless E f"
    and "Suc (length rest) < 2 ^ 31"
  using assms by (simp_all add: threads_ok_def)

text \<open>The lock is no part of what a thread knows.\<close>

lemma pc_ok_lock [simp]: "pc_ok (R\<lparr>rg_lock := l\<rparr>) xs pc = pc_ok R xs pc"
  by (cases pc) simp_all

text \<open>A step that changes nothing, or only the lock.\<close>

lemma threads_ok_lock:
  assumes "threads_ok E xs R pc rest" and "pc_ok R xs pc'" and "\<And>t. holding t pc' = holding t pc \<or> t \<notin> set xs"
    and "\<And>t. pc \<noteq> R_add t"
    and "lock_agrees l (count_pc reading rest + of_bool (reading pc')) (count_pc writing rest + of_bool (writing pc'))"
  shows "threads_ok E xs (R\<lparr>rg_lock := l\<rparr>) pc' rest"
proof -
  note T = threads_okD [OF assms(1)]
  have "refs R t = Some (of_nat (Suc (count_pc (holding t) rest + of_bool (holding t pc'))))" if "t \<in> set xs" for t
    using T(3) [OF that] assms(3) [of t] that by simp
  moreover have "R_add t \<in> insert pc' (set rest) \<or> dlist (rg_nodes R) (t + PBKDF_NEXT) []"
    if "t \<in> dom (rg_types R) - set xs" "cfe_atomic_get (the (refs R t)) = 1" for t
    using T(6) [OF that] assms(4) by blast
  ultimately show ?thesis
    using T(1,5,7,8) assms(2,5) unfolding threads_ok_def by simp
qed

text \<open>A store to the counter of a type.\<close>

definition stored :: "addr \<Rightarrow> (cfe_atomic_t \<Rightarrow> cfe_atomic_t) \<Rightarrow> cfe_pbkdf_type \<Rightarrow> cfe_pbkdf_type registry \<Rightarrow>
    cfe_pbkdf_type registry" where
  "stored t f ty R = R\<lparr>rg_types := (rg_types R)(t \<mapsto> pt_refcnt_update f ty)\<rparr>"

lemma stored_simps [simp]:
  "rg_lock (stored t f ty R) = rg_lock R" "rg_nodes (stored t f ty R) = rg_nodes R"
  "rg_head (stored t f ty R) = rg_head R" "rg_types (stored t f ty R) = (rg_types R)(t \<mapsto> pt_refcnt_update f ty)"
  by (simp_all add: stored_def)

lemma reg_store_stored: "rg_types R t = Some ty \<Longrightarrow> reg_store t (pt_refcnt_update f) R = Some (stored t f ty R)"
  by (simp add: reg_store_def stored_def)

lemma stored_key: "rg_types R t = Some ty \<Longrightarrow> key (stored t f ty R) = key R"
  using pbkdf_lay.key_store [of R t ty f] by (simp add: stored_def pbkdf_layout_def)

lemma stored_ok: "rg_types R t = Some ty \<Longrightarrow> reg_ok pbkdf_layout (stored t f ty R) xs = reg_ok pbkdf_layout R xs"
  using pbkdf_lay.ok_store [of R t ty f xs] by (simp add: stored_def pbkdf_layout_def)

lemma stored_pc_ok:
  assumes "rg_types R t = Some ty" and "q \<noteq> R_add t" and "q \<noteq> U_del t"
  shows "pc_ok (stored t f ty R) xs q = pc_ok R xs q"
  using assms(2,3) by (cases q) (auto simp: stored_key [OF assms(1)] assms(1))

lemma pc_ok_R_add: "pc_ok R xs (R_add t) \<Longrightarrow> t \<notin> set xs"
  by auto

lemma threads_ok_stored:
  assumes T: "threads_ok E xs R pc rest" and ty: "rg_types R t = Some ty" and t: "t \<in> set xs"
    and pc': "pc_ok R xs pc'" "\<And>u. pc' \<noteq> R_add u" "\<And>u. pc' \<noteq> U_del u" "reading pc' = reading pc" "writing pc' = writing pc"
    and h: "\<And>u. u \<noteq> t \<Longrightarrow> holding u pc' = holding u pc"
    and f: "f (pt_refcnt ty) = of_nat (Suc (count_pc (holding t) rest + of_bool (holding t pc')))"
    and pc: "\<And>u. pc \<noteq> R_add u" and del: "U_del t \<notin> set rest"
  shows "threads_ok E xs (stored t f ty R) pc' rest"
proof -
  note D = threads_okD [OF T]
  have "pc_ok (stored t f ty R) xs q" if "q \<in> set rest" for q
  proof -
    have "q \<noteq> R_add t" using D(5) [OF that] pc_ok_R_add t by blast
    moreover have "q \<noteq> U_del t" using del that by blast
    ultimately show ?thesis using D(5) [OF that] by (simp add: stored_pc_ok [OF ty])
  qed
  moreover have "pc_ok (stored t f ty R) xs pc'" using pc' by (simp add: stored_pc_ok [OF ty])
  moreover have "refs (stored t f ty R) u = Some (of_nat (Suc (count_pc (holding u) rest + of_bool (holding u pc'))))"
    if "u \<in> set xs" for u
    using D(3) [OF that] f h [of u] by auto
  moreover have "R_add u \<in> insert pc' (set rest) \<or> dlist (rg_nodes (stored t f ty R)) (u + PBKDF_NEXT) []"
    if "u \<in> dom (rg_types (stored t f ty R)) - set xs" "cfe_atomic_get (the (refs (stored t f ty R) u)) = 1" for u
  proof -
    have "u \<noteq> t" using t that(1) by blast
    then show ?thesis using D(6) [of u] that pc by auto
  qed
  moreover have "stateless E g" if "rg_types (stored t f ty R) u = Some ty'" "pt_derive ty' = Some g" for u ty' g
    using D(7) [of t ty g] D(7) [of u ty' g] ty that by (auto split: if_splits)
  ultimately show ?thesis
    using D(1,2,8) pc' unfolding threads_ok_def stored_ok [OF ty] by simp
qed

lemma holder_not_deleted:
  assumes "threads_ok E xs R pc rest" and "t \<in> set xs" and "holding t pc"
  shows "U_del t \<notin> set rest"
proof
  assume "U_del t \<in> set rest"
  then obtain c where "refs R t = Some c" "cfe_atomic_get c = 1"
    using threads_okD(5) [OF assms(1)] by fastforce
  then have "cfe_atomic_get (of_nat (Suc (count_pc (holding t) rest + 1))) = 1"
    using threads_okD(3) [OF assms(1,2)] assms(3) by simp
  moreover have "count_pc (holding t) rest + 1 < 2 ^ 31"
    using count_pc_le [of "holding t" rest] threads_okD(8) [OF assms(1)] by simp
  ultimately show False using get_count [of "count_pc (holding t) rest + 1"] by simp
qed

text \<open>The steps of a writer: the counter of a new type, its node linked in, a node taken out.\<close>

lemma not_inside_keeps:
  assumes "pc_ok R xs q" and "\<not> reading q" and "\<not> writing q"
  shows "rg_types R t = Some ty \<Longrightarrow> pc_ok (stored t f ty R) xs q"
    and "pc_ok (R\<lparr>rg_nodes := h\<rparr>) (xs @ [t]) q"
    and "\<not> holding t q \<Longrightarrow> pc_ok (R\<lparr>rg_nodes := h\<rparr>) (remove1 t xs) q"
  using assms by (cases q; auto simp: stored_key in_set_remove1)+

lemma threads_ok_set:
  assumes T: "threads_ok E xs R (R_set t) rest" and ty: "rg_types R t = Some ty"
  shows "threads_ok E xs (stored t (\<lambda>v. cfe_atomic_set v 1) ty R) (R_add t) rest"
proof -
  note D = threads_okD [OF T]
  have alone: "\<not> reading q" "\<not> writing q" if "q \<in> set rest" for q
    using writer_alone [OF D(2) _ that] by simp_all
  have t: "t \<notin> set xs" using D(4) by auto
  let ?R = "stored t (\<lambda>v. cfe_atomic_set v 1) ty R"
  have "pc_ok ?R xs q" if "q \<in> set rest" for q
    using not_inside_keeps(1) [OF D(5) [OF that] alone [OF that] ty] .
  moreover have "pc_ok ?R xs (R_add t)" using D(4) by (simp add: stored_key [OF ty])
  moreover have "refs ?R u = Some (of_nat (Suc (count_pc (holding u) rest + of_bool (holding u (R_add t)))))"
    if "u \<in> set xs" for u
    using D(3) [OF that] t that by auto
  moreover have "R_add u \<in> insert (R_add t) (set rest) \<or> dlist (rg_nodes ?R) (u + PBKDF_NEXT) []"
    if "u \<in> dom (rg_types ?R) - set xs" "cfe_atomic_get (the (refs ?R u)) = 1" for u
    using D(6) [of u] that by (cases "u = t") auto
  moreover have "stateless E g" if "rg_types ?R u = Some ty'" "pt_derive ty' = Some g" for u ty' g
    using D(7) [of t ty g] D(7) [of u ty' g] ty that by (auto split: if_splits)
  ultimately show ?thesis
    using D(1,2,8) unfolding threads_ok_def stored_ok [OF ty] by simp
qed

text \<open>The layout of the type objects: where the node of a type is, and which node is no type's.\<close>

lemma pbkdf_ok:
  assumes "reg_ok pbkdf_layout R xs"
  shows "dlist (rg_nodes R) (rg_head R) (map (\<lambda>t. t + PBKDF_NEXT) xs)"
    and "t \<in> dom (rg_types R) \<Longrightarrow> t + PBKDF_NEXT \<in> dom (rg_nodes R)"
    and "t \<in> dom (rg_types R) \<Longrightarrow> t \<notin> set xs \<Longrightarrow>
      t + PBKDF_NEXT \<notin> set (rg_head R # map (\<lambda>t. t + PBKDF_NEXT) xs)"
    and "NULL \<notin> dom (rg_types R)" and "t \<in> set xs \<Longrightarrow> t \<in> dom (rg_types R)" and "distinct xs"
  using assms reg_ok_node [OF assms, of t] reg_ok_key_dom [of pbkdf_layout R t]
  by (auto simp: reg_ok_def pbkdf_layout_def distinct_map)

lemma pbkdf_okI:
  assumes "reg_ok pbkdf_layout R xs" and "dlist h (rg_head R) (map (\<lambda>t. t + PBKDF_NEXT) ys)"
    and "dom h = dom (rg_nodes R)" and "\<forall>t \<in> set ys. key R t \<noteq> None" and "distinct (map (key R) ys)"
  shows "reg_ok pbkdf_layout (R\<lparr>rg_nodes := h\<rparr>) ys"
  using assms by (simp add: reg_ok_def pbkdf_layout_def)

lemma threads_ok_add:
  assumes T: "threads_ok E xs R (R_add t) rest"
  shows "\<exists>h. list_add_tail (t + PBKDF_NEXT) (rg_head R) (rg_nodes R) = Some h \<and>
    threads_ok E (xs @ [t]) (R\<lparr>rg_nodes := h\<rparr>) (R_unlock 0 None) rest"
proof -
  note D = threads_okD [OF T] and K = pbkdf_ok [OF threads_okD(1) [OF T]]
  have alone: "\<not> reading q" "\<not> writing q" if "q \<in> set rest" for q
    using writer_alone [OF D(2) _ that] by simp_all
  have t: "t \<notin> set xs" "t \<in> dom (rg_types R)" "key R t \<noteq> None" "key R t \<notin> key R ` set xs" "refs R t = Some 1" "t \<noteq> NULL"
    using D(4) K(4) by auto
  let ?ns = "map (\<lambda>t. t + PBKDF_NEXT) xs"
  obtain h where h: "list_add_tail (t + PBKDF_NEXT) (rg_head R) (rg_nodes R) = Some h"
      "dlist h (rg_head R) (?ns @ [t + PBKDF_NEXT])"
      "frame (insert (t + PBKDF_NEXT) (set (rg_head R # ?ns))) (rg_nodes R) h"
    using list_add_tail_dlist [OF K(1) K(2) [OF t(2)] K(3) [OF t(2,1)]] by blast
  have "reg_ok pbkdf_layout (R\<lparr>rg_nodes := h\<rparr>) (xs @ [t])"
    by (rule pbkdf_okI [OF D(1)]) (use h frame_dom [OF h(3)] D(1) t in \<open>auto simp: reg_ok_def\<close>)
  moreover have "pc_ok (R\<lparr>rg_nodes := h\<rparr>) (xs @ [t]) q" if "q \<in> set rest" for q
    by (rule not_inside_keeps(2) [OF D(5) [OF that] alone [OF that]])
  moreover have "refs R u = Some (of_nat (Suc (count_pc (holding u) rest)))" if "u \<in> set (xs @ [t])" for u
  proof (cases "u = t")
    case True
    have "\<not> holding t q" if "q \<in> set rest" for q
      using D(5) [OF that] t(1,6) by (cases q) auto
    then have "count_pc (holding t) rest = 0" using count_pc_0 by blast
    then show ?thesis using True t(5) by simp
  next
    case False
    then show ?thesis using D(3) [of u] that by simp
  qed
  moreover have "R_add u \<in> set rest \<or> dlist h (u + PBKDF_NEXT) []"
    if u: "u \<in> dom (rg_types R)" "u \<notin> set (xs @ [t])" "cfe_atomic_get (the (refs R u)) = 1" for u
  proof -
    have "u + PBKDF_NEXT \<notin> insert (t + PBKDF_NEXT) (set (rg_head R # ?ns))"
      using K(3) [of u] u by auto
    then have "dlist h (u + PBKDF_NEXT) [] = dlist (rg_nodes R) (u + PBKDF_NEXT) []"
      by (intro dlist_other [OF h(3)]) auto
    then show ?thesis using D(6) [of u] u by auto
  qed
  moreover have "lock_agrees (rg_lock R) (count_pc reading rest + of_bool (reading (R_unlock 0 None)))
      (count_pc writing rest + of_bool (writing (R_unlock 0 None)))" using D(2) by simp
  ultimately show ?thesis
    using h(1) D(7,8) unfolding threads_ok_def by (intro exI [of _ h]) simp
qed

lemma threads_ok_del:
  assumes T: "threads_ok E xs R (U_del t) rest"
  shows "\<exists>h. list_del_init (t + PBKDF_NEXT) (rg_nodes R) = Some h \<and>
    threads_ok E (remove1 t xs) (R\<lparr>rg_nodes := h\<rparr>) (U_unlock 0 None) rest"
proof -
  note D = threads_okD [OF T] and K = pbkdf_ok [OF threads_okD(1) [OF T]]
  have alone: "\<not> reading q" "\<not> writing q" if "q \<in> set rest" for q
    using writer_alone [OF D(2) _ that] by simp_all
  obtain c where c: "refs R t = Some c" "cfe_atomic_get c = 1" using D(4) by auto
  have td: "t \<in> dom (rg_types R)" using c(1) by auto
  have lock: "lock_agrees (rg_lock R) (count_pc reading rest + of_bool (reading (U_unlock 0 None)))
      (count_pc writing rest + of_bool (writing (U_unlock 0 None)))" using D(2) by simp
  show ?thesis
  proof (cases "t \<in> set xs")
    case True
    have "cfe_atomic_get (of_nat (Suc (count_pc (holding t) rest))) = 1" using D(3) [OF True] c by simp
    then have none: "\<not> holding t q" if "q \<in> set rest" for q
      using get_count [of "count_pc (holding t) rest"] count_pc_le [of "holding t" rest] D(8) that
        count_pc_0 [of "holding t" rest] by simp
    let ?ns = "map (\<lambda>t. t + PBKDF_NEXT) xs" and ?ys = "remove1 t xs"
    obtain h where h: "list_del_init (t + PBKDF_NEXT) (rg_nodes R) = Some h"
        "dlist h (rg_head R) (remove1 (t + PBKDF_NEXT) ?ns)" "dlist h (t + PBKDF_NEXT) []"
        "frame (set (rg_head R # ?ns)) (rg_nodes R) h"
      using list_del_init_dlist [OF K(1), of "t + PBKDF_NEXT"] True by auto
    have rm: "remove1 (t + PBKDF_NEXT) ?ns = map (\<lambda>t. t + PBKDF_NEXT) ?ys" by (induction xs) auto
    have sub: "set ?ys = set xs - {t}" using K(6) by simp
    have "reg_ok pbkdf_layout (R\<lparr>rg_nodes := h\<rparr>) ?ys"
    proof (rule pbkdf_okI [OF D(1)])
      show "distinct (map (key R) ?ys)" using D(1) by (simp add: reg_ok_def distinct_map_remove1)
    qed (use h rm frame_dom [OF h(4)] D(1) sub in \<open>auto simp: reg_ok_def\<close>)
    moreover have "pc_ok (R\<lparr>rg_nodes := h\<rparr>) ?ys q" if "q \<in> set rest" for q
      using not_inside_keeps(3) [OF D(5) [OF that] alone [OF that] none [OF that]] .
    moreover have "refs R u = Some (of_nat (Suc (count_pc (holding u) rest)))" if "u \<in> set ?ys" for u
      using D(3) [of u] that sub by simp
    moreover have "R_add u \<in> set rest \<or> dlist h (u + PBKDF_NEXT) []"
      if u: "u \<in> dom (rg_types R)" "u \<notin> set ?ys" "cfe_atomic_get (the (refs R u)) = 1" for u
    proof (cases "u = t")
      case False
      then have "u \<notin> set xs" using u(2) sub by simp
      then have "u + PBKDF_NEXT \<notin> set (rg_head R # ?ns)" using K(3) [of u] u(1) by blast
      then have "dlist h (u + PBKDF_NEXT) [] = dlist (rg_nodes R) (u + PBKDF_NEXT) []"
        by (intro dlist_other [OF h(4)]) auto
      then show ?thesis using D(6) [of u] u \<open>u \<notin> set xs\<close> by auto
    qed (use h(3) in simp)
    ultimately have "threads_ok E ?ys (R\<lparr>rg_nodes := h\<rparr>) (U_unlock 0 None) rest"
      using lock D(7,8) unfolding threads_ok_def by simp
    then show ?thesis using h(1) by blast
  next
    case False
    have "R_add t \<notin> set rest" using alone(2) by force
    then have "dlist (rg_nodes R) (t + PBKDF_NEXT) []"
      using D(6) [of t] td False c by auto
    then have "list_del_init (t + PBKDF_NEXT) (rg_nodes R) = Some (rg_nodes R)" by (rule list_del_init_self)
    moreover have "threads_ok E xs (R\<lparr>rg_lock := rg_lock R\<rparr>) (U_unlock 0 None) rest"
      by (rule threads_ok_lock [OF T]) (use lock in auto)
    ultimately show ?thesis using False by (intro exI [of _ "rg_nodes R"]) (simp add: remove1_idem)
  qed
qed

subsection \<open>Every step is defined, and keeps the invariant\<close>

text \<open>A thread that has to wait for the lock.\<close>

fun waits :: "rwlock \<Rightarrow> pbkdf_pc \<Rightarrow> bool" where
  "waits l (D_rdlock a) = (rwlock_rdlock l = None)"
| "waits l (R_wrlock t) = (rwlock_wrlock l = None)"
| "waits l (U_wrlock t) = (rwlock_wrlock l = None)"
| "waits l pc = False"

lemma find_alg_cases:
  assumes "reg_ok pbkdf_layout (w_pbkdf w) xs"
  obtains t where "find_alg_pbkdf n w = Some t" and "t = NULL \<or> t \<in> set xs"
    and "t = NULL \<longleftrightarrow> Some (cstr n) \<notin> key (w_pbkdf w) ` set xs"
proof -
  let ?f = "List.find (\<lambda>t. key (w_pbkdf w) t = Some (cstr n)) xs"
  have g: "ly_get pbkdf_layout w = w_pbkdf w" "ly_canon pbkdf_layout = cstr" by (simp_all add: pbkdf_layout_def)
  have f: "find_alg_pbkdf n w = Some (case ?f of Some t \<Rightarrow> t | None \<Rightarrow> NULL)"
    unfolding find_alg_pbkdf_eq using pbkdf_lay.find_ok [of w xs n] assms by (simp add: g)
  moreover have "(case ?f of Some t \<Rightarrow> t | None \<Rightarrow> NULL) = NULL \<longleftrightarrow> Some (cstr n) \<notin> key (w_pbkdf w) ` set xs"
    using pbkdf_lay.find_ok_null [of w xs n] assms f unfolding find_alg_pbkdf_eq by (simp add: g)
  moreover have "(case ?f of Some t \<Rightarrow> t | None \<Rightarrow> NULL) = NULL \<or> (case ?f of Some t \<Rightarrow> t | None \<Rightarrow> NULL) \<in> set xs"
    by (auto simp: find_Some_iff split: option.splits)
  ultimately show thesis using that by blast
qed

lemma key_type:
  "key R t \<noteq> None \<longleftrightarrow> (\<exists>ty. rg_types R t = Some ty \<and> pt_derive ty \<noteq> None)"
  "rg_types R t = Some ty \<Longrightarrow> pt_derive ty \<noteq> None \<Longrightarrow> key R t = Some (cstr (pt_name ty))"
  by (auto simp: reg_key_def pbkdf_layout_def split: option.splits)

text \<open>The list of registered types after a step.\<close>

fun listed_after :: "pbkdf_pc \<Rightarrow> addr list \<Rightarrow> addr list" where
  "listed_after (R_add t) xs = xs @ [t]"
| "listed_after (U_del t) xs = remove1 t xs"
| "listed_after pc xs = xs"

definition moves_ok :: "env \<Rightarrow> addr list \<Rightarrow> pbkdf_pc \<Rightarrow> pbkdf_pc list \<Rightarrow> world \<Rightarrow> bool" where
  "moves_ok E xs pc rest w \<longleftrightarrow>
     (\<exists>pc' R. pc_step E pc w = Some (pc', w\<lparr>w_pbkdf := R\<rparr>) \<and> threads_ok E (listed_after pc xs) R pc' rest)"

lemma moves_okI:
  "pc_step E pc w = Some (pc', w\<lparr>w_pbkdf := R\<rparr>) \<Longrightarrow> threads_ok E (listed_after pc xs) R pc' rest \<Longrightarrow>
    moves_ok E xs pc rest w"
  by (auto simp: moves_ok_def)

text \<open>A step that leaves the world alone; a step that takes or gives back the lock.\<close>

lemma moves_local:
  assumes T: "threads_ok E xs (w_pbkdf w) pc rest" and "pc_step E pc w = Some (pc', w)"
    and "pc_ok (w_pbkdf w) xs pc'" and "reading pc' = reading pc" and "writing pc' = writing pc"
    and "\<And>t. holding t pc' = holding t pc" and "listed_after pc xs = xs" and "\<And>t. pc \<noteq> R_add t"
  shows "moves_ok E xs pc rest w"
proof (rule moves_okI)
  show "pc_step E pc w = Some (pc', w\<lparr>w_pbkdf := (w_pbkdf w)\<lparr>rg_lock := rg_lock (w_pbkdf w)\<rparr>\<rparr>)" using assms(2) by simp
  show "threads_ok E (listed_after pc xs) ((w_pbkdf w)\<lparr>rg_lock := rg_lock (w_pbkdf w)\<rparr>) pc' rest"
    unfolding assms(7) by (rule threads_ok_lock [OF T]) (use assms threads_okD(2) [OF T] in simp_all)
qed

lemma moves_rdlock:
  assumes T: "threads_ok E xs (w_pbkdf w) (D_rdlock a) rest" and "\<not> waits (rg_lock (w_pbkdf w)) (D_rdlock a)"
  shows "moves_ok E xs (D_rdlock a) rest w"
proof -
  obtain l where l: "rwlock_rdlock (rg_lock (w_pbkdf w)) = Some l" using assms(2) by auto
  show ?thesis
  proof (rule moves_okI)
    show "pc_step E (D_rdlock a) w = Some (D_find a, w\<lparr>w_pbkdf := (w_pbkdf w)\<lparr>rg_lock := l\<rparr>\<rparr>)"
      using l by (simp add: reg_rdlock_def)
    show "threads_ok E (listed_after (D_rdlock a) xs) ((w_pbkdf w)\<lparr>rg_lock := l\<rparr>) (D_find a) rest"
      unfolding listed_after.simps by (rule threads_ok_lock [OF T]) (use lock_steps(1) [OF threads_okD(2) [OF T] l] in simp_all)
  qed
qed

lemma moves_wrlock:
  assumes T: "threads_ok E xs (w_pbkdf w) pc rest" and "\<not> waits (rg_lock (w_pbkdf w)) pc"
    and pc: "(pc, pc') \<in> {(R_wrlock t, R_find t), (U_wrlock t, U_check t)}"
  shows "moves_ok E xs pc rest w"
proof -
  obtain l where l: "rwlock_wrlock (rg_lock (w_pbkdf w)) = Some l" using assms(2) pc by auto
  show ?thesis
  proof (rule moves_okI)
    show "pc_step E pc w = Some (pc', w\<lparr>w_pbkdf := (w_pbkdf w)\<lparr>rg_lock := l\<rparr>\<rparr>)"
      using l pc by (auto simp: reg_wrlock_def)
    have same: "listed_after pc xs = xs" using pc by auto
    show "threads_ok E (listed_after pc xs) ((w_pbkdf w)\<lparr>rg_lock := l\<rparr>) pc' rest"
      unfolding same
    proof (rule threads_ok_lock [OF T])
      show "lock_agrees l (count_pc reading rest + of_bool (reading pc')) (count_pc writing rest + of_bool (writing pc'))"
        using lock_steps(2) [OF threads_okD(2) [OF T] l] pc by auto
    qed (use pc threads_okD(4) [OF T] in auto)
  qed
qed

lemma moves_unlock:
  assumes T: "threads_ok E xs (w_pbkdf w) pc rest"
    and pc: "(pc, pc') \<in> {(D_unlock a t, if t = NULL then P_returned 1 [] (Some ENOSYS) else D_call a t),
      (R_unlock r e, P_returned r [] e), (U_unlock r e, P_returned r [] e)}"
  shows "moves_ok E xs pc rest w"
proof -
  note D = threads_okD [OF T]
  have out: "\<not> reading pc'" "\<not> writing pc'" using pc by (auto split: if_splits)
  have "\<exists>l. rwlock_unlock (rg_lock (w_pbkdf w)) = Some l \<and>
      lock_agrees l (count_pc reading rest + of_bool (reading pc')) (count_pc writing rest + of_bool (writing pc'))"
  proof (cases "reading pc")
    case True
    then show ?thesis using lock_steps(3) [of "rg_lock (w_pbkdf w)"] D(2) out pc by auto
  next
    case False
    then show ?thesis using lock_steps(4) [of "rg_lock (w_pbkdf w)"] D(2) out pc by auto
  qed
  then obtain l where l: "rwlock_unlock (rg_lock (w_pbkdf w)) = Some l"
    "lock_agrees l (count_pc reading rest + of_bool (reading pc')) (count_pc writing rest + of_bool (writing pc'))" by blast
  show ?thesis
  proof (rule moves_okI)
    show "pc_step E pc w = Some (pc', w\<lparr>w_pbkdf := (w_pbkdf w)\<lparr>rg_lock := l\<rparr>\<rparr>)"
      using l pc by (auto simp: reg_unlock_def)
    have same: "listed_after pc xs = xs" using pc by auto
    show "threads_ok E (listed_after pc xs) ((w_pbkdf w)\<lparr>rg_lock := l\<rparr>) pc' rest"
      unfolding same
    proof (rule threads_ok_lock [OF T])
      show "holding u pc' = holding u pc \<or> u \<notin> set xs" for u
        using pc pbkdf_ok(4) [OF D(1)] pbkdf_ok(5) [OF D(1), of u] by (auto split: if_splits)
    qed (use pc D(4) l(2) in \<open>auto split: if_splits\<close>)
  qed
qed

lemma moves_inc:
  assumes T: "threads_ok E xs (w_pbkdf w) (D_inc a t) rest"
  shows "moves_ok E xs (D_inc a t) rest w"
proof (cases "t = NULL")
  case True
  have h: "holding u (D_unlock a NULL) = holding u (D_inc a NULL) \<or> u \<notin> set xs" for u
    using pbkdf_ok(4) [OF threads_okD(1) [OF T]] pbkdf_ok(5) [OF threads_okD(1) [OF T], of u] by auto
  have "threads_ok E xs ((w_pbkdf w)\<lparr>rg_lock := rg_lock (w_pbkdf w)\<rparr>) (D_unlock a t) rest"
    by (rule threads_ok_lock [OF T]) (use True h threads_okD(2) [OF T] in simp_all)
  then show ?thesis using True by (intro moves_okI [of _ _ _ "D_unlock a t" "w_pbkdf w"]) simp_all
next
  case False
  note D = threads_okD [OF T]
  have t: "t \<in> set xs" using D(4) False by simp
  obtain ty where ty: "rg_types (w_pbkdf w) t = Some ty" using pbkdf_ok(5) [OF D(1) t] by auto
  have "U_del t \<notin> set rest"
  proof
    assume "U_del t \<in> set rest"
    then have "count_pc writing rest \<noteq> 0" unfolding count_pc_0 by (auto intro: bexI [of _ "U_del t"])
    then show False using D(2) by (cases "rg_lock (w_pbkdf w)") auto
  qed
  moreover have "cfe_atomic_inc (pt_refcnt ty) = of_nat (Suc (count_pc (holding t) rest + of_bool (holding t (D_unlock a t))))"
    using D(3) [OF t] ty by simp
  ultimately have "threads_ok E xs (stored t cfe_atomic_inc ty (w_pbkdf w)) (D_unlock a t) rest"
    by (intro threads_ok_stored [OF T ty t]) (use t in simp_all)
  then show ?thesis
    using False ty by (intro moves_okI) (simp_all add: reg_store_stored)
qed

lemma moves_dec:
  assumes T: "threads_ok E xs (w_pbkdf w) (D_dec t r out) rest"
  shows "moves_ok E xs (D_dec t r out) rest w"
proof -
  note D = threads_okD [OF T]
  have t: "t \<in> set xs" using D(4) by simp
  obtain ty where ty: "rg_types (w_pbkdf w) t = Some ty" using pbkdf_ok(5) [OF D(1) t] by auto
  have "cfe_atomic_dec (pt_refcnt ty) = of_nat (Suc (count_pc (holding t) rest + of_bool (holding t (P_returned r out None))))"
    using D(3) [OF t] ty by simp
  then have "threads_ok E xs (stored t cfe_atomic_dec ty (w_pbkdf w)) (P_returned r out None) rest"
    by (intro threads_ok_stored [OF T ty t]) (use holder_not_deleted [OF T t] in simp_all)
  then show ?thesis
    using ty by (intro moves_okI) (simp_all add: reg_store_stored)
qed

lemma moves_find:
  assumes T: "threads_ok E xs (w_pbkdf w) pc rest" and pc: "pc = D_find a \<or> pc = R_find t"
  shows "moves_ok E xs pc rest w"
  using pc
proof
  assume pc: "pc = D_find a"
  obtain u where u: "find_alg_pbkdf (da_name a) w = Some u" "u = NULL \<or> u \<in> set xs"
    using find_alg_cases [OF threads_okD(1) [OF T]] by metis
  show ?thesis by (rule moves_local [OF T, of "D_inc a u"]) (use u pc in simp_all)
next
  assume pc: "pc = R_find t"
  note D = threads_okD [OF T]
  obtain ty where ty: "rg_types (w_pbkdf w) t = Some ty" "pt_derive ty \<noteq> None"
    using D(4) pc by (auto simp: key_type(1) simp del: not_None_eq)
  obtain u where u: "find_alg_pbkdf (pt_name ty) w = Some u"
      "u = NULL \<longleftrightarrow> Some (cstr (pt_name ty)) \<notin> key (w_pbkdf w) ` set xs"
    using find_alg_cases [OF D(1)] by metis
  show ?thesis
    by (rule moves_local [OF T, of "if u \<noteq> NULL then R_unlock 1 (Some EBUSY) else R_set t"])
       (use u pc ty(1) key_type(2) [OF ty] in simp_all)
qed

lemma moves_check:
  assumes T: "threads_ok E xs (w_pbkdf w) pc rest" and pc: "pc = R_check t \<or> pc = U_check t"
  shows "moves_ok E xs pc rest w"
proof -
  obtain ty where ty: "rg_types (w_pbkdf w) t = Some ty" using threads_okD(4) [OF T] pc by auto
  from pc show ?thesis
  proof
    assume pc: "pc = R_check t"
    show ?thesis
      by (rule moves_local [OF T, of "if pt_derive ty = None then P_returned 1 [] (Some EINVAL) else R_wrlock t"])
         (use pc ty key_type(2) [OF ty] in auto)
  next
    assume pc: "pc = U_check t"
    show ?thesis
      by (rule moves_local [OF T, of "if cfe_atomic_get (pt_refcnt ty) \<noteq> 1 then U_unlock 1 (Some EBUSY) else U_del t"])
         (use pc ty in auto)
  qed
qed

lemma moves_call:
  assumes T: "threads_ok E xs (w_pbkdf w) (D_call a t) rest"
  shows "moves_ok E xs (D_call a t) rest w"
proof -
  note D = threads_okD [OF T]
  have t: "t \<in> set xs" using D(4) by simp
  then have "key (w_pbkdf w) t \<noteq> None" using D(1) by (simp add: reg_ok_def)
  then obtain ty f where ty: "rg_types (w_pbkdf w) t = Some ty" "pt_derive ty = Some f"
    using key_type(1) by blast
  obtain r out where "call_derive E f (da_rounds a) (da_in a) (da_ilen a) (da_salt a) (da_slen a) (da_olen a) w = Some (r, out, w)"
    using D(7) [OF ty] unfolding stateless_def by blast
  then show ?thesis by (intro moves_local [OF T, of "D_dec t r out"]) (use ty t in simp_all)
qed

lemma moves_change:
  assumes T: "threads_ok E xs (w_pbkdf w) pc rest" and pc: "pc = R_set t \<or> pc = R_add t \<or> pc = U_del t"
  shows "moves_ok E xs pc rest w"
  using pc
proof (elim disjE)
  assume pc: "pc = R_set t"
  then obtain ty where ty: "rg_types (w_pbkdf w) t = Some ty"
    using threads_okD(4) [OF T] by (auto simp: reg_key_def split: option.splits)
  show ?thesis
    using threads_ok_set [OF T [unfolded pc] ty] pc ty by (intro moves_okI) (simp_all add: reg_store_stored)
next
  assume pc: "pc = R_add t"
  obtain h where "list_add_tail (t + PBKDF_NEXT) (rg_head (w_pbkdf w)) (rg_nodes (w_pbkdf w)) = Some h"
    "threads_ok E (xs @ [t]) ((w_pbkdf w)\<lparr>rg_nodes := h\<rparr>) (R_unlock 0 None) rest"
    using threads_ok_add [OF T [unfolded pc]] by blast
  then show ?thesis using pc by (intro moves_okI) (simp_all add: reg_list_def)
next
  assume pc: "pc = U_del t"
  obtain h where "list_del_init (t + PBKDF_NEXT) (rg_nodes (w_pbkdf w)) = Some h"
    "threads_ok E (remove1 t xs) ((w_pbkdf w)\<lparr>rg_nodes := h\<rparr>) (U_unlock 0 None) rest"
    using threads_ok_del [OF T [unfolded pc]] by blast
  then show ?thesis using pc by (intro moves_okI) (simp_all add: reg_list_def)
qed

text \<open>A thread in a call that does not wait for the lock makes a step, and the invariant stays.\<close>

lemma threads_ok_step:
  assumes T: "threads_ok E xs (w_pbkdf w) pc rest" and "\<not> waits (rg_lock (w_pbkdf w)) pc"
    and "pc \<noteq> P_idle" and "\<not> is_returned pc"
  shows "moves_ok E xs pc rest w"
proof (cases pc)
  case (D_rdlock a)
  then show ?thesis using moves_rdlock T assms(2) by blast
next
  case (D_unlock a t)
  then show ?thesis using moves_unlock [OF T] by blast
next
  case (R_unlock r e)
  then show ?thesis using moves_unlock [OF T] by blast
next
  case (U_unlock r e)
  then show ?thesis using moves_unlock [OF T] by blast
next
  case (D_inc a t)
  then show ?thesis using moves_inc T by blast
next
  case (D_dec t r out)
  then show ?thesis using moves_dec T by blast
next
  case (D_call a t)
  then show ?thesis using moves_call T by blast
qed (use assms(2-4) moves_wrlock [OF T assms(2)] moves_find [OF T] moves_check [OF T] moves_change [OF T] in auto)

subsection \<open>Any number of threads\<close>

text \<open>
  A step of the system: a thread that is idle begins a call, a thread in a call makes its next step, a
  thread whose call has returned is idle again. A client registers and deregisters objects that exist;
  whether they are registered, and who else does the same, is left open.
\<close>

fun call_ok :: "world \<Rightarrow> pbkdf_call \<Rightarrow> bool" where
  "call_ok w (Derive algname rounds inp ilen salt slen olen) = True"
| "call_ok w (Register_type t) = (t \<in> dom (rg_types (w_pbkdf w)))"
| "call_ok w (Unregister_type t) = (t \<in> dom (rg_types (w_pbkdf w)))"

type_synonym threads = "pbkdf_pc list \<times> world"

inductive advances :: "env \<Rightarrow> threads \<Rightarrow> threads \<Rightarrow> bool" for E where
  move: "i < length ts \<Longrightarrow> pc_step E (ts ! i) w = Some (pc, v) \<Longrightarrow> advances E (ts, w) (ts[i := pc], v)"
| return: "i < length ts \<Longrightarrow> is_returned (ts ! i) \<Longrightarrow> advances E (ts, w) (ts[i := P_idle], w)"

inductive sys_step :: "env \<Rightarrow> threads \<Rightarrow> threads \<Rightarrow> bool" for E where
  begin_call: "i < length ts \<Longrightarrow> ts ! i = P_idle \<Longrightarrow> call_ok w c \<Longrightarrow> sys_step E (ts, w) (ts[i := pc_start c], w)"
| advance: "advances E s s' \<Longrightarrow> sys_step E s s'"

inductive_cases advancesE: "advances E (ts, w) s"
inductive_cases sys_stepE: "sys_step E (ts, w) s"

inductive reachable :: "env \<Rightarrow> nat \<Rightarrow> world \<Rightarrow> threads \<Rightarrow> bool" for E n w where
  start: "reachable E n w (replicate n P_idle, w)"
| step: "reachable E n w s \<Longrightarrow> sys_step E s s' \<Longrightarrow> reachable E n w s'"

text \<open>The invariant of all threads, seen from any of them.\<close>

lemma threads_ok_focus:
  assumes "i < length ts"
  shows "threads_ok E xs R P_idle (ts[i := x]) = threads_ok E xs R x (ts[i := P_idle])"
proof -
  note S = set_update_insert [OF assms, of P_idle x]
  have "pc_ok R xs P_idle \<and> (\<forall>q \<in> set (ts[i := x]). pc_ok R xs q) \<longleftrightarrow> (\<forall>q \<in> insert P_idle (set (ts[i := x])). pc_ok R xs q)"
    by simp
  also have "\<dots> \<longleftrightarrow> pc_ok R xs x \<and> (\<forall>q \<in> set (ts[i := P_idle]). pc_ok R xs q)"
    by (simp only: S) blast
  finally have p: "(\<forall>q \<in> set (ts[i := x]). pc_ok R xs q) = (pc_ok R xs x \<and> (\<forall>q \<in> set (ts[i := P_idle]). pc_ok R xs q))"
    by simp
  have h: "\<not> holding t P_idle" for t by simp
  show ?thesis
    unfolding threads_ok_def S
    using p count_pc_update [of i ts reading P_idle x] count_pc_update [of i ts writing P_idle x]
      count_pc_update [of i ts "holding _" P_idle x, OF assms h] assms by simp
qed

lemma threads_ok_at:
  "i < length ts \<Longrightarrow> threads_ok E xs R P_idle ts \<Longrightarrow> threads_ok E xs R (ts ! i) (ts[i := P_idle])"
  using threads_ok_focus [of i ts E xs R "ts ! i"] by simp

lemma threads_ok_begin:
  assumes "threads_ok E xs (w_pbkdf w) P_idle rest" and "call_ok w c"
  shows "threads_ok E xs (w_pbkdf w) (pc_start c) rest"
proof -
  note D = threads_okD [OF assms(1)]
  have pc: "pc_ok (w_pbkdf w) xs (pc_start c)" "\<not> reading (pc_start c)" "\<not> writing (pc_start c)" "\<And>t. \<not> holding t (pc_start c)"
    using assms(2) by (cases c; auto split: option.splits)+
  have "threads_ok E xs ((w_pbkdf w)\<lparr>rg_lock := rg_lock (w_pbkdf w)\<rparr>) (pc_start c) rest"
    by (rule threads_ok_lock [OF assms(1)]) (use pc D(2) in simp_all)
  then show ?thesis by simp
qed

lemma waits_step: "waits (rg_lock (w_pbkdf w)) pc \<Longrightarrow> pc_step E pc w = None"
  by (cases pc) (simp_all add: reg_rdlock_def reg_wrlock_def)

lemma threads_ok_return:
  assumes "threads_ok E xs R (P_returned r out e) rest"
  shows "threads_ok E xs R P_idle rest"
proof -
  have "threads_ok E xs (R\<lparr>rg_lock := rg_lock R\<rparr>) P_idle rest"
    by (rule threads_ok_lock [OF assms]) (use threads_okD(2) [OF assms] in simp_all)
  then show ?thesis by simp
qed

lemma advances_ok:
  assumes "advances E s s'" and "threads_ok E xs (w_pbkdf (snd s)) P_idle (fst s)"
  shows "\<exists>ys. threads_ok E ys (w_pbkdf (snd s')) P_idle (fst s')"
  using assms
proof (induction rule: advances.induct)
  case (move i ts w pc v)
  then have T: "threads_ok E xs (w_pbkdf w) (ts ! i) (ts[i := P_idle])" by (simp add: threads_ok_at)
  have "ts ! i \<noteq> P_idle" "\<not> is_returned (ts ! i)" using move(2) by (cases "ts ! i"; auto)+
  moreover have "\<not> waits (rg_lock (w_pbkdf w)) (ts ! i)" using move(2) waits_step by fastforce
  ultimately obtain R ys where "pc_step E (ts ! i) w = Some (pc, w\<lparr>w_pbkdf := R\<rparr>)" "threads_ok E ys R pc (ts[i := P_idle])"
    using threads_ok_step [OF T] move(2) by (auto simp: moves_ok_def)
  then show ?case using move(1,2) by (auto simp: threads_ok_focus)
next
  case (return i ts w)
  then have T: "threads_ok E xs (w_pbkdf w) (ts ! i) (ts[i := P_idle])" by (simp add: threads_ok_at)
  obtain r out e where pc: "ts ! i = P_returned r out e" using return(2) by (cases "ts ! i") auto
  show ?case using threads_ok_return [OF T [unfolded pc]] by auto
qed

lemma sys_step_ok:
  assumes "sys_step E s s'" and "threads_ok E xs (w_pbkdf (snd s)) P_idle (fst s)"
  shows "\<exists>ys. threads_ok E ys (w_pbkdf (snd s')) P_idle (fst s')"
  using assms
proof (induction rule: sys_step.induct)
  case (begin_call i ts w c)
  then have "threads_ok E xs (w_pbkdf w) P_idle (ts[i := P_idle])" using threads_ok_at [of i ts E xs] by simp
  from threads_ok_begin [OF this begin_call(3)] show ?case using begin_call(1) by (auto simp: threads_ok_focus)
next
  case (advance s s')
  then show ?case using advances_ok by blast
qed

text \<open>
  Where the threads start from: a well-formed registry with one reference to every registered type, in
  which no other object has a single reference, and the derivation functions are stateless.
\<close>

definition registry_at_rest :: "env \<Rightarrow> addr list \<Rightarrow> world \<Rightarrow> bool" where
  "registry_at_rest E xs w \<longleftrightarrow> tmpl_repr pbkdf_layout w xs \<and>
     (\<forall>t \<in> set xs. tmpl_refs pbkdf_layout w t = Some 1) \<and>
     (\<forall>t ty. rg_types (w_pbkdf w) t = Some ty \<longrightarrow> t \<notin> set xs \<longrightarrow> cfe_atomic_get (pt_refcnt ty) \<noteq> 1) \<and>
     (\<forall>t ty f. rg_types (w_pbkdf w) t = Some ty \<longrightarrow> pt_derive ty = Some f \<longrightarrow> stateless E f)"

lemma at_rest_threads_ok:
  assumes "registry_at_rest E xs w" and "Suc n < 2 ^ 31"
  shows "threads_ok E xs (w_pbkdf w) P_idle (replicate n P_idle)"
proof -
  have "\<And>t. t \<in> set xs \<Longrightarrow> refs (w_pbkdf w) t = Some 1"
    using assms(1) by (simp add: registry_at_rest_def tmpl_refs_def pbkdf_layout_def)
  then show ?thesis
    using assms by (auto simp: threads_ok_def registry_at_rest_def tmpl_repr_def count_pc_replicate pbkdf_layout_def)
qed

lemma reachable_ok:
  assumes "reachable E n w s" and "registry_at_rest E xs w" and "Suc n < 2 ^ 31"
  shows "\<exists>ys. threads_ok E ys (w_pbkdf (snd s)) P_idle (fst s)"
  using assms
proof (induction rule: reachable.induct)
  case start
  then show ?case using at_rest_threads_ok by (intro exI [of _ xs]) simp
next
  case (step s s')
  then show ?case using sys_step_ok by blast
qed

subsection \<open>No thread blocks the others for good\<close>

text \<open>How many steps a thread has left in its call, at most.\<close>

fun steps_left :: "pbkdf_pc \<Rightarrow> nat" where
  "steps_left P_idle = 0"
| "steps_left (P_returned r out e) = 1"
| "steps_left (D_rdlock a) = 7"
| "steps_left (D_find a) = 6"
| "steps_left (D_inc a t) = 5"
| "steps_left (D_unlock a t) = 4"
| "steps_left (D_call a t) = 3"
| "steps_left (D_dec t r out) = 2"
| "steps_left (R_check t) = 7"
| "steps_left (R_wrlock t) = 6"
| "steps_left (R_find t) = 5"
| "steps_left (R_set t) = 4"
| "steps_left (R_add t) = 3"
| "steps_left (R_unlock r e) = 2"
| "steps_left (U_wrlock t) = 5"
| "steps_left (U_check t) = 4"
| "steps_left (U_del t) = 3"
| "steps_left (U_unlock r e) = 2"

lemma steps_left_step: "pc_step E pc w = Some (pc', v) \<Longrightarrow> steps_left pc' < steps_left pc"
  by (cases pc) (auto split: if_splits bind_splits)

lemma steps_left_le: "steps_left pc \<le> 7"
  by (cases pc) simp_all

lemma advances_bound:
  assumes "(advances E ^^ k) s s'"
  shows "k \<le> 7 * length (fst s)" and "length (fst s') = length (fst s)"
proof -
  have one: "\<exists>i < length (fst x). \<exists>pc. fst y = (fst x)[i := pc] \<and> steps_left pc < steps_left (fst x ! i)" if "advances E x y" for x y
    using that
  proof cases
    case (return i ts w)
    then have "steps_left P_idle < steps_left (ts ! i)" by (cases "ts ! i") simp_all
    then show ?thesis using return by (intro exI [of _ i] conjI exI [of _ P_idle]) auto
  qed (auto intro: steps_left_step)
  show "k \<le> 7 * length (fst s)" by (rule run_bound(1) [where f = steps_left, OF one steps_left_le assms])
  show "length (fst s') = length (fst s)" by (rule run_bound(2) [where f = steps_left, OF one steps_left_le assms])
qed

lemma advances_run_ok:
  assumes "(advances E ^^ k) s s'" and "threads_ok E xs (w_pbkdf (snd s)) P_idle (fst s)"
  shows "\<exists>ys. threads_ok E ys (w_pbkdf (snd s')) P_idle (fst s')"
proof -
  let ?P = "\<lambda>s. \<exists>ys. threads_ok E ys (w_pbkdf (snd s)) P_idle (fst s)"
  have "?P s" using assms(2) by blast
  from run_invariant [where P = ?P, OF assms(1) this] show ?thesis using advances_ok by blast
qed

text \<open>A thread that can make its step; one that is inside the lock; some thread of a busy system.\<close>

lemma thread_can_advance:
  assumes "threads_ok E xs (w_pbkdf w) P_idle ts" and "i < length ts"
    and "ts ! i \<noteq> P_idle" and "\<not> waits (rg_lock (w_pbkdf w)) (ts ! i)"
  shows "\<exists>s'. advances E (ts, w) s'"
proof (cases "is_returned (ts ! i)")
  case True
  then show ?thesis using advances.return [OF assms(2)] by blast
next
  case False
  from threads_ok_step [OF threads_ok_at [OF assms(2,1)] assms(4,3) False]
  show ?thesis using advances.move [OF assms(2)] unfolding moves_ok_def by blast
qed

lemma inside_does_not_wait: "reading pc \<or> writing pc \<Longrightarrow> \<not> waits l pc \<and> pc \<noteq> P_idle"
  by (cases pc) simp_all

lemma waits_not_free: "waits l pc \<Longrightarrow> l \<noteq> Unlocked"
  by (cases pc) auto

lemma system_can_advance:
  assumes T: "threads_ok E xs (w_pbkdf w) P_idle ts" and "pc \<in> set ts" and "pc \<noteq> P_idle"
  shows "\<exists>s'. advances E (ts, w) s'"
proof (cases "waits (rg_lock (w_pbkdf w)) pc")
  case True
  obtain q where "q \<in> set ts" "reading q \<or> writing q"
    using lock_inside [of "rg_lock (w_pbkdf w)" reading ts writing] threads_okD(2) [OF T] waits_not_free [OF True] by auto
  then show ?thesis using thread_can_advance [OF T] inside_does_not_wait by (metis in_set_conv_nth)
next
  case False
  then show ?thesis using thread_can_advance [OF T] assms(2,3) by (metis in_set_conv_nth)
qed

text \<open>When all threads are idle, nothing but the registry refers to its types, and the lock is free.\<close>

lemma threads_ok_idle:
  assumes "threads_ok E ys (w_pbkdf w) P_idle (replicate n P_idle)"
  shows "tmpl_repr pbkdf_layout w ys" and "\<forall>t \<in> set ys. tmpl_refs pbkdf_layout w t = Some 1"
proof -
  note D = threads_okD [OF assms]
  have "rg_lock (w_pbkdf w) = Unlocked"
    using D(2) by (cases "rg_lock (w_pbkdf w)") (simp_all add: count_pc_replicate)
  then show "tmpl_repr pbkdf_layout w ys" using D(1) by (simp add: tmpl_repr_def pbkdf_layout_def)
  show "\<forall>t \<in> set ys. tmpl_refs pbkdf_layout w t = Some 1"
    using D(3) by (simp add: tmpl_refs_def pbkdf_layout_def count_pc_replicate)
qed

subsection \<open>The load image\<close>

text \<open>
  When the library is loaded nothing is registered: the threads start from the static types of the
  image, which one of them, or several, may register.
\<close>

lemma openssl_stateless: "(\<And>n. f \<noteq> Ext_derive n) \<Longrightarrow> stateless E f"
  by (cases f) (auto simp: stateless_def split_beta)

lemma image_at_rest:
  assumes "w_pbkdf w = load_registry head PBKDF_NEXT (pbkdf_statics E)"
    and "distinct (map fst (pbkdf_statics E))" "NULL \<notin> fst ` set (pbkdf_statics E)"
      "head \<notin> (\<lambda>t. t + PBKDF_NEXT) ` fst ` set (pbkdf_statics E)"
  shows "registry_at_rest E [] w"
proof -
  have "pt_refcnt ty = 0 \<and> (\<forall>f. pt_derive ty = Some f \<longrightarrow> stateless E f)" if "rg_types (w_pbkdf w) t = Some ty" for t ty
    using map_of_SomeD [of "pbkdf_statics E" t ty] that assms(1)
    by (auto simp: load_registry_def pbkdf_statics_def openssl_type_kdf_sha1_def openssl_type_kdf_sha224_def
        openssl_type_kdf_sha256_def openssl_type_kdf_sha384_def openssl_type_kdf_sha512_def intro!: openssl_stateless)
  then show ?thesis
    using pbkdf_load(1) [OF assms] by (simp add: registry_at_rest_def cfe_atomic_get_def)
qed

text \<open>Of two threads, one is registering SHA-1 and holds the lock, the other wants to derive with it.\<close>

definition demo_threads :: threads where
  "demo_threads = ([R_find 12288, pc_start (Derive (Some ''pbkdf-sha1'') 1 (Some [1]) 1 [] 0 8)],
     pbkdf_demo\<lparr>w_pbkdf := (w_pbkdf pbkdf_demo)\<lparr>rg_lock := WrLocked\<rparr>\<rparr>)"

lemma demo_types: "rg_types (w_pbkdf pbkdf_demo) 12288 = Some openssl_type_kdf_sha1"
  "rg_lock (w_pbkdf pbkdf_demo) = Unlocked"
  by (simp_all add: pbkdf_demo_def load_registry_def pbkdf_statics_def)

lemma demo_reachable: "reachable demo_env 2 pbkdf_demo demo_threads"
proof -
  let ?d = "pc_start (Derive (Some ''pbkdf-sha1'') 1 (Some [1]) 1 [] 0 8)"
  have "reachable demo_env 2 pbkdf_demo ([P_idle, P_idle], pbkdf_demo)"
    using reachable.start [of demo_env 2 pbkdf_demo] by (simp add: numeral_2_eq_2)
  then have "reachable demo_env 2 pbkdf_demo ([R_check 12288, P_idle], pbkdf_demo)"
    by (rule reachable.step) (use sys_step.begin_call [of 0 "[P_idle, P_idle]" pbkdf_demo "Register_type 12288"] demo_types in \<open>simp add: domI\<close>)
  then have "reachable demo_env 2 pbkdf_demo ([R_check 12288, ?d], pbkdf_demo)"
    by (rule reachable.step) (use sys_step.begin_call [of 1 "[R_check 12288, P_idle]" pbkdf_demo
        "Derive (Some ''pbkdf-sha1'') 1 (Some [1]) 1 [] 0 8"] in simp)
  then have "reachable demo_env 2 pbkdf_demo ([R_wrlock 12288, ?d], pbkdf_demo)"
    by (rule reachable.step) (use advances.move [of 0 "[R_check 12288, ?d]" demo_env pbkdf_demo] demo_types in
        \<open>simp add: sys_step.advance openssl_type_kdf_sha1_def\<close>)
  then show ?thesis
    unfolding demo_threads_def
    by (rule reachable.step) (use advances.move [of 0 "[R_wrlock 12288, ?d]" demo_env pbkdf_demo] demo_types in
        \<open>simp add: sys_step.advance reg_wrlock_def\<close>)
qed

subsection \<open>Properties\<close>

text \<open>C5: However the threads' steps interleave, the list of the registry stays well formed and free of duplicate
  names, each registered type's counter is one more than the number of threads that use it, a type that a
  thread is calling or about to release is registered and no thread is about to take it off the list, and
  a thread that holds the lock for writing is the only one inside.\<close>

theorem threads_safe:
  assumes "registry_at_rest E xs w" and "Suc n < 2 ^ 31" and "reachable E n w (ts, v)"
  shows "\<exists>ys. reg_ok pbkdf_layout (w_pbkdf v) ys \<and>
    (\<forall>t \<in> set ys. tmpl_refs pbkdf_layout v t = Some (of_nat (Suc (count_pc (holding t) ts)))) \<and>
    (\<forall>t. \<forall>pc \<in> set ts. (\<exists>a r out. pc = D_call a t \<or> pc = D_dec t r out) \<longrightarrow> t \<in> set ys \<and> U_del t \<notin> set ts) \<and>
    (\<forall>i < length ts. \<forall>j < length ts. writing (ts ! i) \<longrightarrow> writing (ts ! j) \<or> reading (ts ! j) \<longrightarrow> i = j)"
proof -
  obtain ys where T: "threads_ok E ys (w_pbkdf v) P_idle ts" using reachable_ok [OF assms(3,1,2)] by auto
  note D = threads_okD [OF T]
  have use: "t \<in> set ys \<and> U_del t \<notin> set ts" if "pc \<in> set ts" "pc = D_call a t \<or> pc = D_dec t r out" for t pc a r out
  proof -
    have t: "t \<in> set ys" and "holding t pc" using that(2) D(5) [OF that(1)] by auto
    then have "count_pc (holding t) ts \<noteq> 0" using that(1) unfolding count_pc_0 by blast
    moreover have "count_pc (holding t) ts < 2 ^ 31" using count_pc_le [of "holding t" ts] D(8) by simp
    ultimately show ?thesis using t D(3) [OF t] D(5) [of "U_del t"] get_count by auto
  qed
  have excl: "i = j" if "i < length ts" "j < length ts" "writing (ts ! i)" "writing (ts ! j) \<or> reading (ts ! j)" for i j
  proof (rule ccontr)
    assume "i \<noteq> j"
    then have "ts ! j \<in> set (ts[i := P_idle])" using that(2) by (metis length_list_update nth_list_update_neq nth_mem)
    then show False
      using writer_alone [OF threads_okD(2) [OF threads_ok_at [OF that(1) T]] that(3)] that(4) by blast
  qed
  show ?thesis
    by (intro exI [of _ ys] conjI) (use D(1,3) use excl in \<open>auto simp: tmpl_refs_def pbkdf_layout_def\<close>)
qed

theorem threads_safe_witness:
  "\<exists>ys. reg_ok pbkdf_layout (w_pbkdf (snd demo_threads)) ys \<and>
    \<not> writing (fst demo_threads ! 1) \<and> \<not> reading (fst demo_threads ! 1)"
proof -
  have "reachable demo_env 2 pbkdf_demo (fst demo_threads, snd demo_threads)" using demo_reachable by simp
  from threads_safe [OF image_at_rest [OF pbkdf_demo_image] _ this]
  obtain ys where "reg_ok pbkdf_layout (w_pbkdf (snd demo_threads)) ys"
    "\<forall>i < length (fst demo_threads). \<forall>j < length (fst demo_threads). writing (fst demo_threads ! i) \<longrightarrow>
      writing (fst demo_threads ! j) \<or> reading (fst demo_threads ! j) \<longrightarrow> i = j" by auto
  moreover have "length (fst demo_threads) = 2" "writing (fst demo_threads ! 0)" by (simp_all add: demo_threads_def)
  ultimately show ?thesis by (metis one_less_numeral_iff semiring_norm(76) zero_less_numeral zero_neq_one)
qed

text \<open>C6: No step is undefined and no thread blocks the others for good: in every reachable state each thread that
  is in a call and does not wait for the lock can make its step; when no new calls begin, the threads
  make at most seven steps each, in whatever order; and they stop only when every call has returned, the
  lock is free and nothing but the registry refers to its types.\<close>

theorem threads_progress:
  assumes "registry_at_rest E xs w" and "Suc n < 2 ^ 31" and "reachable E n w (ts, v)"
  shows "(\<forall>pc \<in> set ts. pc \<noteq> P_idle \<longrightarrow> \<not> is_returned pc \<longrightarrow>
      (pc_step E pc v = None \<longleftrightarrow> waits (rg_lock (w_pbkdf v)) pc)) \<and>
    (\<forall>k us u. (advances E ^^ k) (ts, v) (us, u) \<longrightarrow> k \<le> 7 * length ts \<and>
      ((\<nexists>s. advances E (us, u) s) \<longrightarrow> us = replicate (length ts) P_idle \<and>
        (\<exists>ys. tmpl_repr pbkdf_layout u ys \<and> (\<forall>t \<in> set ys. tmpl_refs pbkdf_layout u t = Some 1))))"
proof -
  obtain ys where T: "threads_ok E ys (w_pbkdf v) P_idle ts" using reachable_ok [OF assms(3,1,2)] by auto
  have "pc_step E pc v = None \<longleftrightarrow> waits (rg_lock (w_pbkdf v)) pc"
    if pc: "pc \<in> set ts" "pc \<noteq> P_idle" "\<not> is_returned pc" for pc
  proof -
    obtain i where i: "i < length ts" "ts ! i = pc" using pc(1) by (auto simp: in_set_conv_nth)
    show ?thesis
      using threads_ok_step [OF threads_ok_at [OF i(1) T]] i(2) pc(2,3) waits_step by (fastforce simp: moves_ok_def)
  qed
  moreover have "k \<le> 7 * length ts \<and> ((\<nexists>s. advances E (us, u) s) \<longrightarrow> us = replicate (length ts) P_idle \<and>
        (\<exists>ys. tmpl_repr pbkdf_layout u ys \<and> (\<forall>t \<in> set ys. tmpl_refs pbkdf_layout u t = Some 1)))"
    if run: "(advances E ^^ k) (ts, v) (us, u)" for k us u
  proof -
    have k: "k \<le> 7 * length ts" "length us = length ts"
      using advances_bound [OF run] by auto
    obtain zs where Z: "threads_ok E zs (w_pbkdf u) P_idle us" using advances_run_ok [OF run] T by auto
    have "us = replicate (length ts) P_idle" if "\<nexists>s. advances E (us, u) s"
      using system_can_advance [OF Z] that k(2) by (metis replicate_length_same)
    then show ?thesis using k(1) threads_ok_idle Z by metis
  qed
  ultimately show ?thesis by blast
qed

theorem threads_progress_witness:
  "pc_step demo_env (fst demo_threads ! 0) (snd demo_threads) \<noteq> None \<and>
    pc_step demo_env (fst demo_threads ! 1) (snd demo_threads) = None"
proof -
  have "reachable demo_env 2 pbkdf_demo (fst demo_threads, snd demo_threads)" using demo_reachable by simp
  from threads_progress [OF image_at_rest [OF pbkdf_demo_image] _ this]
  have "\<forall>pc \<in> set (fst demo_threads). pc \<noteq> P_idle \<longrightarrow> \<not> is_returned pc \<longrightarrow>
      (pc_step demo_env pc (snd demo_threads) = None \<longleftrightarrow> waits (rg_lock (w_pbkdf (snd demo_threads))) pc)" by simp
  then show ?thesis by (simp add: demo_threads_def del: pc_step.simps)
qed

text \<open>A thread that no other interleaves with, run step by step, computes exactly the sequential function: the
  same result, output, errno and registry, and it is undefined where the function is. So the steps are a
  finer description of cfe_pbkdf_derive, cfe_pbkdf_register and cfe_pbkdf_unregister.\<close>

theorem threads_alone:
  "alone 6 E (pc_start (Derive algname rounds inp ilen salt slen olen)) w =
      cfe_pbkdf_derive E algname rounds inp ilen salt slen olen w \<and>
    alone 6 E (pc_start (Register_type t)) w = map_option (\<lambda>(r, w). (r, [], w)) (cfe_pbkdf_register t w) \<and>
    alone 4 E (pc_start (Unregister_type t)) w = map_option (\<lambda>(r, w). (r, [], w)) (cfe_pbkdf_unregister t w)"
  by (intro conjI alone_derive alone_register alone_unregister)

end
