(* ===== verification/Cfe_Linear.thy ===== *)
theory Cfe_Linear
  imports Cfe_Threads
begin

text \<open>
  The registry of key derivations is linearizable: what the threads of \<open>Cfe_Threads\<close> can observe, the
  calls they make and the answers they get in the order in which these happen, can also be observed of
  threads whose calls look up, register, deregister and release at one instant, on the registry without
  memory of \<open>Cfe_Regspec\<close>. The proof is a forward simulation: each step of a thread is answered by one
  atomic action or by none.
\<close>

subsection \<open>Threads whose operations are atomic\<close>

text \<open>
  Where such a thread is: it has not taken its reference yet, it uses the type, it has its result and
  is to drop the reference, it is to register or deregister, it has its answer.
\<close>

datatype atomic_pc =
    A_idle
  | A_derive derive_args
  | A_use derive_args addr
  | A_release addr int bytes
  | A_register addr
  | A_unregister addr
  | A_done int bytes "int option"

fun atomic_start :: "pbkdf_call \<Rightarrow> atomic_pc" where
  "atomic_start (Derive algname rounds inp ilen salt slen olen) =
     (case (algname, inp) of
        (Some name, Some buf) \<Rightarrow>
          if ilen = 0 then A_done 1 [] (Some EINVAL)
          else A_derive \<lparr>da_name = name, da_rounds = rounds, da_in = buf, da_ilen = ilen, da_salt = salt,
            da_slen = slen, da_olen = olen\<rparr>
      | _ \<Rightarrow> A_done 1 [] (Some EINVAL))"
| "atomic_start (Register_type t) = A_register t"
| "atomic_start (Unregister_type t) = A_unregister t"

text \<open>What the derivation function of a type of the registry \<open>R\<close> computes.\<close>

definition derives :: "env \<Rightarrow> cfe_pbkdf_type registry \<Rightarrow> addr \<Rightarrow> derive_args \<Rightarrow> int \<Rightarrow> bytes \<Rightarrow> bool" where
  "derives E R t a r out \<longleftrightarrow> (\<exists>ty f w v. rg_types R t = Some ty \<and> pt_derive ty = Some f \<and>
     call_derive E f (da_rounds a) (da_in a) (da_ilen a) (da_salt a) (da_slen a) (da_olen a) w = Some (r, out, v))"

definition answer :: "int \<Rightarrow> atomic_pc" where
  "answer r = A_done r [] (if r = 0 then None else Some EBUSY)"

text \<open>
  The atomic actions. \<open>R\<close> gives the names and the functions of the types, which no step changes. To
  deregister a type that is not registered depends on its counter, and leaves the list as it is.
\<close>

inductive atomic_step ::
  "env \<Rightarrow> cfe_pbkdf_type registry \<Rightarrow> atomic_pc \<times> registry_spec \<Rightarrow> atomic_pc \<times> registry_spec \<Rightarrow> bool" for E R where
  acquire: "spec_step (key R) cstr (Acquire (da_name a)) s = Some (Type t, s') \<Longrightarrow>
    atomic_step E R (A_derive a, s) (if t = NULL then A_done 1 [] (Some ENOSYS) else A_use a t, s')"
| use: "derives E R t a r out \<Longrightarrow> atomic_step E R (A_use a t, s) (A_release t r out, s)"
| release: "spec_step (key R) cstr (Release t) s = Some (Done, s') \<Longrightarrow>
    atomic_step E R (A_release t r out, s) (A_done r out None, s')"
| register_invalid: "key R t = None \<Longrightarrow> atomic_step E R (A_register t, s) (A_done 1 [] (Some EINVAL), s)"
| register: "spec_step (key R) cstr (Register t) s = Some (Code r, s') \<Longrightarrow>
    atomic_step E R (A_register t, s) (answer r, s')"
| unregister: "spec_step (key R) cstr (Unregister t) s = Some (Code r, s') \<Longrightarrow>
    atomic_step E R (A_unregister t, s) (answer r, s')"
| unregister_unlisted: "t \<notin> set (sp_types s) \<Longrightarrow>
    atomic_step E R (A_unregister t, s) (answer (if sp_refs s t = 1 then 0 else 1), s)"

subsection \<open>Histories\<close>

text \<open>What can be observed of thread \<open>i\<close>: it calls, it gets result, output and \<open>errno\<close>.\<close>

datatype pbkdf_event = Invoke nat pbkdf_call | Response nat int bytes "int option"

inductive history :: "env \<Rightarrow> nat \<Rightarrow> world \<Rightarrow> pbkdf_event list \<Rightarrow> threads \<Rightarrow> bool" for E n w where
  start: "history E n w [] (replicate n P_idle, w)"
| invoke: "history E n w h (ts, v) \<Longrightarrow> i < length ts \<Longrightarrow> ts ! i = P_idle \<Longrightarrow> call_ok v c \<Longrightarrow>
    history E n w (h @ [Invoke i c]) (ts[i := pc_start c], v)"
| move: "history E n w h (ts, v) \<Longrightarrow> i < length ts \<Longrightarrow> pc_step E (ts ! i) v = Some (pc, u) \<Longrightarrow>
    history E n w h (ts[i := pc], u)"
| respond: "history E n w h (ts, v) \<Longrightarrow> i < length ts \<Longrightarrow> ts ! i = P_returned r out e \<Longrightarrow>
    history E n w (h @ [Response i r out e]) (ts[i := P_idle], v)"

inductive atomic_history ::
  "env \<Rightarrow> nat \<Rightarrow> cfe_pbkdf_type registry \<Rightarrow> registry_spec \<Rightarrow> pbkdf_event list \<Rightarrow>
    atomic_pc list \<times> registry_spec \<Rightarrow> bool" for E n R s\<^sub>0 where
  start: "atomic_history E n R s\<^sub>0 [] (replicate n A_idle, s\<^sub>0)"
| invoke: "atomic_history E n R s\<^sub>0 h (as, s) \<Longrightarrow> i < length as \<Longrightarrow> as ! i = A_idle \<Longrightarrow>
    atomic_history E n R s\<^sub>0 (h @ [Invoke i c]) (as[i := atomic_start c], s)"
| move: "atomic_history E n R s\<^sub>0 h (as, s) \<Longrightarrow> i < length as \<Longrightarrow> atomic_step E R (as ! i, s) (a, s') \<Longrightarrow>
    atomic_history E n R s\<^sub>0 h (as[i := a], s')"
| respond: "atomic_history E n R s\<^sub>0 h (as, s) \<Longrightarrow> i < length as \<Longrightarrow> as ! i = A_done r out e \<Longrightarrow>
    atomic_history E n R s\<^sub>0 (h @ [Response i r out e]) (as[i := A_idle], s)"

text \<open>The states with a history are the reachable states.\<close>

lemma history_reachable: "history E n w h s \<Longrightarrow> reachable E n w s"
proof (induction rule: history.induct)
  case (respond h ts v i r out e)
  then show ?case using advances.return [of i ts] by (auto intro: reachable.step sys_step.advance)
qed (auto intro: reachable.start reachable.step sys_step.begin_call sys_step.advance advances.move)

lemma is_returnedE: "is_returned pc \<Longrightarrow> (\<And>r out e. pc = P_returned r out e \<Longrightarrow> P) \<Longrightarrow> P"
  by (cases pc) auto

lemma reachable_history: "reachable E n w s \<Longrightarrow> \<exists>h. history E n w h s"
proof (induction rule: reachable.induct)
  case start
  then show ?case using history.start by blast
next
  case (step s s')
  then obtain h where h: "history E n w h s" by blast
  from step.hyps(2) h show ?case
  proof (induction rule: sys_step.induct)
    case (begin_call i ts v c)
    then show ?case using history.invoke by blast
  next
    case (advance s s')
    from advance.hyps advance.prems show ?case
    proof (induction rule: advances.induct)
      case (move i ts v pc u)
      then show ?case using history.move by blast
    next
      case (return i ts v)
      then show ?case using history.respond by (metis is_returnedE)
    qed
  qed
qed

subsection \<open>The simulation\<close>

text \<open>Where the atomic thread is, when the thread is at \<open>pc\<close>.\<close>

fun atomic_of :: "pbkdf_pc \<Rightarrow> atomic_pc" where
  "atomic_of P_idle = A_idle"
| "atomic_of (P_returned r out e) = A_done r out e"
| "atomic_of (D_rdlock a) = A_derive a"
| "atomic_of (D_find a) = A_derive a"
| "atomic_of (D_inc a t) = A_derive a"
| "atomic_of (D_unlock a t) = (if t = NULL then A_done 1 [] (Some ENOSYS) else A_use a t)"
| "atomic_of (D_call a t) = A_use a t"
| "atomic_of (D_dec t r out) = A_release t r out"
| "atomic_of (R_check t) = A_register t"
| "atomic_of (R_wrlock t) = A_register t"
| "atomic_of (R_find t) = A_register t"
| "atomic_of (R_set t) = A_register t"
| "atomic_of (R_add t) = A_register t"
| "atomic_of (R_unlock r e) = A_done r [] e"
| "atomic_of (U_wrlock t) = A_unregister t"
| "atomic_of (U_check t) = A_unregister t"
| "atomic_of (U_del t) = A_unregister t"
| "atomic_of (U_unlock r e) = A_done r [] e"

lemma atomic_of_start: "atomic_of (pc_start c) = atomic_start c"
  by (cases c) (auto split: option.splits)

text \<open>What no step changes of the types; what a search finds; a counter that lets the type go.\<close>

definition static :: "cfe_pbkdf_type registry \<Rightarrow> addr \<Rightarrow> (string \<times> pbkdf_derive_fn option) option" where
  "static R t = map_option (\<lambda>ty. (pt_name ty, pt_derive ty)) (rg_types R t)"

definition found :: "cfe_pbkdf_type registry \<Rightarrow> string \<Rightarrow> addr list \<Rightarrow> addr" where
  "found R n xs = (case List.find (\<lambda>t. key R t = Some (cstr n)) xs of None \<Rightarrow> NULL | Some t \<Rightarrow> t)"

definition single :: "cfe_pbkdf_type registry \<Rightarrow> addr \<Rightarrow> bool" where
  "single R t \<longleftrightarrow> (\<exists>c. refs R t = Some c \<and> cfe_atomic_get c = 1)"

lemma static_key: "static R = static S \<Longrightarrow> key R = key S"
proof
  fix t
  assume "static R = static S"
  then have "static R t = static S t" by simp
  then show "key R t = key S t"
    by (cases "rg_types R t"; cases "rg_types S t") (auto simp: static_def reg_key_def pbkdf_layout_def)
qed

lemma static_dom: "static R = static S \<Longrightarrow> dom (rg_types R) = dom (rg_types S)"
proof -
  assume "static R = static S"
  then have "static R t = None \<longleftrightarrow> static S t = None" for t by simp
  then have "rg_types R t = None \<longleftrightarrow> rg_types S t = None" for t by (simp add: static_def)
  then show ?thesis by (auto simp: dom_def)
qed

lemma find_alg_found:
  assumes "reg_ok pbkdf_layout (w_pbkdf w) xs"
  shows "find_alg_pbkdf n w = Some (found (w_pbkdf w) n xs)"
  using pbkdf_lay.find_ok [of w xs n] assms
  unfolding find_alg_pbkdf_eq found_def by (simp add: pbkdf_layout_def)

text \<open>
  The relation, for one thread at \<open>pc\<close> and the others at \<open>rest\<close>. A thread between setting the counter
  of a type and putting the type on the list is ahead of its registration.
\<close>

definition simulates ::
  "cfe_pbkdf_type registry \<Rightarrow> registry_spec \<Rightarrow> cfe_pbkdf_type registry \<Rightarrow> pbkdf_pc \<Rightarrow> pbkdf_pc list \<Rightarrow> bool" where
  "simulates R\<^sub>0 s R pc rest \<longleftrightarrow>
     static R = static R\<^sub>0 \<and>
     (\<forall>t \<in> set (sp_types s). sp_refs s t = Suc (count_pc (holding t) rest + of_bool (holding t pc))) \<and>
     (\<forall>t. t \<notin> set (sp_types s) \<longrightarrow> R_add t \<in> insert pc (set rest) \<or> (sp_refs s t = 1 \<longleftrightarrow> single R t)) \<and>
     (\<forall>a t. D_inc a t \<in> insert pc (set rest) \<longrightarrow> t = found R (da_name a) (sp_types s))"

lemma simulatesD:
  assumes "simulates R\<^sub>0 s R pc rest"
  shows "static R = static R\<^sub>0"
    and "\<And>t. t \<in> set (sp_types s) \<Longrightarrow> sp_refs s t = Suc (count_pc (holding t) rest + of_bool (holding t pc))"
    and "\<And>t. t \<notin> set (sp_types s) \<Longrightarrow> R_add t \<in> insert pc (set rest) \<or> (sp_refs s t = 1 \<longleftrightarrow> single R t)"
    and "\<And>a t. D_inc a t \<in> insert pc (set rest) \<Longrightarrow> t = found R (da_name a) (sp_types s)"
  using assms unfolding simulates_def by blast+

lemma found_static: "static R = static S \<Longrightarrow> found R = found S"
  using static_key [of R S] by (simp add: found_def fun_eq_iff)

text \<open>Which counters a step changes; it changes nothing else of the types.\<close>

lemma pc_step_static:
  assumes "pc_step E pc w = Some (pc', v)"
    and "\<And>t ty f. rg_types (w_pbkdf w) t = Some ty \<Longrightarrow> pt_derive ty = Some f \<Longrightarrow> stateless E f"
  shows "static (w_pbkdf v) = static (w_pbkdf w)"
proof (cases pc)
  case (D_call a t)
  then obtain ty f r out where "rg_types (w_pbkdf w) t = Some ty" "pt_derive ty = Some f"
    "call_derive E f (da_rounds a) (da_in a) (da_ilen a) (da_salt a) (da_slen a) (da_olen a) w = Some (r, out, v)"
    using assms(1) by (auto split: bind_splits)
  then show ?thesis using assms(2) unfolding stateless_def by (metis Pair_inject option.inject)
qed (use assms(1) in \<open>auto simp: static_def fun_eq_iff reg_rdlock_def reg_wrlock_def reg_unlock_def reg_store_def
    reg_list_def split: bind_splits if_splits\<close>)

lemma pc_step_refs:
  assumes "pc_step E pc w = Some (pc', v)"
    and "\<And>t ty f. rg_types (w_pbkdf w) t = Some ty \<Longrightarrow> pt_derive ty = Some f \<Longrightarrow> stateless E f"
  shows "refs (w_pbkdf v) t = refs (w_pbkdf w) t \<or> pc = R_set t \<or> (\<exists>a. pc = D_inc a t \<and> t \<noteq> NULL) \<or>
    (\<exists>r out. pc = D_dec t r out)"
proof (cases pc)
  case (D_call a t)
  then obtain ty f r out where "rg_types (w_pbkdf w) t = Some ty" "pt_derive ty = Some f"
    "call_derive E f (da_rounds a) (da_in a) (da_ilen a) (da_salt a) (da_slen a) (da_olen a) w = Some (r, out, v)"
    using assms(1) by (auto split: bind_splits)
  then show ?thesis using assms(2) unfolding stateless_def by (metis Pair_inject option.inject)
qed (use assms(1) in \<open>auto simp: reg_rdlock_def reg_wrlock_def reg_unlock_def reg_store_def
    reg_list_def split: bind_splits if_splits\<close>)

lemma step_static:
  assumes "threads_ok E xs (w_pbkdf w) pc rest" and "pc_step E pc w = Some (pc', v)"
  shows "static (w_pbkdf v) = static (w_pbkdf w)"
  by (rule pc_step_static [OF assms(2) threads_okD(7) [OF assms(1)]])

lemma step_single:
  assumes "threads_ok E xs (w_pbkdf w) pc rest" and "pc_step E pc w = Some (pc', v)"
    and "pc \<noteq> R_set u" and "\<And>a. pc = D_inc a u \<Longrightarrow> u = NULL" and "\<And>r out. pc \<noteq> D_dec u r out"
  shows "single (w_pbkdf v) u = single (w_pbkdf w) u"
proof -
  have "refs (w_pbkdf v) u = refs (w_pbkdf w) u \<or> pc = R_set u \<or> (\<exists>a. pc = D_inc a u \<and> u \<noteq> NULL) \<or>
      (\<exists>r out. pc = D_dec u r out)"
    by (rule pc_step_refs [OF assms(2) threads_okD(7) [OF assms(1)]])
  then have "refs (w_pbkdf v) u = refs (w_pbkdf w) u" using assms(3-5) by blast
  then show ?thesis by (simp add: single_def)
qed

text \<open>A step that changes no counter of a registered type, and that the specification does not see.\<close>

lemma simulates_same:
  assumes T: "threads_ok E (sp_types s) (w_pbkdf w) pc rest" and S: "simulates R\<^sub>0 s (w_pbkdf w) pc rest"
    and step: "pc_step E pc w = Some (pc', v)"
    and hold: "\<And>t. t \<in> set (sp_types s) \<Longrightarrow> holding t pc' = holding t pc"
    and pc: "\<And>t. pc \<noteq> R_add t" "\<And>t. pc = R_set t \<Longrightarrow> pc' = R_add t" "\<And>a t. pc = D_inc a t \<Longrightarrow> t = NULL"
      "\<And>t r out. pc \<noteq> D_dec t r out"
    and inc: "\<And>a t. pc' = D_inc a t \<Longrightarrow> t = found (w_pbkdf w) (da_name a) (sp_types s)"
  shows "simulates R\<^sub>0 s (w_pbkdf v) pc' rest"
proof -
  note D = simulatesD [OF S]
  note st = step_static [OF T step]
  have "R_add t \<in> insert pc' (set rest) \<or> (sp_refs s t = 1 \<longleftrightarrow> single (w_pbkdf v) t)" if "t \<notin> set (sp_types s)" for t
    using D(3) [OF that] step_single [OF T step, of t] pc by (metis insert_iff)
  moreover have "t = found (w_pbkdf v) (da_name a) (sp_types s)" if "D_inc a t \<in> insert pc' (set rest)" for a t
    using that D(4) [of a t] inc [of a t] by (auto simp: found_static [OF st])
  ultimately show ?thesis
    using D(1,2) st hold unfolding simulates_def by simp
qed

text \<open>The counter in memory lets a type go when that of the specification does.\<close>

lemma single_iff:
  assumes T: "threads_ok E (sp_types s) R pc rest" and S: "simulates R\<^sub>0 s R pc rest"
    and "R_add t \<notin> insert pc (set rest)"
  shows "sp_refs s t = 1 \<longleftrightarrow> single R t"
proof (cases "t \<in> set (sp_types s)")
  case True
  let ?n = "count_pc (holding t) rest + of_bool (holding t pc)"
  have "?n < 2 ^ 31" using count_pc_le [of "holding t" rest] threads_okD(8) [OF T] by (auto simp: of_bool_def)
  moreover have "single R t \<longleftrightarrow> cfe_atomic_get (of_nat (Suc ?n)) = 1"
    unfolding single_def threads_okD(3) [OF T True] by simp
  ultimately show ?thesis
    using get_count [of ?n] simulatesD(2) [OF S True] by simp
qed (use simulatesD(3) [OF S] assms(3) in blast)

lemma derives_static:
  assumes "static R = static S"
  shows "derives E R t a r out = derives E S t a r out"
proof -
  have "static R t = static S t" using assms by simp
  then show ?thesis
    unfolding derives_def by (cases "rg_types R t"; cases "rg_types S t") (auto simp: static_def)
qed

text \<open>A step of a writer leaves no other thread inside.\<close>

lemma writer_no_add:
  assumes "threads_ok E xs R pc rest" and "writing pc"
  shows "R_add t \<notin> set rest" and "D_inc a u \<notin> set rest"
  using writer_alone(2,3) [OF threads_okD(2) [OF assms(1)] assms(2)] by force+

definition answered ::
  "env \<Rightarrow> cfe_pbkdf_type registry \<Rightarrow> registry_spec \<Rightarrow> pbkdf_pc \<Rightarrow> pbkdf_pc list \<Rightarrow> pbkdf_pc \<Rightarrow> world \<Rightarrow> bool" where
  "answered E R\<^sub>0 s pc rest pc' v \<longleftrightarrow> (\<exists>s'. (atomic_step E R\<^sub>0)\<^sup>=\<^sup>= (atomic_of pc, s) (atomic_of pc', s') \<and>
     sp_types s' = listed_after pc (sp_types s) \<and> simulates R\<^sub>0 s' (w_pbkdf v) pc' rest)"

lemma answeredI:
  assumes "(atomic_step E R\<^sub>0)\<^sup>=\<^sup>= (atomic_of pc, s) (atomic_of pc', s')"
    and "sp_types s' = listed_after pc (sp_types s)" and "simulates R\<^sub>0 s' (w_pbkdf v) pc' rest"
  shows "answered E R\<^sub>0 s pc rest pc' v"
  using assms unfolding answered_def by blast

text \<open>The steps between which the specification stays as it is.\<close>

lemma answered_derive:
  assumes T: "threads_ok E (sp_types s) (w_pbkdf w) pc rest" and S: "simulates R\<^sub>0 s (w_pbkdf w) pc rest"
    and step: "pc_step E pc w = Some (pc', v)"
    and pc: "pc \<in> {D_rdlock a, D_find a, D_unlock a t, D_call a t}"
  shows "answered E R\<^sub>0 s pc rest pc' v"
proof (rule answeredI)
  note D = threads_okD [OF T]
  show "sp_types s = listed_after pc (sp_types s)" using pc by auto
  have nn: "u \<noteq> NULL" if "u \<in> set (sp_types s)" for u
    using pbkdf_ok(4) [OF D(1)] pbkdf_ok(5) [OF D(1) that] by auto
  show "simulates R\<^sub>0 s (w_pbkdf v) pc' rest"
    by (rule simulates_same [OF T S step])
      (use pc step nn find_alg_found [OF D(1), of "da_name a"] in \<open>auto split: bind_splits if_splits\<close>)
  show "(atomic_step E R\<^sub>0)\<^sup>=\<^sup>= (atomic_of pc, s) (atomic_of pc', s)"
  proof (cases "pc = D_call a t")
    case True
    then obtain ty f r out where "rg_types (w_pbkdf w) t = Some ty" "pt_derive ty = Some f" "pc' = D_dec t r out"
      "call_derive E f (da_rounds a) (da_in a) (da_ilen a) (da_salt a) (da_slen a) (da_olen a) w = Some (r, out, v)"
      using step by (auto split: bind_splits)
    moreover from this have "derives E (w_pbkdf w) t a r out" unfolding derives_def by blast
    then have "derives E R\<^sub>0 t a r out" using derives_static [OF simulatesD(1) [OF S]] by simp
    ultimately show ?thesis using True by (simp add: atomic_step.use)
  qed (use pc step in \<open>auto split: bind_splits if_splits\<close>)
qed

lemma answered_register:
  assumes T: "threads_ok E (sp_types s) (w_pbkdf w) pc rest" and S: "simulates R\<^sub>0 s (w_pbkdf w) pc rest"
    and step: "pc_step E pc w = Some (pc', v)"
    and pc: "pc \<in> {R_check t, R_wrlock t, R_find t, R_set t, R_unlock r e}"
  shows "answered E R\<^sub>0 s pc rest pc' v"
proof (rule answeredI)
  note D = threads_okD [OF T] and K = static_key [OF simulatesD(1) [OF S]]
  show "sp_types s = listed_after pc (sp_types s)" using pc by auto
  show "simulates R\<^sub>0 s (w_pbkdf v) pc' rest"
    by (rule simulates_same [OF T S step]) (use pc step in \<open>auto split: bind_splits if_splits\<close>)
  show "(atomic_step E R\<^sub>0)\<^sup>=\<^sup>= (atomic_of pc, s) (atomic_of pc', s)"
  proof (cases "pc = R_check t \<or> pc = R_find t")
    case True
    then obtain ty where ty: "rg_types (w_pbkdf w) t = Some ty" using step by (auto split: bind_splits)
    from True show ?thesis
    proof
      assume c: "pc = R_check t"
      show ?thesis
      proof (cases "pt_derive ty = None")
        case None: True
        then have "key R\<^sub>0 t = None" using ty key_type(1) [of "w_pbkdf w" t] unfolding K by auto
        then show ?thesis using c ty None step by (auto simp: atomic_step.register_invalid)
      qed (use c ty step in auto)
    next
      assume f: "pc = R_find t"
      then have k: "key R\<^sub>0 t \<noteq> None" using D(4) by (simp add: K)
      then have kt: "key R\<^sub>0 t = Some (cstr (pt_name ty))"
        using key_type(1) [of "w_pbkdf w" t] key_type(2) [OF ty] ty unfolding K by auto
      obtain u where u: "find_alg_pbkdf (pt_name ty) w = Some u"
          "u = NULL \<longleftrightarrow> key R\<^sub>0 t \<notin> key R\<^sub>0 ` set (sp_types s)"
        using find_alg_cases [OF D(1), of "pt_name ty"] unfolding K kt by metis
      have "atomic_step E R\<^sub>0 (A_register t, s) (answer 1, s)" if "u \<noteq> NULL"
        by (rule atomic_step.register) (use u(2) k that in simp)
      then show ?thesis using f ty u(1) step by (auto simp: answer_def split: if_splits)
    qed
  qed (use pc step in \<open>auto split: bind_splits\<close>)
qed

lemma answered_unregister:
  assumes T: "threads_ok E (sp_types s) (w_pbkdf w) pc rest" and S: "simulates R\<^sub>0 s (w_pbkdf w) pc rest"
    and step: "pc_step E pc w = Some (pc', v)"
    and pc: "pc \<in> {U_wrlock t, U_check t, U_unlock r e}"
  shows "answered E R\<^sub>0 s pc rest pc' v"
proof (rule answeredI)
  note D = threads_okD [OF T]
  show "sp_types s = listed_after pc (sp_types s)" using pc by auto
  show "simulates R\<^sub>0 s (w_pbkdf v) pc' rest"
    by (rule simulates_same [OF T S step]) (use pc step in \<open>auto split: bind_splits if_splits\<close>)
  show "(atomic_step E R\<^sub>0)\<^sup>=\<^sup>= (atomic_of pc, s) (atomic_of pc', s)"
  proof (cases "pc = U_check t")
    case True
    then obtain ty where ty: "rg_types (w_pbkdf w) t = Some ty" using step by (auto split: bind_splits)
    have "R_add t \<notin> insert pc (set rest)" using writer_no_add(1) [OF T] True by auto
    then have "sp_refs s t = 1 \<longleftrightarrow> cfe_atomic_get (pt_refcnt ty) = 1"
      using single_iff [OF T S, of t] ty by (simp add: single_def)
    moreover have "atomic_step E R\<^sub>0 (A_unregister t, s) (answer 1, s)" if "sp_refs s t \<noteq> 1"
      using atomic_step.unregister [of R\<^sub>0 t s 1 s E] atomic_step.unregister_unlisted [of t s E R\<^sub>0] that
      by (cases "t \<in> set (sp_types s)") simp_all
    ultimately show ?thesis using True ty step by (auto simp: answer_def split: if_splits)
  qed (use pc step in \<open>auto split: bind_splits\<close>)
qed

text \<open>The steps at which an operation takes effect: a reference taken, a reference dropped.\<close>

lemma simulates_count:
  assumes T: "threads_ok E (sp_types s) (w_pbkdf w) pc rest" and S: "simulates R\<^sub>0 s (w_pbkdf w) pc rest"
    and step: "pc_step E pc w = Some (pc', v)" and t: "t \<in> set (sp_types s)"
    and pc: "(pc, pc') \<in> {(D_inc a t, D_unlock a t), (D_dec t r out, P_returned r out None)}"
  shows "simulates R\<^sub>0 (s\<lparr>sp_refs := (sp_refs s)(t := Suc (count_pc (holding t) rest + of_bool (holding t pc')))\<rparr>)
    (w_pbkdf v) pc' rest"
proof -
  note D = simulatesD [OF S]
  note st = step_static [OF T step]
  have single: "single (w_pbkdf v) u = single (w_pbkdf w) u" if "u \<noteq> t" for u
    using step_single [OF T step, of u] pc that by auto
  have "R_add u \<in> insert pc' (set rest) \<or> (sp_refs s u = 1 \<longleftrightarrow> single (w_pbkdf v) u)" if "u \<notin> set (sp_types s)" for u
  proof -
    have "u \<noteq> t" using t that by blast
    then show ?thesis using D(3) [OF that] pc single [of u] by auto
  qed
  moreover have "holding u pc' = holding u pc" if "u \<noteq> t" for u using pc that by auto
  moreover have "b = found (w_pbkdf v) (da_name a) (sp_types s)" if "D_inc a b \<in> insert pc' (set rest)" for a b
    using that D(4) [of a b] pc by (auto simp: found_static [OF st])
  ultimately show ?thesis
    using D(1,2) st t unfolding simulates_def by auto
qed

lemma answered_inc:
  assumes T: "threads_ok E (sp_types s) (w_pbkdf w) pc rest" and S: "simulates R\<^sub>0 s (w_pbkdf w) pc rest"
    and step: "pc_step E pc w = Some (pc', v)" and pc: "pc = D_inc a t"
  shows "answered E R\<^sub>0 s pc rest pc' v"
proof -
  note D = threads_okD [OF T] and K = static_key [OF simulatesD(1) [OF S]]
  have nn: "u \<noteq> NULL" if "u \<in> set (sp_types s)" for u
    using pbkdf_ok(4) [OF D(1)] pbkdf_ok(5) [OF D(1) that] by auto
  have pc': "pc' = D_unlock a t" using step pc by (auto split: bind_splits)
  have found: "t = found R\<^sub>0 (da_name a) (sp_types s)"
    using simulatesD(4) [OF S, of a t] pc unfolding found_static [OF simulatesD(1) [OF S]] by simp
  show ?thesis
  proof (cases "List.find (\<lambda>u. key R\<^sub>0 u = Some (cstr (da_name a))) (sp_types s)")
    case None
    then have t: "t = NULL" using found by (simp add: found_def)
    show ?thesis
    proof (rule answeredI)
      show "simulates R\<^sub>0 s (w_pbkdf v) pc' rest"
        by (rule simulates_same [OF T S step]) (use pc pc' t nn in auto)
    qed (use atomic_step.acquire [of R\<^sub>0 a s NULL s E] None pc pc' t in simp_all)
  next
    case (Some u)
    then have "t = u" using found by (simp add: found_def)
    moreover have "u \<in> set (sp_types s)" using Some by (auto simp: find_Some_iff)
    ultimately have u: "t = u" "t \<in> set (sp_types s)" by simp_all
    let ?s = "s\<lparr>sp_refs := (sp_refs s)(t := sp_refs s t + 1)\<rparr>"
    show ?thesis
    proof (rule answeredI [of _ _ _ _ _ ?s])
      show "(atomic_step E R\<^sub>0)\<^sup>=\<^sup>= (atomic_of pc, s) (atomic_of pc', ?s)"
        using atomic_step.acquire [of R\<^sub>0 a s t ?s E] Some u nn [of t] pc pc' by simp
      show "simulates R\<^sub>0 ?s (w_pbkdf v) pc' rest"
        using simulates_count [OF T S step u(2), of a 0 "[]"] simulatesD(2) [OF S u(2)] pc pc' by simp
    qed (use pc in simp)
  qed
qed

lemma answered_dec:
  assumes T: "threads_ok E (sp_types s) (w_pbkdf w) pc rest" and S: "simulates R\<^sub>0 s (w_pbkdf w) pc rest"
    and step: "pc_step E pc w = Some (pc', v)" and pc: "pc = D_dec t r out"
  shows "answered E R\<^sub>0 s pc rest pc' v"
proof -
  have t: "t \<in> set (sp_types s)" using threads_okD(4) [OF T] pc by simp
  have pc': "pc' = P_returned r out None" using step pc by (auto split: bind_splits)
  have n: "sp_refs s t = Suc (Suc (count_pc (holding t) rest))" using simulatesD(2) [OF S t] pc by simp
  let ?s = "s\<lparr>sp_refs := (sp_refs s)(t := sp_refs s t - 1)\<rparr>"
  show ?thesis
  proof (rule answeredI [of _ _ _ _ _ ?s])
    show "(atomic_step E R\<^sub>0)\<^sup>=\<^sup>= (atomic_of pc, s) (atomic_of pc', ?s)"
      using atomic_step.release [of R\<^sub>0 t s ?s E r out] t n pc pc' by simp
    show "simulates R\<^sub>0 ?s (w_pbkdf v) pc' rest"
      using simulates_count [OF T S step t, of undefined r out] n pc pc' by simp
  qed (use pc in simp)
qed

text \<open>A type put on the list, a type taken off it: the writer is the only one inside.\<close>

lemma answered_add:
  assumes T: "threads_ok E (sp_types s) (w_pbkdf w) pc rest" and S: "simulates R\<^sub>0 s (w_pbkdf w) pc rest"
    and step: "pc_step E pc w = Some (pc', v)" and pc: "pc = R_add t"
  shows "answered E R\<^sub>0 s pc rest pc' v"
proof -
  note D = threads_okD [OF T] and K = static_key [OF simulatesD(1) [OF S]] and M = simulatesD [OF S]
  have pc': "pc' = R_unlock 0 None" using step pc by (auto split: bind_splits)
  have t: "key R\<^sub>0 t \<noteq> None" "key R\<^sub>0 t \<notin> key R\<^sub>0 ` set (sp_types s)" "t \<notin> set (sp_types s)" "t \<noteq> NULL"
    using D(4) pbkdf_ok(4) [OF D(1)] pc unfolding K [symmetric] by auto
  have none: "count_pc (holding t) rest = 0"
  proof -
    have "\<not> holding t q" if "q \<in> set rest" for q using D(5) [OF that] t(3,4) by (cases q) auto
    then show ?thesis unfolding count_pc_0 by blast
  qed
  note st = step_static [OF T step]
  have refs: "single (w_pbkdf v) u = single (w_pbkdf w) u" for u
    using step_single [OF T step, of u] pc by simp
  have rest: "R_add u \<notin> set rest" "D_inc a u \<notin> set rest" for a u
    using writer_no_add [OF T] pc by simp_all
  let ?s = "s\<lparr>sp_types := sp_types s @ [t], sp_refs := (sp_refs s)(t := 1)\<rparr>"
  show ?thesis
  proof (rule answeredI [of _ _ _ _ _ ?s])
    show "(atomic_step E R\<^sub>0)\<^sup>=\<^sup>= (atomic_of pc, s) (atomic_of pc', ?s)"
      using atomic_step.register [of R\<^sub>0 t s 0 ?s E] t(1,2) pc pc' by (simp add: answer_def)
    show "simulates R\<^sub>0 ?s (w_pbkdf v) pc' rest"
      using M(1,2) M(3) rest st refs none t(3) pc pc' unfolding simulates_def by auto
  qed (use pc in simp)
qed

lemma answered_del:
  assumes T: "threads_ok E (sp_types s) (w_pbkdf w) pc rest" and S: "simulates R\<^sub>0 s (w_pbkdf w) pc rest"
    and step: "pc_step E pc w = Some (pc', v)" and pc: "pc = U_del t"
  shows "answered E R\<^sub>0 s pc rest pc' v"
proof -
  note D = threads_okD [OF T] and M = simulatesD [OF S]
  have pc': "pc' = U_unlock 0 None" using step pc by (auto split: bind_splits)
  note st = step_static [OF T step]
  have refs: "single (w_pbkdf v) u = single (w_pbkdf w) u" for u
    using step_single [OF T step, of u] pc by simp
  have rest: "R_add u \<notin> set rest" "D_inc a u \<notin> set rest" for a u
    using writer_no_add [OF T] pc by simp_all
  have all: "sp_refs s u = 1 \<longleftrightarrow> single (w_pbkdf w) u" for u
    using single_iff [OF T S, of u] rest(1) pc by blast
  have t: "sp_refs s t = 1" using all D(4) pc by (simp add: single_def)
  have d: "set (remove1 t (sp_types s)) = set (sp_types s) - {t}" using pbkdf_ok(6) [OF D(1)] by simp
  let ?s = "s\<lparr>sp_types := remove1 t (sp_types s)\<rparr>"
  show ?thesis
  proof (rule answeredI [of _ _ _ _ _ ?s])
    show "(atomic_step E R\<^sub>0)\<^sup>=\<^sup>= (atomic_of pc, s) (atomic_of pc', ?s)"
      using atomic_step.unregister [of R\<^sub>0 t s 0 ?s E] atomic_step.unregister_unlisted [of t s E R\<^sub>0] t pc pc'
      by (cases "t \<in> set (sp_types s)") (simp_all add: answer_def remove1_idem)
    show "simulates R\<^sub>0 ?s (w_pbkdf v) pc' rest"
      using M(1,2) all rest st refs d pc pc' unfolding simulates_def by auto
  qed (use pc in simp)
qed

text \<open>Each step is answered by one atomic action or none.\<close>

lemma step_answered:
  assumes T: "threads_ok E (sp_types s) (w_pbkdf w) pc rest" and S: "simulates R\<^sub>0 s (w_pbkdf w) pc rest"
    and step: "pc_step E pc w = Some (pc', v)"
  shows "answered E R\<^sub>0 s pc rest pc' v"
proof (cases pc)
  case (D_inc a t)
  then show ?thesis using answered_inc [OF T S step] by blast
next
  case (D_dec t r out)
  then show ?thesis using answered_dec [OF T S step] by blast
next
  case (R_add t)
  then show ?thesis using answered_add [OF T S step] by blast
next
  case (U_del t)
  then show ?thesis using answered_del [OF T S step] by blast
qed (use step answered_derive [OF T S step] answered_register [OF T S step] answered_unregister [OF T S step] in auto)

subsection \<open>Any number of threads\<close>

lemma step_threads_ok:
  assumes T: "threads_ok E xs (w_pbkdf w) pc rest" and step: "pc_step E pc w = Some (pc', v)"
  shows "threads_ok E (listed_after pc xs) (w_pbkdf v) pc' rest"
proof -
  have "pc \<noteq> P_idle" "\<not> is_returned pc" using step by (cases pc; simp)+
  moreover have "\<not> waits (rg_lock (w_pbkdf w)) pc" using step waits_step by fastforce
  ultimately show ?thesis
    using threads_ok_step [OF T] step by (auto simp: moves_ok_def)
qed

lemma simulates_focus:
  assumes "i < length ts"
  shows "simulates R\<^sub>0 s R P_idle (ts[i := x]) = simulates R\<^sub>0 s R x (ts[i := P_idle])"
proof -
  have h: "\<not> holding t P_idle" for t by simp
  show ?thesis
    unfolding simulates_def set_update_insert [OF assms, of P_idle x]
    using count_pc_update [of i ts "holding _" P_idle x, OF assms h] by simp
qed

lemma simulates_at: "i < length ts \<Longrightarrow> simulates R\<^sub>0 s R P_idle ts \<Longrightarrow> simulates R\<^sub>0 s R (ts ! i) (ts[i := P_idle])"
  using simulates_focus [of i ts R\<^sub>0 s R "ts ! i"] by simp

text \<open>Where a thread is outside, the specification knows nothing of it.\<close>

lemma simulates_outside:
  assumes "simulates R\<^sub>0 s R pc rest"
    and "\<And>t. \<not> holding t pc \<and> \<not> holding t pc'" "\<And>t. pc \<noteq> R_add t" "\<And>a t. pc' \<noteq> D_inc a t"
  shows "simulates R\<^sub>0 s R pc' rest"
proof -
  note M = simulatesD [OF assms(1)]
  have "R_add t \<in> insert pc' (set rest) \<or> (sp_refs s t = 1 \<longleftrightarrow> single R t)" if "t \<notin> set (sp_types s)" for t
    using M(3) [OF that] assms(3) [of t] by blast
  moreover have "t = found R (da_name a) (sp_types s)" if "D_inc a t \<in> insert pc' (set rest)" for a t
    using M(4) [of a t] that assms(4) [of a t] by blast
  ultimately show ?thesis using M(1,2) assms(2) unfolding simulates_def by simp
qed

lemma simulates_start:
  assumes "registry_at_rest E xs w"
  shows "simulates (w_pbkdf w) (spec_start xs) (w_pbkdf w) P_idle (replicate n P_idle)"
  using assms unfolding simulates_def spec_start_def registry_at_rest_def single_def
  by (auto simp: count_pc_replicate)

text \<open>The simulation of all threads, with the history so far.\<close>

definition tracks ::
  "env \<Rightarrow> nat \<Rightarrow> world \<Rightarrow> registry_spec \<Rightarrow> pbkdf_event list \<Rightarrow> threads \<Rightarrow> registry_spec \<Rightarrow> bool" where
  "tracks E n w s\<^sub>0 h x s \<longleftrightarrow>
     atomic_history E n (w_pbkdf w) s\<^sub>0 h (map atomic_of (fst x), s) \<and>
     threads_ok E (sp_types s) (w_pbkdf (snd x)) P_idle (fst x) \<and>
     simulates (w_pbkdf w) s (w_pbkdf (snd x)) P_idle (fst x)"

lemma tracks_at:
  assumes "tracks E n w s\<^sub>0 h (ts, v) s" and "i < length ts"
  shows "atomic_history E n (w_pbkdf w) s\<^sub>0 h (map atomic_of ts, s)"
    and "threads_ok E (sp_types s) (w_pbkdf v) (ts ! i) (ts[i := P_idle])"
    and "simulates (w_pbkdf w) s (w_pbkdf v) (ts ! i) (ts[i := P_idle])"
  using assms threads_ok_at [OF assms(2)] simulates_at [OF assms(2)] by (simp_all add: tracks_def)

lemma tracksI:
  assumes "i < length ts"
    and "atomic_history E n (w_pbkdf w) s\<^sub>0 h ((map atomic_of ts)[i := atomic_of pc], s)"
    and "threads_ok E (sp_types s) (w_pbkdf v) pc (ts[i := P_idle])"
    and "simulates (w_pbkdf w) s (w_pbkdf v) pc (ts[i := P_idle])"
  shows "tracks E n w s\<^sub>0 h (ts[i := pc], v) s"
  using assms by (simp add: tracks_def threads_ok_focus simulates_focus map_update)

lemma tracks_start:
  assumes "registry_at_rest E xs w" and "Suc n < 2 ^ 31"
  shows "tracks E n w (spec_start xs) [] (replicate n P_idle, w) (spec_start xs)"
  using at_rest_threads_ok [OF assms] simulates_start [OF assms(1), of n]
  by (simp add: tracks_def atomic_history.start) (simp add: spec_start_def)

lemma tracks_invoke:
  assumes "tracks E n w s\<^sub>0 h (ts, v) s" and i: "i < length ts" "ts ! i = P_idle" and "call_ok v c"
  shows "tracks E n w s\<^sub>0 (h @ [Invoke i c]) (ts[i := pc_start c], v) s"
proof (rule tracksI [OF i(1)])
  note A = tracks_at [OF assms(1) i(1), unfolded i(2)]
  show "threads_ok E (sp_types s) (w_pbkdf v) (pc_start c) (ts[i := P_idle])"
    by (rule threads_ok_begin [OF A(2) assms(4)])
  show "simulates (w_pbkdf w) s (w_pbkdf v) (pc_start c) (ts[i := P_idle])"
    by (rule simulates_outside [OF A(3)]) (cases c; auto split: option.splits)+
  show "atomic_history E n (w_pbkdf w) s\<^sub>0 (h @ [Invoke i c]) ((map atomic_of ts)[i := atomic_of (pc_start c)], s)"
    unfolding atomic_of_start by (rule atomic_history.invoke [OF A(1)]) (use i in simp_all)
qed

lemma tracks_move:
  assumes "tracks E n w s\<^sub>0 h (ts, v) s" and i: "i < length ts" and step: "pc_step E (ts ! i) v = Some (pc, u)"
  shows "\<exists>s'. tracks E n w s\<^sub>0 h (ts[i := pc], u) s'"
proof -
  note A = tracks_at [OF assms(1) i]
  obtain s' where s': "(atomic_step E (w_pbkdf w))\<^sup>=\<^sup>= (atomic_of (ts ! i), s) (atomic_of pc, s')"
      "sp_types s' = listed_after (ts ! i) (sp_types s)" "simulates (w_pbkdf w) s' (w_pbkdf u) pc (ts[i := P_idle])"
    using step_answered [OF A(2,3) step] unfolding answered_def by blast
  have "atomic_history E n (w_pbkdf w) s\<^sub>0 h ((map atomic_of ts)[i := atomic_of pc], s')"
  proof (cases "(atomic_of (ts ! i), s) = (atomic_of pc, s')")
    case True
    then have "(map atomic_of ts)[i := atomic_of pc] = map atomic_of ts" by (metis Pair_inject list_update_id map_update)
    then show ?thesis using A(1) True by simp
  next
    case False
    then show ?thesis using atomic_history.move [OF A(1)] s'(1) i by auto
  qed
  then show ?thesis
    using step_threads_ok [OF A(2) step] s'(2,3) by (intro exI [of _ s'] tracksI [OF i]) simp_all
qed

lemma tracks_respond:
  assumes "tracks E n w s\<^sub>0 h (ts, v) s" and i: "i < length ts" "ts ! i = P_returned r out e"
  shows "tracks E n w s\<^sub>0 (h @ [Response i r out e]) (ts[i := P_idle], v) s"
proof (rule tracksI [OF i(1)])
  note A = tracks_at [OF assms(1) i(1), unfolded i(2)]
  show "threads_ok E (sp_types s) (w_pbkdf v) P_idle (ts[i := P_idle])" by (rule threads_ok_return [OF A(2)])
  show "simulates (w_pbkdf w) s (w_pbkdf v) P_idle (ts[i := P_idle])"
    by (rule simulates_outside [OF A(3)]) simp_all
  show "atomic_history E n (w_pbkdf w) s\<^sub>0 (h @ [Response i r out e]) ((map atomic_of ts)[i := atomic_of P_idle], s)"
    unfolding atomic_of.simps by (rule atomic_history.respond [OF A(1)]) (use i in simp_all)
qed

lemma history_tracked:
  assumes "history E n w h x" and "registry_at_rest E xs w" and "Suc n < 2 ^ 31"
  shows "\<exists>s. tracks E n w (spec_start xs) h x s"
  using assms
proof (induction rule: history.induct)
  case start
  then show ?case using tracks_start by blast
next
  case (invoke h ts v i c)
  then show ?case using tracks_invoke by blast
next
  case (move h ts v i pc u)
  then show ?case using tracks_move by blast
next
  case (respond h ts v i r out e)
  then show ?case using tracks_respond by blast
qed

subsection \<open>Properties\<close>

text \<open>A thread derives while the other waits to register the type: it is told that there is none.\<close>

definition demo_call :: pbkdf_call where
  "demo_call = Derive (Some ''pbkdf-sha1'') 1 (Some [1]) 1 [] 0 8"

definition demo_events :: "pbkdf_event list" where
  "demo_events = [Invoke 0 (Register_type 12288), Invoke 1 demo_call, Response 1 1 [] (Some ENOSYS)]"

lemma demo_at_rest: "registry_at_rest demo_env [] pbkdf_demo"
  by (rule image_at_rest [OF pbkdf_demo_image])

lemma demo_history: "history demo_env 2 pbkdf_demo demo_events ([R_check 12288, P_idle], pbkdf_demo)"
proof -
  let ?a = "\<lparr>da_name = ''pbkdf-sha1'', da_rounds = 1, da_in = [1], da_ilen = 1, da_salt = [], da_slen = 0, da_olen = 8\<rparr>"
  let ?w = "pbkdf_demo\<lparr>w_pbkdf := (w_pbkdf pbkdf_demo)\<lparr>rg_lock := RdLocked 1\<rparr>\<rparr>"
  have "reg_ok pbkdf_layout (w_pbkdf ?w) []"
    using demo_at_rest by (simp add: registry_at_rest_def tmpl_repr_def pbkdf_layout_def)
  then have f: "find_alg_pbkdf ''pbkdf-sha1'' ?w = Some NULL" by (simp add: find_alg_found found_def)
  have unlock: "?w\<lparr>w_pbkdf := (w_pbkdf ?w)\<lparr>rg_lock := Unlocked\<rparr>\<rparr> = pbkdf_demo" using demo_types(2) by simp
  let ?h = "history demo_env 2 pbkdf_demo"
  have "?h [] ([P_idle, P_idle], pbkdf_demo)"
    using history.start [of demo_env 2 pbkdf_demo] by (simp add: numeral_2_eq_2)
  from history.invoke [OF this, of 0 "Register_type 12288"]
  have "?h [Invoke 0 (Register_type 12288)] ([R_check 12288, P_idle], pbkdf_demo)" using demo_types by (simp add: domI)
  from history.invoke [OF this, of 1 demo_call]
  have h: "?h [Invoke 0 (Register_type 12288), Invoke 1 demo_call] ([R_check 12288, D_rdlock ?a], pbkdf_demo)"
    by (simp add: demo_call_def)
  from history.move [OF h, of 1] have "?h [Invoke 0 (Register_type 12288), Invoke 1 demo_call] ([R_check 12288, D_find ?a], ?w)"
    using demo_types(2) by (simp add: reg_rdlock_def)
  from history.move [OF this, of 1] have "?h [Invoke 0 (Register_type 12288), Invoke 1 demo_call] ([R_check 12288, D_inc ?a NULL], ?w)"
    using f by simp
  from history.move [OF this, of 1] have "?h [Invoke 0 (Register_type 12288), Invoke 1 demo_call] ([R_check 12288, D_unlock ?a NULL], ?w)"
    by simp
  from history.move [OF this, of 1] have
    "?h [Invoke 0 (Register_type 12288), Invoke 1 demo_call] ([R_check 12288, P_returned 1 [] (Some ENOSYS)], pbkdf_demo)"
    using unlock by (simp add: reg_unlock_def)
  from history.respond [OF this, of 1] show ?thesis by (simp add: demo_events_def)
qed

text \<open>C7: The registry of key derivations is linearizable: whatever calls any number of threads make and however
  their steps interleave, the calls and answers they observe, in that order, are also a history of threads
  that look a type up, register, deregister and drop a reference atomically on a plain list of types with
  counts; and at that point the list in memory holds the types of that list, with its counts.\<close>

theorem threads_linearize:
  assumes "registry_at_rest E xs w" and "Suc n < 2 ^ 31" and "history E n w h (ts, v)"
  shows "\<exists>s. atomic_history E n (w_pbkdf w) (spec_start xs) h (map atomic_of ts, s) \<and>
    reg_ok pbkdf_layout (w_pbkdf v) (sp_types s) \<and>
    (\<forall>t \<in> set (sp_types s). tmpl_refs pbkdf_layout v t = Some (of_nat (sp_refs s t)))"
proof -
  obtain s where "tracks E n w (spec_start xs) h (ts, v) s" using history_tracked [OF assms(3,1,2)] by blast
  then have s: "atomic_history E n (w_pbkdf w) (spec_start xs) h (map atomic_of ts, s)"
    "threads_ok E (sp_types s) (w_pbkdf v) P_idle ts" "simulates (w_pbkdf w) s (w_pbkdf v) P_idle ts"
    by (simp_all add: tracks_def)
  show ?thesis
    using s(1) threads_okD(1,3) [OF s(2)] simulatesD(2) [OF s(3)]
    by (intro exI [of _ s]) (simp add: tmpl_refs_def pbkdf_layout_def)
qed

theorem threads_linearize_witness:
  "\<exists>s. atomic_history demo_env 2 (w_pbkdf pbkdf_demo) (spec_start []) demo_events ([A_register 12288, A_idle], s)"
  using threads_linearize [OF demo_at_rest _ demo_history] by auto

end
