(* ===== verification/Cfe_Shared_Run.thy ===== *)
theory Cfe_Shared_Run
  imports Cfe_Shared
begin

text \<open>
  Any number of threads that call the operations of one registry, any number of times each, and what they
  observe: the calls and the answers, in their order. A client may take a reference when there are fewer
  than \<open>2 ^ 31\<close>, and drop one that was handed out before, by whichever thread. What is observed is also
  observed of threads whose calls take effect at one instant, on the registry without memory of \<open>Cfe_Regspec\<close>.
\<close>

subsection \<open>Histories\<close>

datatype 'n shared_event = Calls nat "'n shared_op" | Answers nat reg_result "int option"

text \<open>The threads, the references that the clients have, the world.\<close>

type_synonym 'n shared_sys = "'n shared_pc list \<times> addr list \<times> world"

fun op_ok :: "('t, 'k, 'n) layout \<Rightarrow> nat \<Rightarrow> addr list \<Rightarrow> world \<Rightarrow> 'n shared_op \<Rightarrow> bool" where
  "op_ok L n hs w (Op (Register t)) = (t \<in> dom (rg_types (ly_get L w)))"
| "op_ok L n hs w (Op (Unregister t)) = (t \<in> dom (rg_types (ly_get L w)))"
| "op_ok L n hs w (Op (Release t)) = (t \<in> set hs)"
| "op_ok L n hs w _ = (Suc (Suc (length hs + n)) < 2 ^ 31)"

text \<open>The reference that a call brings along; the reference that an answer hands out.\<close>

fun given_back :: "'n shared_op \<Rightarrow> addr list \<Rightarrow> addr list" where
  "given_back (Op (Release t)) hs = remove1 t hs"
| "given_back _ hs = hs"

fun handed_out :: "reg_result \<Rightarrow> addr list \<Rightarrow> addr list" where
  "handed_out (Type t) hs = (if t = NULL then hs else t # hs)"
| "handed_out _ hs = hs"

inductive shared_history ::
  "('t, 'k, 'n) layout \<Rightarrow> (world \<Rightarrow> addr) \<Rightarrow> nat \<Rightarrow> world \<Rightarrow> 'n shared_event list \<Rightarrow> 'n shared_sys \<Rightarrow> bool"
  for L d n w where
  start: "shared_history L d n w [] (replicate n S_idle, [], w)"
| call: "shared_history L d n w h (ts, hs, v) \<Longrightarrow> i < length ts \<Longrightarrow> ts ! i = S_idle \<Longrightarrow>
    op_ok L (length ts) hs v op \<Longrightarrow>
    shared_history L d n w (h @ [Calls i op]) (ts[i := shared_start op], given_back op hs, v)"
| move: "shared_history L d n w h (ts, hs, v) \<Longrightarrow> i < length ts \<Longrightarrow> shared_step L d (ts ! i) v = Some (pc, u) \<Longrightarrow>
    shared_history L d n w h (ts[i := pc], hs, u)"
| answer: "shared_history L d n w h (ts, hs, v) \<Longrightarrow> i < length ts \<Longrightarrow> ts ! i = S_returned r e \<Longrightarrow>
    shared_history L d n w (h @ [Answers i r e]) (ts[i := S_idle], handed_out r hs, v)"

text \<open>A call that no other thread interleaves with, in a history.\<close>

lemma history_alone:
  assumes "shared_history L d n w h (ts, hs, v)" and "i < length ts" and "runs_alone k L d (ts ! i) v = Some (r, u)"
  shows "\<exists>e u'. shared_history L d n w (h @ [Answers i r e]) (ts[i := S_idle], handed_out r hs, u') \<and>
    u = (case e of None \<Rightarrow> u' | Some n \<Rightarrow> u'\<lparr>errno := n\<rparr>)"
  using assms
proof (induction k arbitrary: ts v)
  case 0
  then obtain e where "ts ! i = S_returned r e" by (cases "ts ! i") auto
  then show ?case using 0 shared_history.answer [OF 0(1,2)] by fastforce
next
  case (Suc k)
  show ?case
  proof (cases "has_returned (ts ! i)")
    case True
    then obtain e where "ts ! i = S_returned r e" using Suc.prems(3) by (cases "ts ! i") auto
    then show ?thesis using Suc.prems shared_history.answer [OF Suc.prems(1,2)] by fastforce
  next
    case False
    then obtain pc v' where step: "shared_step L d (ts ! i) v = Some (pc, v')" "runs_alone k L d pc v' = Some (r, u)"
      using Suc.prems(3) by (auto split: bind_splits)
    show ?thesis
      using Suc.IH [of "ts[i := pc]" v'] shared_history.move [OF Suc.prems(1,2) step(1)] step(2) Suc.prems(2) by simp
  qed
qed

text \<open>Where the threads start from: one reference to every registered type, and to no other.\<close>

definition shared_at_rest :: "('t, 'k, 'n) layout \<Rightarrow> addr list \<Rightarrow> world \<Rightarrow> bool" where
  "shared_at_rest L xs w \<longleftrightarrow> tmpl_repr L w xs \<and> (\<forall>t \<in> set xs. tmpl_refs L w t = Some 1) \<and>
     (\<forall>t c. tmpl_refs L w t = Some c \<longrightarrow> t \<notin> set xs \<longrightarrow> cfe_atomic_get c \<noteq> 1)"

subsection \<open>The invariant holds throughout\<close>

lemma shared_ok_focus:
  assumes "i < length ts"
  shows "shared_ok L newest xs w hs S_idle (ts[i := x]) = shared_ok L newest xs w hs x (ts[i := S_idle])"
proof -
  note S = set_update_insert [OF assms, of S_idle x]
  have "s_ok L newest w xs S_idle \<and> (\<forall>q \<in> set (ts[i := x]). s_ok L newest w xs q) \<longleftrightarrow>
      (\<forall>q \<in> insert S_idle (set (ts[i := x])). s_ok L newest w xs q)" by simp
  also have "\<dots> \<longleftrightarrow> s_ok L newest w xs x \<and> (\<forall>q \<in> set (ts[i := S_idle]). s_ok L newest w xs q)"
    by (simp only: S) blast
  finally have p: "(\<forall>q \<in> set (ts[i := x]). s_ok L newest w xs q) =
      (s_ok L newest w xs x \<and> (\<forall>q \<in> set (ts[i := S_idle]). s_ok L newest w xs q))" by simp
  have h: "\<not> s_holding t S_idle" for t by simp
  show ?thesis
    unfolding shared_ok_def S
    using p count_pc_update [of i ts s_reading S_idle x] count_pc_update [of i ts s_writing S_idle x]
      count_pc_update [of i ts "s_holding _" S_idle x, OF assms h] count_pc_update [of i ts s_referring S_idle x] assms
    by simp
qed

lemma shared_ok_at:
  "i < length ts \<Longrightarrow> shared_ok L newest xs w hs S_idle ts \<Longrightarrow> shared_ok L newest xs w hs (ts ! i) (ts[i := S_idle])"
  using shared_ok_focus [of i ts L newest xs w hs "ts ! i"] by simp

lemma count_list_given: "t \<in> set hs \<Longrightarrow> count_list (remove1 t hs) u + of_bool (u = t) = count_list hs u"
  by (induction hs) auto

lemma length_remove1_mem: "t \<in> set hs \<Longrightarrow> Suc (length (remove1 t hs)) = length hs"
  using length_remove1 [of t hs] length_pos_if_in_set [of t hs] by simp

text \<open>A thread begins a call, with the reference that the call is to drop; it hands out a reference.\<close>

lemma given_back_count:
  assumes "op_ok L n hs w op"
  shows "count_list (given_back op hs) t + of_bool (s_holding t (shared_start op)) = count_list hs t"
proof (cases "\<exists>u. op = Op (Release u)")
  case True
  then obtain u where u: "op = Op (Release u)" by blast
  then show ?thesis using count_list_given [of u hs t] assms by (cases "t = u") auto
next
  case False
  then show ?thesis by (cases "(op, hs)" rule: given_back.cases) auto
qed

lemma handed_out_count:
  "t \<noteq> NULL \<Longrightarrow> count_list (handed_out r hs) t = count_list hs t + of_bool (s_holding t (S_returned r e :: 'n shared_pc))"
  by (cases r) auto

lemma shared_ok_call:
  assumes T: "shared_ok L newest xs w hs S_idle rest" and ok: "op_ok L (length rest) hs w op"
  shows "shared_ok L newest xs w (given_back op hs) (shared_start op) rest"
proof -
  note D = shared_okD [OF T]
  note c = given_back_count [OF ok]
  have r: "Suc (length (given_back op hs) + count_pc s_referring rest + of_bool (s_referring (shared_start op))) < 2 ^ 31"
  proof (cases "(op, hs)" rule: given_back.cases)
    case (1 t hs)
    then show ?thesis using ok D(9) length_remove1_mem [of t hs] by simp
  qed (use ok D(9) count_pc_le [of s_referring rest] in simp_all)
  have o: "\<not> s_reading (shared_start op)" "\<not> s_writing (shared_start op)" "\<And>t. shared_start op \<noteq> S_reg_add t"
    by (cases "(op, hs)" rule: given_back.cases; simp)+
  have s: "s_ok L newest w xs (shared_start op)"
    using ok D(7) by (cases "(op, hs)" rule: given_back.cases) auto
  have "tmpl_refs L w t = Some (of_nat (Suc (count_list (given_back op hs) t + count_pc (s_holding t) rest +
      of_bool (s_holding t (shared_start op)))))" if "t \<in> set xs" for t
  proof -
    have "count_list (given_back op hs) t + count_pc (s_holding t) rest + of_bool (s_holding t (shared_start op)) =
        count_list hs t + count_pc (s_holding t) rest" using c [of t] by linarith
    then show ?thesis using D(4) [OF that] by (simp only: s_holding.simps of_bool_eq(1) add_0_right)
  qed
  moreover have "set (given_back op hs) \<subseteq> set xs"
    using D(7) set_remove1_subset [of _ hs] by (cases "(op, hs)" rule: given_back.cases) auto
  moreover have "S_reg_add t \<in> insert (shared_start op) (set rest) \<or> dlist (rg_nodes (ly_get L w)) (t + ly_off L) []"
    if "t \<in> dom (rg_types (ly_get L w)) - set xs" "cfe_atomic_get (the (tmpl_refs L w t)) = 1" for t
    using D(8) [OF that] o(3) by auto
  ultimately show ?thesis
    using D(1,2,3,6) r o(1,2) s unfolding shared_ok_def by simp
qed

lemma shared_ok_answer:
  fixes rest :: "'n shared_pc list"
  assumes T: "shared_ok L newest xs w hs (S_returned r e) rest"
  shows "shared_ok L newest xs w (handed_out r hs) S_idle rest"
proof -
  note D = shared_okD [OF T]
  have nn: "t \<noteq> NULL" if "t \<in> set xs" for t using D(1) that reg_ok_nonnull by metis
  have c: "count_list (handed_out r hs) t = count_list hs t + of_bool (s_holding t (S_returned r e :: 'n shared_pc))"
    if "t \<in> set xs" for t by (rule handed_out_count [OF nn [OF that]])
  have "tmpl_refs L w t = Some (of_nat (Suc (count_list (handed_out r hs) t + count_pc (s_holding t) rest)))"
    if "t \<in> set xs" for t
  proof -
    have "count_list hs t + count_pc (s_holding t) rest + of_bool (s_holding t (S_returned r e :: 'n shared_pc)) =
        count_list (handed_out r hs) t + count_pc (s_holding t) rest" using c [OF that] by linarith
    then show ?thesis using D(4) [OF that] by (simp only:)
  qed
  moreover have "set (handed_out r hs) \<subseteq> set xs" using D(5,7) by (cases r) auto
  moreover have "Suc (length (handed_out r hs) + count_pc s_referring rest) < 2 ^ 31" using D(9) by (cases r) auto
  ultimately show ?thesis
    using D(1,2,3,6,8) unfolding shared_ok_def by auto
qed

subsection \<open>The operations at one instant\<close>

text \<open>
  The answer, \<open>errno\<close> if it is set, and the registry after. \<open>key\<close> gives the names of the types, and \<open>None\<close> for
  one that may not be registered. To deregister a type that is not registered depends on its counter.
\<close>

fun instant_op ::
  "(addr \<Rightarrow> 'k option) \<Rightarrow> ('n \<Rightarrow> 'k) \<Rightarrow> ((addr \<Rightarrow> 'k option) \<Rightarrow> addr list \<Rightarrow> addr) \<Rightarrow> 'n shared_op \<Rightarrow>
    registry_spec \<Rightarrow> reg_result \<times> int option \<times> registry_spec" where
  "instant_op key canon newest (Op (Register t)) s =
     (if key t = None then (Code 1, Some EINVAL, s)
      else if key t \<in> key ` set (sp_types s) then (Code 1, Some EBUSY, s)
      else (Code 0, None, s\<lparr>sp_types := sp_types s @ [t], sp_refs := (sp_refs s)(t := 1)\<rparr>))"
| "instant_op key canon newest (Op (Unregister t)) s =
     (if newest key (sp_types s) = t \<or> sp_refs s t \<noteq> 1 then (Code 1, Some EBUSY, s)
      else (Code 0, None, s\<lparr>sp_types := remove1 t (sp_types s)\<rparr>))"
| "instant_op key canon newest (Op (Acquire n)) s =
     (let t = found_by canon newest key (Some n) (sp_types s) in
      (Type t, None, if t = NULL then s else s\<lparr>sp_refs := (sp_refs s)(t := sp_refs s t + 1)\<rparr>))"
| "instant_op key canon newest (Op (Release t)) s = (Done, None, s\<lparr>sp_refs := (sp_refs s)(t := sp_refs s t - 1)\<rparr>)"
| "instant_op key canon newest Acquire_default s =
     (let t = newest key (sp_types s) in
      (Type t, None, if t = NULL then s else s\<lparr>sp_refs := (sp_refs s)(t := sp_refs s t + 1)\<rparr>))"

text \<open>Without a default, and where the rules of \<open>Cfe_Regspec\<close> are kept, these are its steps.\<close>

lemma instant_op_spec:
  assumes "spec_step key canon op s = Some (r, s')" and "\<And>t. t \<in> set (sp_types s) \<Longrightarrow> newest key (sp_types s) \<noteq> t"
    and "NULL \<notin> set (sp_types s)"
  shows "\<exists>e. instant_op key canon newest (Op op) s = (r, e, s')"
proof (cases op)
  case (Acquire n)
  show ?thesis
  proof (cases "List.find (\<lambda>t. key t = Some (canon n)) (sp_types s)")
    case (Some t)
    then have "t \<in> set (sp_types s)" by (auto simp: find_Some_iff)
    then have "t \<noteq> NULL" using assms(3) by blast
    then show ?thesis using assms(1) Acquire Some by (simp add: found_by_def)
  qed (use assms(1) Acquire in \<open>simp add: found_by_def\<close>)
qed (use assms in \<open>auto split: if_splits\<close>)

datatype 'n instant_pc = I_idle | I_called "'n shared_op" | I_answer reg_result "int option"

inductive instant_history ::
  "(addr \<Rightarrow> 'k option) \<Rightarrow> ('n \<Rightarrow> 'k) \<Rightarrow> ((addr \<Rightarrow> 'k option) \<Rightarrow> addr list \<Rightarrow> addr) \<Rightarrow> nat \<Rightarrow> registry_spec \<Rightarrow>
    'n shared_event list \<Rightarrow> 'n instant_pc list \<times> registry_spec \<Rightarrow> bool"
  for key canon newest n s\<^sub>0 where
  start: "instant_history key canon newest n s\<^sub>0 [] (replicate n I_idle, s\<^sub>0)"
| call: "instant_history key canon newest n s\<^sub>0 h (as, s) \<Longrightarrow> i < length as \<Longrightarrow> as ! i = I_idle \<Longrightarrow>
    instant_history key canon newest n s\<^sub>0 (h @ [Calls i op]) (as[i := I_called op], s)"
| effect: "instant_history key canon newest n s\<^sub>0 h (as, s) \<Longrightarrow> i < length as \<Longrightarrow> as ! i = I_called op \<Longrightarrow>
    instant_op key canon newest op s = (r, e, s') \<Longrightarrow>
    instant_history key canon newest n s\<^sub>0 h (as[i := I_answer r e], s')"
| answer: "instant_history key canon newest n s\<^sub>0 h (as, s) \<Longrightarrow> i < length as \<Longrightarrow> as ! i = I_answer r e \<Longrightarrow>
    instant_history key canon newest n s\<^sub>0 (h @ [Answers i r e]) (as[i := I_idle], s)"

subsection \<open>The simulation\<close>

definition acquiring :: "'n option \<Rightarrow> 'n shared_op" where
  "acquiring n = (case n of None \<Rightarrow> Acquire_default | Some n \<Rightarrow> Op (Acquire n))"

text \<open>Whether the operation of a thread at \<open>pc\<close> has taken effect.\<close>

fun instant_of :: "'n shared_pc \<Rightarrow> 'n instant_pc" where
  "instant_of S_idle = I_idle"
| "instant_of (S_returned r e) = I_answer r e"
| "instant_of (S_acq_lock n) = I_called (acquiring n)"
| "instant_of (S_acq_find n) = I_called (acquiring n)"
| "instant_of (S_acq_inc n t) = I_called (acquiring n)"
| "instant_of (S_acq_unlock t) = I_answer (Type t) None"
| "instant_of (S_rel t) = I_called (Op (Release t))"
| "instant_of (S_reg_check t) = I_called (Op (Register t))"
| "instant_of (S_reg_lock t) = I_called (Op (Register t))"
| "instant_of (S_reg_find t) = I_called (Op (Register t))"
| "instant_of (S_reg_set t) = I_called (Op (Register t))"
| "instant_of (S_reg_add t) = I_called (Op (Register t))"
| "instant_of (S_reg_unlock r e) = I_answer (Code r) e"
| "instant_of (S_unreg_lock t) = I_called (Op (Unregister t))"
| "instant_of (S_unreg_check t) = I_called (Op (Unregister t))"
| "instant_of (S_unreg_del t) = I_called (Op (Unregister t))"
| "instant_of (S_unreg_unlock r e) = I_answer (Code r) e"

lemma instant_of_start: "instant_of (shared_start op) = I_called op"
  by (cases op rule: shared_start.cases; simp add: acquiring_def) (rename_tac op', case_tac op', simp_all add: acquiring_def)

lemma instant_op_acquiring:
  "instant_op key canon newest (acquiring n) s =
     (let t = found_by canon newest key n (sp_types s) in
      (Type t, None, if t = NULL then s else s\<lparr>sp_refs := (sp_refs s)(t := sp_refs s t + 1)\<rparr>))"
  by (cases n) (simp_all add: acquiring_def found_by_def Let_def)

text \<open>A counter that lets the type go.\<close>

definition s_single :: "('t, 'k, 'n) layout \<Rightarrow> world \<Rightarrow> addr \<Rightarrow> bool" where
  "s_single L w t \<longleftrightarrow> (\<exists>c. tmpl_refs L w t = Some c \<and> cfe_atomic_get c = 1)"

text \<open>
  The relation, for one thread at \<open>pc\<close> and the others at \<open>rest\<close>. A thread between setting the counter
  of a type and putting the type on the list is ahead of its registration.
\<close>

definition s_simulates ::
  "('t, 'k, 'n) layout \<Rightarrow> (addr \<Rightarrow> 'k option) \<Rightarrow> registry_spec \<Rightarrow> world \<Rightarrow> addr list \<Rightarrow>
    'n shared_pc \<Rightarrow> 'n shared_pc list \<Rightarrow> bool" where
  "s_simulates L key s w hs pc rest \<longleftrightarrow>
     tmpl_key L w = key \<and>
     (\<forall>t \<in> set (sp_types s). sp_refs s t =
       Suc (count_list hs t + count_pc (s_holding t) rest + of_bool (s_holding t pc))) \<and>
     (\<forall>t. t \<notin> set (sp_types s) \<longrightarrow> S_reg_add t \<in> insert pc (set rest) \<or> (sp_refs s t = 1 \<longleftrightarrow> s_single L w t))"

lemma s_simulatesD:
  assumes "s_simulates L key s w hs pc rest"
  shows "tmpl_key L w = key"
    and "\<And>t. t \<in> set (sp_types s) \<Longrightarrow>
      sp_refs s t = Suc (count_list hs t + count_pc (s_holding t) rest + of_bool (s_holding t pc))"
    and "\<And>t. t \<notin> set (sp_types s) \<Longrightarrow> S_reg_add t \<in> insert pc (set rest) \<or> (sp_refs s t = 1 \<longleftrightarrow> s_single L w t)"
  using assms unfolding s_simulates_def by blast+

text \<open>The counter in memory lets a type go when that of the specification does.\<close>

lemma s_single_iff:
  assumes T: "shared_ok L newest (sp_types s) w hs pc rest" and S: "s_simulates L key s w hs pc rest"
    and "S_reg_add t \<notin> insert pc (set rest)"
  shows "sp_refs s t = 1 \<longleftrightarrow> s_single L w t"
proof (cases "t \<in> set (sp_types s)")
  case True
  have "s_single L w t \<longleftrightarrow> cfe_atomic_get (of_nat (Suc (count_list hs t + count_pc (s_holding t) rest + of_bool (s_holding t pc)))) = 1"
    unfolding s_single_def shared_okD(4) [OF T True] by simp
  then show ?thesis
    using get_count [OF uses_bound [OF T, of t]] s_simulatesD(2) [OF S True] by simp
qed (use s_simulatesD(3) [OF S] assms(3) in blast)

definition s_answered ::
  "('t, 'k, 'n) layout \<Rightarrow> ((addr \<Rightarrow> 'k option) \<Rightarrow> addr list \<Rightarrow> addr) \<Rightarrow> (addr \<Rightarrow> 'k option) \<Rightarrow> registry_spec \<Rightarrow>
    addr list \<Rightarrow> 'n shared_pc \<Rightarrow> 'n shared_pc list \<Rightarrow> 'n shared_pc \<Rightarrow> world \<Rightarrow> bool" where
  "s_answered L newest key s hs pc rest pc' v \<longleftrightarrow>
     (\<exists>s'. (instant_of pc' = instant_of pc \<and> s' = s \<or>
          (\<exists>op r e. instant_of pc = I_called op \<and> instant_op key (ly_canon L) newest op s = (r, e, s') \<and>
            instant_of pc' = I_answer r e)) \<and>
        sp_types s' = s_listed_after pc (sp_types s) \<and> s_simulates L key s' v hs pc' rest)"

lemma s_answered_silent:
  "instant_of pc' = instant_of pc \<Longrightarrow> s_listed_after pc (sp_types s) = sp_types s \<Longrightarrow>
    s_simulates L key s v hs pc' rest \<Longrightarrow> s_answered L newest key s hs pc rest pc' v"
  unfolding s_answered_def by (intro exI [of _ s]) simp

lemma s_answered_effect:
  "instant_of pc = I_called op \<Longrightarrow> instant_op key (ly_canon L) newest op s = (r, e, s') \<Longrightarrow>
    instant_of pc' = I_answer r e \<Longrightarrow> sp_types s' = s_listed_after pc (sp_types s) \<Longrightarrow>
    s_simulates L key s' v hs pc' rest \<Longrightarrow> s_answered L newest key s hs pc rest pc' v"
  unfolding s_answered_def by blast

context shared_layout
begin

text \<open>Which counters a step changes; it changes no key.\<close>

lemma shared_step_frame:
  assumes T: "shared_ok L newest xs w hs pc rest" and step: "shared_step L dflt pc w = Some (pc', v)"
  shows "tmpl_key L v = tmpl_key L w"
    and "pc \<noteq> S_reg_set t \<Longrightarrow> (\<And>n. pc = S_acq_inc n t \<Longrightarrow> t = NULL) \<Longrightarrow> pc \<noteq> S_rel t \<Longrightarrow>
      s_single L v t = s_single L w t"
proof -
  have "tmpl_key L v = tmpl_key L w \<and> (tmpl_refs L v t = tmpl_refs L w t \<or> pc = S_reg_set t \<or>
      (\<exists>n. pc = S_acq_inc n t \<and> t \<noteq> NULL) \<or> pc = S_rel t)" for t
  proof (cases pc)
    case (S_reg_add u)
    then obtain h where "ly_get L v = (ly_get L w)\<lparr>rg_nodes := h\<rparr>"
      using shared_ok_add [OF T [unfolded S_reg_add]] step by (auto simp: on_reg_def reg_list_def)
    then show ?thesis by (simp add: tmpl_key_def tmpl_refs_def)
  qed (use step in \<open>auto simp: tmpl_key_def tmpl_refs_def on_reg_def reg_rdlock_def reg_wrlock_def reg_unlock_def
      reg_store_def reg_list_def split: bind_splits if_splits\<close>)
  then show "tmpl_key L v = tmpl_key L w"
    and "pc \<noteq> S_reg_set t \<Longrightarrow> (\<And>n. pc = S_acq_inc n t \<Longrightarrow> t = NULL) \<Longrightarrow> pc \<noteq> S_rel t \<Longrightarrow>
      s_single L v t = s_single L w t"
    unfolding s_single_def by metis+
qed

text \<open>A step that changes no counter of a registered type, and that the specification does not see.\<close>

lemma s_simulates_same:
  assumes T: "shared_ok L newest (sp_types s) w hs pc rest" and S: "s_simulates L key s w hs pc rest"
    and step: "shared_step L dflt pc w = Some (pc', v)"
    and hold: "\<And>t. t \<in> set (sp_types s) \<Longrightarrow> s_holding t pc' = s_holding t pc"
    and pc: "\<And>t. pc \<noteq> S_reg_add t" "\<And>t. pc = S_reg_set t \<Longrightarrow> pc' = S_reg_add t" "\<And>n t. pc = S_acq_inc n t \<Longrightarrow> t = NULL"
      "\<And>t. pc \<noteq> S_rel t"
  shows "s_simulates L key s v hs pc' rest"
proof -
  note D = s_simulatesD [OF S]
  have "S_reg_add t \<in> insert pc' (set rest) \<or> (sp_refs s t = 1 \<longleftrightarrow> s_single L v t)" if "t \<notin> set (sp_types s)" for t
    using D(3) [OF that] shared_step_frame(2) [OF T step, of t] pc by (metis insert_iff)
  then show ?thesis
    using D(1,2) hold shared_step_frame(1) [OF T step] unfolding s_simulates_def by simp
qed

text \<open>The steps at which an operation takes effect.\<close>

lemma s_simulates_count:
  assumes T: "shared_ok L newest (sp_types s) w hs pc rest" and S: "s_simulates L key s w hs pc rest"
    and step: "shared_step L dflt pc w = Some (pc', v)" and t: "t \<in> set (sp_types s)"
    and pc: "(pc, pc') \<in> {(S_acq_inc n t, S_acq_unlock t), (S_rel t, S_returned Done None)}"
  shows "s_simulates L key (s\<lparr>sp_refs := (sp_refs s)(t :=
      Suc (count_list hs t + count_pc (s_holding t) rest + of_bool (s_holding t pc')))\<rparr>) v hs pc' rest"
proof -
  note D = s_simulatesD [OF S]
  have "S_reg_add u \<in> insert pc' (set rest) \<or> (sp_refs s u = 1 \<longleftrightarrow> s_single L v u)" if "u \<notin> set (sp_types s)" for u
  proof -
    have "u \<noteq> t" using t that by blast
    then show ?thesis using D(3) [OF that] pc shared_step_frame(2) [OF T step, of u] by auto
  qed
  moreover have "s_holding u pc' = s_holding u pc" if "u \<noteq> t" for u using pc that by auto
  ultimately show ?thesis
    using D(1,2) shared_step_frame(1) [OF T step] t unfolding s_simulates_def by auto
qed

lemma s_answered_inc:
  assumes T: "shared_ok L newest (sp_types s) w hs pc rest" and S: "s_simulates L key s w hs pc rest"
    and step: "shared_step L dflt pc w = Some (pc', v)" and pc: "pc = S_acq_inc n t"
  shows "s_answered L newest key s hs pc rest pc' v"
proof -
  note D = shared_okD [OF T] and K = s_simulatesD(1) [OF S]
  have nn: "NULL \<notin> set (sp_types s)" by (rule reg_ok_nonnull [OF D(1)])
  have pc': "pc' = S_acq_unlock t" using step pc by (auto split: bind_splits)
  have f: "t = found_by (ly_canon L) newest key n (sp_types s)" using D(5) pc K by simp
  show ?thesis
  proof (cases "t = NULL")
    case True
    show ?thesis
    proof (rule s_answered_effect)
      show "instant_op key (ly_canon L) newest (acquiring n) s = (Type t, None, s)"
        using True f by (simp add: instant_op_acquiring)
      show "s_simulates L key s v hs pc' rest"
        by (rule s_simulates_same [OF T S step]) (use pc pc' True nn in auto)
    qed (use pc pc' in simp_all)
  next
    case False
    then have t: "t \<in> set (sp_types s)" using found_by_listed f by metis
    let ?s = "s\<lparr>sp_refs := (sp_refs s)(t := sp_refs s t + 1)\<rparr>"
    show ?thesis
    proof (rule s_answered_effect)
      show "instant_op key (ly_canon L) newest (acquiring n) s = (Type t, None, ?s)"
        using False f by (simp add: instant_op_acquiring Let_def)
      show "s_simulates L key ?s v hs pc' rest"
        using s_simulates_count [OF T S step t, of n] s_simulatesD(2) [OF S t] pc pc' by simp
    qed (use pc pc' in simp_all)
  qed
qed

lemma s_answered_rel:
  assumes T: "shared_ok L newest (sp_types s) w hs pc rest" and S: "s_simulates L key s w hs pc rest"
    and step: "shared_step L dflt pc w = Some (pc', v)" and pc: "pc = S_rel t"
  shows "s_answered L newest key s hs pc rest pc' v"
proof -
  have t: "t \<in> set (sp_types s)" using shared_okD(5) [OF T] pc by simp
  have pc': "pc' = S_returned Done None" using step pc by (auto split: bind_splits)
  let ?s = "s\<lparr>sp_refs := (sp_refs s)(t := sp_refs s t - 1)\<rparr>"
  show ?thesis
  proof (rule s_answered_effect)
    show "instant_op key (ly_canon L) newest (Op (Release t)) s = (Done, None, ?s)" by simp
    show "s_simulates L key ?s v hs pc' rest"
      using s_simulates_count [OF T S step t] s_simulatesD(2) [OF S t] pc pc' by simp
  qed (use pc pc' in simp_all)
qed

text \<open>A type put on the list, a type taken off it: the writer is the only one inside.\<close>

lemma s_writer_no_add:
  assumes "shared_ok L newest xs w hs pc rest" and "s_writing pc"
  shows "S_reg_add t \<notin> set rest"
  using shared_writer_alone(3) [OF assms] by force

lemma s_answered_add:
  assumes T: "shared_ok L newest (sp_types s) w hs pc rest" and S: "s_simulates L key s w hs pc rest"
    and step: "shared_step L dflt pc w = Some (pc', v)" and pc: "pc = S_reg_add t"
  shows "s_answered L newest key s hs pc rest pc' v"
proof -
  note D = shared_okD [OF T] and M = s_simulatesD [OF S]
  have pc': "pc' = S_reg_unlock 0 None" using step pc by (auto split: bind_splits)
  have t: "key t \<noteq> None" "key t \<notin> key ` set (sp_types s)" using D(5) pc M(1) by simp_all
  then have ts: "t \<notin> set (sp_types s)" by blast
  have "t \<in> dom (rg_types (ly_get L w))" using D(5) pc by (auto simp: tmpl_refs_def)
  then have nn: "t \<noteq> NULL" using reg_ok_parts(4) [OF D(1)] by blast
  let ?s = "s\<lparr>sp_types := sp_types s @ [t], sp_refs := (sp_refs s)(t := 1)\<rparr>"
  show ?thesis
  proof (rule s_answered_effect)
    show "instant_op key (ly_canon L) newest (Op (Register t)) s = (Code 0, None, ?s)" using t by simp
    have "sp_refs ?s u = Suc (count_list hs u + count_pc (s_holding u) rest)" if "u \<in> set (sp_types ?s)" for u
      using that M(2) [of u] not_held_none [OF T ts nn] pc by (cases "u = t") auto
    moreover have "sp_refs ?s u = 1 \<longleftrightarrow> s_single L v u" if "u \<notin> set (sp_types ?s)" for u
      using that M(3) [of u] s_writer_no_add [OF T, of u] shared_step_frame(2) [OF T step, of u] pc by auto
    ultimately show "s_simulates L key ?s v hs pc' rest"
      using shared_step_frame(1) [OF T step] M(1) pc' unfolding s_simulates_def by auto
  qed (use pc pc' in simp_all)
qed

lemma s_answered_del:
  assumes T: "shared_ok L newest (sp_types s) w hs pc rest" and S: "s_simulates L key s w hs pc rest"
    and step: "shared_step L dflt pc w = Some (pc', v)" and pc: "pc = S_unreg_del t"
  shows "s_answered L newest key s hs pc rest pc' v"
proof -
  note D = shared_okD [OF T] and M = s_simulatesD [OF S]
  have pc': "pc' = S_unreg_unlock 0 None" using step pc by (auto split: bind_splits)
  have all: "sp_refs s u = 1 \<longleftrightarrow> s_single L w u" for u
    by (rule s_single_iff [OF T S]) (use s_writer_no_add [OF T] pc in simp)
  have frame: "s_single L v u = s_single L w u" for u
    using shared_step_frame(2) [OF T step, of u] pc by simp
  have one: "sp_refs s t = 1" using all D(5) pc by (simp add: s_single_def)
  have "t \<in> dom (rg_types (ly_get L w))" using D(5) pc by (auto simp: tmpl_refs_def)
  then have "t \<noteq> NULL" using reg_ok_parts(4) [OF D(1)] by blast
  then have free: "newest key (sp_types s) \<noteq> t"
    using pinned_default [of t w] default [OF D(2,1)] D(5) pc M(1) by simp
  have d: "set (remove1 t (sp_types s)) = set (sp_types s) - {t}" using reg_ok_parts(6) [OF D(1)] by simp
  let ?s = "s\<lparr>sp_types := remove1 t (sp_types s)\<rparr>"
  show ?thesis
  proof (rule s_answered_effect)
    show "instant_op key (ly_canon L) newest (Op (Unregister t)) s = (Code 0, None, ?s)" using one free by simp
    show "s_simulates L key ?s v hs pc' rest"
      using M(1,2) all frame d pc pc' shared_step_frame(1) [OF T step] unfolding s_simulates_def by auto
  qed (use pc pc' in simp_all)
qed

lemma s_answered_check:
  assumes T: "shared_ok L newest (sp_types s) w hs pc rest" and S: "s_simulates L key s w hs pc rest"
    and step: "shared_step L dflt pc w = Some (pc', v)" and pc: "pc = S_unreg_check t"
  shows "s_answered L newest key s hs pc rest pc' v"
proof -
  note D = shared_okD [OF T] and M = s_simulatesD [OF S]
  obtain ty where ty: "rg_types (ly_get L w) t = Some ty" using D(5) pc by auto
  then have "t \<noteq> NULL" using reg_ok_parts(4) [OF D(1)] by blast
  then have pin: "ly_pinned L w t \<longleftrightarrow> newest key (sp_types s) = t"
    using pinned_default [of t w] default [OF D(2,1)] M(1) by simp
  have "sp_refs s t = 1 \<longleftrightarrow> s_single L w t"
    by (rule s_single_iff [OF T S]) (use s_writer_no_add [OF T] pc in simp)
  then have one: "sp_refs s t = 1 \<longleftrightarrow> cfe_atomic_get (ly_refcnt L ty) = 1"
    using ty by (simp add: s_single_def tmpl_refs_def)
  have same: "s_simulates L key s v hs pc' rest"
    by (rule s_simulates_same [OF T S step]) (use pc step in \<open>auto split: bind_splits if_splits\<close>)
  show ?thesis
  proof (cases "newest key (sp_types s) = t \<or> sp_refs s t \<noteq> 1")
    case True
    then have pc': "pc' = S_unreg_unlock 1 (Some EBUSY)" using step pc pin one ty by (auto split: if_splits)
    show ?thesis
      by (rule s_answered_effect [of _ "Op (Unregister t)" _ _ _ _ "Code 1" "Some EBUSY" s])
        (use True pc pc' same in simp_all)
  next
    case False
    then have "pc' = S_unreg_del t" using step pc pin one ty by (auto split: if_splits)
    then show ?thesis by (intro s_answered_silent) (use pc same in simp_all)
  qed
qed

lemma s_answered_register:
  assumes T: "shared_ok L newest (sp_types s) w hs pc rest" and S: "s_simulates L key s w hs pc rest"
    and step: "shared_step L dflt pc w = Some (pc', v)" and pc: "pc = S_reg_check t \<or> pc = S_reg_find t"
  shows "s_answered L newest key s hs pc rest pc' v"
proof -
  note D = shared_okD [OF T] and M = s_simulatesD [OF S]
  obtain ty where ty: "rg_types (ly_get L w) t = Some ty" using step pc by (auto split: bind_splits)
  have same: "s_simulates L key s v hs pc' rest"
    by (rule s_simulates_same [OF T S step]) (use pc step in \<open>auto split: bind_splits if_splits\<close>)
  show ?thesis
  proof (cases "instant_of pc' = instant_of pc")
    case True
    then show ?thesis by (intro s_answered_silent) (use pc same in auto)
  next
    case False
    from pc have "\<exists>e. pc' \<in> {S_returned (Code 1) e, S_reg_unlock 1 e} \<and>
        instant_op key (ly_canon L) newest (Op (Register t)) s = (Code 1, e, s)"
    proof
      assume c: "pc = S_reg_check t"
      then have "\<not> ly_valid L ty" "pc' = S_returned (Code 1) (Some EINVAL)"
        using step ty False by (auto split: if_splits)
      moreover from this have "key t = None" using M(1) ty by (auto simp: tmpl_key_def reg_key_def)
      ultimately show ?thesis by simp
    next
      assume c: "pc = S_reg_find t"
      then obtain k where k: "key t = Some k" using D(5) M(1) by auto
      obtain n where n: "ly_name L ty = Some n" "ly_canon L n = k"
        using key_valid [of w t k] k M(1) ty by (metis option.inject)
      obtain u where u: "tmpl_find L n w = Some u" "u \<noteq> NULL" "pc' = S_reg_unlock 1 (Some EBUSY)"
        using step c ty n(1) False by (auto split: bind_splits if_splits)
      then have "key t \<in> key ` set (sp_types s)"
        using find_ok_null [OF D(1), of n] n(2) k M(1) by (auto simp: tmpl_key_def)
      then show ?thesis using u(3) k by simp
    qed
    then obtain e where e: "pc' \<in> {S_returned (Code 1) e, S_reg_unlock 1 e}"
        "instant_op key (ly_canon L) newest (Op (Register t)) s = (Code 1, e, s)" by blast
    show ?thesis
      by (rule s_answered_effect [OF _ e(2) _ _ same]) (use pc e(1) in auto)
  qed
qed

text \<open>Each step is answered by one operation or none.\<close>

lemma shared_step_answered:
  assumes T: "shared_ok L newest (sp_types s) w hs pc rest" and S: "s_simulates L key s w hs pc rest"
    and step: "shared_step L dflt pc w = Some (pc', v)"
  shows "s_answered L newest key s hs pc rest pc' v"
proof (cases "\<exists>t n. pc \<in> {S_acq_inc n t, S_rel t, S_reg_add t, S_unreg_del t, S_unreg_check t, S_reg_check t, S_reg_find t}")
  case True
  then show ?thesis
    using s_answered_inc [OF T S step] s_answered_rel [OF T S step] s_answered_add [OF T S step]
      s_answered_del [OF T S step] s_answered_check [OF T S step] s_answered_register [OF T S step] by blast
next
  case False
  have "instant_of pc' = instant_of pc" "s_listed_after pc (sp_types s) = sp_types s"
    using step False by (cases pc; auto split: bind_splits)+
  moreover have "s_simulates L key s v hs pc' rest"
    by (rule s_simulates_same [OF T S step])
      (use step False in \<open>cases pc; auto split: bind_splits if_splits\<close>)+
  ultimately show ?thesis by (rule s_answered_silent)
qed

end

subsection \<open>Any number of threads\<close>

lemma s_simulates_focus:
  assumes "i < length ts"
  shows "s_simulates L key s w hs S_idle (ts[i := x]) = s_simulates L key s w hs x (ts[i := S_idle])"
proof -
  have h: "\<not> s_holding t S_idle" for t by simp
  show ?thesis
    unfolding s_simulates_def set_update_insert [OF assms, of S_idle x]
    using count_pc_update [of i ts "s_holding _" S_idle x, OF assms h] by simp
qed

text \<open>A call begins, an answer is handed out: the specification stays, the references move.\<close>

lemma s_simulates_outside:
  assumes "s_simulates L key s w hs pc rest" and "\<And>t. pc \<noteq> S_reg_add t"
    and "\<And>t. t \<in> set (sp_types s) \<Longrightarrow>
      count_list hs' t + of_bool (s_holding t pc') = count_list hs t + of_bool (s_holding t pc)"
  shows "s_simulates L key s w hs' pc' rest"
proof -
  note M = s_simulatesD [OF assms(1)]
  have "sp_refs s t = Suc (count_list hs' t + count_pc (s_holding t) rest + of_bool (s_holding t pc'))"
    if "t \<in> set (sp_types s)" for t
    using M(2) [OF that] assms(3) [OF that] by linarith
  moreover have "S_reg_add t \<in> insert pc' (set rest) \<or> (sp_refs s t = 1 \<longleftrightarrow> s_single L w t)" if "t \<notin> set (sp_types s)" for t
    using M(3) [OF that] assms(2) [of t] by blast
  ultimately show ?thesis using M(1) unfolding s_simulates_def by blast
qed

text \<open>The simulation of all threads, with the history so far.\<close>

definition s_tracks ::
  "('t, 'k, 'n) layout \<Rightarrow> ((addr \<Rightarrow> 'k option) \<Rightarrow> addr list \<Rightarrow> addr) \<Rightarrow> nat \<Rightarrow> (addr \<Rightarrow> 'k option) \<Rightarrow> registry_spec \<Rightarrow>
    'n shared_event list \<Rightarrow> 'n shared_sys \<Rightarrow> registry_spec \<Rightarrow> bool" where
  "s_tracks L newest n key s\<^sub>0 h x s \<longleftrightarrow>
     instant_history key (ly_canon L) newest n s\<^sub>0 h (map instant_of (fst x), s) \<and>
     shared_ok L newest (sp_types s) (snd (snd x)) (fst (snd x)) S_idle (fst x) \<and>
     s_simulates L key s (snd (snd x)) (fst (snd x)) S_idle (fst x)"

lemma s_tracks_at:
  assumes "s_tracks L newest n key s\<^sub>0 h (ts, hs, v) s" and "i < length ts"
  shows "instant_history key (ly_canon L) newest n s\<^sub>0 h (map instant_of ts, s)"
    and "shared_ok L newest (sp_types s) v hs (ts ! i) (ts[i := S_idle])"
    and "s_simulates L key s v hs (ts ! i) (ts[i := S_idle])"
proof -
  have A: "instant_history key (ly_canon L) newest n s\<^sub>0 h (map instant_of ts, s)"
    "shared_ok L newest (sp_types s) v hs S_idle ts" "s_simulates L key s v hs S_idle ts"
    using assms(1) by (simp_all add: s_tracks_def)
  show "instant_history key (ly_canon L) newest n s\<^sub>0 h (map instant_of ts, s)" by (rule A(1))
  show "shared_ok L newest (sp_types s) v hs (ts ! i) (ts[i := S_idle])" by (rule shared_ok_at [OF assms(2) A(2)])
  show "s_simulates L key s v hs (ts ! i) (ts[i := S_idle])"
    using s_simulates_focus [OF assms(2), of L key s v hs "ts ! i"] A(3) by simp
qed

lemma s_tracksI:
  assumes "i < length ts"
    and "instant_history key (ly_canon L) newest n s\<^sub>0 h ((map instant_of ts)[i := instant_of pc], s)"
    and "shared_ok L newest (sp_types s) v hs pc (ts[i := S_idle])"
    and "s_simulates L key s v hs pc (ts[i := S_idle])"
  shows "s_tracks L newest n key s\<^sub>0 h (ts[i := pc], hs, v) s"
  using assms by (simp add: s_tracks_def shared_ok_focus s_simulates_focus map_update)

lemma s_tracks_call:
  assumes "s_tracks L newest n key s\<^sub>0 h (ts, hs, v) s" and i: "i < length ts" "ts ! i = S_idle"
    and ok: "op_ok L (length ts) hs v op"
  shows "s_tracks L newest n key s\<^sub>0 (h @ [Calls i op]) (ts[i := shared_start op], given_back op hs, v) s"
proof (rule s_tracksI [OF i(1)])
  note A = s_tracks_at [OF assms(1) i(1), unfolded i(2)]
  show "shared_ok L newest (sp_types s) v (given_back op hs) (shared_start op) (ts[i := S_idle])"
    by (rule shared_ok_call [OF A(2)]) (use ok in simp)
  show "s_simulates L key s v (given_back op hs) (shared_start op) (ts[i := S_idle])"
    by (rule s_simulates_outside [OF A(3)]) (use given_back_count [OF ok] in simp_all)
  show "instant_history key (ly_canon L) newest n s\<^sub>0 (h @ [Calls i op]) ((map instant_of ts)[i := instant_of (shared_start op)], s)"
    unfolding instant_of_start by (rule instant_history.call [OF A(1)]) (use i in simp_all)
qed

lemma s_tracks_answer:
  fixes ts :: "'n shared_pc list"
  assumes "s_tracks L newest n key s\<^sub>0 h (ts, hs, v) s" and i: "i < length ts" "ts ! i = S_returned r e"
  shows "s_tracks L newest n key s\<^sub>0 (h @ [Answers i r e]) (ts[i := S_idle], handed_out r hs, v) s"
proof (rule s_tracksI [OF i(1)])
  note A = s_tracks_at [OF assms(1) i(1), unfolded i(2)]
  have nn: "t \<noteq> NULL" if "t \<in> set (sp_types s)" for t using shared_okD(1) [OF A(2)] that reg_ok_nonnull by metis
  show "shared_ok L newest (sp_types s) v (handed_out r hs) S_idle (ts[i := S_idle])" by (rule shared_ok_answer [OF A(2)])
  show "s_simulates L key s v (handed_out r hs) S_idle (ts[i := S_idle])"
  proof (rule s_simulates_outside [OF A(3)])
    show "count_list (handed_out r hs) t + of_bool (s_holding t (S_idle :: 'n shared_pc)) =
        count_list hs t + of_bool (s_holding t (S_returned r e :: 'n shared_pc))" if "t \<in> set (sp_types s)" for t
      using handed_out_count [OF nn [OF that], of r hs e, where 'n = 'n] by simp
  qed simp
  show "instant_history key (ly_canon L) newest n s\<^sub>0 (h @ [Answers i r e]) ((map instant_of ts)[i := instant_of S_idle], s)"
    unfolding instant_of.simps by (rule instant_history.answer [OF A(1)]) (use i in simp_all)
qed

lemma s_tracks_start:
  assumes "shared_at_rest L xs w"
  shows "s_tracks L newest n (tmpl_key L w) (spec_start xs) [] (replicate n S_idle, [], w) (spec_start xs)"
proof -
  have "reg_ok L (ly_get L w) xs \<and> ly_inv L w xs \<and> rg_lock (ly_get L w) = Unlocked"
    and one: "\<And>t. t \<in> set xs \<Longrightarrow> tmpl_refs L w t = Some 1"
    and none: "\<And>t c. tmpl_refs L w t = Some c \<Longrightarrow> t \<notin> set xs \<Longrightarrow> cfe_atomic_get c \<noteq> 1"
    using assms by (simp_all add: shared_at_rest_def tmpl_repr_def)
  moreover have "cfe_atomic_get (the (tmpl_refs L w t)) \<noteq> 1" if "t \<in> dom (rg_types (ly_get L w)) - set xs" for t
    using that none [of t] by (auto simp: tmpl_refs_def)
  ultimately have "shared_ok L newest xs w [] S_idle (replicate n S_idle)"
    unfolding shared_ok_def by (simp add: count_pc_replicate one)
  moreover have "s_simulates L (tmpl_key L w) (spec_start xs) w [] S_idle (replicate n S_idle)"
    unfolding s_simulates_def spec_start_def s_single_def using none by (auto simp: count_pc_replicate)
  ultimately show ?thesis by (simp add: s_tracks_def instant_history.start) (simp add: spec_start_def)
qed

context shared_layout
begin

lemma s_tracks_move:
  assumes "s_tracks L newest n key s\<^sub>0 h (ts, hs, v) s" and i: "i < length ts"
    and step: "shared_step L dflt (ts ! i) v = Some (pc, u)"
  shows "\<exists>s'. s_tracks L newest n key s\<^sub>0 h (ts[i := pc], hs, u) s'"
proof -
  note A = s_tracks_at [OF assms(1) i]
  obtain s' where s': "sp_types s' = s_listed_after (ts ! i) (sp_types s)" "s_simulates L key s' u hs pc (ts[i := S_idle])"
    "instant_of pc = instant_of (ts ! i) \<and> s' = s \<or>
      (\<exists>op r e. instant_of (ts ! i) = I_called op \<and> instant_op key (ly_canon L) newest op s = (r, e, s') \<and>
        instant_of pc = I_answer r e)"
    using shared_step_answered [OF A(2,3) step] unfolding s_answered_def by blast
  have "instant_history key (ly_canon L) newest n s\<^sub>0 h ((map instant_of ts)[i := instant_of pc], s')"
    using s'(3)
  proof
    assume same: "instant_of pc = instant_of (ts ! i) \<and> s' = s"
    then have "(map instant_of ts)[i := instant_of pc] = map instant_of ts" by (metis list_update_id map_update)
    then show ?thesis using A(1) same by simp
  next
    assume "\<exists>op r e. instant_of (ts ! i) = I_called op \<and> instant_op key (ly_canon L) newest op s = (r, e, s') \<and>
      instant_of pc = I_answer r e"
    then obtain op r e where "instant_of (ts ! i) = I_called op" "instant_op key (ly_canon L) newest op s = (r, e, s')"
      "instant_of pc = I_answer r e" by blast
    then show ?thesis using instant_history.effect [OF A(1), of i op r e s'] i by simp
  qed
  then show ?thesis
    using shared_step_ok [OF A(2) step] s'(1,2) by (intro exI [of _ s'] s_tracksI [OF i]) simp_all
qed

lemma s_history_tracked:
  assumes "shared_history L dflt n w h x" and "shared_at_rest L xs w"
  shows "\<exists>s. s_tracks L newest n (tmpl_key L w) (spec_start xs) h x s"
  using assms
proof (induction rule: shared_history.induct)
  case start
  then show ?case using s_tracks_start by blast
next
  case (call h ts hs v i op)
  then show ?case using s_tracks_call by blast
next
  case (move h ts hs v i pc u)
  then show ?case using s_tracks_move by blast
next
  case (answer h ts hs v i r e)
  then show ?case using s_tracks_answer by blast
qed

lemma history_ok:
  assumes "shared_history L dflt n w h (ts, hs, v)" and "shared_at_rest L xs w"
  shows "\<exists>ys. shared_ok L newest ys v hs S_idle ts"
  using s_history_tracked [OF assms] unfolding s_tracks_def by auto

text \<open>Whatever the threads observe, threads whose operations are instantaneous observe.\<close>

lemma shared_linearizes:
  assumes "shared_at_rest L xs w" and "shared_history L dflt n w h (ts, hs, v)"
  shows "\<exists>s. instant_history (tmpl_key L w) (ly_canon L) newest n (spec_start xs) h (map instant_of ts, s) \<and>
    reg_ok L (ly_get L v) (sp_types s) \<and> dflt v = newest (tmpl_key L w) (sp_types s) \<and>
    (\<forall>t \<in> set (sp_types s). tmpl_refs L v t = Some (of_nat (sp_refs s t)))"
proof -
  obtain s where "s_tracks L newest n (tmpl_key L w) (spec_start xs) h (ts, hs, v) s"
    using s_history_tracked [OF assms(2,1)] by blast
  then have s: "instant_history (tmpl_key L w) (ly_canon L) newest n (spec_start xs) h (map instant_of ts, s)"
      "shared_ok L newest (sp_types s) v hs S_idle ts" "s_simulates L (tmpl_key L w) s v hs S_idle ts"
    by (simp_all add: s_tracks_def)
  have "tmpl_refs L v t = Some (of_nat (sp_refs s t))" if "t \<in> set (sp_types s)" for t
    unfolding s_simulatesD(2) [OF s(3) that] by (rule shared_okD(4) [OF s(2) that])
  moreover have "dflt v = newest (tmpl_key L w) (sp_types s)"
    using default [OF shared_okD(2,1) [OF s(2)]] s_simulatesD(1) [OF s(3)] by simp
  ultimately show ?thesis using s(1) shared_okD(1) [OF s(2)] by blast
qed

text \<open>
  A type to which a client or a thread has a reference is registered, and no thread is about to take it
  off the list; the counters are exact; a thread inside for writing is alone inside.
\<close>

lemma shared_safe:
  assumes "shared_at_rest L xs w" and "shared_history L dflt n w h (ts, hs, v)"
  shows "\<exists>ys. reg_ok L (ly_get L v) ys \<and> ly_inv L v ys \<and>
    (\<forall>t \<in> set ys. tmpl_refs L v t = Some (of_nat (Suc (count_list hs t + count_pc (s_holding t) ts)))) \<and>
    (\<forall>t. t \<noteq> NULL \<longrightarrow> t \<in> set hs \<or> (\<exists>pc \<in> set ts. s_holding t pc) \<longrightarrow> t \<in> set ys \<and> S_unreg_del t \<notin> set ts) \<and>
    (\<forall>i < length ts. \<forall>j < length ts. s_writing (ts ! i) \<longrightarrow> s_writing (ts ! j) \<or> s_reading (ts ! j) \<longrightarrow> i = j)"
proof -
  obtain ys where T: "shared_ok L newest ys v hs S_idle ts" using history_ok [OF assms(2,1)] by blast
  note D = shared_okD [OF T]
  have use: "t \<in> set ys \<and> S_unreg_del t \<notin> set ts" if "t \<noteq> NULL" "t \<in> set hs \<or> (\<exists>pc \<in> set ts. s_holding t pc)" for t
  proof -
    have held: "count_list hs t \<noteq> 0 \<or> count_pc (s_holding t) ts \<noteq> 0"
      using that(2) by (auto simp: count_pc_0 count_list_0_iff)
    then have t: "t \<in> set ys" using not_held_none [OF T _ that(1)] by metis
    then show ?thesis
      using held D(4) [OF t] D(6) [of "S_unreg_del t"] get_count [OF uses_bound [OF T, of t]] by auto
  qed
  have excl: "i = j" if "i < length ts" "j < length ts" "s_writing (ts ! i)" "s_writing (ts ! j) \<or> s_reading (ts ! j)" for i j
  proof (rule ccontr)
    assume "i \<noteq> j"
    then have "ts ! j \<in> set (ts[i := S_idle])" using that(2) by (metis length_list_update nth_list_update_neq nth_mem)
    then show False
      using shared_writer_alone [OF shared_ok_at [OF that(1) T] that(3)] that(4) by blast
  qed
  show ?thesis
    by (intro exI [of _ ys] conjI) (use D(1,2,4) use excl in auto)
qed

end

subsection \<open>No thread blocks the others for good\<close>

inductive shared_advance ::
  "('t, 'k, 'n) layout \<Rightarrow> (world \<Rightarrow> addr) \<Rightarrow> 'n shared_pc list \<times> world \<Rightarrow> 'n shared_pc list \<times> world \<Rightarrow> bool" for L d where
  "i < length ts \<Longrightarrow> shared_step L d (ts ! i) w = Some (pc, v) \<Longrightarrow> shared_advance L d (ts, w) (ts[i := pc], v)"

text \<open>How many steps a thread has left in its call, at most.\<close>

fun s_left :: "'n shared_pc \<Rightarrow> nat" where
  "s_left (S_acq_lock n) = 4"
| "s_left (S_acq_find n) = 3"
| "s_left (S_acq_inc n t) = 2"
| "s_left (S_acq_unlock t) = 1"
| "s_left (S_rel t) = 1"
| "s_left (S_reg_check t) = 6"
| "s_left (S_reg_lock t) = 5"
| "s_left (S_reg_find t) = 4"
| "s_left (S_reg_set t) = 3"
| "s_left (S_reg_add t) = 2"
| "s_left (S_reg_unlock r e) = 1"
| "s_left (S_unreg_lock t) = 4"
| "s_left (S_unreg_check t) = 3"
| "s_left (S_unreg_del t) = 2"
| "s_left (S_unreg_unlock r e) = 1"
| "s_left _ = 0"

lemma s_left_step: "shared_step L d pc w = Some (pc', v) \<Longrightarrow> s_left pc' < s_left pc"
  by (cases pc) (auto split: if_splits bind_splits)

lemma s_left_le: "s_left pc \<le> 6"
  by (cases pc) simp_all

lemma shared_advance_bound:
  assumes "(shared_advance L d ^^ k) x y"
  shows "k \<le> 6 * length (fst x)"
proof (rule run_bound(1) [where f = s_left, OF _ s_left_le assms])
  fix x y
  assume "shared_advance L d x y"
  then show "\<exists>i < length (fst x). \<exists>pc. fst y = (fst x)[i := pc] \<and> s_left pc < s_left (fst x ! i)"
    by cases (auto intro: s_left_step)
qed

lemma s_inside_not_waiting: "s_reading pc \<or> s_writing pc \<Longrightarrow> \<not> s_waits l pc \<and> pc \<noteq> S_idle \<and> \<not> has_returned pc"
  by (cases pc) simp_all

lemma s_waits_not_free: "s_waits l pc \<Longrightarrow> l \<noteq> Unlocked"
  by (cases pc) auto

context shared_layout
begin

lemma shared_advance_ok:
  assumes "(shared_advance L dflt ^^ k) x y" and "\<exists>xs. shared_ok L newest xs (snd x) hs S_idle (fst x)"
  shows "\<exists>ys. shared_ok L newest ys (snd y) hs S_idle (fst y)"
  using assms
proof (rule run_invariant)
  fix u v
  assume "shared_advance L dflt u v" and T: "\<exists>xs. shared_ok L newest xs (snd u) hs S_idle (fst u)"
  then show "\<exists>ys. shared_ok L newest ys (snd v) hs S_idle (fst v)"
  proof cases
    case (1 i ts w pc v)
    then show ?thesis
      using shared_step_ok [OF shared_ok_at [OF 1(3)] 1(4)] T by (auto simp: shared_ok_focus)
  qed
qed

lemma shared_can_step:
  assumes T: "shared_ok L newest xs v hs S_idle ts" and pc: "pc \<in> set ts" "pc \<noteq> S_idle" "\<not> has_returned pc"
  shows "shared_step L dflt pc v = None \<longleftrightarrow> s_waits (rg_lock (ly_get L v)) pc"
proof -
  obtain i where i: "i < length ts" "ts ! i = pc" using pc(1) by (auto simp: in_set_conv_nth)
  show ?thesis
    using shared_ok_step [OF shared_ok_at [OF i(1) T]] i(2) pc(2,3) s_waits_step by (fastforce simp: s_moves_def)
qed

lemma shared_some_step:
  assumes T: "shared_ok L newest xs v hs S_idle ts" and pc: "pc \<in> set ts" "pc \<noteq> S_idle" "\<not> has_returned pc"
  shows "\<exists>x. shared_advance L dflt (ts, v) x"
proof -
  obtain q where q: "q \<in> set ts" "q \<noteq> S_idle" "\<not> has_returned q" "\<not> s_waits (rg_lock (ly_get L v)) q"
  proof (cases "s_waits (rg_lock (ly_get L v)) pc")
    case True
    obtain q where "q \<in> set ts" "s_reading q \<or> s_writing q"
      using lock_inside [of "rg_lock (ly_get L v)" s_reading ts s_writing] shared_okD(3) [OF T] s_waits_not_free [OF True]
      by auto
    then show ?thesis using s_inside_not_waiting that by blast
  qed (use pc that in blast)
  then obtain i where "i < length ts" "ts ! i = q" by (auto simp: in_set_conv_nth)
  then show ?thesis
    using shared_can_step [OF T q(1-3)] q(4) shared_advance.intros [of i ts L dflt v] by fastforce
qed

text \<open>
  Each thread in a call that does not wait for the lock can make its step; when no calls begin, the
  threads stop after at most six steps each, and then every call has its answer and the lock is free.
\<close>

lemma shared_progress:
  assumes "shared_at_rest L xs w" and "shared_history L dflt n w h (ts, hs, v)"
  shows "(\<forall>pc \<in> set ts. pc \<noteq> S_idle \<longrightarrow> \<not> has_returned pc \<longrightarrow>
      (shared_step L dflt pc v = None \<longleftrightarrow> s_waits (rg_lock (ly_get L v)) pc)) \<and>
    (\<forall>k us u. (shared_advance L dflt ^^ k) (ts, v) (us, u) \<longrightarrow> k \<le> 6 * length ts \<and>
      ((\<nexists>x. shared_advance L dflt (us, u) x) \<longrightarrow>
        (\<forall>pc \<in> set us. pc = S_idle \<or> has_returned pc) \<and> rg_lock (ly_get L u) = Unlocked))"
proof -
  obtain ys where T: "shared_ok L newest ys v hs S_idle ts" using history_ok [OF assms(2,1)] by blast
  have "k \<le> 6 * length ts \<and> ((\<nexists>x. shared_advance L dflt (us, u) x) \<longrightarrow>
      (\<forall>pc \<in> set us. pc = S_idle \<or> has_returned pc) \<and> rg_lock (ly_get L u) = Unlocked)"
    if run: "(shared_advance L dflt ^^ k) (ts, v) (us, u)" for k us u
  proof -
    obtain zs where Z: "shared_ok L newest zs u hs S_idle us" using shared_advance_ok [OF run] T by auto
    have "rg_lock (ly_get L u) = Unlocked" if "\<forall>pc \<in> set us. pc = S_idle \<or> has_returned pc"
      using lock_inside [of "rg_lock (ly_get L u)" s_reading us s_writing] shared_okD(3) [OF Z] s_inside_not_waiting that
      by auto
    then show ?thesis
      using shared_advance_bound [OF run] shared_some_step [OF Z] by auto
  qed
  then show ?thesis using shared_can_step [OF T] by blast
qed

end

end
