(* ===== verification/Cfe_Shared_Library.thy ===== *)
theory Cfe_Shared_Library
  imports Cfe_Shared_Run Cfe_Library
begin

text \<open>
  The six registries of the library under threads: each layout is one of \<open>shared_layout\<close>, so the steps of
  \<open>Cfe_Shared\<close> are the functions of its file, and threads that register, deregister, take and drop
  references are safe, make progress and are linearizable. The registries of the file formats have a
  default, the newest version.
\<close>

subsection \<open>The default of a list\<close>

definition newer :: "(addr \<Rightarrow> ('v::linorder) option) \<Rightarrow> addr \<Rightarrow> addr \<Rightarrow> addr" where
  "newer ver t d = (if d = NULL \<or> the (ver d) < the (ver t) then t else d)"

definition newest_of :: "(addr \<Rightarrow> ('v::linorder) option) \<Rightarrow> addr list \<Rightarrow> addr" where
  "newest_of ver xs = fold (newer ver) xs NULL"

definition no_default :: "(addr \<Rightarrow> 'k option) \<Rightarrow> addr list \<Rightarrow> addr" where
  "no_default ver xs = NULL"

lemma newest_of_listed: "newest_of ver xs = NULL \<or> newest_of ver xs \<in> set xs"
proof (induction xs rule: rev_induct)
  case (snoc t xs)
  then show ?case by (auto simp: newest_of_def newer_def)
qed (simp add: newest_of_def)

lemma newest_of_default: "NULL \<notin> set xs \<Longrightarrow> default_ok ver (newest_of ver xs) xs"
proof (induction xs rule: rev_induct)
  case Nil
  then show ?case by (simp add: newest_of_def default_ok_def)
next
  case (snoc t xs)
  then have d: "default_ok ver (newest_of ver xs) xs" by simp
  have s: "newest_of ver (xs @ [t]) = newer ver t (newest_of ver xs)" by (simp add: newest_of_def)
  show ?case
  proof (cases "newest_of ver xs = NULL")
    case True
    then show ?thesis using default_ok_first [of ver xs t] d snoc.prems s by (simp add: newer_def)
  next
    case False
    then show ?thesis using default_ok_snoc [OF d False, of t] s by (simp add: newer_def)
  qed
qed

lemma default_ok_newest:
  assumes "default_ok ver d xs" and "distinct (map ver xs)" and "\<forall>t \<in> set xs. ver t \<noteq> None" and "NULL \<notin> set xs"
  shows "d = newest_of ver xs"
proof (cases "xs = []")
  case False
  let ?e = "newest_of ver xs"
  have "default_ok ver ?e xs" using newest_of_default assms(4) by blast
  then have "d \<in> set xs" "?e \<in> set xs" "the (ver d) = the (ver ?e)"
    using assms(1) False by (auto simp: default_ok_def intro: antisym)
  then have "ver d = ver ?e" using assms(3) by (metis option.expand)
  then show ?thesis using assms(2) \<open>d \<in> set xs\<close> \<open>?e \<in> set xs\<close> by (auto simp: distinct_map inj_on_def)
qed (use assms(1) in \<open>simp add: default_ok_def newest_of_def\<close>)

subsection \<open>The six layouts\<close>

lemma unpinned_layout:
  assumes "type_layout L" and "\<And>w t. \<not> ly_pinned L w t"
  shows "shared_layout L (\<lambda>_. NULL) no_default"
  using assms by (auto simp: shared_layout_def shared_layout_axioms_def no_default_def)

interpretation pbkdf_sh: shared_layout pbkdf_layout "\<lambda>_. NULL" no_default
  by (rule unpinned_layout [OF pbkdf_lay.type_layout_axioms]) (simp add: pbkdf_layout_def)

interpretation rand_sh: shared_layout rand_layout "\<lambda>_. NULL" no_default
  by (rule unpinned_layout [OF rand_lay.type_layout_axioms]) (simp add: rand_layout_def)

interpretation hash_sh: shared_layout hash_layout "\<lambda>_. NULL" no_default
  by (rule unpinned_layout [OF hash_lay.type_layout_axioms]) (simp add: hash_layout_def)

interpretation cipher_sh: shared_layout cipher_layout "\<lambda>_. NULL" no_default
  by (rule unpinned_layout [OF cipher_lay.type_layout_axioms]) (simp add: cipher_layout_def)

lemma newest_layout:
  assumes "type_layout L" and "\<And>w t. ly_pinned L w t = (d w = t)"
    and "\<And>w xs. ly_inv L w xs = default_ok (tmpl_key L w) (d w) xs"
  shows "shared_layout L d newest_of"
proof -
  have "d w = newest_of (tmpl_key L w) xs" if "ly_inv L w xs" "reg_ok L (ly_get L w) xs" for w xs
    by (rule default_ok_newest) (use that assms(3) reg_ok_nonnull [OF that(2)] in \<open>auto simp: reg_ok_def tmpl_key_def\<close>)
  then show ?thesis
    using assms(1,2) by (intro shared_layout.intro shared_layout_axioms.intro newest_of_listed) simp_all
qed

interpretation header_sh: shared_layout header_layout header_default newest_of
  by (rule newest_layout [OF header_lay.type_layout_axioms])
    (simp_all add: tmpl_key_def header_key_eq, simp_all add: header_layout_def header_default_ok_def)

interpretation writer_sh: shared_layout writer_layout writer_default newest_of
  by (rule newest_layout [OF writer_lay.type_layout_axioms])
    (simp_all add: tmpl_key_def writer_key_eq, simp_all add: writer_layout_def writer_default_ok_def)

subsection \<open>The steps are the functions of the six files\<close>

text \<open>What a thread that no other interleaves with computes, and the functions written out from the source.\<close>

lemma steps_are_operations:
  "runs_alone 6 pbkdf_layout d (op_start op) w =
    reg_step cfe_pbkdf_register cfe_pbkdf_unregister (tmpl_acquire pbkdf_layout) (tmpl_release pbkdf_layout) op w"
  "runs_alone 6 rand_layout d (op_start op) w =
    reg_step cfe_rand_register cfe_rand_unregister (tmpl_acquire rand_layout) (tmpl_release rand_layout) op w"
  "runs_alone 6 hash_layout d (op_start op) w =
    reg_step cfe_hash_register cfe_hash_unregister (tmpl_acquire hash_layout) (tmpl_release hash_layout) op w"
  "runs_alone 6 cipher_layout d (op_start op) w =
    reg_step cfe_cipher_register cfe_cipher_unregister cfe_cipher_ref (tmpl_release cipher_layout) op w"
  "runs_alone 6 header_layout d (op_start op') w =
    reg_step cfe_header_register cfe_header_unregister (tmpl_acquire header_layout) (tmpl_release header_layout) op' w"
  "runs_alone 6 writer_layout d (op_start op'') w =
    reg_step cfe_filewriter_register cfe_filewriter_unregister (tmpl_acquire writer_layout) (tmpl_release writer_layout) op'' w"
  unfolding cfe_pbkdf_register_eq cfe_pbkdf_unregister_eq cfe_rand_register_eq cfe_rand_unregister_eq
    cfe_hash_register_eq cfe_hash_unregister_eq cfe_cipher_register_eq cfe_cipher_unregister_eq cfe_cipher_ref_eq
    cfe_header_register_eq cfe_header_unregister_eq cfe_filewriter_register_eq cfe_filewriter_unregister_eq
  by (rule type_layout.shared_alone, rule pbkdf_lay.type_layout_axioms rand_lay.type_layout_axioms
      hash_lay.type_layout_axioms cipher_lay.type_layout_axioms header_lay.type_layout_axioms
      writer_lay.type_layout_axioms)+

text \<open>A header is created on the type that the steps of an acquisition select, by version or by default.\<close>

definition header_on_type :: "env \<Rightarrow> int \<Rightarrow> size_t \<Rightarrow> addr \<Rightarrow> world \<Rightarrow> (addr \<times> world) option" where
  "header_on_type E fd sz type w =
     (if type = NULL then Some (NULL, w\<lparr>errno := ENOSYS\<rparr>)
      else do {
        ty \<leftarrow> rg_types (w_header w) type;
        f \<leftarrow> hdt_alloc ty;
        (header, w) \<leftarrow> call_header_alloc E f fd (ucast (normalize_headersize E (ucast sz))) w;
        if header = NULL then do {
          w \<leftarrow> on_header (reg_store type (hdt_refcnt_update cfe_atomic_dec)) w;
          Some (NULL, w)
        }
        else do {
          h \<leftarrow> w_headers w header;
          Some (header, w\<lparr>w_headers := (w_headers w)(header \<mapsto> h\<lparr>hd_type := type\<rparr>)\<rparr>)
        }
      })"

definition version_wanted :: "int \<Rightarrow> uint16 option" where
  "version_wanted version = (if version = CFE_HEADER_VERSION_DEFAULT then None else Some (of_int version))"

lemma header_create_steps:
  "cfe_header_create E version fd sz w = do {
     (r, w) \<leftarrow> runs_alone 6 header_layout header_default (S_acq_lock (version_wanted version)) w;
     case r of Type type \<Rightarrow> header_on_type E fd sz type w | _ \<Rightarrow> None
   }"
proof -
  have f: "look_up header_layout header_default (version_wanted version) =
      (\<lambda>w. if version = CFE_HEADER_VERSION_DEFAULT then Some (header_default w) else cfe_header_find (of_int version) w)"
    by (simp add: fun_eq_iff look_up_def version_wanted_def cfe_header_find_eq)
  show ?thesis
    unfolding type_layout.s_alone_acquire [OF header_lay.type_layout_axioms] f cfe_header_create_def header_on_type_def
      on_reg_def
    by (simp add: header_layout_def Let_def cong: if_cong)
qed

subsection \<open>From the load image\<close>

lemma load_at_rest:
  assumes "ly_get L w = load_registry head (ly_off L) objs" and "NULL \<notin> fst ` set objs"
    and "\<And>t. t \<in> fst ` set objs \<Longrightarrow> t + ly_off L \<noteq> head" and "ly_inv L w []"
    and "\<And>t ty. map_of objs t = Some ty \<Longrightarrow> ly_refcnt L ty = 0"
  shows "shared_at_rest L [] w"
  using load_registry_ok [of objs L head] assms
  by (auto simp: shared_at_rest_def tmpl_repr_def tmpl_refs_def cfe_atomic_get_def)

lemma header_demo_rest: "shared_at_rest header_layout [] header_demo"
proof (rule load_at_rest [where head = 80 and objs = "[(20480, header_v1_type)]"])
  show "ly_inv header_layout header_demo []"
    by (simp add: header_layout_def header_default_ok_def default_ok_def header_demo_def blank_world_def)
qed (auto simp: header_layout_def header_demo_def HEADER_NEXT_def header_v1_type_def split: if_splits)

lemma cipher_demo_rest: "shared_at_rest cipher_layout [] cipher_demo"
  by (rule load_at_rest [where head = 64 and objs = "cipher_statics demo_env"])
    (use cipher_demo_image in \<open>auto simp: cipher_layout_def cipher_statics_def cipher_statics_defs split: if_splits\<close>)

lemma hash_demo_rest: "shared_at_rest hash_layout [] hash_demo"
  by (rule load_at_rest [where head = 48 and objs = "hash_statics demo_env"])
    (use hash_demo_image in \<open>auto simp: hash_layout_def hash_statics_def openssl_type_sha1_def
      openssl_type_sha224_def openssl_type_sha256_def openssl_type_sha384_def openssl_type_sha512_def split: if_splits\<close>)

lemma layout_views [simp]:
  "ly_get header_layout w = w_header w" "ly_canon header_layout = (\<lambda>n. n)"
  "tmpl_key header_layout w = header_version (w_header w)"
  "ly_get cipher_layout w = w_cipher w" "ly_get hash_layout w = w_hash w"
  by (simp_all add: tmpl_key_def header_key_eq) (simp_all add: header_layout_def cipher_layout_def hash_layout_def)

text \<open>Thread 0 registers the first cipher, then thread 1 takes a reference to it.\<close>

lemma cipher_demo_history:
  "\<exists>h ts v. shared_history cipher_layout (\<lambda>_. NULL) 2 cipher_demo h (ts, [8192], v)"
proof -
  let ?H = "shared_history cipher_layout (\<lambda>_. NULL) 2 cipher_demo" and ?n = "''aes-cbc-128''"
  have k: "tmpl_key cipher_layout cipher_demo 8192 = Some (cstr ?n)"
    by (simp add: tmpl_key_def reg_key_def cipher_demo_image cipher_statics_def cipher_statics_defs)
      (simp add: cipher_layout_def cstr_def)
  have "?H [] ([S_idle, S_idle], [], cipher_demo)"
    using shared_history.start [of cipher_layout "\<lambda>_. NULL" 2 cipher_demo] by (simp add: numeral_2_eq_2)
  from shared_history.call [OF this, of 0 "Op (Register 8192)"]
  have "?H [Calls 0 (Op (Register 8192))] ([S_reg_check 8192, S_idle], [], cipher_demo)"
    using reg_ok_key_dom [of cipher_layout "w_cipher cipher_demo" 8192] k by (simp add: tmpl_key_def)
  moreover have r: "tmpl_repr cipher_layout cipher_demo []" using cipher_demo_rest by (simp add: shared_at_rest_def)
  obtain w1 where w1: "cfe_cipher_register 8192 cipher_demo = Some (0, w1)" "tmpl_repr cipher_layout w1 [8192]"
      "tmpl_key cipher_layout w1 = tmpl_key cipher_layout cipher_demo" "tmpl_refs cipher_layout w1 8192 = Some 1"
    using cipher.register_new [OF r k] by auto
  then have "runs_alone 6 cipher_layout (\<lambda>_. NULL) (S_reg_check 8192) cipher_demo = Some (Code 0, w1)"
    using steps_are_operations(4) [of "\<lambda>_. NULL" "Register 8192" cipher_demo] by simp
  ultimately obtain h1 u1 where u1: "?H h1 ([S_idle, S_idle], [], u1)"
      "\<exists>e. w1 = (case e of None \<Rightarrow> u1 | Some n \<Rightarrow> u1\<lparr>errno := n\<rparr>)"
    using history_alone [of cipher_layout "\<lambda>_. NULL" 2 cipher_demo _ "[S_reg_check 8192, S_idle]" _ _ 0 6] by force
  then have r1: "tmpl_repr cipher_layout u1 [8192]" "tmpl_key cipher_layout u1 8192 = Some (cstr ?n)"
      "tmpl_refs cipher_layout u1 8192 = Some 1"
    using w1(2-4) k by (auto simp: cipher.repr_errno cipher.keyof_errno cipher.refs_errno split: option.splits)
  obtain w2 where "cfe_cipher_ref ?n u1 = Some (8192, w2)"
    using cipher.acquire_found [OF r1(1) _ r1(2,3)] by auto
  then have a: "runs_alone 6 cipher_layout (\<lambda>_. NULL) (S_acq_lock (Some ?n)) u1 = Some (Type 8192, w2)"
    using steps_are_operations(4) [of "\<lambda>_. NULL" "Acquire ?n" u1] by simp
  from shared_history.call [OF u1(1), of 1 "Op (Acquire ?n)"]
  have "?H (h1 @ [Calls 1 (Op (Acquire ?n))]) ([S_idle, S_acq_lock (Some ?n)], [], u1)" by simp
  then show ?thesis
    using history_alone [of cipher_layout "\<lambda>_. NULL" 2 cipher_demo _ "[S_idle, S_acq_lock (Some ?n)]" _ _ 1 6] a by fastforce
qed

text \<open>On the load image of the headers, thread 0 registers version 1 while thread 1 has not begun.\<close>

lemma header_demo_history:
  "\<exists>v e. shared_history header_layout header_default 2 header_demo
    [Calls 0 (Op (Register 20480)), Answers 0 (Code 0) e] ([S_idle, S_idle], [], v)"
proof -
  let ?H = "shared_history header_layout header_default 2 header_demo"
  have k: "tmpl_key header_layout header_demo 20480 = Some 1"
    by (simp add: header_version_def header_demo_def header_v1_type_def)
  have "?H [] ([S_idle, S_idle], [], header_demo)"
    using shared_history.start [of header_layout header_default 2 header_demo] by (simp add: numeral_2_eq_2)
  from shared_history.call [OF this, of 0 "Op (Register 20480)"]
  have "?H [Calls 0 (Op (Register 20480))] ([S_reg_check 20480, S_idle], [], header_demo)"
    using k by (auto simp: header_version_def)
  moreover have "tmpl_repr header_layout header_demo []" using header_demo_rest by (simp add: shared_at_rest_def)
  then obtain w1 where "cfe_header_register 20480 header_demo = Some (0, w1)"
    using header.register_new [OF _ k, of "[]"] by auto
  then have "runs_alone 6 header_layout header_default (S_reg_check 20480) header_demo = Some (Code 0, w1)"
    using steps_are_operations(5) [of header_default "Register 20480" header_demo] by simp
  ultimately show ?thesis
    using history_alone [of header_layout header_default 2 header_demo _ "[S_reg_check 20480, S_idle]" _ _ 0 6] by fastforce
qed

text \<open>On that of the digests, thread 0 is to register a type, thread 1 to take a reference.\<close>

definition hash_demo_threads :: "string shared_pc list" where
  "hash_demo_threads = [S_reg_check 4096, S_acq_lock (Some ''sha1'')]"

lemma hash_demo_history: "\<exists>h. shared_history hash_layout (\<lambda>_. NULL) 2 hash_demo h (hash_demo_threads, [], hash_demo)"
proof -
  let ?H = "shared_history hash_layout (\<lambda>_. NULL) 2 hash_demo"
  have "?H [] ([S_idle, S_idle], [], hash_demo)"
    using shared_history.start [of hash_layout "\<lambda>_. NULL" 2 hash_demo] by (simp add: numeral_2_eq_2)
  from shared_history.call [OF this, of 0 "Op (Register 4096)"]
  have "?H [Calls 0 (Op (Register 4096))] ([S_reg_check 4096, S_idle], [], hash_demo)"
    by (simp add: hash_demo_image hash_statics_def domI)
  from shared_history.call [OF this, of 1 "Op (Acquire ''sha1'')"] show ?thesis
    by (auto simp: hash_demo_threads_def)
qed

subsection \<open>Properties\<close>

text \<open>C8: The registries of the file formats are linearizable, default included: whatever calls any number of
  threads make of the header registry (register, deregister, take a reference by version or to the default,
  drop a reference) and however their steps interleave, the calls and answers they observe, in that order, are
  those of threads whose calls take effect at one instant on a plain list of types with counts, where the
  default is the newest version of the list; and the list, the counts and the default in memory are
  those of that list.\<close>

theorem header_threads_linearize:
  assumes "shared_at_rest header_layout xs w" and "shared_history header_layout header_default n w h (ts, hs, v)"
  shows "\<exists>s. instant_history (header_version (w_header w)) (\<lambda>n. n) newest_of n (spec_start xs) h (map instant_of ts, s) \<and>
    reg_ok header_layout (w_header v) (sp_types s) \<and>
    header_default v = newest_of (header_version (w_header w)) (sp_types s) \<and>
    (\<forall>t \<in> set (sp_types s). tmpl_refs header_layout v t = Some (of_nat (sp_refs s t)))"
  using header_sh.shared_linearizes [OF assms] by simp

theorem header_threads_linearize_witness:
  "\<exists>s e. instant_history (header_version (w_header header_demo)) (\<lambda>n. n) newest_of 2 (spec_start [])
    [Calls 0 (Op (Register 20480)), Answers 0 (Code 0) e] ([I_idle, I_idle], s)"
proof -
  obtain v e where h: "shared_history header_layout header_default 2 header_demo
    [Calls 0 (Op (Register 20480)), Answers 0 (Code 0) e] ([S_idle, S_idle], [], v)"
    using header_demo_history by blast
  show ?thesis using header_threads_linearize [OF header_demo_rest h] by auto
qed

text \<open>C9: However threads that share the cipher registry interleave, a type to which a context, a writer or a
  thread has a reference is registered and no thread is about to take it off the list; each registered type's
  counter is one more than the number of references to it; the list stays well formed and free of
  duplicate names; and a thread that holds the lock for writing is the only one inside.\<close>

theorem cipher_threads_safe:
  assumes "shared_at_rest cipher_layout xs w" and "shared_history cipher_layout (\<lambda>_. NULL) n w h (ts, hs, v)"
  shows "\<exists>ys. reg_ok cipher_layout (w_cipher v) ys \<and>
    (\<forall>t \<in> set ys. tmpl_refs cipher_layout v t = Some (of_nat (Suc (count_list hs t + count_pc (s_holding t) ts)))) \<and>
    (\<forall>t. t \<noteq> NULL \<longrightarrow> t \<in> set hs \<or> (\<exists>pc \<in> set ts. s_holding t pc) \<longrightarrow> t \<in> set ys \<and> S_unreg_del t \<notin> set ts) \<and>
    (\<forall>i < length ts. \<forall>j < length ts. s_writing (ts ! i) \<longrightarrow> s_writing (ts ! j) \<or> s_reading (ts ! j) \<longrightarrow> i = j)"
  using cipher_sh.shared_safe [OF assms] unfolding layout_views by blast

theorem cipher_threads_safe_witness:
  "\<exists>h ts v ys. shared_history cipher_layout (\<lambda>_. NULL) 2 cipher_demo h (ts, [8192], v) \<and> 8192 \<in> set ys \<and>
    reg_ok cipher_layout (w_cipher v) ys \<and> S_unreg_del 8192 \<notin> set ts"
proof -
  obtain h ts v where h: "shared_history cipher_layout (\<lambda>_. NULL) 2 cipher_demo h (ts, [8192], v)"
    using cipher_demo_history by blast
  obtain ys where ys: "reg_ok cipher_layout (w_cipher v) ys"
    "\<forall>t. t \<noteq> NULL \<longrightarrow> t \<in> set [8192] \<or> (\<exists>pc \<in> set ts. s_holding t pc) \<longrightarrow> t \<in> set ys \<and> S_unreg_del t \<notin> set ts"
    using cipher_threads_safe [OF cipher_demo_rest h] by blast
  from ys(2) [rule_format, of 8192] have "8192 \<in> set ys" "S_unreg_del 8192 \<notin> set ts" by simp_all
  then show ?thesis using h ys(1) by blast
qed

text \<open>C10: Threads that share the digest registry never reach an undefined step and never block each other for good:
  a thread in a call can make its step unless it waits for the lock; when no new calls begin, the threads make
  at most six steps each, in whatever order, and when no step is left every call has its answer and the
  lock is free.\<close>

theorem hash_threads_progress:
  assumes "shared_at_rest hash_layout xs w" and "shared_history hash_layout (\<lambda>_. NULL) n w h (ts, hs, v)"
  shows "(\<forall>pc \<in> set ts. pc \<noteq> S_idle \<longrightarrow> \<not> has_returned pc \<longrightarrow>
      (shared_step hash_layout (\<lambda>_. NULL) pc v = None \<longleftrightarrow> s_waits (rg_lock (w_hash v)) pc)) \<and>
    (\<forall>k us u. (shared_advance hash_layout (\<lambda>_. NULL) ^^ k) (ts, v) (us, u) \<longrightarrow> k \<le> 6 * length ts \<and>
      ((\<nexists>x. shared_advance hash_layout (\<lambda>_. NULL) (us, u) x) \<longrightarrow>
        (\<forall>pc \<in> set us. pc = S_idle \<or> has_returned pc) \<and> rg_lock (w_hash u) = Unlocked))"
  using hash_sh.shared_progress [OF assms] by (simp only: layout_views)

theorem hash_threads_progress_witness:
  "shared_step hash_layout (\<lambda>_. NULL) (S_acq_lock (Some ''sha1'')) hash_demo \<noteq> None \<and>
    \<not> (\<exists>k us u. 12 < k \<and> (shared_advance hash_layout (\<lambda>_. NULL) ^^ k) (hash_demo_threads, hash_demo) (us, u))"
proof -
  obtain h where h: "shared_history hash_layout (\<lambda>_. NULL) 2 hash_demo h (hash_demo_threads, [], hash_demo)"
    using hash_demo_history by blast
  note P = hash_threads_progress [OF hash_demo_rest h]
  have "S_acq_lock (Some ''sha1'') \<in> set hash_demo_threads" "length hash_demo_threads = 2"
    "rg_lock (w_hash hash_demo) = Unlocked"
    by (simp_all add: hash_demo_threads_def hash_demo_image)
  then show ?thesis using P [THEN conjunct1] P [THEN conjunct2] by fastforce
qed

text \<open>In each of the six registries, a thread that no other interleaves with, run step by step, computes exactly the
  functions that register and deregister, and of the ciphers those that take and drop a reference (in the
  other registries, where the file has no such functions, the common shape), with the same result,
  errno and registry, and undefined where they are; and cfe_header_create is the steps that take the
  reference, to the default type for version -1, followed by the allocation.\<close>

theorem registry_steps_alone:
  "runs_alone 6 pbkdf_layout d (op_start op) w =
      reg_step cfe_pbkdf_register cfe_pbkdf_unregister (tmpl_acquire pbkdf_layout) (tmpl_release pbkdf_layout) op w \<and>
    runs_alone 6 rand_layout d (op_start op) w =
      reg_step cfe_rand_register cfe_rand_unregister (tmpl_acquire rand_layout) (tmpl_release rand_layout) op w \<and>
    runs_alone 6 hash_layout d (op_start op) w =
      reg_step cfe_hash_register cfe_hash_unregister (tmpl_acquire hash_layout) (tmpl_release hash_layout) op w \<and>
    runs_alone 6 cipher_layout d (op_start op) w =
      reg_step cfe_cipher_register cfe_cipher_unregister cfe_cipher_ref
        (\<lambda>t. if t = NULL then tmpl_release cipher_layout t else cfe_cipher_put t) op w \<and>
    runs_alone 6 header_layout d (op_start op') w =
      reg_step cfe_header_register cfe_header_unregister (tmpl_acquire header_layout) (tmpl_release header_layout) op' w \<and>
    runs_alone 6 writer_layout d (op_start op'') w =
      reg_step cfe_filewriter_register cfe_filewriter_unregister (tmpl_acquire writer_layout) (tmpl_release writer_layout) op'' w \<and>
    cfe_header_create E version fd sz w = do {
      (r, w) \<leftarrow> runs_alone 6 header_layout header_default (S_acq_lock (version_wanted version)) w;
      case r of Type type \<Rightarrow> header_on_type E fd sz type w | _ \<Rightarrow> None
    }"
proof -
  have put: "(\<lambda>t. if t = NULL then tmpl_release cipher_layout t else cfe_cipher_put t) = tmpl_release cipher_layout"
    by (auto simp: fun_eq_iff cfe_cipher_put_eq)
  show ?thesis unfolding put by (intro conjI steps_are_operations header_create_steps)
qed

end
