(* ===== verification/Cfe_Keystore_Threads.thy ===== *)
theory Cfe_Keystore_Threads
  imports Cfe_Keystore Cfe_Shared
begin

text \<open>
  Threads that share the Core Foundation key store. The three functions of \<^verbatim>\<open>src/keystore-darwin.c\<close> are
  cut where they touch the dictionary and its lock, and the steps of any number of threads interleave.
  What the threads observe is also observed of threads whose calls take effect at one instant on a map
  from descriptions to payloads.
\<close>

subsection \<open>The functions, cut into steps\<close>

datatype store_call =
    Add_key "string option" "bytes option" size_t
  | Remove_key "string option"
  | Read_key "string option" bool "size_t option"

text \<open>The return code; of a read also the bytes written to the buffer, and \<open>*len\<close>.\<close>

datatype store_answer = Added int | Removed | Was_read int bytes "size_t option"

text \<open>Where a thread is, with its local variables: the string, the data object that it made or retained.\<close>

datatype store_pc =
    K_idle
  | K_returned store_answer "int option"
  | K_add_check "string option" "bytes option" size_t
  | K_add_lock string bytes | K_add_clear string bytes | K_add_put string bytes | K_add_unlock
  | K_rem_check "string option" | K_rem_lock string | K_rem_clear string | K_rem_unlock
  | K_read_check "string option" bool "size_t option"
  | K_read_lock string bool size_t | K_read_get string bool size_t
  | K_read_unlock bool size_t "bytes option" | K_read_copy bool size_t "bytes option"

fun store_start :: "store_call \<Rightarrow> store_pc" where
  "store_start (Add_key d p n) = K_add_check d p n"
| "store_start (Remove_key d) = K_rem_check d"
| "store_start (Read_key d b n) = K_read_check d b n"

fun store_step ::
  "env \<Rightarrow> ('s, 'd) ks_env \<Rightarrow> store_pc \<Rightarrow> ('s, 'd) ks_state \<Rightarrow> (store_pc \<times> ('s, 'd) ks_state) option" where
  "store_step E K K_idle s = None"
| "store_step E K (K_returned a e) s = None"
| "store_step E K (K_add_check desc payload len) s =
     Some (case (desc, payload) of
         (Some d, Some p) \<Rightarrow>
           if len = 0 then K_returned (Added 1) (Some EINVAL)
           else if \<not> cf_string_ok K d then K_returned (Added 1) (Some ENOMEM)
           else if \<not> cf_data_ok K (take (unat len) p) then K_returned (Added 1) (Some ENOMEM)
           else K_add_lock d (take (unat len) p)
       | _ \<Rightarrow> K_returned (Added 1) (Some EINVAL), s)"
| "store_step E K (K_add_lock d p) s = do {
     s \<leftarrow> on_store_lock rwlock_wrlock s;
     Some (K_add_clear d p, s)
   }"
| "store_step E K (K_add_clear d p) s = do {
     store \<leftarrow> ks_store s;
     Some (K_add_put d p, s\<lparr>ks_store := Some (cf_remove K store d)\<rparr>)
   }"
| "store_step E K (K_add_put d p) s = do {
     store \<leftarrow> ks_store s;
     Some (K_add_unlock, s\<lparr>ks_store := Some (cf_add K store d p)\<rparr>)
   }"
| "store_step E K K_add_unlock s = do {
     s \<leftarrow> on_store_lock rwlock_unlock s;
     Some (K_returned (Added 0) None, s)
   }"
| "store_step E K (K_rem_check desc) s =
     Some (case desc of
         None \<Rightarrow> (K_returned Removed None,
           s\<lparr>ks_w := cfe_log_notice E ''%s(): empty description'' [''ks_darwin_remove_key''] (ks_w s)\<rparr>)
       | Some d \<Rightarrow> (K_rem_lock d,
           if \<not> cf_string_ok K d
           then s\<lparr>ks_w := cfe_log_warning E
             ''%s(): CFStringCreateWithCString failed. Key '%s' will NOT be deleted''
             [''ks_darwin_remove_key'', d] (ks_w s)\<rparr>
           else s))"
| "store_step E K (K_rem_lock d) s = do {
     s \<leftarrow> on_store_lock rwlock_wrlock s;
     Some (K_rem_clear d, s)
   }"
| "store_step E K (K_rem_clear d) s = do {
     store \<leftarrow> ks_store s;
     if cf_string_ok K d then Some (K_rem_unlock, s\<lparr>ks_store := Some (cf_remove K store d)\<rparr>) else None
   }"
| "store_step E K K_rem_unlock s = do {
     s \<leftarrow> on_store_lock rwlock_unlock s;
     Some (K_returned Removed None, s)
   }"
| "store_step E K (K_read_check desc b len) s =
     Some (case (desc, len) of
         (Some d, Some n) \<Rightarrow>
           if \<not> cf_string_ok K d then K_returned (Was_read 1 [] len) (Some ENOMEM) else K_read_lock d b n
       | _ \<Rightarrow> K_returned (Was_read 1 [] len) (Some EINVAL), s)"
| "store_step E K (K_read_lock d b n) s = do {
     s \<leftarrow> on_store_lock rwlock_rdlock s;
     Some (K_read_get d b n, s)
   }"
| "store_step E K (K_read_get d b n) s = do {
     store \<leftarrow> ks_store s;
     Some (K_read_unlock b n (cf_get K store d), s)
   }"
| "store_step E K (K_read_unlock b n data) s = do {
     s \<leftarrow> on_store_lock rwlock_unlock s;
     Some (K_read_copy b n data, s)
   }"
| "store_step E K (K_read_copy b n data) s =
     Some (case data of
         None \<Rightarrow> K_returned (Was_read 1 [] (Some n)) (Some ENOENT)
       | Some p \<Rightarrow>
           if n < of_nat (length p) then K_returned (Was_read 1 [] (Some n)) (Some ENOSPC)
           else K_returned (Was_read 0 (if b then [] else p) (Some (of_nat (length p)))) None, s)"

subsection \<open>One thread alone\<close>

fun k_returned :: "store_pc \<Rightarrow> bool" where
  "k_returned (K_returned a e) = True"
| "k_returned pc = False"

fun store_answer_of :: "store_pc \<times> ('s, 'd) ks_state \<Rightarrow> (store_answer \<times> ('s, 'd) ks_state) option" where
  "store_answer_of (K_returned a e, s) = Some (a, case e of None \<Rightarrow> s | Some n \<Rightarrow> ks_errno n s)"
| "store_answer_of (pc, s) = None"

primrec store_alone ::
  "nat \<Rightarrow> env \<Rightarrow> ('s, 'd) ks_env \<Rightarrow> store_pc \<Rightarrow> ('s, 'd) ks_state \<Rightarrow> (store_answer \<times> ('s, 'd) ks_state) option" where
  "store_alone 0 E K pc s = store_answer_of (pc, s)"
| "store_alone (Suc n) E K pc s =
     (if k_returned pc then store_answer_of (pc, s)
      else do { (pc, s) \<leftarrow> store_step E K pc s; store_alone n E K pc s })"

lemma store_alone_returned [simp]:
  "store_alone n E K (K_returned a e) s = Some (a, case e of None \<Rightarrow> s | Some n \<Rightarrow> ks_errno n s)"
  by (cases n) simp_all

lemma on_store_lock_frame:
  "on_store_lock f s = Some s' \<longleftrightarrow> (\<exists>l. f (ks_store_lock s) = Some l \<and> s' = s\<lparr>ks_store_lock := l\<rparr>)"
  by (auto simp: on_store_lock_def)

lemma alone_adds:
  "store_alone 5 E K (K_add_check d p n) s = map_option (\<lambda>(r, s). (Added r, s)) (ks_darwin_add_key K d p n s)"
proof -
  have "store_alone (Suc (Suc (Suc (Suc (Suc 0))))) E K (K_add_check d p n) s =
      map_option (\<lambda>(r, s). (Added r, s)) (ks_darwin_add_key K d p n s)"
    by (cases d; cases p)
      (auto simp: ks_darwin_add_key_def Let_def on_store_lock_def option.map_comp comp_def map_option_bind bind_map_option
        split: bind_splits)
  then show ?thesis by (simp add: eval_nat_numeral)
qed

lemma alone_removes:
  "store_alone 5 E K (K_rem_check d) s = map_option (\<lambda>s. (Removed, s)) (ks_darwin_remove_key E K d s)"
proof -
  have "store_alone (Suc (Suc (Suc (Suc (Suc 0))))) E K (K_rem_check d) s =
      map_option (\<lambda>s. (Removed, s)) (ks_darwin_remove_key E K d s)"
    by (cases d)
      (auto simp: ks_darwin_remove_key_def Let_def on_store_lock_def option.map_comp comp_def map_option_bind bind_map_option
        split: bind_splits)
  then show ?thesis by (simp add: eval_nat_numeral)
qed

lemma alone_reads:
  "store_alone 5 E K (K_read_check d b n) s =
     map_option (\<lambda>(r, p, n, s). (Was_read r p n, s)) (ks_darwin_read_key K d b n s)"
proof -
  have "store_alone (Suc (Suc (Suc (Suc (Suc 0))))) E K (K_read_check d b n) s =
      map_option (\<lambda>(r, p, n, s). (Was_read r p n, s)) (ks_darwin_read_key K d b n s)"
    by (cases d; cases n)
      (auto simp: ks_darwin_read_key_def Let_def on_store_lock_def option.map_comp comp_def map_option_bind bind_map_option
        split: bind_splits option.splits)
  then show ?thesis by (simp add: eval_nat_numeral)
qed

subsection \<open>Histories\<close>

datatype store_event = Store_call nat store_call | Store_answer nat store_answer "int option"

text \<open>
  What a caller has to respect: a payload is as long as the size says, and a key is removed only under a
  description of which a string can be made.
\<close>

fun store_call_ok :: "('s, 'd) ks_env \<Rightarrow> store_call \<Rightarrow> bool" where
  "store_call_ok K (Add_key d p n) = (case p of None \<Rightarrow> True | Some p \<Rightarrow> length p = unat n)"
| "store_call_ok K (Remove_key d) = (case d of None \<Rightarrow> True | Some d \<Rightarrow> cf_string_ok K d)"
| "store_call_ok K (Read_key d b n) = True"

inductive store_history ::
  "env \<Rightarrow> ('s, 'd) ks_env \<Rightarrow> nat \<Rightarrow> ('s, 'd) ks_state \<Rightarrow> store_event list \<Rightarrow>
    store_pc list \<times> ('s, 'd) ks_state \<Rightarrow> bool"
  for E K n s\<^sub>0 where
  start: "store_history E K n s\<^sub>0 [] (replicate n K_idle, s\<^sub>0)"
| call: "store_history E K n s\<^sub>0 h (ts, s) \<Longrightarrow> i < length ts \<Longrightarrow> ts ! i = K_idle \<Longrightarrow> store_call_ok K c \<Longrightarrow>
    store_history E K n s\<^sub>0 (h @ [Store_call i c]) (ts[i := store_start c], s)"
| move: "store_history E K n s\<^sub>0 h (ts, s) \<Longrightarrow> i < length ts \<Longrightarrow> store_step E K (ts ! i) s = Some (pc, s') \<Longrightarrow>
    store_history E K n s\<^sub>0 h (ts[i := pc], s')"
| answer: "store_history E K n s\<^sub>0 h (ts, s) \<Longrightarrow> i < length ts \<Longrightarrow> ts ! i = K_returned a e \<Longrightarrow>
    store_history E K n s\<^sub>0 (h @ [Store_answer i a e]) (ts[i := K_idle], s)"

subsection \<open>A map whose operations take one instant\<close>

text \<open>What a read makes of the payload that it found.\<close>

definition read_result :: "bool \<Rightarrow> size_t \<Rightarrow> bytes option \<Rightarrow> store_answer \<times> int option" where
  "read_result b n data =
     (case data of
        None \<Rightarrow> (Was_read 1 [] (Some n), Some ENOENT)
      | Some p \<Rightarrow>
          if unat n < length p then (Was_read 1 [] (Some n), Some ENOSPC)
          else (Was_read 0 (if b then [] else p) (Some (of_nat (length p))), None))"

fun map_op ::
  "('s, 'd) ks_env \<Rightarrow> store_call \<Rightarrow> (string \<rightharpoonup> bytes) \<Rightarrow> (store_answer \<times> int option) \<times> (string \<rightharpoonup> bytes)" where
  "map_op K (Add_key (Some d) (Some p) n) m =
     (if n = 0 then ((Added 1, Some EINVAL), m)
      else if cf_string_ok K d \<and> cf_data_ok K p then ((Added 0, None), m(d \<mapsto> p))
      else ((Added 1, Some ENOMEM), m))"
| "map_op K (Add_key _ _ n) m = ((Added 1, Some EINVAL), m)"
| "map_op K (Remove_key d) m = ((Removed, None), case d of None \<Rightarrow> m | Some d \<Rightarrow> m(d := None))"
| "map_op K (Read_key (Some d) b (Some n)) m =
     (if cf_string_ok K d then read_result b n (m d) else (Was_read 1 [] (Some n), Some ENOMEM), m)"
| "map_op K (Read_key _ b n) m = ((Was_read 1 [] n, Some EINVAL), m)"

datatype map_pc = M_idle | M_called store_call | M_answer "store_answer \<times> int option"

inductive map_history ::
  "('s, 'd) ks_env \<Rightarrow> nat \<Rightarrow> (string \<rightharpoonup> bytes) \<Rightarrow> store_event list \<Rightarrow> map_pc list \<times> (string \<rightharpoonup> bytes) \<Rightarrow> bool"
  for K n m\<^sub>0 where
  start: "map_history K n m\<^sub>0 [] (replicate n M_idle, m\<^sub>0)"
| call: "map_history K n m\<^sub>0 h (as, m) \<Longrightarrow> i < length as \<Longrightarrow> as ! i = M_idle \<Longrightarrow>
    map_history K n m\<^sub>0 (h @ [Store_call i c]) (as[i := M_called c], m)"
| effect: "map_history K n m\<^sub>0 h (as, m) \<Longrightarrow> i < length as \<Longrightarrow> as ! i = M_called c \<Longrightarrow> map_op K c m = (r, m') \<Longrightarrow>
    map_history K n m\<^sub>0 h (as[i := M_answer r], m')"
| answer: "map_history K n m\<^sub>0 h (as, m) \<Longrightarrow> i < length as \<Longrightarrow> as ! i = M_answer (a, e) \<Longrightarrow>
    map_history K n m\<^sub>0 (h @ [Store_answer i a e]) (as[i := M_idle], m)"

subsection \<open>The invariant\<close>

fun k_reading :: "store_pc \<Rightarrow> bool" where
  "k_reading (K_read_get d b n) = True"
| "k_reading (K_read_unlock b n p) = True"
| "k_reading pc = False"

fun k_writing :: "store_pc \<Rightarrow> bool" where
  "k_writing (K_add_clear d p) = True"
| "k_writing (K_add_put d p) = True"
| "k_writing K_add_unlock = True"
| "k_writing (K_rem_clear d) = True"
| "k_writing K_rem_unlock = True"
| "k_writing pc = False"

text \<open>What holds of the local variables.\<close>

abbreviation payload_ok :: "bytes \<Rightarrow> bool" where
  "payload_ok p \<equiv> length p < 2 ^ 64"

fun k_ok :: "('s, 'd) ks_env \<Rightarrow> store_pc \<Rightarrow> bool" where
  "k_ok K (K_add_check d p n) = store_call_ok K (Add_key d p n)"
| "k_ok K (K_add_lock d p) = (cf_string_ok K d \<and> cf_data_ok K p \<and> p \<noteq> [] \<and> payload_ok p)"
| "k_ok K (K_add_clear d p) = (cf_string_ok K d \<and> cf_data_ok K p \<and> p \<noteq> [] \<and> payload_ok p)"
| "k_ok K (K_add_put d p) = (cf_string_ok K d \<and> cf_data_ok K p \<and> p \<noteq> [] \<and> payload_ok p)"
| "k_ok K (K_rem_check d) = store_call_ok K (Remove_key d)"
| "k_ok K (K_rem_lock d) = cf_string_ok K d"
| "k_ok K (K_rem_clear d) = cf_string_ok K d"
| "k_ok K (K_read_lock d b n) = cf_string_ok K d"
| "k_ok K (K_read_get d b n) = cf_string_ok K d"
| "k_ok K (K_read_unlock b n p) = (\<forall>q. p = Some q \<longrightarrow> payload_ok q)"
| "k_ok K (K_read_copy b n p) = (\<forall>q. p = Some q \<longrightarrow> payload_ok q)"
| "k_ok K pc = True"

text \<open>
  The lock agrees with the threads that are inside; the dictionary is the map \<open>m\<close>, but for a key that a
  thread has taken out to put another payload in its place.
\<close>

definition store_ok :: "('s, 'd) ks_env \<Rightarrow> (string \<rightharpoonup> bytes) \<Rightarrow> ('s, 'd) ks_state \<Rightarrow> store_pc list \<Rightarrow> bool" where
  "store_ok K m s ts \<longleftrightarrow>
     lock_agrees (ks_store_lock s) (count_pc k_reading ts) (count_pc k_writing ts) \<and>
     (\<exists>D. ks_store s = Some D \<and> (\<forall>d. cf_get K D d = (if \<exists>p. K_add_put d p \<in> set ts then None else m d))) \<and>
     (\<forall>pc \<in> set ts. k_ok K pc) \<and> (\<forall>d p. m d = Some p \<longrightarrow> payload_ok p)"

text \<open>Only the moving thread matters.\<close>

lemma store_ok_focus:
  assumes "i < length ts"
  shows "store_ok K m s (ts[i := x]) = store_ok K m s (x # take i ts @ drop (Suc i) ts)"
  using assms unfolding store_ok_def upd_conv_take_nth_drop [OF assms]
  by (simp add: add_ac disj_ac conj_ac ball_Un)

lemma store_ok_at:
  "i < length ts \<Longrightarrow> store_ok K m s ts \<Longrightarrow> store_ok K m s (ts ! i # take i ts @ drop (Suc i) ts)"
  using store_ok_focus [of i ts K m s "ts ! i"] by simp

lemma store_okD:
  assumes "store_ok K m s (pc # rest)"
  shows "lock_agrees (ks_store_lock s) (count_pc k_reading rest + of_bool (k_reading pc))
      (count_pc k_writing rest + of_bool (k_writing pc))"
    and "\<exists>D. ks_store s = Some D \<and> (\<forall>d. cf_get K D d = (if \<exists>p. K_add_put d p \<in> set (pc # rest) then None else m d))"
    and "k_ok K pc" and "\<And>q. q \<in> set rest \<Longrightarrow> k_ok K q" and "\<And>d p. m d = Some p \<Longrightarrow> payload_ok p"
  using assms unfolding store_ok_def by (auto simp: add.commute)

lemma store_writer_alone:
  assumes "store_ok K m s (pc # rest)" and "k_writing pc"
  shows "K_add_put d p \<notin> set rest"
  using writer_alone(3) [OF store_okD(1) [OF assms(1)] assms(2), of "K_add_put d p"] by auto

text \<open>A thread inside for reading sees the map.\<close>

lemma store_reader_sees:
  assumes "store_ok K m s (K_read_get d b n # rest)" and "ks_store s = Some D"
  shows "cf_get K D d = m d"
proof -
  have "count_pc k_writing rest = 0"
    using store_okD(1) [OF assms(1)] by (cases "ks_store_lock s") auto
  then have "\<not> (\<exists>p. K_add_put d p \<in> set rest)" unfolding count_pc_0 by auto
  then show ?thesis using store_okD(2) [OF assms(1)] assms(2) by auto
qed

subsection \<open>The simulation\<close>

text \<open>Whether the call of a thread at \<open>pc\<close> has taken effect.\<close>

fun map_of_pc :: "store_pc \<Rightarrow> map_pc" where
  "map_of_pc K_idle = M_idle"
| "map_of_pc (K_returned a e) = M_answer (a, e)"
| "map_of_pc (K_add_check d p n) = M_called (Add_key d p n)"
| "map_of_pc (K_add_lock d p) = M_called (Add_key (Some d) (Some p) (of_nat (length p)))"
| "map_of_pc (K_add_clear d p) = M_called (Add_key (Some d) (Some p) (of_nat (length p)))"
| "map_of_pc (K_add_put d p) = M_called (Add_key (Some d) (Some p) (of_nat (length p)))"
| "map_of_pc K_add_unlock = M_answer (Added 0, None)"
| "map_of_pc (K_rem_check d) = M_called (Remove_key d)"
| "map_of_pc (K_rem_lock d) = M_called (Remove_key (Some d))"
| "map_of_pc (K_rem_clear d) = M_called (Remove_key (Some d))"
| "map_of_pc K_rem_unlock = M_answer (Removed, None)"
| "map_of_pc (K_read_check d b n) = M_called (Read_key d b n)"
| "map_of_pc (K_read_lock d b n) = M_called (Read_key (Some d) b (Some n))"
| "map_of_pc (K_read_get d b n) = M_called (Read_key (Some d) b (Some n))"
| "map_of_pc (K_read_unlock b n p) = M_answer (read_result b n p)"
| "map_of_pc (K_read_copy b n p) = M_answer (read_result b n p)"

lemma map_of_start [simp]: "map_of_pc (store_start c) = M_called c"
  by (cases c) simp_all

definition map_moves :: "('s, 'd) ks_env \<Rightarrow> (string \<rightharpoonup> bytes) \<Rightarrow> store_pc \<Rightarrow> store_pc \<Rightarrow> (string \<rightharpoonup> bytes) \<Rightarrow> bool" where
  "map_moves K m pc pc' m' \<longleftrightarrow> map_of_pc pc' = map_of_pc pc \<and> m' = m \<or>
     (\<exists>c r. map_of_pc pc = M_called c \<and> map_op K c m = (r, m') \<and> map_of_pc pc' = M_answer r)"

fun k_putting :: "store_pc \<Rightarrow> bool" where
  "k_putting (K_add_put d p) = True"
| "k_putting pc = False"

text \<open>A step that leaves the dictionary alone.\<close>

lemma store_ok_same:
  assumes "store_ok K m s (pc # rest)" and "ks_store s' = ks_store s" and "\<not> k_putting pc" "\<not> k_putting pc'"
    and "lock_agrees (ks_store_lock s') (count_pc k_reading rest + of_bool (k_reading pc'))
      (count_pc k_writing rest + of_bool (k_writing pc'))"
    and "k_ok K pc'"
  shows "store_ok K m s' (pc' # rest)"
proof -
  have "K_add_put d p \<noteq> pc" "K_add_put d p \<noteq> pc'" for d p using assms(3,4) by auto
  then show ?thesis using store_okD [OF assms(1)] assms(2,5,6) unfolding store_ok_def by (simp add: add.commute)
qed

text \<open>A step of a writer on the dictionary.\<close>

lemma store_ok_write:
  assumes T: "store_ok K m s (pc # rest)" and w: "k_writing pc" "k_writing pc'" and "ks_store_lock s' = ks_store_lock s"
    and D: "ks_store s' = Some D" "\<And>d. cf_get K D d = (if \<exists>p. pc' = K_add_put d p then None else m' d)"
    and "k_ok K pc'" and "\<And>d p. m' d = Some p \<Longrightarrow> payload_ok p"
  shows "store_ok K m' s' (pc' # rest)"
proof -
  have "\<not> k_reading q" if "k_writing q" for q using that by (cases q) simp_all
  then have "\<not> k_reading pc" "\<not> k_reading pc'" using w by blast+
  moreover have "(\<exists>p. K_add_put d p \<in> set (pc' # rest)) \<longleftrightarrow> (\<exists>p. pc' = K_add_put d p)" for d
    using store_writer_alone [OF T w(1)] by auto
  ultimately show ?thesis
    using store_okD [OF T] assms unfolding store_ok_def by (simp add: add.commute)
qed

lemma store_ok_dict:
  assumes "store_ok K m s (pc # rest)" and "k_writing pc" and "ks_store s = Some D"
  shows "cf_get K D d = (if \<exists>p. pc = K_add_put d p then None else m d)"
  using store_okD(2) [OF assms(1)] store_writer_alone [OF assms(1,2)] assms(3) by auto

text \<open>The thread takes the lock, or gives it back.\<close>

lemma store_ok_locks:
  assumes T: "store_ok K m s (pc # rest)" and l: "f (ks_store_lock s) = Some l"
    and f: "f = rwlock_rdlock \<and> \<not> k_reading pc \<and> k_reading pc' \<and> k_writing pc' = k_writing pc \<or>
      f = rwlock_wrlock \<and> \<not> k_writing pc \<and> k_writing pc' \<and> k_reading pc' = k_reading pc \<or>
      f = rwlock_unlock \<and> k_reading pc \<and> \<not> k_reading pc' \<and> \<not> k_writing pc \<and> \<not> k_writing pc' \<or>
      f = rwlock_unlock \<and> k_writing pc \<and> \<not> k_writing pc' \<and> \<not> k_reading pc \<and> \<not> k_reading pc'"
  shows "lock_agrees l (count_pc k_reading rest + of_bool (k_reading pc')) (count_pc k_writing rest + of_bool (k_writing pc'))"
  using f lock_steps [of "ks_store_lock s"] store_okD(1) [OF T] l by auto

lemma cf_okD:
  assumes "cf_ok K"
  shows "cf_get K (cf_remove K D k) k' = (if k' = k then None else cf_get K D k')"
    and "cf_get K (cf_add K D k v) k' = (if k' = k \<and> cf_get K D k = None then Some v else cf_get K D k')"
  using assms unfolding cf_ok_def by blast+

lemma payload_len:
  "payload_ok p \<Longrightarrow> unat (of_nat (length p) :: size_t) = length p"
  "payload_ok p \<Longrightarrow> p \<noteq> [] \<Longrightarrow> (of_nat (length p) :: size_t) \<noteq> 0"
  "payload_ok p \<Longrightarrow> n < of_nat (length p) \<longleftrightarrow> unat (n :: size_t) < length p"
proof -
  show u: "payload_ok p \<Longrightarrow> unat (of_nat (length p) :: size_t) = length p"
    by (simp add: unat_of_nat take_bit_nat_eq_self)
  show "payload_ok p \<Longrightarrow> p \<noteq> [] \<Longrightarrow> (of_nat (length p) :: size_t) \<noteq> 0"
    using u by (metis length_0_conv unat_0)
  show "payload_ok p \<Longrightarrow> n < of_nat (length p) \<longleftrightarrow> unat (n :: size_t) < length p"
    using u by (simp add: word_less_nat_alt)
qed

text \<open>One step of a thread is no step of the map, or the step at which the call takes effect.\<close>

definition store_simulates ::
  "('s, 'd) ks_env \<Rightarrow> (string \<rightharpoonup> bytes) \<Rightarrow> store_pc \<Rightarrow> store_pc list \<Rightarrow> store_pc \<Rightarrow> ('s, 'd) ks_state \<Rightarrow> bool" where
  "store_simulates K m pc rest pc' s' \<longleftrightarrow> (\<exists>m'. store_ok K m' s' (pc' # rest) \<and> map_moves K m pc pc' m')"

lemma store_simulatesI: "store_ok K m' s' (pc' # rest) \<Longrightarrow> map_moves K m pc pc' m' \<Longrightarrow> store_simulates K m pc rest pc' s'"
  unfolding store_simulates_def by blast

text \<open>The steps outside the lock.\<close>

lemma checks_simulate:
  assumes T: "store_ok K m s (pc # rest)" and step: "store_step E K pc s = Some (pc', s')"
    and pc: "pc \<in> {K_add_check d p n, K_rem_check d, K_read_check d b n', K_read_copy b n data}"
  shows "store_simulates K m pc rest pc' s'"
proof (rule store_simulatesI)
  note k = store_okD(3) [OF T]
  have "k_ok K pc'"
    using pc k step unsigned_less [of n, where 'a=nat] by (auto split: option.splits if_splits simp: unat_gt_0 unat_eq_zero)
  moreover have "ks_store s' = ks_store s" "ks_store_lock s' = ks_store_lock s"
    using pc step by (auto split: option.splits if_splits)
  moreover have "\<not> k_reading pc" "\<not> k_writing pc" "\<not> k_putting pc" using pc by auto
  moreover have "\<not> k_reading pc' \<and> \<not> k_writing pc' \<and> \<not> k_putting pc'"
    using pc step by (auto split: option.splits if_splits)
  ultimately show "store_ok K m s' (pc' # rest)"
    using store_ok_same [OF T, of s' pc'] store_okD(1) [OF T] by simp
  show "map_moves K m pc pc' m"
    using pc k step
    by (auto simp: map_moves_def read_result_def payload_len split: option.splits if_splits)
qed

text \<open>The steps that take the lock or give it back.\<close>

lemma locks_simulate:
  assumes T: "store_ok K m s (pc # rest)" and step: "store_step E K pc s = Some (pc', s')"
    and pc: "pc \<in> {K_add_lock d p, K_add_unlock, K_rem_lock d, K_rem_unlock, K_read_lock d b n, K_read_unlock b n data}"
  shows "store_simulates K m pc rest pc' s'"
proof (rule store_simulatesI)
  obtain f l where f: "f (ks_store_lock s) = Some l" "s' = s\<lparr>ks_store_lock := l\<rparr>"
      "f = rwlock_rdlock \<and> \<not> k_reading pc \<and> k_reading pc' \<and> k_writing pc' = k_writing pc \<or>
        f = rwlock_wrlock \<and> \<not> k_writing pc \<and> k_writing pc' \<and> k_reading pc' = k_reading pc \<or>
        f = rwlock_unlock \<and> k_reading pc \<and> \<not> k_reading pc' \<and> \<not> k_writing pc \<and> \<not> k_writing pc' \<or>
        f = rwlock_unlock \<and> k_writing pc \<and> \<not> k_writing pc' \<and> \<not> k_reading pc \<and> \<not> k_reading pc'"
    using pc step by (auto simp: on_store_lock_frame split: bind_splits)
  have "k_ok K pc'" using pc store_okD(3) [OF T] step by (auto split: bind_splits)
  moreover have "\<not> k_putting pc" "\<not> k_putting pc'" using pc step by (auto split: bind_splits)
  ultimately show "store_ok K m s' (pc' # rest)"
    using store_ok_same [OF T, of s' pc'] store_ok_locks [OF T f(1,3)] f(2) by simp
  show "map_moves K m pc pc' m" using pc step by (auto simp: map_moves_def split: bind_splits)
qed

text \<open>The steps on the dictionary.\<close>

lemma get_simulates:
  assumes T: "store_ok K m s (pc # rest)" and step: "store_step E K pc s = Some (pc', s')" and pc: "pc = K_read_get d b n"
  shows "store_simulates K m pc rest pc' s'"
proof (rule store_simulatesI)
  obtain D where D: "ks_store s = Some D" "pc' = K_read_unlock b n (cf_get K D d)" "s' = s"
    using step pc by (auto split: bind_splits)
  have g: "cf_get K D d = m d" using store_reader_sees [OF T [unfolded pc] D(1)] .
  show "store_ok K m s' (pc' # rest)"
    using store_ok_same [OF T, of s' pc'] store_okD(1,5) [OF T] D g pc by simp
  show "map_moves K m pc pc' m"
    using store_okD(3) [OF T] D(2) g pc by (auto simp: map_moves_def)
qed

lemma writes_simulate:
  assumes K: "cf_ok K" and T: "store_ok K m s (pc # rest)" and step: "store_step E K pc s = Some (pc', s')"
    and pc: "pc \<in> {K_add_clear d p, K_add_put d p, K_rem_clear d}"
  shows "store_simulates K m pc rest pc' s'"
proof -
  note C = cf_okD [OF K] and k = store_okD(3,5) [OF T]
  have w: "k_writing pc" using pc by auto
  obtain D where D: "ks_store s = Some D" using store_okD(2) [OF T] by blast
  note G = store_ok_dict [OF T w D]
  consider (clear) "pc = K_add_clear d p" | (put) "pc = K_add_put d p" | (rem) "pc = K_rem_clear d" using pc by blast
  then show ?thesis
  proof cases
    case clear
    then have e: "pc' = K_add_put d p" "s' = s\<lparr>ks_store := Some (cf_remove K D d)\<rparr>" using step D by auto
    have "store_ok K m s' (pc' # rest)"
      by (rule store_ok_write [OF T w]) (use e clear k G C in auto)
    then show ?thesis by (rule store_simulatesI) (use e clear in \<open>auto simp: map_moves_def\<close>)
  next
    case put
    then have e: "pc' = K_add_unlock" "s' = s\<lparr>ks_store := Some (cf_add K D d p)\<rparr>" using step D by auto
    have "store_ok K (m(d \<mapsto> p)) s' (pc' # rest)"
      by (rule store_ok_write [OF T w]) (use e put k G C in \<open>auto split: if_splits\<close>)
    then show ?thesis by (rule store_simulatesI) (use e put k payload_len(2) [of p] in \<open>auto simp: map_moves_def\<close>)
  next
    case rem
    then have e: "pc' = K_rem_unlock" "s' = s\<lparr>ks_store := Some (cf_remove K D d)\<rparr>" using step D by (auto split: if_splits)
    have "store_ok K (m(d := None)) s' (pc' # rest)"
      by (rule store_ok_write [OF T w]) (use e rem k G C in \<open>auto split: if_splits\<close>)
    then show ?thesis by (rule store_simulatesI) (use e rem in \<open>auto simp: map_moves_def\<close>)
  qed
qed

lemma store_step_simulates:
  assumes "cf_ok K" and "store_ok K m s (pc # rest)" and "store_step E K pc s = Some (pc', s')"
  shows "store_simulates K m pc rest pc' s'"
  using assms checks_simulate [OF assms(2,3)] locks_simulate [OF assms(2,3)] get_simulates [OF assms(2,3)]
    writes_simulate [OF assms]
  by (cases pc) auto

subsection \<open>All histories\<close>

text \<open>Where the threads start: the lock is free, the dictionary is the map, its payloads fit in memory.\<close>

definition store_at_rest :: "('s, 'd) ks_env \<Rightarrow> (string \<rightharpoonup> bytes) \<Rightarrow> ('s, 'd) ks_state \<Rightarrow> bool" where
  "store_at_rest K m s \<longleftrightarrow> ks_store_lock s = Unlocked \<and> ks_store s \<noteq> None \<and> darwin_lookup K s = m \<and>
     (\<forall>d p. m d = Some p \<longrightarrow> payload_ok p)"

lemma store_ok_rest: "store_at_rest K m s \<Longrightarrow> store_ok K m s (replicate n K_idle)"
  by (auto simp: store_at_rest_def store_ok_def count_pc_replicate darwin_lookup_def in_set_replicate)

lemma store_history_tracked:
  assumes K: "cf_ok K" and rest: "store_at_rest K m\<^sub>0 s\<^sub>0" and H: "store_history E K n s\<^sub>0 h x"
  shows "\<exists>m. map_history K n m\<^sub>0 h (map map_of_pc (fst x), m) \<and> store_ok K m (snd x) (fst x)"
  using H
proof induction
  case start
  then show ?case using store_ok_rest [OF rest] map_history.start [of K n m\<^sub>0] by (auto simp: map_replicate)
next
  case (call h ts s i c)
  then obtain m where m: "map_history K n m\<^sub>0 h (map map_of_pc ts, m)" "store_ok K m s ts" by auto
  have "store_ok K m s (store_start c # take i ts @ drop (Suc i) ts)"
  proof (rule store_ok_same [OF store_ok_at [OF call(2) m(2)]])
    show "lock_agrees (ks_store_lock s) (count_pc k_reading (take i ts @ drop (Suc i) ts) + of_bool (k_reading (store_start c)))
        (count_pc k_writing (take i ts @ drop (Suc i) ts) + of_bool (k_writing (store_start c)))"
      using store_okD(1) [OF store_ok_at [OF call(2) m(2)]] call(3) by (cases c) simp_all
    show "k_ok K (store_start c)" "\<not> k_putting (store_start c)" using call(4) by (cases c; simp)+
  qed (use call(3) in auto)
  then have "store_ok K m s (ts[i := store_start c])" using store_ok_focus [OF call(2)] by blast
  then show ?case
    using map_history.call [OF m(1), of i c] call(2,3) by (auto simp: map_update)
next
  case (move h ts s i pc s')
  then obtain m where m: "map_history K n m\<^sub>0 h (map map_of_pc ts, m)" "store_ok K m s ts" by auto
  from store_step_simulates [OF K store_ok_at [OF move(2) m(2)] move(3)]
  obtain m' where m': "store_ok K m' s' (ts[i := pc])" "map_moves K m (ts ! i) pc m'"
    unfolding store_simulates_def store_ok_focus [OF move(2)] by blast
  have "map_history K n m\<^sub>0 h ((map map_of_pc ts)[i := map_of_pc pc], m')"
    using m'(2) m(1) map_history.effect [OF m(1), of i] move(2) list_update_id [of "map map_of_pc ts" i]
    unfolding map_moves_def by auto
  then show ?case using m'(1) by (auto simp: map_update)
next
  case (answer h ts s i a e)
  then obtain m where m: "map_history K n m\<^sub>0 h (map map_of_pc ts, m)" "store_ok K m s ts" by auto
  have "store_ok K m s (K_idle # take i ts @ drop (Suc i) ts)"
    by (rule store_ok_same [OF store_ok_at [OF answer(2) m(2)]])
      (use answer(3) store_okD(1) [OF store_ok_at [OF answer(2) m(2)]] in simp_all)
  then have "store_ok K m s (ts[i := K_idle])" using store_ok_focus [OF answer(2)] by blast
  then show ?case using map_history.answer [OF m(1), of i a e] answer(2,3) by (auto simp: map_update)
qed

subsection \<open>No step is undefined, and no thread waits for good\<close>

fun k_waits :: "rwlock \<Rightarrow> store_pc \<Rightarrow> bool" where
  "k_waits l (K_add_lock d p) = (l \<noteq> Unlocked)"
| "k_waits l (K_rem_lock d) = (l \<noteq> Unlocked)"
| "k_waits l (K_read_lock d b n) = (l = WrLocked)"
| "k_waits l pc = False"

lemma store_can_step:
  assumes T: "store_ok K m s ts" and pc: "pc \<in> set ts" "pc \<noteq> K_idle" "\<not> k_returned pc"
  shows "store_step E K pc s = None \<longleftrightarrow> k_waits (ks_store_lock s) pc"
proof -
  obtain i where i: "i < length ts" "ts ! i = pc" using pc(1) by (auto simp: in_set_conv_nth)
  note D = store_okD [OF store_ok_at [OF i(1) T], unfolded i(2)]
  obtain D where "ks_store s = Some D" using D(2) by blast
  then show ?thesis
    using pc(2,3) D(1,3)
    by (cases pc; cases "ks_store_lock s") (auto simp: on_store_lock_def)
qed

fun k_left :: "store_pc \<Rightarrow> nat" where
  "k_left (K_add_check d p n) = 5" | "k_left (K_add_lock d p) = 4" | "k_left (K_add_clear d p) = 3"
| "k_left (K_add_put d p) = 2" | "k_left K_add_unlock = 1"
| "k_left (K_rem_check d) = 4" | "k_left (K_rem_lock d) = 3" | "k_left (K_rem_clear d) = 2" | "k_left K_rem_unlock = 1"
| "k_left (K_read_check d b n) = 5" | "k_left (K_read_lock d b n) = 4" | "k_left (K_read_get d b n) = 3"
| "k_left (K_read_unlock b n p) = 2" | "k_left (K_read_copy b n p) = 1"
| "k_left pc = 0"

lemma k_left_step: "store_step E K pc s = Some (pc', s') \<Longrightarrow> k_left pc' < k_left pc"
  by (cases pc) (auto split: if_splits bind_splits option.splits)

lemma k_left_le: "k_left pc \<le> 5"
  by (cases pc) simp_all

inductive store_advance ::
  "env \<Rightarrow> ('s, 'd) ks_env \<Rightarrow> store_pc list \<times> ('s, 'd) ks_state \<Rightarrow> store_pc list \<times> ('s, 'd) ks_state \<Rightarrow> bool" for E K where
  "i < length ts \<Longrightarrow> store_step E K (ts ! i) s = Some (pc, s') \<Longrightarrow> store_advance E K (ts, s) (ts[i := pc], s')"

lemma store_advance_bound:
  assumes "(store_advance E K ^^ k) x y"
  shows "k \<le> 5 * length (fst x)"
proof (rule run_bound(1) [where f = k_left, OF _ k_left_le assms])
  fix x y
  assume "store_advance E K x y"
  then show "\<exists>i < length (fst x). \<exists>pc. fst y = (fst x)[i := pc] \<and> k_left pc < k_left (fst x ! i)"
    by cases (auto intro: k_left_step)
qed

lemma store_advance_ok:
  assumes "cf_ok K" and "(store_advance E K ^^ k) x y" and "\<exists>m. store_ok K m (snd x) (fst x)"
  shows "\<exists>m. store_ok K m (snd y) (fst y)"
  using assms(2,3)
proof (rule run_invariant)
  fix u v
  assume "store_advance E K u v" and T: "\<exists>m. store_ok K m (snd u) (fst u)"
  then show "\<exists>m. store_ok K m (snd v) (fst v)"
  proof cases
    case (1 i ts s pc s')
    then show ?thesis
      using store_step_simulates [OF assms(1) store_ok_at [OF 1(3)] 1(4)] T
      by (auto simp: store_simulates_def store_ok_focus)
  qed
qed

text \<open>A thread that waits, waits for one that is inside and can make its step.\<close>

lemma store_some_step:
  assumes T: "store_ok K m s ts" and pc: "pc \<in> set ts" "pc \<noteq> K_idle" "\<not> k_returned pc"
  shows "\<exists>x. store_advance E K (ts, s) x"
proof -
  have inside: "\<not> k_waits l q \<and> q \<noteq> K_idle \<and> \<not> k_returned q" if "k_reading q \<or> k_writing q" for l q
    using that by (cases q) simp_all
  have lock: "lock_agrees (ks_store_lock s) (count_pc k_reading ts) (count_pc k_writing ts)"
    using T by (simp add: store_ok_def)
  have "k_waits l q \<Longrightarrow> l \<noteq> Unlocked" for l q by (cases q) auto
  then obtain q where q: "q \<in> set ts" "q \<noteq> K_idle" "\<not> k_returned q" "\<not> k_waits (ks_store_lock s) q"
    using lock_inside [OF lock] inside pc by metis
  then obtain i where "i < length ts" "ts ! i = q" by (auto simp: in_set_conv_nth)
  then show ?thesis
    using store_can_step [OF T q(1-3), of E] q(4) store_advance.intros [of i ts E K s] by fastforce
qed

lemma store_quiet:
  assumes T: "store_ok K m s ts" and "\<nexists>x. store_advance E K (ts, s) x"
  shows "\<forall>pc \<in> set ts. pc = K_idle \<or> k_returned pc" and "ks_store_lock s = Unlocked"
proof -
  show q: "\<forall>pc \<in> set ts. pc = K_idle \<or> k_returned pc" using store_some_step [OF T] assms(2) by blast
  have "\<not> k_reading pc \<and> \<not> k_writing pc" if "pc = K_idle \<or> k_returned pc" for pc
    using that by (cases pc) simp_all
  then show "ks_store_lock s = Unlocked"
    using lock_inside [of "ks_store_lock s" k_reading ts k_writing] q T by (auto simp: store_ok_def)
qed

lemma store_unlocked:
  assumes "store_ok K m s ts" and "ks_store_lock s = Unlocked"
  shows "darwin_lookup K s = m"
proof -
  have "count_pc k_writing ts = 0" using assms by (simp add: store_ok_def)
  then have "K_add_put d p \<notin> set ts" for d p unfolding count_pc_0 by auto
  then show ?thesis using assms(1) by (auto simp: store_ok_def darwin_lookup_def)
qed

subsection \<open>The concrete store\<close>

text \<open>
  Thread 0 is to replace the payload of the key \<open>k\<close> and has taken it out; thread 1 waits for the lock to read it.
\<close>

definition darwin_demo :: "((string \<rightharpoonup> bytes) \<times> string, string \<rightharpoonup> bytes) ks_state" where
  "darwin_demo = ks_demo_state\<lparr>ks_store := Some [''k'' \<mapsto> [7]]\<rparr>"

lemma darwin_demo_rest: "store_at_rest demo_ks [''k'' \<mapsto> [7]] darwin_demo"
  by (auto simp: store_at_rest_def darwin_demo_def ks_demo_state_def darwin_lookup_def demo_ks_def)

lemma first_moves:
  "store_history E K n s\<^sub>0 h (q # ts, s) \<Longrightarrow> store_step E K q s = Some (pc, s') \<Longrightarrow>
    store_history E K n s\<^sub>0 h (pc # ts, s')"
  using store_history.move [of E K n s\<^sub>0 h "q # ts" s 0 pc s'] by simp

lemma darwin_demo_history:
  "store_history demo_env demo_ks 2 darwin_demo
    [Store_call 0 (Add_key (Some ''k'') (Some [1, 2]) 2), Store_call 1 (Read_key (Some ''k'') False (Some 8))]
    ([K_add_put ''k'' [1, 2], K_read_lock ''k'' False 8],
     darwin_demo\<lparr>ks_store_lock := WrLocked, ks_store := Some Map.empty\<rparr>)"
proof -
  let ?H = "store_history demo_env demo_ks 2 darwin_demo"
  let ?c = "Add_key (Some ''k'') (Some [1, 2]) 2" and ?r = "Read_key (Some ''k'') False (Some 8)"
  let ?s = "darwin_demo\<lparr>ks_store_lock := WrLocked\<rparr>"
  let ?v = "?s\<lparr>ks_store := Some Map.empty\<rparr>"
  have "?H [] ([K_idle, K_idle], darwin_demo)"
    using store_history.start [of demo_env demo_ks 2 darwin_demo] by (simp add: numeral_2_eq_2)
  from store_history.call [OF this, of 0 ?c]
  have "?H [Store_call 0 ?c] ([store_start ?c, K_idle], darwin_demo)" by simp
  from store_history.call [OF this, of 1 ?r]
  have 1: "?H [Store_call 0 ?c, Store_call 1 ?r] ([store_start ?c, store_start ?r], darwin_demo)" by simp
  have "store_step demo_env demo_ks (store_start ?c) darwin_demo = Some (K_add_lock ''k'' [1, 2], darwin_demo)"
    by (simp add: demo_ks_def)
  note 2 = first_moves [OF 1 this]
  have "store_step demo_env demo_ks (K_add_lock ''k'' [1, 2]) darwin_demo = Some (K_add_clear ''k'' [1, 2], ?s)"
    by (simp add: on_store_lock_def darwin_demo_def ks_demo_state_def)
  note 3 = first_moves [OF 2 this]
  have "store_step demo_env demo_ks (K_add_clear ''k'' [1, 2]) ?s = Some (K_add_put ''k'' [1, 2], ?v)"
    by (simp add: darwin_demo_def demo_ks_def)
  note 4 = first_moves [OF 3 this]
  have "store_step demo_env demo_ks (store_start ?r) ?v = Some (K_read_lock ''k'' False 8, ?v)"
    by (simp add: demo_ks_def)
  from store_history.move [OF 4, of 1] this show ?thesis by simp
qed

subsection \<open>Properties\<close>

text \<open>A thread that no other interleaves with computes the functions of the file.\<close>

lemma keystore_steps_alone:
  assumes "keystore_ops (ks_w s) = Some Ks_darwin_ops"
  shows "store_alone 5 E K (store_start (Add_key d p n)) s = map_option (\<lambda>(r, s). (Added r, s)) (cfe_keystore_add_key K d p n s)"
    and "store_alone 5 E K (store_start (Remove_key d)) s = map_option (\<lambda>s. (Removed, s)) (cfe_keystore_remove_key E K d s)"
    and "store_alone 5 E K (store_start (Read_key d b n')) s =
      map_option (\<lambda>(r, p, n, s). (Was_read r p n, s)) (cfe_keystore_read_key K d b n' s)"
  using assms
  by (simp_all add: alone_adds alone_removes alone_reads cfe_keystore_add_key_def cfe_keystore_remove_key_def
      cfe_keystore_read_key_def)

text \<open>C11: The Core Foundation store is linearizable. The calls are to add a key, with a payload as long as its size
  says, to read one, and to remove one whose description Core Foundation can make a string of (removing
  another is undefined even for a thread alone). Whatever such calls any number of threads make and however
  their steps interleave, the calls and answers they observe, in that order, are those of threads
  whose calls take effect at one instant on a map from descriptions to payloads; the dictionary is that map
  whenever the lock is free; no step is undefined, and when no new calls begin the threads make at most five
  steps each, after which every call has its answer and the lock is free.\<close>

theorem keystore_threads_linearize:
  assumes K: "cf_ok K" and "store_at_rest K m\<^sub>0 s\<^sub>0" and "store_history E K n s\<^sub>0 h (ts, s)"
  shows "\<exists>m. map_history K n m\<^sub>0 h (map map_of_pc ts, m) \<and> (ks_store_lock s = Unlocked \<longrightarrow> darwin_lookup K s = m) \<and>
    (\<forall>pc \<in> set ts. pc \<noteq> K_idle \<longrightarrow> \<not> k_returned pc \<longrightarrow>
      (store_step E K pc s = None \<longleftrightarrow> k_waits (ks_store_lock s) pc)) \<and>
    (\<forall>k us u. (store_advance E K ^^ k) (ts, s) (us, u) \<longrightarrow> k \<le> 5 * length ts \<and>
      ((\<nexists>x. store_advance E K (us, u) x) \<longrightarrow>
        (\<forall>pc \<in> set us. pc = K_idle \<or> k_returned pc) \<and> ks_store_lock u = Unlocked))"
proof -
  obtain m where m: "map_history K n m\<^sub>0 h (map map_of_pc ts, m)" "store_ok K m s ts"
    using store_history_tracked [OF assms] by auto
  have "k \<le> 5 * length ts \<and> ((\<nexists>x. store_advance E K (us, u) x) \<longrightarrow>
      (\<forall>pc \<in> set us. pc = K_idle \<or> k_returned pc) \<and> ks_store_lock u = Unlocked)"
    if run: "(store_advance E K ^^ k) (ts, s) (us, u)" for k us u
  proof -
    obtain m' where "store_ok K m' u us" using store_advance_ok [OF K run] m(2) by auto
    then show ?thesis using store_advance_bound [OF run] store_quiet [of K m' u us E] by auto
  qed
  then show ?thesis using m store_unlocked [OF m(2)] store_can_step [OF m(2)] by blast
qed

theorem keystore_threads_linearize_witness:
  "\<exists>m. map_history demo_ks 2 [''k'' \<mapsto> [7]]
      [Store_call 0 (Add_key (Some ''k'') (Some [1, 2]) 2), Store_call 1 (Read_key (Some ''k'') False (Some 8))]
      ([M_called (Add_key (Some ''k'') (Some [1, 2]) 2), M_called (Read_key (Some ''k'') False (Some 8))], m) \<and>
    store_step demo_env demo_ks (K_read_lock ''k'' False 8)
      (darwin_demo\<lparr>ks_store_lock := WrLocked, ks_store := Some Map.empty\<rparr>) = None"
  using keystore_threads_linearize [OF demo_ks_ok(2) darwin_demo_rest darwin_demo_history] by auto

end
