(* ===== verification/Cfe_Typing.thy ===== *)
theory Cfe_Typing
  imports Cfe_Library Cfe_Threads
begin

text \<open>
  Well-typed states of the library. A state is well typed when every registry is well formed and each of
  its counters is the number of references there are; when every live object points at a type that is
  registered, and carries the table of functions of that type; and when every context has its OpenSSL
  object around it. For each operation there is a lemma: in a well-typed state it is defined, leaves a
  well-typed state, and changes nothing outside its own part of the world.
\<close>

lemma layout_parts:
  "ly_get hash_layout w = w_hash w" "ly_frame hash_layout w u = (\<exists>R. u = w\<lparr>w_hash := R\<rparr>)"
  "ly_get cipher_layout w = w_cipher w" "ly_frame cipher_layout w u = (\<exists>R. u = w\<lparr>w_cipher := R\<rparr>)"
  "ly_get pbkdf_layout w = w_pbkdf w" "ly_frame pbkdf_layout w u = (\<exists>R. u = w\<lparr>w_pbkdf := R\<rparr>)"
  "ly_get rand_layout w = w_rand w" "ly_frame rand_layout w u = (\<exists>R. u = w\<lparr>w_rand := R\<rparr>)"
  "ly_get header_layout w = w_header w"
  "ly_frame header_layout w u = (\<exists>R d. u = w\<lparr>w_header := R, header_default := d\<rparr>)"
  "ly_get writer_layout w = w_writer w"
  "ly_frame writer_layout w u = (\<exists>R d. u = w\<lparr>w_writer := R, writer_default := d\<rparr>)"
  by (simp_all add: hash_layout_def cipher_layout_def pbkdf_layout_def rand_layout_def header_layout_def writer_layout_def)

subsection \<open>Digests\<close>

definition hash_bodies_ok :: "env \<Rightarrow> world \<Rightarrow> bool" where
  "hash_bodies_ok E w \<longleftrightarrow> (\<forall>t b f. tmpl_body hash_layout w t = Some b \<longrightarrow> ht_alloc_ctx b = Some f \<longrightarrow>
     hash_alloc_args E f \<noteq> None)"

definition hash_ok :: "env \<Rightarrow> addr list \<Rightarrow> world \<Rightarrow> bool" where
  "hash_ok E xs w \<longleftrightarrow>
     counted (tmpl_repr hash_layout) (tmpl_refs hash_layout) (users (w_hash_ctxs w) hc_type) w xs \<and>
     finite (dom (w_hash_ctxs w)) \<and>
     (\<forall>ctx c. w_hash_ctxs w ctx = Some c \<longrightarrow> hc_type c \<in> set xs \<and> (\<exists>md st. hash_live E w ctx (hc_type c) md st)) \<and>
     hash_bodies_ok E w"

text \<open>The part of the world that the digests own.\<close>

definition hash_part :: "world \<Rightarrow> world \<Rightarrow> bool" where
  "hash_part w u \<longleftrightarrow> u = w\<lparr>w_hash := w_hash u, w_hash_ctxs := w_hash_ctxs u, w_hash_octxs := w_hash_octxs u,
     errno := errno u\<rparr>"

lemma hash_okD:
  assumes "hash_ok E xs w"
  shows "counted (tmpl_repr hash_layout) (tmpl_refs hash_layout) (users (w_hash_ctxs w) hc_type) w xs"
    and "finite (dom (w_hash_ctxs w))"
    and "\<And>ctx c. w_hash_ctxs w ctx = Some c \<Longrightarrow> hc_type c \<in> set xs"
    and "\<And>ctx c. w_hash_ctxs w ctx = Some c \<Longrightarrow> \<exists>md st. hash_live E w ctx (hc_type c) md st"
    and "hash_bodies_ok E w"
  using assms by (auto simp: hash_ok_def)

lemma hash_counted_cong:
  "w_hash u = w_hash w \<Longrightarrow>
    counted (tmpl_repr hash_layout) (tmpl_refs hash_layout) n u xs =
    counted (tmpl_repr hash_layout) (tmpl_refs hash_layout) n w xs"
  by (simp add: counted_def tmpl_repr_def tmpl_refs_def hash_layout_def)

lemma hash_ok_cong:
  assumes "w_hash u = w_hash w" and "w_hash_ctxs u = w_hash_ctxs w" and "w_hash_octxs u = w_hash_octxs w"
  shows "hash_ok E xs u = hash_ok E xs w"
  unfolding hash_ok_def hash_live_def hash_bodies_ok_def hash_counted_cong [OF assms(1)] assms(2,3)
  using assms(1) by (simp add: tmpl_body_def hash_layout_def)

lemma hash_partI: "\<exists>R. u = w\<lparr>w_hash := R\<rparr> \<Longrightarrow> hash_part w (u\<lparr>errno := e\<rparr>)"
  by (auto simp: hash_part_def)

text \<open>A step of the registry that keeps the types of all contexts.\<close>

lemma hash_ok_registry:
  assumes ok: "hash_ok E xs w" and u: "\<exists>R. u = w\<lparr>w_hash := R\<rparr>" and b: "tmpl_body hash_layout u = tmpl_body hash_layout w"
    and c: "counted (tmpl_repr hash_layout) (tmpl_refs hash_layout) (users (w_hash_ctxs w) hc_type) u ys"
    and s: "\<And>t. t \<in> set xs \<Longrightarrow> 0 < users (w_hash_ctxs w) hc_type t \<Longrightarrow> t \<in> set ys"
  shows "hash_ok E ys (u\<lparr>errno := e\<rparr>)"
proof -
  note D = hash_okD [OF ok]
  have e: "w_hash_ctxs u = w_hash_ctxs w" "w_hash_octxs u = w_hash_octxs w" using u by auto
  have "hash_ok E ys u"
    unfolding hash_ok_def e hash_live_def
    using c D(2,3) D(4) [unfolded hash_live_def] D(5) b s users_pos [OF D(2), of _ _ hc_type]
    by (auto simp: hash_bodies_ok_def)
  then show ?thesis by (subst hash_ok_cong [of _ u]) simp_all
qed

lemma hash_register_typed:
  assumes ok: "hash_ok E xs w" and t: "t \<in> dom (rg_types (w_hash w))"
  shows "\<exists>r u ys. cfe_hash_register t w = Some (r, u) \<and> hash_ok E ys u \<and> hash_part w u"
proof -
  note D = hash_okD [OF ok]
  have "users (w_hash_ctxs w) hc_type t = 0" if "t \<notin> set xs"
    using D(3) that by (intro users_none) auto
  from hash_lay.register_any [OF D(1) _ this] t
  obtain r u e ys where u: "cfe_hash_register t w = Some (r, u\<lparr>errno := e\<rparr>)"
      "counted (tmpl_repr hash_layout) (tmpl_refs hash_layout) (users (w_hash_ctxs w) hc_type) u ys"
      "set xs \<subseteq> set ys" "tmpl_body hash_layout u = tmpl_body hash_layout w" "\<exists>R. u = w\<lparr>w_hash := R\<rparr>"
    unfolding cfe_hash_register_eq layout_parts by blast
  then show ?thesis using hash_ok_registry [OF ok u(5,4,2)] hash_partI [OF u(5)] by blast
qed

lemma hash_unregister_typed:
  assumes ok: "hash_ok E xs w" and t: "t \<in> set xs" and lt: "Suc (users (w_hash_ctxs w) hc_type t) < 2 ^ 31"
  shows "\<exists>r u ys. cfe_hash_unregister t w = Some (r, u) \<and> hash_ok E ys u \<and> hash_part w u"
proof -
  from hash.counted_unregister [OF hash_okD(1) [OF ok] t lt]
  obtain r u e ys where u: "cfe_hash_unregister t w = Some (r, u\<lparr>errno := e\<rparr>)"
      "counted (tmpl_repr hash_layout) (tmpl_refs hash_layout) (users (w_hash_ctxs w) hc_type) u ys"
      "\<forall>s \<in> set xs. 0 < users (w_hash_ctxs w) hc_type s \<longrightarrow> s \<in> set ys"
      "tmpl_body hash_layout u = tmpl_body hash_layout w" "\<exists>R. u = w\<lparr>w_hash := R\<rparr>"
    by blast
  then show ?thesis using hash_ok_registry [OF ok u(5,4,2)] hash_partI [OF u(5)] by blast
qed

text \<open>Allocation. Without memory the code is undefined (\<open>cfe_hash_alloc_ctx_oom\<close>), so there has to be some.\<close>

definition hash_memory :: "env \<Rightarrow> world \<Rightarrow> bool" where
  "hash_memory E w \<longleftrightarrow> e_sizeof_EVP_MD_CTX (evp E) < 2 ^ 32 \<and>
     (\<forall>R. e_calloc (libc E) (OCTX_SIZE_hash E) (w\<lparr>w_hash := R\<rparr>) \<noteq> NULL)"

lemma hash_body_alloc:
  assumes "hash_bodies_ok E w" and "tmpl_key hash_layout w t \<noteq> None"
  shows "\<exists>ty f s md. rg_types (w_hash w) t = Some ty \<and> ht_alloc_ctx ty = Some f \<and> hash_alloc_args E f = Some (s, md)"
proof -
  obtain ty f where ty: "rg_types (w_hash w) t = Some ty" "ht_alloc_ctx ty = Some f"
    using assms(2) by (auto simp: tmpl_key_def reg_key_def hash_layout_def split: option.splits if_splits)
  then have "tmpl_body hash_layout w t = Some (ht_refcnt_update (\<lambda>_. 0) ty)"
    by (simp add: tmpl_body_def hash_layout_def)
  then have "hash_alloc_args E f \<noteq> None" using assms(1) ty(2) unfolding hash_bodies_ok_def by fastforce
  then show ?thesis using ty by auto
qed

lemma hash_alloc_typed:
  assumes ok: "hash_ok E xs w" and mem: "hash_memory E w" and al: "calloc_ok E"
  shows "\<exists>ctx u. cfe_hash_alloc_ctx E name w = Some (ctx, u) \<and> hash_ok E xs u \<and> hash_part w u \<and>
    (ctx = NULL \<or> ctx \<in> dom (w_hash_ctxs u))"
proof -
  note D = hash_okD [OF ok]
  let ?n = "users (w_hash_ctxs w) hc_type"
  from hash.counted_acquire [OF D(1), of name] show ?thesis
  proof (elim disjE exE conjE)
    assume "tmpl_acquire hash_layout name w = Some (NULL, w)"
    then have "cfe_hash_alloc_ctx E name w = Some (NULL, w\<lparr>errno := ENOSYS\<rparr>)" by (simp add: cfe_hash_alloc_ctx_eq)
    moreover have "hash_ok E xs (w\<lparr>errno := ENOSYS\<rparr>)" using ok by (subst hash_ok_cong [of _ w]) simp_all
    ultimately show ?thesis using hash_partI [OF hash_same] by blast
  next
    fix t v R
    assume v: "tmpl_acquire hash_layout name w = Some (t, v)" "t \<noteq> NULL" "t \<in> set xs"
      "counted (tmpl_repr hash_layout) (tmpl_refs hash_layout) (?n(t := Suc (?n t))) v xs"
      "tmpl_body hash_layout v = tmpl_body hash_layout w" and R: "v = w\<lparr>w_hash := R\<rparr>"
    define a where "a = e_calloc (libc E) (OCTX_SIZE_hash E) v"
    have a: "a \<noteq> NULL" using mem R by (simp add: hash_memory_def a_def)
    then have "fresh v a (OCTX_SIZE_hash E)" using al by (auto simp: calloc_ok_def a_def)
    then have fr: "fresh w a (OCTX_SIZE_hash E)" by (simp add: R fresh_def)
    have sz: "e_sizeof_EVP_MD_CTX (evp E) < 2 ^ 32" using mem by (simp add: hash_memory_def)
    let ?ctx = "a + OCTX_BASE_hash E"
    note blk = hash_block [OF fr sz]
    have "tmpl_key hash_layout v t \<noteq> None" using hash.repr_keyed [OF countedD(1) [OF v(4)] v(3)] .
    moreover have bv: "hash_bodies_ok E v" using D(5) v(5) by (simp add: hash_bodies_ok_def)
    ultimately obtain ty f s md where ty: "rg_types (w_hash v) t = Some ty" "ht_alloc_ctx ty = Some f"
        "hash_alloc_args E f = Some (s, md)"
      using hash_body_alloc by blast
    let ?c = "\<lparr>hc_ops = Some Openssl_generic_ctx_ops, hc_type = t\<rparr>"
    let ?st = "replicate (unat (e_sizeof_EVP_MD_CTX (evp E))) (0 :: 8 word)"
    let ?u = "v\<lparr>w_hash_octxs := (w_hash_octxs w)(a \<mapsto> \<lparr>oh_md = Some md, oh_mdctx = ?st\<rparr>),
        w_hash_ctxs := (w_hash_ctxs w)(?ctx \<mapsto> ?c)\<rparr>"
    have "cfe_hash_alloc_ctx E name w = Some (?ctx, ?u)"
      using v(1,2) ty call_hash_alloc_openssl [OF ty(3)] a blk(1)
      by (simp add: cfe_hash_alloc_ctx_eq openssl_alloc_ctx_hash_def calloc_1 a_def [symmetric]) (simp add: R)
    moreover have "hash_ok E xs ?u"
    proof -
      have "counted (tmpl_repr hash_layout) (tmpl_refs hash_layout) (users (w_hash_ctxs ?u) hc_type) ?u xs"
        using v(4) users_new [OF D(2) blk(2), of ?c hc_type] by (simp add: hash_counted_cong [of ?u v])
      moreover have "hc_type c \<in> set xs \<and> (\<exists>md st. hash_live E ?u ctx (hc_type c) md st)"
        if c: "w_hash_ctxs ?u ctx = Some c" for ctx c
      proof (cases "ctx = ?ctx")
        case True
        then show ?thesis using c v(3) blk(1) a by (auto simp: hash_live_def OPENSSL_CTX_hash_def)
      next
        case False
        then have o: "w_hash_ctxs w ctx = Some c" using c by simp
        then obtain md st where l: "hash_live E w ctx (hc_type c) md st" using D(4) by blast
        then have "OPENSSL_CTX_hash E ctx \<noteq> a" using blk(3) by (auto simp: hash_live_def)
        then have "hash_live E ?u ctx (hc_type c) md st" using l False by (simp add: hash_live_def)
        then show ?thesis using D(3) [OF o] by blast
      qed
      moreover have "hash_bodies_ok E ?u" using bv by (simp add: hash_bodies_ok_def tmpl_body_def hash_layout_def)
      ultimately show ?thesis using D(2) unfolding hash_ok_def by simp
    qed
    moreover have "hash_part w ?u" by (simp add: hash_part_def R)
    ultimately show ?thesis by auto
  qed
qed

text \<open>The operations on a live context change the state of its OpenSSL object.\<close>

lemma hash_ok_state:
  assumes ok: "hash_ok E xs w" and l: "hash_live E w ctx t md st"
  shows "hash_ok E xs (hash_state E ctx md b w)" and "hash_part w (hash_state E ctx md b w)"
proof -
  note D = hash_okD [OF ok]
  let ?u = "hash_state E ctx md b w"
  have "\<exists>md st. hash_live E ?u ctx' (hc_type c) md st" if c: "w_hash_ctxs w ctx' = Some c" for ctx' c
  proof (cases "ctx' = ctx")
    case True
    then show ?thesis using c l hash_live_state [OF l, of b] by (auto simp: hash_live_def)
  next
    case False
    then have "OPENSSL_CTX_hash E ctx' \<noteq> OPENSSL_CTX_hash E ctx" by (simp add: OPENSSL_CTX_hash_def)
    then show ?thesis using D(4) [OF c] by (simp add: hash_live_def hash_state_def)
  qed
  then show "hash_ok E xs ?u"
    using D(1-3,5) by (simp add: hash_ok_def hash_state_def hash_counted_cong [of ?u w] hash_bodies_ok_def
        tmpl_body_def hash_layout_def counted_def tmpl_repr_def tmpl_refs_def)
  show "hash_part w ?u" by (simp add: hash_part_def hash_state_def)
qed

lemma hash_ok_errno: "hash_ok E xs w \<Longrightarrow> hash_ok E xs (w\<lparr>errno := e\<rparr>) \<and> hash_part w (w\<lparr>errno := e\<rparr>)"
  using hash_partI [OF hash_same] by (auto simp: hash_ok_cong [of "w\<lparr>errno := e\<rparr>" w])

lemma hash_ctx_typed:
  assumes ok: "hash_ok E xs w" and c: "ctx = NULL \<or> ctx \<in> dom (w_hash_ctxs w)"
  shows "(\<exists>r u. cfe_hash_ctx_init E ctx w = Some (r, u) \<and> hash_ok E xs u \<and> hash_part w u) \<and>
    (\<exists>r u. cfe_hash_ctx_update E ctx buf n w = Some (r, u) \<and> hash_ok E xs u \<and> hash_part w u) \<and>
    (\<exists>r out u. cfe_hash_ctx_finalize E ctx w = Some (r, out, u) \<and> hash_ok E xs u \<and> hash_part w u) \<and>
    (\<exists>r u. cfe_hash_ctx_digestsize ctx w = Some (r, u) \<and> hash_ok E xs u \<and> hash_part w u)"
proof (cases "ctx = NULL")
  case True
  then show ?thesis
    using hash_ok_errno [OF ok]
    by (simp add: cfe_hash_ctx_init_def cfe_hash_ctx_update_def cfe_hash_ctx_finalize_def cfe_hash_ctx_digestsize_def)
next
  case False
  note D = hash_okD [OF ok]
  obtain k where k: "w_hash_ctxs w ctx = Some k" using c False by auto
  then obtain md st where l: "hash_live E w ctx (hc_type k) md st" using D(4) by blast
  obtain ty where ty: "rg_types (w_hash w) (hc_type k) = Some ty"
    using countedD(2) [OF D(1) D(3) [OF k]] by (auto simp: tmpl_refs_def hash_layout_def)
  have "cfe_hash_ctx_digestsize ctx w = Some (sint (ht_digestsize ty), w)" "hash_part w w"
    using False k ty by (simp_all add: cfe_hash_ctx_digestsize_def hash_part_def)
  then show ?thesis
    using hash_ctx_steps [OF l] hash_ok_state [OF ok l] ok by (simp add: split_beta)
qed

lemma hash_destroy_typed:
  assumes ok: "hash_ok E xs w" and c: "ctx = NULL \<or> ctx \<in> dom (w_hash_ctxs w)"
  shows "\<exists>u. cfe_hash_destroy_ctx E ctx w = Some u \<and> hash_ok E xs u \<and> hash_part w u"
proof (cases "ctx = NULL")
  case True
  then show ?thesis using ok by (simp add: cfe_hash_destroy_ctx_def hash_part_def)
next
  case False
  note D = hash_okD [OF ok]
  obtain k where k: "w_hash_ctxs w ctx = Some k" using c False by auto
  then obtain md st where l: "hash_live E w ctx (hc_type k) md st" using D(4) by blast
  let ?o = "OPENSSL_CTX_hash E ctx" and ?t = "hc_type k"
  let ?v = "w\<lparr>w_hash_octxs := (w_hash_octxs w)(?o := None), w_hash_ctxs := (w_hash_ctxs w)(ctx := None)\<rparr>"
  let ?n = "users (w_hash_ctxs ?v) hc_type"
  have d: "call_hash_destroy E Openssl_generic_ctx_ops ctx w = Some ?v"
    using l by (simp add: hash_live_def openssl_destroy_ctx_hash_def free_defs)
  have "counted (tmpl_repr hash_layout) (tmpl_refs hash_layout) (?n(?t := Suc (?n ?t))) ?v xs"
    using D(1) users_free [OF D(2) k, of hc_type] by (simp add: hash_counted_cong [of ?v w])
  from hash.counted_release [OF this D(3) [OF k]] obtain u where u: "tmpl_release hash_layout ?t ?v = Some u"
      "counted (tmpl_repr hash_layout) (tmpl_refs hash_layout) ?n u xs" "tmpl_body hash_layout u = tmpl_body hash_layout ?v"
      "\<exists>R. u = ?v\<lparr>w_hash := R\<rparr>" by auto
  have "hc_ops k = Some Openssl_generic_ctx_ops" using k l by (cases k) (simp add: hash_live_def)
  then have "cfe_hash_destroy_ctx E ctx w = Some u"
    using False k d u(1) by (simp add: cfe_hash_destroy_ctx_def hash_live_def tmpl_release_def on_reg_def hash_layout_def)
  moreover have e: "w_hash_ctxs u = w_hash_ctxs ?v" "w_hash_octxs u = w_hash_octxs ?v" using u(4) by auto
  have "\<exists>md st. hash_live E u ctx' (hc_type c) md st" if "ctx' \<noteq> ctx" "w_hash_ctxs w ctx' = Some c" for ctx' c
    using D(4) [OF that(2)] that(1) unfolding hash_live_def e by (auto simp: OPENSSL_CTX_hash_def)
  then have "hash_ok E xs u"
    using u(2,3) D(2,3,5) unfolding hash_ok_def e
    by (auto simp: hash_bodies_ok_def tmpl_body_def hash_layout_def split: if_splits)
  moreover have "hash_part w u" using u(4) by (auto simp: hash_part_def)
  ultimately show ?thesis by blast
qed

subsection \<open>Key derivations\<close>

text \<open>The derivations leave the world alone, as those of OpenSSL do; between two calls nobody holds a reference.\<close>

definition pbkdf_ok :: "env \<Rightarrow> addr list \<Rightarrow> world \<Rightarrow> bool" where
  "pbkdf_ok E xs w \<longleftrightarrow> counted (tmpl_repr pbkdf_layout) (tmpl_refs pbkdf_layout) (\<lambda>_. 0) w xs \<and>
     (\<forall>t b f. tmpl_body pbkdf_layout w t = Some b \<longrightarrow> pt_derive b = Some f \<longrightarrow> stateless E f)"

definition pbkdf_part :: "world \<Rightarrow> world \<Rightarrow> bool" where
  "pbkdf_part w u \<longleftrightarrow> u = w\<lparr>w_pbkdf := w_pbkdf u, errno := errno u\<rparr>"

lemma pbkdf_okD:
  assumes "pbkdf_ok E xs w"
  shows "counted (tmpl_repr pbkdf_layout) (tmpl_refs pbkdf_layout) (\<lambda>_. 0) w xs"
    and "\<And>t b f. tmpl_body pbkdf_layout w t = Some b \<Longrightarrow> pt_derive b = Some f \<Longrightarrow> stateless E f"
  using assms by (simp_all add: pbkdf_ok_def)

lemma pbkdf_ok_cong: "w_pbkdf u = w_pbkdf w \<Longrightarrow> pbkdf_ok E xs u = pbkdf_ok E xs w"
  by (simp add: pbkdf_ok_def counted_def tmpl_repr_def tmpl_refs_def tmpl_body_def pbkdf_layout_def)

lemma pbkdf_ok_errno: "pbkdf_ok E xs w \<Longrightarrow> pbkdf_ok E xs (w\<lparr>errno := e\<rparr>) \<and> pbkdf_part w (w\<lparr>errno := e\<rparr>)"
  by (simp add: pbkdf_part_def pbkdf_ok_cong [of "w\<lparr>errno := e\<rparr>" w])

lemma pbkdf_ok_registry:
  assumes "pbkdf_ok E xs w" and "\<exists>R. u = w\<lparr>w_pbkdf := R\<rparr>" and "tmpl_body pbkdf_layout u = tmpl_body pbkdf_layout w"
    and "counted (tmpl_repr pbkdf_layout) (tmpl_refs pbkdf_layout) (\<lambda>_. 0) u ys"
  shows "pbkdf_ok E ys (u\<lparr>errno := e\<rparr>)" and "pbkdf_part w (u\<lparr>errno := e\<rparr>)"
proof -
  have "pbkdf_ok E ys u" using assms by (auto simp: pbkdf_ok_def)
  then show "pbkdf_ok E ys (u\<lparr>errno := e\<rparr>)" by (simp add: pbkdf_ok_errno)
  show "pbkdf_part w (u\<lparr>errno := e\<rparr>)" using assms(2) by (auto simp: pbkdf_part_def)
qed

lemma pbkdf_register_typed:
  assumes ok: "pbkdf_ok E xs w" and t: "t \<in> dom (rg_types (w_pbkdf w))"
  shows "\<exists>r u ys. cfe_pbkdf_register t w = Some (r, u) \<and> pbkdf_ok E ys u \<and> pbkdf_part w u"
proof -
  from pbkdf_lay.register_any [OF pbkdf_okD(1) [OF ok], of t] t
  obtain r u e ys where "cfe_pbkdf_register t w = Some (r, u\<lparr>errno := e\<rparr>)"
      "counted (tmpl_repr pbkdf_layout) (tmpl_refs pbkdf_layout) (\<lambda>_. 0) u ys"
      "tmpl_body pbkdf_layout u = tmpl_body pbkdf_layout w" "\<exists>R. u = w\<lparr>w_pbkdf := R\<rparr>"
    unfolding cfe_pbkdf_register_eq layout_parts by blast
  then show ?thesis using pbkdf_ok_registry [OF ok] by blast
qed

lemma pbkdf_unregister_typed:
  assumes ok: "pbkdf_ok E xs w" and t: "t \<in> set xs"
  shows "\<exists>r u ys. cfe_pbkdf_unregister t w = Some (r, u) \<and> pbkdf_ok E ys u \<and> pbkdf_part w u"
proof -
  have one: "Suc 0 < 2 ^ 31" by simp
  from pbkdf.counted_unregister [OF pbkdf_okD(1) [OF ok] t one]
  obtain r u e ys where "cfe_pbkdf_unregister t w = Some (r, u\<lparr>errno := e\<rparr>)"
      "counted (tmpl_repr pbkdf_layout) (tmpl_refs pbkdf_layout) (\<lambda>_. 0) u ys"
      "tmpl_body pbkdf_layout u = tmpl_body pbkdf_layout w" "\<exists>R. u = w\<lparr>w_pbkdf := R\<rparr>" by blast
  then show ?thesis using pbkdf_ok_registry [OF ok] by blast
qed

lemma pbkdf_derive_typed:
  assumes ok: "pbkdf_ok E xs w"
  shows "\<exists>r out u. cfe_pbkdf_derive E algname rounds inp ilen salt slen olen w = Some (r, out, u) \<and> pbkdf_ok E xs u \<and>
    pbkdf_part w u"
proof -
  note r = countedD(1) [OF pbkdf_okD(1) [OF ok]]
  consider (einval) "algname = None \<or> inp = None \<or> ilen = 0"
    | (args) name buf where "algname = Some name" "inp = Some buf" "ilen \<noteq> 0" by (cases algname; cases inp; fast)
  then show ?thesis
  proof cases
    case einval
    then have "cfe_pbkdf_derive E algname rounds inp ilen salt slen olen w = Some (1, [], w\<lparr>errno := EINVAL\<rparr>)"
      by (auto simp: cfe_pbkdf_derive_def split: option.splits)
    then show ?thesis using pbkdf_ok_errno [OF ok] by auto
  next
    case args
    show ?thesis
    proof (cases "Some (cstr name) \<in> tmpl_key pbkdf_layout w ` set xs")
      case False
      then show ?thesis using cfe_pbkdf_derive_missing [OF r _ args(3)] args pbkdf_ok_errno [OF ok] by auto
    next
      case True
      then obtain t where t: "t \<in> set xs" "tmpl_key pbkdf_layout w t = Some (cstr name)" by auto
      then obtain ty f where ty: "rg_types (w_pbkdf w) t = Some ty" "pt_derive ty = Some f"
        by (auto simp: tmpl_key_def reg_key_def pbkdf_layout_def split: option.splits if_splits)
      then have "stateless E f"
        using pbkdf_okD(2) [OF ok, of t "pt_refcnt_update (\<lambda>_. 0) ty" f] by (simp add: tmpl_body_def pbkdf_layout_def)
      then have call: "\<exists>r out. call_derive E f rounds buf ilen salt slen olen v = Some (r, out, v)" for v
        unfolding stateless_def by blast
      obtain v where v: "tmpl_release pbkdf_layout t v = Some w"
          "cfe_pbkdf_derive E (Some name) rounds (Some buf) ilen salt slen olen w = do {
            (ret, out, v) \<leftarrow> call_derive E f rounds buf ilen salt slen olen v;
            u \<leftarrow> tmpl_release pbkdf_layout t v;
            Some (ret, out, u)
          }"
        using cfe_pbkdf_derive_found [OF r t args(3) ty, of E rounds buf salt slen olen] by blast
      obtain r out where "call_derive E f rounds buf ilen salt slen olen v = Some (r, out, v)" using call by blast
      then have "cfe_pbkdf_derive E algname rounds inp ilen salt slen olen w = Some (r, out, w)"
        using v args by simp
      then show ?thesis using ok by (auto simp: pbkdf_part_def)
    qed
  qed
qed

subsection \<open>Random generators\<close>

definition rand_ok :: "env \<Rightarrow> addr list \<Rightarrow> world \<Rightarrow> bool" where
  "rand_ok E xs w \<longleftrightarrow> counted (tmpl_repr rand_layout) (tmpl_refs rand_layout) (\<lambda>_. 0) w xs \<and>
     (\<forall>t b f. tmpl_body rand_layout w t = Some b \<longrightarrow> rt_get b = Some f \<longrightarrow> f = Fn_openssl_rand_get)"

definition rand_part :: "world \<Rightarrow> world \<Rightarrow> bool" where
  "rand_part w u \<longleftrightarrow> u = w\<lparr>w_rand := w_rand u, w_rng := w_rng u, errno := errno u\<rparr>"

lemma rand_okD:
  assumes "rand_ok E xs w"
  shows "counted (tmpl_repr rand_layout) (tmpl_refs rand_layout) (\<lambda>_. 0) w xs"
    and "\<And>t b f. tmpl_body rand_layout w t = Some b \<Longrightarrow> rt_get b = Some f \<Longrightarrow> f = Fn_openssl_rand_get"
  using assms by (simp_all add: rand_ok_def)

lemma rand_ok_cong: "w_rand u = w_rand w \<Longrightarrow> rand_ok E xs u = rand_ok E xs w"
  by (simp add: rand_ok_def counted_def tmpl_repr_def tmpl_refs_def tmpl_body_def rand_layout_def)

lemma rand_ok_errno: "rand_ok E xs w \<Longrightarrow> rand_ok E xs (w\<lparr>errno := e\<rparr>) \<and> rand_part w (w\<lparr>errno := e\<rparr>)"
  by (simp add: rand_part_def rand_ok_cong [of "w\<lparr>errno := e\<rparr>" w])

lemma rand_ok_registry:
  assumes "rand_ok E xs w" and "\<exists>R. u = w\<lparr>w_rand := R\<rparr>" and "tmpl_body rand_layout u = tmpl_body rand_layout w"
    and "counted (tmpl_repr rand_layout) (tmpl_refs rand_layout) (\<lambda>_. 0) u ys"
  shows "rand_ok E ys (u\<lparr>errno := e\<rparr>)" and "rand_part w (u\<lparr>errno := e\<rparr>)"
proof -
  have "rand_ok E ys u" using assms by (auto simp: rand_ok_def)
  then show "rand_ok E ys (u\<lparr>errno := e\<rparr>)" by (simp add: rand_ok_errno)
  show "rand_part w (u\<lparr>errno := e\<rparr>)" using assms(2) by (auto simp: rand_part_def)
qed

lemma rand_register_typed:
  assumes ok: "rand_ok E xs w" and t: "t \<in> dom (rg_types (w_rand w))"
  shows "\<exists>r u ys. cfe_rand_register t w = Some (r, u) \<and> rand_ok E ys u \<and> rand_part w u"
proof -
  from rand_lay.register_any [OF rand_okD(1) [OF ok], of t] t
  obtain r u e ys where "cfe_rand_register t w = Some (r, u\<lparr>errno := e\<rparr>)"
      "counted (tmpl_repr rand_layout) (tmpl_refs rand_layout) (\<lambda>_. 0) u ys"
      "tmpl_body rand_layout u = tmpl_body rand_layout w" "\<exists>R. u = w\<lparr>w_rand := R\<rparr>"
    unfolding cfe_rand_register_eq layout_parts by blast
  then show ?thesis using rand_ok_registry [OF ok] by blast
qed

lemma rand_unregister_typed:
  assumes ok: "rand_ok E xs w" and t: "t \<in> set xs"
  shows "\<exists>r u ys. cfe_rand_unregister t w = Some (r, u) \<and> rand_ok E ys u \<and> rand_part w u"
proof -
  have one: "Suc 0 < 2 ^ 31" by simp
  from rand.counted_unregister [OF rand_okD(1) [OF ok] t one]
  obtain r u e ys where "cfe_rand_unregister t w = Some (r, u\<lparr>errno := e\<rparr>)"
      "counted (tmpl_repr rand_layout) (tmpl_refs rand_layout) (\<lambda>_. 0) u ys"
      "tmpl_body rand_layout u = tmpl_body rand_layout w" "\<exists>R. u = w\<lparr>w_rand := R\<rparr>" by blast
  then show ?thesis using rand_ok_registry [OF ok] by blast
qed

lemma rand_get_typed:
  assumes ok: "rand_ok E xs w"
  shows "\<exists>r out u. cfe_rand_get E buffer_null sz w = Some (r, out, u) \<and> rand_ok E xs u \<and> rand_part w u"
proof -
  note r = countedD(1) [OF rand_okD(1) [OF ok]]
  have key: "cstr ''rand'' = ''rand''" by (simp add: cstr_def)
  consider (einval) "buffer_null \<or> sz = 0" | (missing) "\<not> buffer_null" "sz \<noteq> 0" "Some ''rand'' \<notin> tmpl_key rand_layout w ` set xs"
    | (found) t where "\<not> buffer_null" "sz \<noteq> 0" "t \<in> set xs" "tmpl_key rand_layout w t = Some ''rand''"
    by (cases "buffer_null \<or> sz = 0"; cases "Some ''rand'' \<in> tmpl_key rand_layout w ` set xs"; fastforce)
  then show ?thesis
  proof cases
    case einval
    then show ?thesis using rand_ok_errno [OF ok] by (simp add: cfe_rand_get_def)
  next
    case missing
    then have "tmpl_acquire rand_layout ''rand'' w = Some (NULL, w)" using rand.acquire_missing [OF r, of "''rand''"] key by simp
    then show ?thesis using missing rand_ok_errno [OF ok] by (simp add: cfe_rand_get_eq)
  next
    case found
    then obtain ty f where ty: "rg_types (w_rand w) t = Some ty" "rt_get ty = Some f"
      by (auto simp: tmpl_key_def reg_key_def rand_layout_def split: option.splits if_splits)
    then have "f = Fn_openssl_rand_get"
      using rand_okD(2) [OF ok, of t "rt_refcnt_update (\<lambda>_. 0) ty" f] by (simp add: tmpl_body_def rand_layout_def)
    then obtain a out s where "cfe_rand_get E buffer_null sz w = Some (a, out, w\<lparr>w_rng := s\<rparr>)"
      using cfe_rand_get_openssl [OF r found(3,4,2) ty(1)] ty(2) found(1) by (auto simp: split_beta)
    moreover have "rand_ok E xs (w\<lparr>w_rng := s\<rparr>)" using ok by (subst rand_ok_cong [of _ w]) simp_all
    ultimately show ?thesis by (auto simp: rand_part_def)
  qed
qed

end
