(* ===== verification/Cfe_Cipher_Typing.thy ===== *)
theory Cfe_Cipher_Typing
  imports Cfe_Typing
begin

text \<open>
  Well-typed states, continued: the registry of ciphers and the cipher contexts, with the references
  that clients and writers hold.
\<close>

subsection \<open>Ciphers\<close>

definition cipher_bodies_ok :: "env \<Rightarrow> world \<Rightarrow> bool" where
  "cipher_bodies_ok E w \<longleftrightarrow> (\<forall>t b f. tmpl_body cipher_layout w t = Some b \<longrightarrow> ct_alloc_ctx b = Some f \<longrightarrow>
     cipher_alloc_args E f \<noteq> None)"

text \<open>
  The references to a cipher: those of the contexts, and those that somebody \<open>held\<close> beside them (a client
  that called \<^verbatim>\<open>cfe_cipher_ref\<close>, or a writer, which does not note which cipher its reference is to).
\<close>

definition cipher_users :: "(addr \<Rightarrow> nat) \<Rightarrow> world \<Rightarrow> addr \<Rightarrow> nat" where
  "cipher_users held w t = users (w_cipher_ctxs w) cc_type t + held t"

definition cipher_ok :: "env \<Rightarrow> (addr \<Rightarrow> nat) \<Rightarrow> addr list \<Rightarrow> world \<Rightarrow> bool" where
  "cipher_ok E held xs w \<longleftrightarrow>
     counted (tmpl_repr cipher_layout) (tmpl_refs cipher_layout) (cipher_users held w) w xs \<and>
     finite (dom (w_cipher_ctxs w)) \<and> (\<forall>t. 0 < held t \<longrightarrow> t \<in> set xs) \<and>
     (\<forall>ctx c. w_cipher_ctxs w ctx = Some c \<longrightarrow> cc_type c \<in> set xs \<and> (\<exists>md st. cipher_live E w ctx (cc_type c) md st)) \<and>
     cipher_bodies_ok E w"

text \<open>The part of the world that the ciphers own.\<close>

definition cipher_part :: "world \<Rightarrow> world \<Rightarrow> bool" where
  "cipher_part w u \<longleftrightarrow> u = w\<lparr>w_cipher := w_cipher u, w_cipher_ctxs := w_cipher_ctxs u, w_cipher_octxs := w_cipher_octxs u,
     errno := errno u\<rparr>"

lemma cipher_okD:
  assumes "cipher_ok E held xs w"
  shows "counted (tmpl_repr cipher_layout) (tmpl_refs cipher_layout) (cipher_users held w) w xs"
    and "finite (dom (w_cipher_ctxs w))"
    and "\<And>ctx c. w_cipher_ctxs w ctx = Some c \<Longrightarrow> cc_type c \<in> set xs"
    and "\<And>ctx c. w_cipher_ctxs w ctx = Some c \<Longrightarrow> \<exists>md st. cipher_live E w ctx (cc_type c) md st"
    and "cipher_bodies_ok E w" and "\<And>t. 0 < held t \<Longrightarrow> t \<in> set xs"
  using assms by (auto simp: cipher_ok_def)

lemma cipher_counted_cong:
  "w_cipher u = w_cipher w \<Longrightarrow>
    counted (tmpl_repr cipher_layout) (tmpl_refs cipher_layout) n u xs =
    counted (tmpl_repr cipher_layout) (tmpl_refs cipher_layout) n w xs"
  by (simp add: counted_def tmpl_repr_def tmpl_refs_def cipher_layout_def)

lemma cipher_ok_cong:
  assumes "w_cipher u = w_cipher w" and "w_cipher_ctxs u = w_cipher_ctxs w" and "w_cipher_octxs u = w_cipher_octxs w"
  shows "cipher_ok E held xs u = cipher_ok E held xs w"
  unfolding cipher_ok_def cipher_live_def cipher_bodies_ok_def cipher_users_def [abs_def] cipher_counted_cong [OF assms(1)] assms(2,3)
  using assms(1) by (simp add: tmpl_body_def cipher_layout_def)

lemma cipher_partI: "\<exists>R. u = w\<lparr>w_cipher := R\<rparr> \<Longrightarrow> cipher_part w (u\<lparr>errno := e\<rparr>)"
  by (auto simp: cipher_part_def)

text \<open>A step of the registry that keeps the types of all contexts.\<close>

lemma cipher_ok_registry:
  assumes ok: "cipher_ok E held xs w" and u: "\<exists>R. u = w\<lparr>w_cipher := R\<rparr>" and b: "tmpl_body cipher_layout u = tmpl_body cipher_layout w"
    and c: "counted (tmpl_repr cipher_layout) (tmpl_refs cipher_layout) (cipher_users held w) u ys"
    and s: "\<And>t. t \<in> set xs \<Longrightarrow> 0 < cipher_users held w t \<Longrightarrow> t \<in> set ys"
  shows "cipher_ok E held ys (u\<lparr>errno := e\<rparr>)"
proof -
  note D = cipher_okD [OF ok]
  have e: "w_cipher_ctxs u = w_cipher_ctxs w" "w_cipher_octxs u = w_cipher_octxs w" using u by auto
  have cu: "cipher_users held u = cipher_users held w" by (simp add: cipher_users_def fun_eq_iff e)
  have in_ys: "t \<in> set ys" if "t \<in> set xs" "0 < users (w_cipher_ctxs w) cc_type t \<or> 0 < held t" for t
    using s [OF that(1)] that(2) by (auto simp: cipher_users_def)
  have "cipher_ok E held ys u"
    unfolding cipher_ok_def e cipher_live_def cu
    using c D(2,3,6) D(4) [unfolded cipher_live_def] D(5) b in_ys users_pos [OF D(2), of _ _ cc_type]
    by (auto simp: cipher_bodies_ok_def)
  then show ?thesis by (subst cipher_ok_cong [of _ u]) simp_all
qed

lemma cipher_register_typed:
  assumes ok: "cipher_ok E held xs w" and t: "t \<in> dom (rg_types (w_cipher w))"
  shows "\<exists>r u ys. cfe_cipher_register t w = Some (r, u) \<and> cipher_ok E held ys u \<and> cipher_part w u"
proof -
  note D = cipher_okD [OF ok]
  have "cipher_users held w t = 0" if "t \<notin> set xs"
    using D(3,6) that users_none [of "w_cipher_ctxs w" cc_type t] by (auto simp: cipher_users_def)
  from cipher_lay.register_any [OF D(1) _ this] t
  obtain r u e ys where u: "cfe_cipher_register t w = Some (r, u\<lparr>errno := e\<rparr>)"
      "counted (tmpl_repr cipher_layout) (tmpl_refs cipher_layout) (cipher_users held w) u ys"
      "set xs \<subseteq> set ys" "tmpl_body cipher_layout u = tmpl_body cipher_layout w" "\<exists>R. u = w\<lparr>w_cipher := R\<rparr>"
    unfolding cfe_cipher_register_eq layout_parts by blast
  then show ?thesis using cipher_ok_registry [OF ok u(5,4,2)] cipher_partI [OF u(5)] by blast
qed

lemma cipher_unregister_typed:
  assumes ok: "cipher_ok E held xs w" and t: "t \<in> set xs" and lt: "Suc (cipher_users held w t) < 2 ^ 31"
  shows "\<exists>r u ys. cfe_cipher_unregister t w = Some (r, u) \<and> cipher_ok E held ys u \<and> cipher_part w u"
proof -
  from cipher.counted_unregister [OF cipher_okD(1) [OF ok] t lt]
  obtain r u e ys where u: "cfe_cipher_unregister t w = Some (r, u\<lparr>errno := e\<rparr>)"
      "counted (tmpl_repr cipher_layout) (tmpl_refs cipher_layout) (cipher_users held w) u ys"
      "\<forall>s \<in> set xs. 0 < cipher_users held w s \<longrightarrow> s \<in> set ys"
      "tmpl_body cipher_layout u = tmpl_body cipher_layout w" "\<exists>R. u = w\<lparr>w_cipher := R\<rparr>"
    by blast
  then show ?thesis using cipher_ok_registry [OF ok u(5,4,2)] cipher_partI [OF u(5)] by blast
qed

text \<open>Allocation. Without memory the code is undefined (\<open>cfe_cipher_alloc_ctx_oom\<close>), so there has to be some.\<close>

definition cipher_memory :: "env \<Rightarrow> world \<Rightarrow> bool" where
  "cipher_memory E w \<longleftrightarrow> e_sizeof_EVP_CIPHER_CTX (evpc E) < 2 ^ 32 \<and>
     (\<forall>R. e_calloc (libc E) (OCTX_SIZE_cipher E) (w\<lparr>w_cipher := R\<rparr>) \<noteq> NULL)"

lemma cipher_body_alloc:
  assumes "cipher_bodies_ok E w" and "tmpl_key cipher_layout w t \<noteq> None"
  shows "\<exists>ty f s md. rg_types (w_cipher w) t = Some ty \<and> ct_alloc_ctx ty = Some f \<and> cipher_alloc_args E f = Some (s, md)"
proof -
  obtain ty f where ty: "rg_types (w_cipher w) t = Some ty" "ct_alloc_ctx ty = Some f"
    using assms(2) by (auto simp: tmpl_key_def reg_key_def cipher_layout_def split: option.splits if_splits)
  then have "tmpl_body cipher_layout w t = Some (ct_refcnt_update (\<lambda>_. 0) ty)"
    by (simp add: tmpl_body_def cipher_layout_def)
  then have "cipher_alloc_args E f \<noteq> None" using assms(1) ty(2) unfolding cipher_bodies_ok_def by fastforce
  then show ?thesis using ty by auto
qed

lemma cipher_alloc_typed:
  assumes ok: "cipher_ok E held xs w" and mem: "cipher_memory E w" and al: "calloc_ok E"
  shows "\<exists>ctx u. cfe_cipher_alloc_ctx E name w = Some (ctx, u) \<and> cipher_ok E held xs u \<and> cipher_part w u \<and>
    (ctx = NULL \<or> ctx \<in> dom (w_cipher_ctxs u))"
proof -
  note D = cipher_okD [OF ok]
  let ?n = "cipher_users held w"
  from cipher.counted_acquire [OF D(1), of name] show ?thesis
  proof (elim disjE exE conjE)
    assume "cfe_cipher_ref name w = Some (NULL, w)"
    then have "cfe_cipher_alloc_ctx E name w = Some (NULL, w\<lparr>errno := ENOSYS\<rparr>)" by (simp add: cfe_cipher_alloc_ctx_def)
    moreover have "cipher_ok E held xs (w\<lparr>errno := ENOSYS\<rparr>)" using ok by (subst cipher_ok_cong [of _ w]) simp_all
    ultimately show ?thesis using cipher_partI [OF cipher_same] by blast
  next
    fix t v R
    assume v: "cfe_cipher_ref name w = Some (t, v)" "t \<noteq> NULL" "t \<in> set xs"
      "counted (tmpl_repr cipher_layout) (tmpl_refs cipher_layout) (?n(t := Suc (?n t))) v xs"
      "tmpl_body cipher_layout v = tmpl_body cipher_layout w" and R: "v = w\<lparr>w_cipher := R\<rparr>"
    define a where "a = e_calloc (libc E) (OCTX_SIZE_cipher E) v"
    have a: "a \<noteq> NULL" using mem R by (simp add: cipher_memory_def a_def)
    then have "fresh v a (OCTX_SIZE_cipher E)" using al by (auto simp: calloc_ok_def a_def)
    then have fr: "fresh w a (OCTX_SIZE_cipher E)" by (simp add: R fresh_def)
    have sz: "e_sizeof_EVP_CIPHER_CTX (evpc E) < 2 ^ 32" using mem by (simp add: cipher_memory_def)
    let ?ctx = "a + OCTX_BASE_cipher E"
    note blk = cipher_block [OF fr sz]
    have "tmpl_key cipher_layout v t \<noteq> None" using cipher.repr_keyed [OF countedD(1) [OF v(4)] v(3)] .
    moreover have bv: "cipher_bodies_ok E v" using D(5) v(5) by (simp add: cipher_bodies_ok_def)
    ultimately obtain ty f s md where ty: "rg_types (w_cipher v) t = Some ty" "ct_alloc_ctx ty = Some f"
        "cipher_alloc_args E f = Some (s, md)"
      using cipher_body_alloc by blast
    let ?c = "\<lparr>cc_ops = Some Openssl_generic_aead_ctx_ops, cc_type = t\<rparr>"
    let ?st = "replicate (unat (e_sizeof_EVP_CIPHER_CTX (evpc E))) (0 :: 8 word)"
    let ?u = "v\<lparr>w_cipher_octxs := (w_cipher_octxs w)(a \<mapsto> \<lparr>oc_cipher = Some md, oc_ctx = ?st\<rparr>),
        w_cipher_ctxs := (w_cipher_ctxs w)(?ctx \<mapsto> ?c)\<rparr>"
    have "cfe_cipher_alloc_ctx E name w = Some (?ctx, ?u)"
      using v(1,2) ty call_cipher_alloc_openssl [OF ty(3)] a blk(1)
      by (simp add: cfe_cipher_alloc_ctx_def openssl_alloc_ctx_cipher_def calloc_1 a_def [symmetric]) (simp add: R)
    moreover have "cipher_ok E held xs ?u"
    proof -
      have "counted (tmpl_repr cipher_layout) (tmpl_refs cipher_layout) (cipher_users held ?u) ?u xs"
      proof -
        have "cipher_users held ?u = ?n(t := Suc (?n t))"
          using users_new [OF D(2) blk(2), of ?c cc_type] by (simp add: cipher_users_def fun_eq_iff)
        then show ?thesis using v(4) by (simp add: cipher_counted_cong [of ?u v])
      qed
      moreover have "cc_type c \<in> set xs \<and> (\<exists>md st. cipher_live E ?u ctx (cc_type c) md st)"
        if c: "w_cipher_ctxs ?u ctx = Some c" for ctx c
      proof (cases "ctx = ?ctx")
        case True
        then show ?thesis using c v(3) blk(1) a by (auto simp: cipher_live_def OPENSSL_CTX_cipher_def)
      next
        case False
        then have o: "w_cipher_ctxs w ctx = Some c" using c by simp
        then obtain md st where l: "cipher_live E w ctx (cc_type c) md st" using D(4) by blast
        then have "OPENSSL_CTX_cipher E ctx \<noteq> a" using blk(3) by (auto simp: cipher_live_def)
        then have "cipher_live E ?u ctx (cc_type c) md st" using l False by (simp add: cipher_live_def)
        then show ?thesis using D(3) [OF o] by blast
      qed
      moreover have "cipher_bodies_ok E ?u" using bv by (simp add: cipher_bodies_ok_def tmpl_body_def cipher_layout_def)
      ultimately show ?thesis using D(2,6) unfolding cipher_ok_def by simp
    qed
    moreover have "cipher_part w ?u" by (simp add: cipher_part_def R)
    ultimately show ?thesis by auto
  qed
qed

text \<open>The operations on a live context change the state of its OpenSSL object.\<close>

lemma cipher_ok_state:
  assumes ok: "cipher_ok E held xs w" and l: "cipher_live E w ctx t md st"
  shows "cipher_ok E held xs (cipher_state E ctx md b w)" and "cipher_part w (cipher_state E ctx md b w)"
proof -
  note D = cipher_okD [OF ok]
  let ?u = "cipher_state E ctx md b w"
  have "\<exists>md st. cipher_live E ?u ctx' (cc_type c) md st" if c: "w_cipher_ctxs w ctx' = Some c" for ctx' c
  proof (cases "ctx' = ctx")
    case True
    then show ?thesis using c l cipher_live_state [OF l, of b] by (auto simp: cipher_live_def)
  next
    case False
    then have "OPENSSL_CTX_cipher E ctx' \<noteq> OPENSSL_CTX_cipher E ctx" by (simp add: OPENSSL_CTX_cipher_def)
    then show ?thesis using D(4) [OF c] by (simp add: cipher_live_def cipher_state_def)
  qed
  then show "cipher_ok E held xs ?u"
    using D(1-3,5,6) by (simp add: cipher_ok_def cipher_state_def cipher_users_def [abs_def] cipher_counted_cong [of ?u w] cipher_bodies_ok_def
        tmpl_body_def cipher_layout_def counted_def tmpl_repr_def tmpl_refs_def)
  show "cipher_part w ?u" by (simp add: cipher_part_def cipher_state_def)
qed

lemma cipher_ok_errno: "cipher_ok E held xs w \<Longrightarrow> cipher_ok E held xs (w\<lparr>errno := e\<rparr>) \<and> cipher_part w (w\<lparr>errno := e\<rparr>)"
  using cipher_partI [OF cipher_same] by (auto simp: cipher_ok_cong [of "w\<lparr>errno := e\<rparr>" w])

lemma cipher_ctx_parts:
  assumes ok: "cipher_ok E held xs w" and c: "ctx \<in> dom (w_cipher_ctxs w)" and "ctx \<noteq> NULL"
  obtains t ci st ty where "cipher_live E w ctx t ci st" and "rg_types (w_cipher w) t = Some ty" and "t \<in> set xs"
proof -
  note D = cipher_okD [OF ok]
  obtain k where k: "w_cipher_ctxs w ctx = Some k" using c by auto
  then obtain ci st where l: "cipher_live E w ctx (cc_type k) ci st" using D(4) by blast
  obtain ty where "rg_types (w_cipher w) (cc_type k) = Some ty"
    using countedD(2) [OF D(1) D(3) [OF k]] by (auto simp: tmpl_refs_def cipher_layout_def)
  then show ?thesis using that l D(3) [OF k] by blast
qed

text \<open>The initialisation has many ways out; each leaves the context with some state.\<close>

lemma cipher_init_outcomes:
  assumes l: "cipher_live E w ctx t c st" and ty: "rg_types (w_cipher w) t = Some ty"
  shows "\<exists>r u. cfe_cipher_ctx_init E ctx mode ky ksize iv isize w = Some (r, u) \<and>
    (u = w \<or> u = w\<lparr>errno := EINVAL\<rparr> \<or> (\<exists>s. u = cipher_state E ctx c s w))"
proof -
  have set: "set_cctx (OPENSSL_CTX_cipher E ctx) b w = Some (cipher_state E ctx c b w)" for b
    using l by (simp add: set_cctx_def cipher_live_def cipher_state_def)
  have again: "set_cctx (OPENSSL_CTX_cipher E ctx) b (cipher_state E ctx c a w) = Some (cipher_state E ctx c b w)" for a b
    by (simp add: set_cctx_def cipher_state_def)
  have ob: "w_cipher_octxs w (OPENSSL_CTX_cipher E ctx) = Some \<lparr>oc_cipher = Some c, oc_ctx = st\<rparr>"
    and cx: "w_cipher_ctxs w ctx = Some \<lparr>cc_ops = Some Openssl_generic_aead_ctx_ops, cc_type = t\<rparr>" "ctx \<noteq> NULL"
    and cs: "w_cipher_ctxs (cipher_state E ctx c b w) = w_cipher_ctxs w" for b
    using l by (simp_all add: cipher_live_def cipher_state_def)
  have "\<exists>r u. openssl_generic_ctx_init_cipher E ctx mode ky ksize iv isize w = Some (r, u) \<and>
      (u = w \<or> (\<exists>s. u = cipher_state E ctx c s w))"
    using ty by (auto simp: openssl_generic_ctx_init_cipher_def Let_def ob set again cx cs split_beta)
  then show ?thesis using ty cx by (auto simp: cfe_cipher_ctx_init_def)
qed

lemma cipher_init_typed:
  assumes ok: "cipher_ok E held xs w" and c: "ctx = NULL \<or> ctx \<in> dom (w_cipher_ctxs w)"
  shows "\<exists>r u. cfe_cipher_ctx_init E ctx mode ky ksize iv isize w = Some (r, u) \<and> cipher_ok E held xs u \<and> cipher_part w u"
proof (cases "ctx = NULL")
  case True
  then show ?thesis using cipher_ok_errno [OF ok] by (simp add: cfe_cipher_ctx_init_def)
next
  case False
  then obtain t ci st ty where l: "cipher_live E w ctx t ci st" "rg_types (w_cipher w) t = Some ty"
    using cipher_ctx_parts [OF ok] c by metis
  have "cipher_part w w" by (simp add: cipher_part_def)
  then show ?thesis
    using cipher_init_outcomes [OF l, of mode ky ksize iv isize] cipher_ok_state [OF ok l(1)] cipher_ok_errno [OF ok] ok
    by metis
qed

lemma cipher_ctx_typed:
  assumes ok: "cipher_ok E held xs w" and c: "ctx = NULL \<or> ctx \<in> dom (w_cipher_ctxs w)"
  shows "(\<exists>r out m u. cfe_cipher_ctx_update E ctx b n olen w = Some (r, out, m, u) \<and> cipher_ok E held xs u \<and> cipher_part w u) \<and>
    (\<exists>r out m u. cfe_cipher_ctx_finalize E ctx olen w = Some (r, out, m, u) \<and> cipher_ok E held xs u \<and> cipher_part w u) \<and>
    (\<exists>r u. cfe_cipher_ctx_set_padding E ctx on w = Some (r, u) \<and> cipher_ok E held xs u \<and> cipher_part w u) \<and>
    (\<exists>r u. cfe_cipher_ctx_set_aad E ctx b n w = Some (r, u) \<and> cipher_ok E held xs u \<and> cipher_part w u) \<and>
    (\<exists>r u. cfe_cipher_ctx_set_tag E ctx b n w = Some (r, u) \<and> cipher_ok E held xs u \<and> cipher_part w u) \<and>
    (\<exists>r out u. cfe_cipher_ctx_get_tag E ctx n w = Some (r, out, u) \<and> cipher_ok E held xs u \<and> cipher_part w u) \<and>
    (\<exists>r u. cfe_cipher_ctx_blocksize ctx w = Some (r, u) \<and> cipher_ok E held xs u \<and> cipher_part w u)"
proof (cases "ctx = NULL")
  case True
  then show ?thesis
    using cipher_ok_errno [OF ok]
    by (simp add: cfe_cipher_ctx_update_def cfe_cipher_ctx_finalize_def cfe_cipher_ctx_set_padding_def ctx_is_aead_def
        cfe_cipher_ctx_set_aad_def cfe_cipher_ctx_set_tag_def cfe_cipher_ctx_get_tag_def cfe_cipher_ctx_blocksize_def)
next
  case False
  then obtain t ci st ty where l: "cipher_live E w ctx t ci st" "rg_types (w_cipher w) t = Some ty"
    using cipher_ctx_parts [OF ok] c by metis
  have "cfe_cipher_ctx_blocksize ctx w = Some (sint (ct_blocksize ty), w)" "cipher_part w w"
    using l by (simp_all add: cfe_cipher_ctx_blocksize_def cipher_part_def cipher_live_def)
  then show ?thesis
    using cipher_ctx_steps [OF l(1)] cipher_ctx_aead [OF l] cipher_ok_state [OF ok l(1)] cipher_ok_errno [OF ok] ok
    by (simp add: split_beta)
qed

text \<open>References that a client takes and drops.\<close>

lemma cipher_held: "(cipher_users held w)(t := Suc (cipher_users held w t)) = cipher_users (held(t := Suc (held t))) w"
  by (simp add: cipher_users_def fun_eq_iff)

lemma cipher_ok_held:
  assumes ok: "cipher_ok E held xs w" and u: "\<exists>R. u = w\<lparr>w_cipher := R\<rparr>" and b: "tmpl_body cipher_layout u = tmpl_body cipher_layout w"
    and c: "counted (tmpl_repr cipher_layout) (tmpl_refs cipher_layout) (cipher_users held' w) u xs"
    and s: "\<And>t. 0 < held' t \<Longrightarrow> t \<in> set xs"
  shows "cipher_ok E held' xs u" and "cipher_part w u"
proof -
  note D = cipher_okD [OF ok]
  have e: "w_cipher_ctxs u = w_cipher_ctxs w" "w_cipher_octxs u = w_cipher_octxs w" using u by auto
  have cu: "cipher_users held' u = cipher_users held' w" by (simp add: cipher_users_def fun_eq_iff e)
  show "cipher_ok E held' xs u"
    unfolding cipher_ok_def e cipher_live_def cu
    using c D(2,3) D(4) [unfolded cipher_live_def] D(5) b s by (auto simp: cipher_bodies_ok_def)
  show "cipher_part w u" using u by (auto simp: cipher_part_def)
qed

lemma cipher_ref_typed:
  assumes ok: "cipher_ok E held xs w"
  shows "cfe_cipher_ref name w = Some (NULL, w) \<or> (\<exists>t u. cfe_cipher_ref name w = Some (t, u) \<and> t \<noteq> NULL \<and> t \<in> set xs \<and>
    cipher_ok E (held(t := Suc (held t))) xs u \<and> cipher_part w u \<and> (\<exists>R. u = w\<lparr>w_cipher := R\<rparr>))"
proof -
  from cipher.counted_acquire [OF cipher_okD(1) [OF ok], of name] show ?thesis
  proof (elim disjE exE conjE)
    fix t u R
    assume v: "cfe_cipher_ref name w = Some (t, u)" "t \<noteq> NULL" "t \<in> set xs"
      "counted (tmpl_repr cipher_layout) (tmpl_refs cipher_layout) ((cipher_users held w)(t := Suc (cipher_users held w t))) u xs"
      "tmpl_body cipher_layout u = tmpl_body cipher_layout w" and R: "u = w\<lparr>w_cipher := R\<rparr>"
    have u: "\<exists>R. u = w\<lparr>w_cipher := R\<rparr>" using R by blast
    have s: "s \<in> set xs" if "0 < (held(t := Suc (held t))) s" for s
      using that cipher_okD(6) [OF ok] v(3) by (auto split: if_splits)
    show ?thesis using cipher_ok_held [OF ok u v(5) v(4) [unfolded cipher_held] s] v(1-3) u by blast
  qed simp
qed

lemma cipher_put_typed:
  assumes ok: "cipher_ok E (held(t := Suc k)) xs w"
  shows "\<exists>u. cfe_cipher_put t w = Some u \<and> cipher_ok E (held(t := k)) xs u \<and> cipher_part w u \<and> (\<exists>R. u = w\<lparr>w_cipher := R\<rparr>)"
proof -
  let ?n = "cipher_users (held(t := Suc k)) w"
  have t: "t \<in> set xs" using cipher_okD(6) [OF ok, of t] by simp
  have m: "?n(t := Suc (cipher_users (held(t := k)) w t)) = ?n"
    "?n(t := cipher_users (held(t := k)) w t) = cipher_users (held(t := k)) w"
    by (simp_all add: cipher_users_def fun_eq_iff)
  have "counted (tmpl_repr cipher_layout) (tmpl_refs cipher_layout) (?n(t := Suc (cipher_users (held(t := k)) w t))) w xs"
    unfolding m(1) by (rule cipher_okD(1) [OF ok])
  from cipher_put.counted_release [OF this t, unfolded m(2)]
  obtain u where u: "cfe_cipher_put t w = Some u"
      "counted (tmpl_repr cipher_layout) (tmpl_refs cipher_layout) (cipher_users (held(t := k)) w) u xs"
      "tmpl_body cipher_layout u = tmpl_body cipher_layout w" "\<exists>R. u = w\<lparr>w_cipher := R\<rparr>"
    by auto
  have s: "s \<in> set xs" if "0 < (held(t := k)) s" for s
    using that cipher_okD(6) [OF ok, of s] t by (auto split: if_splits)
  show ?thesis using cipher_ok_held [OF ok u(4,3,2) s] u(1,4) by blast
qed

lemma cipher_destroy_typed:
  assumes ok: "cipher_ok E held xs w" and c: "ctx = NULL \<or> ctx \<in> dom (w_cipher_ctxs w)"
  shows "\<exists>u. cfe_cipher_destroy_ctx E ctx w = Some u \<and> cipher_ok E held xs u \<and> cipher_part w u"
proof (cases "ctx = NULL")
  case True
  then show ?thesis using ok by (simp add: cfe_cipher_destroy_ctx_def cipher_part_def)
next
  case False
  note D = cipher_okD [OF ok]
  obtain k where k: "w_cipher_ctxs w ctx = Some k" using c False by auto
  then obtain md st where l: "cipher_live E w ctx (cc_type k) md st" using D(4) by blast
  let ?o = "OPENSSL_CTX_cipher E ctx" and ?t = "cc_type k"
  let ?v = "w\<lparr>w_cipher_octxs := (w_cipher_octxs w)(?o := None), w_cipher_ctxs := (w_cipher_ctxs w)(ctx := None)\<rparr>"
  let ?n = "cipher_users held ?v"
  have d: "call_cipher_destroy E Openssl_generic_aead_ctx_ops ctx w = Some ?v"
    using l by (simp add: cipher_live_def openssl_destroy_ctx_cipher_def free_defs)
  have "counted (tmpl_repr cipher_layout) (tmpl_refs cipher_layout) (?n(?t := Suc (?n ?t))) ?v xs"
  proof -
    have "cipher_users held w = ?n(?t := Suc (?n ?t))"
      using fun_cong [OF users_free [OF D(2) k, of cc_type]] by (auto simp: cipher_users_def fun_eq_iff)
    then show ?thesis using D(1) by (simp add: cipher_counted_cong [of ?v w])
  qed
  from cipher_put.counted_release [OF this D(3) [OF k]] obtain u where u: "cfe_cipher_put ?t ?v = Some u"
      "counted (tmpl_repr cipher_layout) (tmpl_refs cipher_layout) ?n u xs" "tmpl_body cipher_layout u = tmpl_body cipher_layout ?v"
      "\<exists>R. u = ?v\<lparr>w_cipher := R\<rparr>" by auto
  have cu: "cipher_users held u = ?n" using u(4) by (auto simp: cipher_users_def)
  have "cc_ops k = Some Openssl_generic_aead_ctx_ops" using k l by (cases k) (simp add: cipher_live_def)
  then have "cfe_cipher_destroy_ctx E ctx w = Some u"
    using False k d u(1) by (simp add: cfe_cipher_destroy_ctx_def)
  moreover have e: "w_cipher_ctxs u = w_cipher_ctxs ?v" "w_cipher_octxs u = w_cipher_octxs ?v" using u(4) by auto
  have "\<exists>md st. cipher_live E u ctx' (cc_type c) md st" if "ctx' \<noteq> ctx" "w_cipher_ctxs w ctx' = Some c" for ctx' c
    using D(4) [OF that(2)] that(1) unfolding cipher_live_def e by (auto simp: OPENSSL_CTX_cipher_def)
  then have "cipher_ok E held xs u"
    using u(2,3) D(2,3,5,6) unfolding cipher_ok_def e cu
    by (auto simp: cipher_bodies_ok_def tmpl_body_def cipher_layout_def split: if_splits)
  moreover have "cipher_part w u" using u(4) by (auto simp: cipher_part_def)
  ultimately show ?thesis by blast
qed

end
