(* ===== verification/Cfe_Header_Typing.thy ===== *)
theory Cfe_Header_Typing
  imports Cfe_Cipher_Typing
begin

text \<open>
  Well-typed states, continued: the registry of header formats and the headers. The creation of a header
  is defined in every well-typed state, whatever the allocator and the kernel answer: it either leaves
  the headers as they were and the registry without a new reference, or adds one header, which accounts
  for one reference to its type until it is closed.
\<close>

subsection \<open>Headers\<close>

definition header_object_ok :: "addr list \<Rightarrow> addr \<Rightarrow> cfe_header_v1 \<Rightarrow> bool" where
  "header_object_ok xs a h \<longleftrightarrow> a \<noteq> NULL \<and> hd_type h \<in> set xs \<and> hd_lock h = Some Unlocked \<and>
     hd_ops h = Some Cfe_header_v1_ops"

definition header_ok :: "addr list \<Rightarrow> world \<Rightarrow> bool" where
  "header_ok xs w \<longleftrightarrow>
     counted (tmpl_repr header_layout) (tmpl_refs header_layout) (users (w_headers w) hd_type) w xs \<and>
     finite (dom (w_headers w)) \<and> (\<forall>a h. w_headers w a = Some h \<longrightarrow> header_object_ok xs a h) \<and>
     (\<forall>t b. tmpl_body header_layout w t = Some b \<longrightarrow> hdt_alloc b = Some Fn_cfe_header_v1_alloc)"

definition header_part :: "world \<Rightarrow> world \<Rightarrow> bool" where
  "header_part w u \<longleftrightarrow> u = w\<lparr>w_header := w_header u, header_default := header_default u, w_headers := w_headers u,
     w_maps := w_maps u, w_fsize := w_fsize u, errno := errno u\<rparr>"

lemma header_okD:
  assumes "header_ok xs w"
  shows "counted (tmpl_repr header_layout) (tmpl_refs header_layout) (users (w_headers w) hd_type) w xs"
    and "finite (dom (w_headers w))" and "\<And>a h. w_headers w a = Some h \<Longrightarrow> header_object_ok xs a h"
    and "\<And>t b. tmpl_body header_layout w t = Some b \<Longrightarrow> hdt_alloc b = Some Fn_cfe_header_v1_alloc"
  using assms by (simp_all add: header_ok_def)

lemma header_counted_cong:
  "w_header u = w_header w \<Longrightarrow> header_default u = header_default w \<Longrightarrow>
    counted (tmpl_repr header_layout) (tmpl_refs header_layout) n u xs =
    counted (tmpl_repr header_layout) (tmpl_refs header_layout) n w xs"
  using header_repr_cipher [of u w] by (simp add: counted_def)

lemma header_ok_cong:
  "w_header u = w_header w \<Longrightarrow> header_default u = header_default w \<Longrightarrow> w_headers u = w_headers w \<Longrightarrow>
    header_ok xs u = header_ok xs w"
  by (simp add: header_ok_def header_counted_cong [of u w] tmpl_body_def layout_parts)

lemma header_body_cong: "w_header u = w_header w \<Longrightarrow> tmpl_body header_layout u = tmpl_body header_layout w"
  by (simp add: tmpl_body_def fun_eq_iff header_layout_def)

lemma header_body:
  assumes ok: "header_ok xs w" and t: "t \<in> set xs"
  shows "\<exists>ty. rg_types (w_header w) t = Some ty \<and> hdt_alloc ty = Some Fn_cfe_header_v1_alloc"
proof -
  obtain ty where ty: "rg_types (w_header w) t = Some ty"
    using countedD(2) [OF header_okD(1) [OF ok] t] by (auto simp: tmpl_refs_def header_layout_def)
  then have "tmpl_body header_layout w t = Some (hdt_refcnt_update (\<lambda>_. 0) ty)"
    by (simp add: tmpl_body_def header_layout_def)
  then show ?thesis using header_okD(4) [OF ok] ty by fastforce
qed

lemma header_registry_typed:
  assumes ok: "header_ok xs w" and u: "\<exists>R d. u = w\<lparr>w_header := R, header_default := d\<rparr>"
    and b: "tmpl_body header_layout u = tmpl_body header_layout w"
    and c: "counted (tmpl_repr header_layout) (tmpl_refs header_layout) (users (w_headers w) hd_type) u ys"
    and s: "\<And>t. t \<in> set xs \<Longrightarrow> 0 < users (w_headers w) hd_type t \<Longrightarrow> t \<in> set ys"
  shows "header_ok ys (u\<lparr>errno := e\<rparr>)" and "header_part w (u\<lparr>errno := e\<rparr>)" and "w_headers (u\<lparr>errno := e\<rparr>) = w_headers w"
proof -
  note D = header_okD [OF ok]
  show e: "w_headers (u\<lparr>errno := e\<rparr>) = w_headers w" using u by auto
  have eq: "w_headers u = w_headers w" using u by auto
  have "header_object_ok ys a h" if "w_headers w a = Some h" for a h
    using D(3) [OF that] s users_pos [where f = hd_type, OF D(2) that] by (simp add: header_object_ok_def)
  then have "header_ok ys u" using c D(2,4) b by (simp add: header_ok_def eq)
  then show "header_ok ys (u\<lparr>errno := e\<rparr>)" by (subst header_ok_cong [of _ u]) simp_all
  show "header_part w (u\<lparr>errno := e\<rparr>)" using u by (auto simp: header_part_def)
qed

lemma header_register_typed:
  assumes ok: "header_ok xs w" and t: "t \<in> dom (rg_types (w_header w))"
  shows "\<exists>r u ys. cfe_header_register t w = Some (r, u) \<and> header_ok ys u \<and> header_part w u \<and> w_headers u = w_headers w"
proof -
  note D = header_okD [OF ok]
  have "users (w_headers w) hd_type t = 0" if "t \<notin> set xs"
    using D(3) that by (intro users_none) (auto simp: header_object_ok_def)
  from header_lay.register_any [OF D(1) _ this] t
  obtain r u e ys where u: "cfe_header_register t w = Some (r, u\<lparr>errno := e\<rparr>)"
      "counted (tmpl_repr header_layout) (tmpl_refs header_layout) (users (w_headers w) hd_type) u ys"
      "set xs \<subseteq> set ys" "tmpl_body header_layout u = tmpl_body header_layout w"
      "\<exists>R d. u = w\<lparr>w_header := R, header_default := d\<rparr>"
    unfolding cfe_header_register_eq layout_parts by blast
  then show ?thesis using header_registry_typed [OF ok u(5,4,2)] by blast
qed

lemma header_unregister_typed:
  assumes ok: "header_ok xs w" and t: "t \<in> set xs" and lt: "Suc (users (w_headers w) hd_type t) < 2 ^ 31"
  shows "\<exists>r u ys. cfe_header_unregister t w = Some (r, u) \<and> header_ok ys u \<and> header_part w u \<and> w_headers u = w_headers w"
proof -
  from header.counted_unregister [OF header_okD(1) [OF ok] t lt]
  obtain r u e ys where u: "cfe_header_unregister t w = Some (r, u\<lparr>errno := e\<rparr>)"
      "counted (tmpl_repr header_layout) (tmpl_refs header_layout) (users (w_headers w) hd_type) u ys"
      "\<forall>s \<in> set xs. 0 < users (w_headers w) hd_type s \<longrightarrow> s \<in> set ys"
      "tmpl_body header_layout u = tmpl_body header_layout w" "\<exists>R d. u = w\<lparr>w_header := R, header_default := d\<rparr>"
    by blast
  then show ?thesis using header_registry_typed [OF ok u(5,4,2)] by blast
qed

text \<open>What the kernel does to the world, whatever it answers.\<close>

lemma fallocate_changes: "\<exists>r s e. cfe_fallocate E fd off len v = (r, v\<lparr>w_fsize := s, errno := e\<rparr>)"
  by (rule exI [of _ "fst (cfe_fallocate E fd off len v)"], rule exI [of _ "w_fsize (snd (cfe_fallocate E fd off len v))"],
      rule exI [of _ "errno (snd (cfe_fallocate E fd off len v))"])
     (simp add: cfe_fallocate_def posix_fallocate_def fcntl_preallocate_def Let_def)

lemma munmap_changes: "\<exists>m e. munmap E a n v = v\<lparr>w_maps := m, errno := e\<rparr>"
  by (cases "e_munmap (libc E) a n v = 0";
      rule exI [of _ "w_maps (munmap E a n v)"]; rule exI [of _ "errno (munmap E a n v)"]; simp add: munmap_def Let_def)

lemma mmap_changes: "\<exists>a m e. mmap_shared E n fd v = (a, v\<lparr>w_maps := m, errno := e\<rparr>)"
  by (cases "e_mmap (libc E) n fd v";
      rule exI [of _ "fst (mmap_shared E n fd v)"]; rule exI [of _ "w_maps (snd (mmap_shared E n fd v))"];
      rule exI [of _ "errno (snd (mmap_shared E n fd v))"]; simp add: mmap_shared_def)

text \<open>The allocation of a version 1 header has two outcomes, whatever the allocator and the kernel do.\<close>

lemma header_v1_alloc_outcomes:
  assumes al: "calloc_ok E"
  shows "\<exists>p u m s e. cfe_header_v1_alloc E fd n w = Some (p, u\<lparr>w_maps := m, w_fsize := s, errno := e\<rparr>) \<and>
    (p = NULL \<and> u = w \<or>
     p \<noteq> NULL \<and> w_headers w p = None \<and> (\<exists>k. u = w\<lparr>w_headers := (w_headers w)(p \<mapsto> header_v1 k n NULL)\<rparr>))"
proof -
  define a where "a = e_calloc (libc E) SIZEOF_HEADER_V1 w"
  show ?thesis
  proof (cases "a = NULL")
    case True
    then have "cfe_header_v1_alloc E fd n w =
        Some (NULL, w\<lparr>w_maps := w_maps w, w_fsize := w_fsize w, errno := ENOMEM\<rparr>)"
      by (simp add: cfe_header_v1_alloc_def cfe_header_v1_new_eq a_def [symmetric])
    then show ?thesis by blast
  next
    case False
    then have fr: "w_headers w a = None"
      using al freshD(2) [of w a SIZEOF_HEADER_V1] by (auto simp: calloc_ok_def a_def SIZEOF_HEADER_V1_def)
    let ?h = "zero_header\<lparr>hd_lock := Some Unlocked\<rparr>"
    have new: "cfe_header_v1_new E w = Some (a, new_header a w)"
      using False by (simp add: cfe_header_v1_new_eq a_def [symmetric])
    obtain r s e where fa: "cfe_fallocate E fd 0 n (new_header a w) = (r, (new_header a w)\<lparr>w_fsize := s, errno := e\<rparr>)"
      using fallocate_changes by blast
    show ?thesis
    proof (cases "r = 0")
      case False
      have "cfe_header_v1_free E a ((new_header a w)\<lparr>w_fsize := s, errno := r\<rparr>) = Some (w\<lparr>w_fsize := s, errno := r\<rparr>)"
        using fr \<open>a \<noteq> NULL\<close> by (subst cfe_header_v1_free_unmapped [of _ a ?h]) (simp_all add: new_header_def zero_header_def fun_upd_idem)
      then have "cfe_header_v1_alloc E fd n w = Some (NULL, w\<lparr>w_maps := w_maps w, w_fsize := s, errno := r\<rparr>)"
        using new \<open>a \<noteq> NULL\<close> False fa by (simp add: cfe_header_v1_alloc_def)
      then show ?thesis by blast
    next
      case True
      obtain k m e2 where mm: "mmap_shared E n fd ((new_header a w)\<lparr>w_fsize := s, errno := e\<rparr>) =
          (k, (new_header a w)\<lparr>w_fsize := s, errno := e\<rparr>\<lparr>w_maps := m, errno := e2\<rparr>)"
        using mmap_changes by blast
      let ?v = "w\<lparr>w_headers := (w_headers w)(a \<mapsto> header_v1 k n NULL), w_maps := m, w_fsize := s, errno := e2\<rparr>"
      have v: "w\<lparr>w_fsize := s, w_maps := m, errno := e2, w_headers := H\<rparr> =
          w\<lparr>w_headers := H, w_maps := m, w_fsize := s, errno := e2\<rparr>" for H by simp
      show ?thesis
      proof (cases "k = MAP_FAILED")
        case False
        then have "cfe_header_v1_alloc E fd n w = Some (a, ?v)"
          using new \<open>a \<noteq> NULL\<close> True fa mm
          by (simp add: cfe_header_v1_alloc_def new_header_def header_v1_def zero_header_def)
        then show ?thesis using \<open>a \<noteq> NULL\<close> fr by blast
      next
        case True
        then have k: "k \<noteq> NULL" by (simp add: MAP_FAILED_def)
        obtain m2 e3 where mu: "munmap E k n ?v = ?v\<lparr>w_maps := m2, errno := e3\<rparr>" using munmap_changes by blast
        have "cfe_header_v1_free E a ?v = Some (w\<lparr>w_maps := m2, w_fsize := s, errno := e3\<rparr>)"
          using fr \<open>a \<noteq> NULL\<close> k mu
          by (subst cfe_header_v1_free_mapped [of _ a "header_v1 k n NULL"]) (simp_all add: header_v1_def fun_upd_idem)
        then have "cfe_header_v1_alloc E fd n w = Some (NULL, w\<lparr>w_maps := m2, w_fsize := s, errno := e3\<rparr>)"
          using new \<open>a \<noteq> NULL\<close> \<open>r = 0\<close> fa mm True
          by (simp add: cfe_header_v1_alloc_def new_header_def header_v1_def zero_header_def v)
        then show ?thesis by blast
      qed
    qed
  qed
qed

text \<open>The selection of a type finds nothing, or a registered type.\<close>

lemma header_select_typed:
  assumes r: "tmpl_repr header_layout w xs"
  shows "\<exists>t. header_select version w = Some t \<and> (t = NULL \<or> t \<in> set xs)"
proof (cases "version = CFE_HEADER_VERSION_DEFAULT")
  case True
  have "header_default_ok w xs" using r by (simp add: tmpl_repr_def header_layout_def)
  then show ?thesis using True by (auto simp: header_select_def header_default_ok_def default_ok_def split: if_splits)
next
  case False
  then show ?thesis
    using header.find_key [OF r, of "of_int version"] header_find_in [OF r]
    by (fastforce simp: header_select_def)
qed

text \<open>A world whose header registry holds the reference that a new header takes.\<close>

lemma header_inc_counted:
  assumes "header_ok xs w" and t: "t \<in> set xs" and ty: "rg_types (w_header w) t = Some ty"
  shows "counted (tmpl_repr header_layout) (tmpl_refs header_layout)
    ((users (w_headers w) hd_type)(t := Suc (users (w_headers w) hd_type t))) (header_inc t ty w) xs"
    and "tmpl_body header_layout (header_inc t ty w) = tmpl_body header_layout w"
proof -
  note c = header_okD(1) [OF assms(1)]
  have "hdt_refcnt ty = of_nat (Suc (users (w_headers w) hd_type t))"
    using countedD(2) [OF c t] ty by (simp add: tmpl_refs_def header_layout_def)
  then show "counted (tmpl_repr header_layout) (tmpl_refs header_layout)
    ((users (w_headers w) hd_type)(t := Suc (users (w_headers w) hd_type t))) (header_inc t ty w) xs"
    using header_inc_repr [OF countedD(1) [OF c] ty] countedD(2) [OF c] by (auto simp: counted_def)
  show "tmpl_body header_layout (header_inc t ty w) = tmpl_body header_layout w"
    using ty by (auto simp: tmpl_body_def header_layout_def header_type_put_def fun_eq_iff)
qed

lemma header_create_typed:
  assumes ok: "header_ok xs w" and al: "calloc_ok E"
  shows "\<exists>p u. cfe_header_create E version fd sz w = Some (p, u) \<and> header_ok xs u \<and> header_part w u \<and>
    (p = NULL \<and> w_headers u = w_headers w \<or>
     p \<noteq> NULL \<and> w_headers w p = None \<and> (\<exists>h. w_headers u = (w_headers w)(p \<mapsto> h)))"
proof -
  note D = header_okD [OF ok]
  note r = countedD(1) [OF D(1)]
  obtain t where t: "header_select version w = Some t" "t = NULL \<or> t \<in> set xs"
    using header_select_typed [OF r] by blast
  show ?thesis
  proof (cases "t = NULL")
    case True
    have "header_ok xs (w\<lparr>errno := ENOSYS\<rparr>)" using ok by (subst header_ok_cong [of _ w]) simp_all
    then show ?thesis using cfe_header_create_missing [OF r] t(1) True by (simp add: header_part_def)
  next
    case False
    then have tx: "t \<in> set xs" using t(2) by simp
    obtain ty where ty: "rg_types (w_header w) t = Some ty" "hdt_alloc ty = Some Fn_cfe_header_v1_alloc"
      using header_body [OF ok tx] by blast
    let ?n = "ucast (normalize_headersize E (ucast sz)) :: size_t" and ?w = "header_inc t ty w"
    have hs: "w_headers ?w = w_headers w" by (simp add: header_type_put_def)
    obtain p u m s e where a: "cfe_header_v1_alloc E fd ?n ?w = Some (p, u\<lparr>w_maps := m, w_fsize := s, errno := e\<rparr>)"
        "p = NULL \<and> u = ?w \<or>
         p \<noteq> NULL \<and> w_headers w p = None \<and> (\<exists>k. u = ?w\<lparr>w_headers := (w_headers w)(p \<mapsto> header_v1 k ?n NULL)\<rparr>)"
      using header_v1_alloc_outcomes [OF al, of fd ?n ?w] unfolding hs by blast
    show ?thesis
    proof (cases "p = NULL")
      case True
      let ?u = "w\<lparr>w_maps := m, w_fsize := s, errno := e\<rparr>"
      have "cfe_header_create E version fd sz w = Some (NULL, ?u)"
        using a True ty(1)
        by (simp add: cfe_header_create_eq [OF r t(1) False ty] header_type_put_def reg_store_def fun_upd_idem)
      moreover have "header_ok xs ?u" using ok by (subst header_ok_cong [of _ w]) simp_all
      ultimately show ?thesis by (simp add: header_part_def)
    next
      case p: False
      then obtain k where u: "w_headers w p = None" "u = ?w\<lparr>w_headers := (w_headers w)(p \<mapsto> header_v1 k ?n NULL)\<rparr>"
        using a(2) by blast
      let ?h = "header_v1 k ?n t"
      let ?u = "?w\<lparr>w_headers := (w_headers w)(p \<mapsto> ?h), w_maps := m, w_fsize := s, errno := e\<rparr>"
      have "cfe_header_create E version fd sz w = Some (p, ?u)"
        using a(1) u p by (simp add: cfe_header_create_eq [OF r t(1) False ty] header_v1_def)
      moreover have "header_ok xs ?u"
      proof -
        have us: "users (w_headers ?u) hd_type = (users (w_headers w) hd_type)(t := Suc (users (w_headers w) hd_type t))"
          using users_new [OF D(2) u(1), of ?h hd_type] by (simp add: header_v1_def)
        have "counted (tmpl_repr header_layout) (tmpl_refs header_layout) (users (w_headers ?u) hd_type) ?u xs"
          using header_inc_counted(1) [OF ok tx ty(1)] unfolding us by (simp add: header_counted_cong [of ?u ?w])
        moreover have "header_object_ok xs b h" if "w_headers ?u b = Some h" for b h
          using that D(3) tx p by (auto simp: header_object_ok_def header_v1_def split: if_splits)
        moreover have "tmpl_body header_layout ?u = tmpl_body header_layout w"
          using header_inc_counted(2) [OF ok tx ty(1)] by (simp add: header_body_cong [of ?u ?w])
        ultimately show ?thesis using D(2,4) by (simp add: header_ok_def)
      qed
      moreover have "header_part w ?u" by (simp add: header_part_def header_type_put_def)
      ultimately show ?thesis using p u(1) by auto
    qed
  qed
qed

lemma header_close_typed:
  assumes ok: "header_ok xs w" and a: "a = NULL \<or> a \<in> dom (w_headers w)"
  shows "\<exists>u. cfe_header_close E a w = Some u \<and> header_ok xs u \<and> header_part w u \<and>
    w_headers u = (w_headers w)(a := None)"
proof (cases "a = NULL")
  case True
  have "w_headers w NULL = None" using header_okD(3) [OF ok, of NULL] by (cases "w_headers w NULL") (auto simp: header_object_ok_def)
  then show ?thesis using True ok by (simp add: cfe_header_close_def header_part_def fun_upd_idem)
next
  case False
  note D = header_okD [OF ok]
  obtain h where h: "w_headers w a = Some h" using a False by auto
  note ho = D(3) [OF h, unfolded header_object_ok_def]
  let ?t = "hd_type h"
  obtain m e where fr: "cfe_header_v1_free E a w = Some (w\<lparr>w_maps := m, errno := e, w_headers := (w_headers w)(a := None)\<rparr>)"
  proof (cases "hd_mapping h = NULL")
    case True
    then have "cfe_header_v1_free E a w = Some (w\<lparr>w_maps := w_maps w, errno := errno w, w_headers := (w_headers w)(a := None)\<rparr>)"
      using cfe_header_v1_free_unmapped [OF h] ho by simp
    then show ?thesis using that by blast
  next
    case False
    obtain m e where "munmap E (hd_mapping h) (hd_msize h) w = w\<lparr>w_maps := m, errno := e\<rparr>" using munmap_changes by blast
    then show ?thesis using that cfe_header_v1_free_mapped [OF h _ _ False] ho by simp
  qed
  let ?v = "w\<lparr>w_maps := m, errno := e, w_headers := (w_headers w)(a := None)\<rparr>"
  let ?n = "users (w_headers ?v) hd_type"
  have "counted (tmpl_repr header_layout) (tmpl_refs header_layout) (?n(?t := Suc (?n ?t))) ?v xs"
    using D(1) users_free [OF D(2) h, of hd_type] by (simp add: header_counted_cong [of ?v w])
  from header.counted_release [OF this] ho obtain u where u: "tmpl_release header_layout ?t ?v = Some u"
      "counted (tmpl_repr header_layout) (tmpl_refs header_layout) ?n u xs"
      "tmpl_body header_layout u = tmpl_body header_layout ?v" "\<exists>R d. u = ?v\<lparr>w_header := R, header_default := d\<rparr>" by auto
  have tn: "?t \<noteq> NULL" using header.repr_nonnull [OF countedD(1) [OF D(1)]] ho by auto
  have "cfe_header_close E a w = Some u"
    using False h ho fr u(1) tn
    by (simp add: cfe_header_close_def cfe_header_free_def V1_HEADER_def tmpl_release_def on_reg_def header_layout_def)
  moreover have e: "w_headers u = (w_headers w)(a := None)" using u(4) by auto
  moreover have "header_ok xs u"
    using u(2,3) D(2,3,4) by (auto simp: header_ok_def e tmpl_body_def header_layout_def split: if_splits)
  moreover have "header_part w u" using u(4) by (auto simp: header_part_def)
  ultimately show ?thesis by blast
qed

end
