(* ===== verification/Cfe_File_Typing.thy ===== *)
theory Cfe_File_Typing
  imports Cfe_Header_Typing
begin

text \<open>
  Well-typed states, continued: the registry of writer formats, the writers and the files. A writer that
  lives accounts for one reference to its type and for one reference to a cipher; it does not note to
  which, so that reference counts among those that are held beside the contexts. A file has a header and
  a writer of its own, and a creation that fails, whatever the allocator and the kernel answer, leaves
  the files and the headers as they were.
\<close>

subsection \<open>Writers\<close>

definition writer_object_ok :: "addr list \<Rightarrow> addr \<Rightarrow> cfe_filewriter \<Rightarrow> bool" where
  "writer_object_ok xs a fw \<longleftrightarrow> a \<noteq> NULL \<and> fw_type fw \<in> set xs \<and> fw_lock fw = Some Unlocked \<and>
     fw_ops fw = Some Cfe_filewriter_v1_ops"

definition writer_ok :: "addr list \<Rightarrow> world \<Rightarrow> bool" where
  "writer_ok xs w \<longleftrightarrow>
     counted (tmpl_repr writer_layout) (tmpl_refs writer_layout) (users (w_writers w) fw_type) w xs \<and>
     finite (dom (w_writers w)) \<and> (\<forall>a fw. w_writers w a = Some fw \<longrightarrow> writer_object_ok xs a fw) \<and>
     (\<forall>t b. tmpl_body writer_layout w t = Some b \<longrightarrow> fwt_alloc b = Some Fn_cfe_filewriter_v1_alloc)"

definition writer_part :: "world \<Rightarrow> world \<Rightarrow> bool" where
  "writer_part w u \<longleftrightarrow> u = w\<lparr>w_writer := w_writer u, writer_default := writer_default u, w_writers := w_writers u,
     w_cipher := w_cipher u, errno := errno u\<rparr>"

lemma writer_okD:
  assumes "writer_ok xs w"
  shows "counted (tmpl_repr writer_layout) (tmpl_refs writer_layout) (users (w_writers w) fw_type) w xs"
    and "finite (dom (w_writers w))" and "\<And>a fw. w_writers w a = Some fw \<Longrightarrow> writer_object_ok xs a fw"
    and "\<And>t b. tmpl_body writer_layout w t = Some b \<Longrightarrow> fwt_alloc b = Some Fn_cfe_filewriter_v1_alloc"
  using assms by (simp_all add: writer_ok_def)

lemma writer_counted_cong:
  "w_writer u = w_writer w \<Longrightarrow> writer_default u = writer_default w \<Longrightarrow>
    counted (tmpl_repr writer_layout) (tmpl_refs writer_layout) n u xs =
    counted (tmpl_repr writer_layout) (tmpl_refs writer_layout) n w xs"
  using writer_repr_cong [of u w] by (simp add: counted_def)

lemma writer_ok_cong:
  "w_writer u = w_writer w \<Longrightarrow> writer_default u = writer_default w \<Longrightarrow> w_writers u = w_writers w \<Longrightarrow>
    writer_ok xs u = writer_ok xs w"
  by (simp add: writer_ok_def writer_counted_cong [of u w] tmpl_body_def layout_parts)

lemma writer_body_cong: "w_writer u = w_writer w \<Longrightarrow> tmpl_body writer_layout u = tmpl_body writer_layout w"
  by (simp add: tmpl_body_def fun_eq_iff writer_layout_def)

lemma writer_body:
  assumes ok: "writer_ok xs w" and t: "t \<in> set xs"
  shows "\<exists>ty. rg_types (w_writer w) t = Some ty \<and> fwt_alloc ty = Some Fn_cfe_filewriter_v1_alloc"
proof -
  obtain ty where ty: "rg_types (w_writer w) t = Some ty"
    using countedD(2) [OF writer_okD(1) [OF ok] t] by (auto simp: tmpl_refs_def writer_layout_def)
  then have "tmpl_body writer_layout w t = Some (fwt_refcnt_update (\<lambda>_. 0) ty)"
    by (simp add: tmpl_body_def writer_layout_def)
  then show ?thesis using writer_okD(4) [OF ok] ty by fastforce
qed

lemma writer_registry_typed:
  assumes ok: "writer_ok xs w" and u: "\<exists>R d. u = w\<lparr>w_writer := R, writer_default := d\<rparr>"
    and b: "tmpl_body writer_layout u = tmpl_body writer_layout w"
    and c: "counted (tmpl_repr writer_layout) (tmpl_refs writer_layout) (users (w_writers w) fw_type) u ys"
    and s: "\<And>t. t \<in> set xs \<Longrightarrow> 0 < users (w_writers w) fw_type t \<Longrightarrow> t \<in> set ys"
  shows "writer_ok ys (u\<lparr>errno := e\<rparr>)" and "writer_part w (u\<lparr>errno := e\<rparr>)" and "w_writers (u\<lparr>errno := e\<rparr>) = w_writers w"
    and "w_cipher (u\<lparr>errno := e\<rparr>) = w_cipher w"
proof -
  note D = writer_okD [OF ok]
  show "w_writers (u\<lparr>errno := e\<rparr>) = w_writers w" "w_cipher (u\<lparr>errno := e\<rparr>) = w_cipher w" using u by auto
  have eq: "w_writers u = w_writers w" using u by auto
  have "writer_object_ok ys a fw" if "w_writers w a = Some fw" for a fw
    using D(3) [OF that] s users_pos [where f = fw_type, OF D(2) that] by (simp add: writer_object_ok_def)
  then have "writer_ok ys u" using c D(2,4) b by (simp add: writer_ok_def eq)
  then show "writer_ok ys (u\<lparr>errno := e\<rparr>)" by (subst writer_ok_cong [of _ u]) simp_all
  show "writer_part w (u\<lparr>errno := e\<rparr>)" using u by (auto simp: writer_part_def)
qed

lemma writer_register_typed:
  assumes ok: "writer_ok xs w" and t: "t \<in> dom (rg_types (w_writer w))"
  shows "\<exists>r u ys. cfe_filewriter_register t w = Some (r, u) \<and> writer_ok ys u \<and> writer_part w u \<and> w_writers u = w_writers w \<and>
    w_cipher u = w_cipher w"
proof -
  note D = writer_okD [OF ok]
  have "users (w_writers w) fw_type t = 0" if "t \<notin> set xs"
    using D(3) that by (intro users_none) (auto simp: writer_object_ok_def)
  from writer_lay.register_any [OF D(1) _ this] t
  obtain r u e ys where u: "cfe_filewriter_register t w = Some (r, u\<lparr>errno := e\<rparr>)"
      "counted (tmpl_repr writer_layout) (tmpl_refs writer_layout) (users (w_writers w) fw_type) u ys"
      "set xs \<subseteq> set ys" "tmpl_body writer_layout u = tmpl_body writer_layout w"
      "\<exists>R d. u = w\<lparr>w_writer := R, writer_default := d\<rparr>"
    unfolding cfe_filewriter_register_eq layout_parts by blast
  then show ?thesis using writer_registry_typed [OF ok u(5,4,2)] by blast
qed

lemma writer_unregister_typed:
  assumes ok: "writer_ok xs w" and t: "t \<in> set xs" and lt: "Suc (users (w_writers w) fw_type t) < 2 ^ 31"
  shows "\<exists>r u ys. cfe_filewriter_unregister t w = Some (r, u) \<and> writer_ok ys u \<and> writer_part w u \<and> w_writers u = w_writers w \<and>
    w_cipher u = w_cipher w"
proof -
  from writer.counted_unregister [OF writer_okD(1) [OF ok] t lt]
  obtain r u e ys where u: "cfe_filewriter_unregister t w = Some (r, u\<lparr>errno := e\<rparr>)"
      "counted (tmpl_repr writer_layout) (tmpl_refs writer_layout) (users (w_writers w) fw_type) u ys"
      "\<forall>s \<in> set xs. 0 < users (w_writers w) fw_type s \<longrightarrow> s \<in> set ys"
      "tmpl_body writer_layout u = tmpl_body writer_layout w" "\<exists>R d. u = w\<lparr>w_writer := R, writer_default := d\<rparr>"
    by blast
  then show ?thesis using writer_registry_typed [OF ok u(5,4,2)] by blast
qed

lemma writer_find_in:
  assumes r: "tmpl_repr writer_layout w xs" and f: "cfe_filewriter_find n w = Some t" "t \<noteq> NULL"
  shows "t \<in> set xs"
proof (cases "List.find (\<lambda>t. tmpl_key writer_layout w t = Some n) xs")
  case None
  then show ?thesis using writer.find_key [OF r, of n] f by simp
next
  case (Some u)
  have "u = t" using Some writer.find_key [OF r, of n] f by simp
  then show ?thesis using Some by (auto simp: find_Some_iff)
qed

text \<open>The selection of a type finds nothing, or a registered type.\<close>

lemma writer_select_typed:
  assumes r: "tmpl_repr writer_layout w xs"
  shows "\<exists>t. writer_select version w = Some t \<and> (t = NULL \<or> t \<in> set xs)"
proof (cases "version = CFE_FILEWRITER_VERSION_DEFAULT")
  case True
  have "writer_default_ok w xs" using r by (simp add: tmpl_repr_def writer_layout_def)
  then show ?thesis using True by (auto simp: writer_select_def writer_default_ok_def default_ok_def split: if_splits)
next
  case False
  obtain t where t: "cfe_filewriter_find (of_int version) w = Some t" using writer.find_key [OF r] by blast
  then show ?thesis using False writer_find_in [OF r t] by (auto simp: writer_select_def)
qed

text \<open>A world whose writer registry holds the reference that a new writer takes.\<close>

lemma writer_inc_counted:
  assumes "writer_ok xs w" and t: "t \<in> set xs" and ty: "rg_types (w_writer w) t = Some ty"
  shows "counted (tmpl_repr writer_layout) (tmpl_refs writer_layout)
    ((users (w_writers w) fw_type)(t := Suc (users (w_writers w) fw_type t))) (writer_inc t ty w) xs"
    and "tmpl_body writer_layout (writer_inc t ty w) = tmpl_body writer_layout w"
proof -
  note c = writer_okD(1) [OF assms(1)]
  have "fwt_refcnt ty = of_nat (Suc (users (w_writers w) fw_type t))"
    using countedD(2) [OF c t] ty by (simp add: tmpl_refs_def writer_layout_def)
  then show "counted (tmpl_repr writer_layout) (tmpl_refs writer_layout)
    ((users (w_writers w) fw_type)(t := Suc (users (w_writers w) fw_type t))) (writer_inc t ty w) xs"
    using writer_inc_repr [OF countedD(1) [OF c] ty] countedD(2) [OF c] by (auto simp: counted_def)
  show "tmpl_body writer_layout (writer_inc t ty w) = tmpl_body writer_layout w"
    using ty by (auto simp: tmpl_body_def writer_layout_def writer_type_put_def fun_eq_iff)
qed

lemma writer_create_typed:
  assumes ok: "writer_ok xs w" and co: "cipher_ok E held cs w" and al: "calloc_ok E"
  shows "\<exists>p u held'. cfe_filewriter_create E version name bs w = Some (p, u) \<and> writer_ok xs u \<and>
    cipher_ok E held' cs u \<and> writer_part w u \<and>
    (p = NULL \<and> w_writers u = w_writers w \<and> held' = held \<or>
     p \<noteq> NULL \<and> w_writers w p = None \<and> (\<exists>fw. w_writers u = (w_writers w)(p \<mapsto> fw)) \<and>
       (\<exists>c. held' = held(c := Suc (held c))))"
proof -
  note D = writer_okD [OF ok]
  note r = countedD(1) [OF D(1)]
  have same: "writer_ok xs u \<and> cipher_ok E held cs u \<and> writer_part w u \<and> w_writers u = w_writers w"
    if "u = w\<lparr>errno := e\<rparr>" for u e
    using that ok co by (simp add: writer_ok_cong [of "w\<lparr>errno := e\<rparr>" w] cipher_ok_cong [of "w\<lparr>errno := e\<rparr>" w] writer_part_def)
  obtain t where t: "writer_select version w = Some t" "t = NULL \<or> t \<in> set xs"
    using writer_select_typed [OF r] by blast
  show ?thesis
  proof (cases "t = NULL")
    case True
    then show ?thesis using cfe_filewriter_create_missing [OF r] t(1) same by blast
  next
    case False
    then have tx: "t \<in> set xs" using t(2) by simp
    obtain ty where ty: "rg_types (w_writer w) t = Some ty" "fwt_alloc ty = Some Fn_cfe_filewriter_v1_alloc"
      using writer_body [OF ok tx] by blast
    let ?w = "writer_inc t ty w"
    have "cipher_ok E held cs ?w" using co by (subst cipher_ok_cong [of _ w]) (simp_all add: writer_type_put_def)
    from cipher_ref_typed [OF this, of name] show ?thesis
    proof (elim disjE exE conjE)
      assume "cfe_cipher_ref name ?w = Some (NULL, ?w)"
      then have "cfe_filewriter_create E version name bs w = Some (NULL, w\<lparr>errno := errno w\<rparr>)"
        by (simp add: cfe_filewriter_create_eq [OF r t(1) False ty(1)] writer_dec_inc [OF ty(1)])
      then show ?thesis using same by blast
    next
      fix c v R
      assume v: "cfe_cipher_ref name ?w = Some (c, v)" "c \<noteq> NULL" "cipher_ok E (held(c := Suc (held c))) cs v"
        and R: "v = ?w\<lparr>w_cipher := R\<rparr>"
      have types: "rg_types (w_writer v) t = Some (fwt_refcnt_update cfe_atomic_inc ty)" "w_writers v = w_writers w"
        by (simp_all add: R writer_type_put_def)
      define a where "a = e_calloc (libc E) SIZEOF_FILEWRITER_V1 v"
      show ?thesis
      proof (cases "a = NULL")
        case True
        let ?v = "w\<lparr>w_cipher := R, errno := ENOMEM\<rparr>"
        have dec: "on_writer (reg_store t (fwt_refcnt_update cfe_atomic_dec)) (v\<lparr>errno := ENOMEM\<rparr>) = Some ?v"
          using ty(1) by (simp add: R writer_type_put_def reg_store_def fun_upd_idem)
        have "cipher_ok E (held(c := Suc (held c))) cs ?v"
          using v(3) by (subst cipher_ok_cong [of _ v]) (simp_all add: R writer_type_put_def)
        from cipher_put_typed [OF this] obtain u where u: "cfe_cipher_put c ?v = Some u" "cipher_ok E held cs u"
            "\<exists>R. u = ?v\<lparr>w_cipher := R\<rparr>" by auto
        have "cfe_filewriter_create E version name bs w = Some (NULL, u)"
          using v(1,2) types ty(2) True dec u(1)
          by (auto simp: cfe_filewriter_create_eq [OF r t(1) False ty(1)] cfe_filewriter_v1_alloc_eq a_def [symmetric])
        moreover have "writer_ok xs u \<and> writer_part w u \<and> w_writers u = w_writers w"
          using u(3) ok writer_ok_cong [of u w xs] by (auto simp: writer_part_def)
        ultimately show ?thesis using u(2) by blast
      next
        case a: False
        have fr: "w_writers w a = None"
          using a al freshD(3) [of v a SIZEOF_FILEWRITER_V1] types(2)
          by (auto simp: calloc_ok_def a_def SIZEOF_FILEWRITER_V1_def)
        let ?fw = "zero_writer\<lparr>fw_lock := Some Unlocked, fw_ops := Some Cfe_filewriter_v1_ops, fw_type := t\<rparr>"
        let ?u = "v\<lparr>w_writers := (w_writers w)(a \<mapsto> ?fw)\<rparr>"
        have "cfe_filewriter_create E version name bs w = Some (a, ?u)"
          using v(1,2) types ty(2) a
          by (simp add: cfe_filewriter_create_eq [OF r t(1) False ty(1)] cfe_filewriter_v1_alloc_eq a_def [symmetric])
        moreover have "writer_ok xs ?u"
        proof -
          have us: "users (w_writers ?u) fw_type = (users (w_writers w) fw_type)(t := Suc (users (w_writers w) fw_type t))"
            using users_new [OF D(2) fr, of ?fw fw_type] by simp
          have "counted (tmpl_repr writer_layout) (tmpl_refs writer_layout) (users (w_writers ?u) fw_type) ?u xs"
            using writer_inc_counted(1) [OF ok tx ty(1)] writer_counted_cong [of ?u ?w] unfolding us by (simp add: R)
          moreover have "writer_object_ok xs b fw" if "w_writers ?u b = Some fw" for b fw
            using that D(3) tx a by (auto simp: writer_object_ok_def split: if_splits)
          moreover have "tmpl_body writer_layout ?u = tmpl_body writer_layout w"
            using writer_inc_counted(2) [OF ok tx ty(1)] writer_body_cong [of ?u ?w] by (simp add: R)
          ultimately show ?thesis using D(2,4) by (simp add: writer_ok_def)
        qed
        moreover have "cipher_ok E (held(c := Suc (held c))) cs ?u"
          using v(3) by (subst cipher_ok_cong [of _ v]) simp_all
        moreover have "writer_part w ?u" by (simp add: writer_part_def writer_type_put_def R)
        ultimately show ?thesis using a fr by auto
      qed
    qed
  qed
qed

subsection \<open>Files\<close>

definition file_object_ok :: "world \<Rightarrow> addr \<Rightarrow> cfe_file \<Rightarrow> bool" where
  "file_object_ok w a f \<longleftrightarrow> a \<noteq> NULL \<and> f_header f \<in> dom (w_headers w) \<and> f_writer f \<in> dom (w_writers w) \<and> f_refcnt f = 1"

definition files_ok :: "world \<Rightarrow> bool" where
  "files_ok w \<longleftrightarrow> (\<forall>a f. w_files w a = Some f \<longrightarrow> file_object_ok w a f) \<and>
     (\<forall>a b f g. w_files w a = Some f \<longrightarrow> w_files w b = Some g \<longrightarrow> f_header f = f_header g \<or> f_writer f = f_writer g \<longrightarrow>
       a = b)"

definition file_part :: "world \<Rightarrow> world \<Rightarrow> bool" where
  "file_part w u \<longleftrightarrow> u = w\<lparr>w_header := w_header u, header_default := header_default u, w_headers := w_headers u,
     w_maps := w_maps u, w_fsize := w_fsize u, w_writer := w_writer u, writer_default := writer_default u,
     w_writers := w_writers u, w_files := w_files u, w_cipher := w_cipher u, errno := errno u\<rparr>"

lemma files_okD:
  assumes "files_ok w"
  shows "\<And>a f. w_files w a = Some f \<Longrightarrow> file_object_ok w a f"
    and "\<And>a b f g. w_files w a = Some f \<Longrightarrow> w_files w b = Some g \<Longrightarrow> f_header f = f_header g \<or> f_writer f = f_writer g \<Longrightarrow> a = b"
  using assms by (auto simp: files_ok_def)

lemma files_ok_mono:
  assumes ok: "files_ok w" and f: "w_files u = w_files w" and w: "dom (w_writers w) \<subseteq> dom (w_writers u)"
    and h: "\<And>a f. w_files w a = Some f \<Longrightarrow> f_header f \<in> dom (w_headers w) \<Longrightarrow> f_header f \<in> dom (w_headers u)"
  shows "files_ok u"
  using files_okD [OF ok] w h by (simp add: files_ok_def f file_object_ok_def) blast

lemma files_ok_new:
  assumes ok: "files_ok w" and f: "w_files u = (w_files w)(a \<mapsto> \<lparr>f_header = h, f_writer = p, f_refcnt = 1\<rparr>)"
    and new: "a \<noteq> NULL" "w_headers w h = None" "w_writers w p = None"
    and u: "w_headers u = (w_headers w)(h \<mapsto> hv)" "w_writers u = (w_writers w)(p \<mapsto> fw)"
  shows "files_ok u"
proof -
  note D = files_okD [OF ok]
  have old: "f_header g \<noteq> h \<and> f_writer g \<noteq> p \<and> file_object_ok u b g" if "w_files w b = Some g" for b g
    using D(1) [OF that] new u by (auto simp: file_object_ok_def)
  have "file_object_ok u a \<lparr>f_header = h, f_writer = p, f_refcnt = 1\<rparr>"
    using new u by (simp add: file_object_ok_def)
  then show ?thesis using old D(2) by (auto simp: files_ok_def f split: if_splits; metis)
qed

lemma header_part_changes:
  "header_part w u \<Longrightarrow> \<exists>R d H m s e. u = w\<lparr>w_header := R, header_default := d, w_headers := H, w_maps := m, w_fsize := s, errno := e\<rparr>"
  unfolding header_part_def by blast

text \<open>Freeing a file that is only half built closes its header, when it has one.\<close>

lemma file_free_typed:
  assumes ok: "header_ok hs w" and f: "w_files w a = Some f" "a \<noteq> NULL"
    and h: "f_header f = NULL \<or> f_header f \<in> dom (w_headers w)"
  shows "\<exists>u. cfe_file_free E a w = Some u \<and> header_ok hs u \<and> w_headers u = (w_headers w)(f_header f := None) \<and>
    w_files u = (w_files w)(a := None) \<and> header_part (w\<lparr>w_files := (w_files w)(a := None)\<rparr>) u"
proof -
  obtain u where u: "cfe_header_close E (f_header f) w = Some u" "header_ok hs u" "header_part w u"
      "w_headers u = (w_headers w)(f_header f := None)"
    using header_close_typed [OF ok h] by blast
  have e: "w_files u = w_files w" using arg_cong [OF u(3) [unfolded header_part_def], of w_files] by simp
  have "cfe_file_destroy E a w = Some u"
    using f u(1) by (cases "f_header f = NULL") (simp_all add: cfe_file_destroy_def cfe_header_close_def [of E NULL])
  then have "cfe_file_free E a w = Some (u\<lparr>w_files := (w_files w)(a := None)\<rparr>)"
    using f by (simp add: cfe_file_free_def free_def e)
  moreover have "header_ok hs (u\<lparr>w_files := (w_files w)(a := None)\<rparr>)"
    using u(2) by (subst header_ok_cong [of _ u]) simp_all
  moreover have "header_part (w\<lparr>w_files := (w_files w)(a := None)\<rparr>) (u\<lparr>w_files := (w_files w)(a := None)\<rparr>)"
    using header_part_changes [OF u(3)] by (auto simp: header_part_def)
  ultimately show ?thesis using u(4) by auto
qed

text \<open>The second half of the creation: the writer, in a world where the file has its header.\<close>

lemma file_writer_typed:
  assumes ok: "header_ok hs v" "writer_ok ws v" "cipher_ok E held cs v" and al: "calloc_ok E"
    and v: "w_files v a = Some \<lparr>f_header = h, f_writer = NULL, f_refcnt = 1\<rparr>" "a \<noteq> NULL" "h \<in> dom (w_headers v)"
  shows "\<exists>p u held'. do {
      (writer, w) \<leftarrow> cfe_filewriter_create E version name bs v;
      f \<leftarrow> w_files w a;
      let w = w\<lparr>w_files := (w_files w)(a \<mapsto> f\<lparr>f_writer := writer\<rparr>)\<rparr>;
      if writer = NULL then do {
        w \<leftarrow> cfe_file_free E a w;
        Some (NULL, w)
      }
      else Some (a, w)
    } = Some (p, u) \<and> header_ok hs u \<and> writer_ok ws u \<and> cipher_ok E held' cs u \<and> file_part v u \<and>
    (p = NULL \<and> w_headers u = (w_headers v)(h := None) \<and> w_files u = (w_files v)(a := None) \<and>
       w_writers u = w_writers v \<and> held' = held \<or>
     p = a \<and> w_headers u = w_headers v \<and> (\<exists>c. held' = held(c := Suc (held c))) \<and>
       (\<exists>b fw. w_writers v b = None \<and> w_writers u = (w_writers v)(b \<mapsto> fw) \<and>
         w_files u = (w_files v)(a \<mapsto> \<lparr>f_header = h, f_writer = b, f_refcnt = 1\<rparr>)))"
proof -
  from writer_create_typed [OF ok(2,3) al, of version name bs]
  obtain p w1 held' where p: "cfe_filewriter_create E version name bs v = Some (p, w1)" "writer_ok ws w1" "cipher_ok E held' cs w1"
      "writer_part v w1"
      "p = NULL \<and> w_writers w1 = w_writers v \<and> held' = held \<or>
       p \<noteq> NULL \<and> w_writers v p = None \<and> (\<exists>fw. w_writers w1 = (w_writers v)(p \<mapsto> fw)) \<and> (\<exists>c. held' = held(c := Suc (held c)))"
    by blast
  obtain RW dw W RC e where w1: "w1 = v\<lparr>w_writer := RW, writer_default := dw, w_writers := W, w_cipher := RC, errno := e\<rparr>"
    using p(4) unfolding writer_part_def by blast
  let ?w2 = "w1\<lparr>w_files := (w_files v)(a \<mapsto> \<lparr>f_header = h, f_writer = p, f_refcnt = 1\<rparr>)\<rparr>"
  have ok2: "header_ok hs ?w2" "writer_ok ws ?w2" "cipher_ok E held' cs ?w2"
    using ok(1) p(2,3) header_ok_cong [of ?w2 v] writer_ok_cong [of ?w2 w1] cipher_ok_cong [of ?w2 w1] by (simp_all add: w1)
  show ?thesis
  proof (cases "p = NULL")
    case False
    then show ?thesis
      using p(1,5) v(1) ok2 by (intro exI [of _ a] exI [of _ ?w2] exI [of _ held']) (auto simp: w1 file_part_def)
  next
    case True
    obtain u where u: "cfe_file_free E a ?w2 = Some u" "header_ok hs u" "w_headers u = (w_headers ?w2)(h := None)"
        "w_files u = (w_files ?w2)(a := None)" "header_part (?w2\<lparr>w_files := (w_files ?w2)(a := None)\<rparr>) u"
      using file_free_typed [OF ok2(1), of a "\<lparr>f_header = h, f_writer = p, f_refcnt = 1\<rparr>" E] v(2,3) by (auto simp: w1)
    obtain R d H m s e' where uw: "u = ?w2\<lparr>w_files := (w_files ?w2)(a := None)\<rparr>
        \<lparr>w_header := R, header_default := d, w_headers := H, w_maps := m, w_fsize := s, errno := e'\<rparr>"
      using header_part_changes [OF u(5)] by blast
    have "writer_ok ws u" "cipher_ok E held' cs u"
      using ok2(2,3) writer_ok_cong [of u ?w2] cipher_ok_cong [of u ?w2] by (simp_all add: uw)
    moreover have "file_part v u" by (simp add: uw w1 file_part_def)
    moreover have "w_writers u = w_writers v" "held' = held" "w_headers u = (w_headers v)(h := None)"
        "w_files u = (w_files v)(a := None)"
      using p(5) True u(3,4) by (simp_all add: uw w1)
    ultimately show ?thesis
      using p(1) True v(1) u(1,2) by (intro exI [of _ NULL] exI [of _ u] exI [of _ held]) (simp add: w1)
  qed
qed

lemma do_create_typed:
  assumes ok: "header_ok hs w" "writer_ok ws w" "cipher_ok E held cs w" "files_ok w" and al: "calloc_ok E"
  shows "\<exists>p u held'. do_create E fd flags mode params w = Some (p, u) \<and> header_ok hs u \<and> writer_ok ws u \<and>
    cipher_ok E held' cs u \<and> files_ok u \<and> file_part w u \<and>
    (p = NULL \<and> w_files u = w_files w \<and> w_headers u = w_headers w \<and> w_writers u = w_writers w \<and> held' = held \<or>
     p \<in> dom (w_files u) \<and> (\<exists>b fw. w_writers w b = None \<and> w_writers u = (w_writers w)(b \<mapsto> fw)) \<and>
       (\<exists>c. held' = held(c := Suc (held c))))"
proof -
  define a where "a = e_calloc (libc E) SIZEOF_FILE w"
  show ?thesis
  proof (cases "a = NULL")
    case True
    let ?u = "w\<lparr>errno := ENOMEM\<rparr>"
    have "do_create E fd flags mode params w = Some (NULL, ?u)"
      using True by (simp add: do_create_def cfe_file_new_eq a_def [symmetric])
    moreover have "header_ok hs ?u" "writer_ok ws ?u" "cipher_ok E held cs ?u" "files_ok ?u" "file_part w ?u"
      using ok header_ok_cong [of ?u w] writer_ok_cong [of ?u w] cipher_ok_cong [of ?u w] files_ok_mono [OF ok(4), of ?u]
      by (simp_all add: file_part_def)
    ultimately show ?thesis by auto
  next
    case a: False
    then have fr: "w_files w a = None"
      using al freshD(4) [of w a SIZEOF_FILE] by (auto simp: calloc_ok_def a_def SIZEOF_FILE_def)
    let ?f = "\<lambda>h p. \<lparr>f_header = h, f_writer = p, f_refcnt = 1\<rparr>"
    let ?w1 = "w\<lparr>w_files := (w_files w)(a \<mapsto> ?f NULL NULL)\<rparr>"
    have new: "cfe_file_new E w = Some (a, ?w1)"
      using a by (simp add: cfe_file_new_eq a_def [symmetric] zero_file_def)
    have "header_ok hs ?w1" using ok(1) header_ok_cong [of ?w1 w] by simp
    from header_create_typed [OF this al, of CFE_HEADER_VERSION_DEFAULT fd "ucast (op_header_size params)"]
    obtain h w2 where h: "cfe_header_create E CFE_HEADER_VERSION_DEFAULT fd (ucast (op_header_size params)) ?w1 = Some (h, w2)"
        "header_ok hs w2" "header_part ?w1 w2"
        "h = NULL \<and> w_headers w2 = w_headers ?w1 \<or>
         h \<noteq> NULL \<and> w_headers ?w1 h = None \<and> (\<exists>hv. w_headers w2 = (w_headers ?w1)(h \<mapsto> hv))" by blast
    obtain R d H m s e where w2: "w2 = ?w1\<lparr>w_header := R, header_default := d, w_headers := H, w_maps := m, w_fsize := s, errno := e\<rparr>"
      using header_part_changes [OF h(3)] by blast
    let ?w3 = "w2\<lparr>w_files := (w_files w)(a \<mapsto> ?f h NULL)\<rparr>"
    have ok3: "header_ok hs ?w3" "writer_ok ws ?w3" "cipher_ok E held cs ?w3"
      using h(2) ok header_ok_cong [of ?w3 w2] writer_ok_cong [of ?w3 w] cipher_ok_cong [of ?w3 w] by (simp_all add: w2)
    have same2: "file_part w (w2\<lparr>w_files := F\<rparr>)" for F by (simp add: file_part_def w2)
    show ?thesis
    proof (cases "h = NULL")
      case True
      obtain u where u: "cfe_file_free E a ?w3 = Some u" "header_ok hs u"
          "w_headers u = (w_headers ?w3)(NULL := None)" "w_files u = (w_files ?w3)(a := None)"
        using file_free_typed [OF ok3(1), of a "?f h NULL" E] a True by auto
      have "u = w2\<lparr>w_files := w_files w\<rparr>"
        using u(1) True a fr by (simp add: cfe_file_free_def cfe_file_destroy_def free_def fun_upd_idem)
      then have uw: "u = w\<lparr>w_header := R, header_default := d, w_headers := w_headers w, w_maps := m, w_fsize := s, errno := e\<rparr>"
        using h(4) True by (simp add: w2)
      have "do_create E fd flags mode params w = Some (NULL, u)"
        using new a h(1) True u(1) by (simp add: do_create_def w2)
      moreover have "writer_ok ws u" "cipher_ok E held cs u" "files_ok u" "file_part w u"
        using ok writer_ok_cong [of u w] cipher_ok_cong [of u w] files_ok_mono [OF ok(4), of u] by (simp_all add: uw file_part_def)
      ultimately show ?thesis using u(2) by (auto simp: uw)
    next
      case hn: False
      then obtain hv where hv: "w_headers w h = None" "w_headers w2 = (w_headers w)(h \<mapsto> hv)" using h(4) by auto
      let ?tail = "do {
        (writer, w) \<leftarrow> cfe_filewriter_create E CFE_FILEWRITER_VERSION_DEFAULT (op_cipher params) (op_blocksize params) ?w3;
        f \<leftarrow> w_files w a;
        let w = w\<lparr>w_files := (w_files w)(a \<mapsto> f\<lparr>f_writer := writer\<rparr>)\<rparr>;
        if writer = NULL then do {
          w \<leftarrow> cfe_file_free E a w;
          Some (NULL, w)
        }
        else Some (a, w)
      }"
      have tail: "do_create E fd flags mode params w = ?tail"
        using new a h(1) hn by (simp add: do_create_def w2)
      have w3: "w_files ?w3 a = Some (?f h NULL)" "h \<in> dom (w_headers ?w3)" using hv by simp_all
      from file_writer_typed [where version = CFE_FILEWRITER_VERSION_DEFAULT and name = "op_cipher params"
          and bs = "op_blocksize params", OF ok3 al w3(1) a w3(2)]
      obtain p u held' where u: "?tail = Some (p, u)" "header_ok hs u" "writer_ok ws u" "cipher_ok E held' cs u" "file_part ?w3 u"
          "p = NULL \<and> w_headers u = (w_headers ?w3)(h := None) \<and> w_files u = (w_files ?w3)(a := None) \<and>
             w_writers u = w_writers ?w3 \<and> held' = held \<or>
           p = a \<and> w_headers u = w_headers ?w3 \<and> (\<exists>c. held' = held(c := Suc (held c))) \<and>
             (\<exists>b fw. w_writers ?w3 b = None \<and> w_writers u = (w_writers ?w3)(b \<mapsto> fw) \<and>
               w_files u = (w_files ?w3)(a \<mapsto> ?f h b))"
        by blast
      have "file_part w u" using u(5) by (simp add: file_part_def w2)
      moreover have "files_ok u \<and> (p = NULL \<and> w_files u = w_files w \<and> w_headers u = w_headers w \<and> w_writers u = w_writers w \<and> held' = held \<or>
         p \<in> dom (w_files u) \<and> (\<exists>b fw. w_writers w b = None \<and> w_writers u = (w_writers w)(b \<mapsto> fw)) \<and>
           (\<exists>c. held' = held(c := Suc (held c))))"
        using u(6)
      proof (elim disjE exE conjE)
        assume "p = NULL" "w_headers u = (w_headers ?w3)(h := None)" "w_files u = (w_files ?w3)(a := None)"
          "w_writers u = w_writers ?w3" "held' = held"
        then show ?thesis
          using hv fr files_ok_mono [OF ok(4), of u] by (simp add: w2 fun_upd_idem)
      next
        fix b fw c
        assume "p = a" "w_headers u = w_headers ?w3" "held' = held(c := Suc (held c))" "w_writers ?w3 b = None"
          "w_writers u = (w_writers ?w3)(b \<mapsto> fw)" "w_files u = (w_files ?w3)(a \<mapsto> ?f h b)"
        then show ?thesis
          using hv a files_ok_new [OF ok(4), of u a h b hv fw] by (simp add: w2) blast
      qed
      ultimately show ?thesis using tail u(1-4) by (intro exI [of _ p] exI [of _ u] exI [of _ held']) simp
    qed
  qed
qed

lemma cfe_create_typed:
  assumes ok: "header_ok hs w" "writer_ok ws w" "cipher_ok E held cs w" "files_ok w" and al: "calloc_ok E"
  shows "\<exists>p q u held'. cfe_create E fd flags mode params w = Some (p, q, u) \<and> header_ok hs u \<and> writer_ok ws u \<and>
    cipher_ok E held' cs u \<and> files_ok u \<and> file_part w u \<and>
    (p = NULL \<and> w_files u = w_files w \<and> w_headers u = w_headers w \<and> w_writers u = w_writers w \<and> held' = held \<or>
     p \<in> dom (w_files u) \<and> (\<exists>b fw. w_writers w b = None \<and> w_writers u = (w_writers w)(b \<mapsto> fw)) \<and>
       (\<exists>c. held' = held(c := Suc (held c))))"
proof -
  have same: "header_ok hs v \<and> writer_ok ws v \<and> cipher_ok E held cs v \<and> files_ok v \<and> file_part w v \<and>
      w_files v = w_files w \<and> w_headers v = w_headers w \<and> w_writers v = w_writers w" if "v = w\<lparr>errno := e\<rparr>" for v e
    using that ok header_ok_cong [of v w] writer_ok_cong [of v w] cipher_ok_cong [of v w] files_ok_mono [OF ok(4), of v]
    by (simp add: file_part_def)
  have "\<exists>q. (\<exists>e. cfe_create E fd flags mode params w = Some (NULL, q, w\<lparr>errno := e\<rparr>)) \<or>
      (\<exists>p. cfe_create E fd flags mode params w =
        map_option (\<lambda>(file, w). (file, q, w)) (do_create E fd flags mode p w))"
  proof (cases "\<exists>p ident. params = Some p \<and> op_key_ident p = Some ident \<and> 0 \<le> fd \<and> strncmp ident ''cfe:'' 4 = 0")
    case False
    then show ?thesis using cfe_create_einval [of fd params E flags mode w] by (auto simp: create_args_ok_def)
  next
    case True
    then obtain p ident where p: "params = Some p" "op_key_ident p = Some ident" "\<not> fd < 0" "strncmp ident ''cfe:'' 4 = 0"
      by auto
    show ?thesis
      by (cases "e_fstat (libc E) fd w = 0"; cases "e_isreg (libc E) fd w \<and> w_fsize w fd = 0")
        (use p in \<open>auto simp: cfe_create_def fstat_def Let_def\<close>)
  qed
  then obtain q where q: "(\<exists>e. cfe_create E fd flags mode params w = Some (NULL, q, w\<lparr>errno := e\<rparr>)) \<or>
      (\<exists>p. cfe_create E fd flags mode params w = map_option (\<lambda>(file, w). (file, q, w)) (do_create E fd flags mode p w))"
    by blast
  then show ?thesis
  proof (elim disjE exE)
    fix e
    assume "cfe_create E fd flags mode params w = Some (NULL, q, w\<lparr>errno := e\<rparr>)"
    then show ?thesis using same by blast
  next
    fix p
    assume c: "cfe_create E fd flags mode params w = map_option (\<lambda>(file, w). (file, q, w)) (do_create E fd flags mode p w)"
    from do_create_typed [OF ok al, of fd flags mode p] show ?thesis
      by (elim exE conjE) (simp only: c option.map prod.case option.inject prod.inject ex_simps simp_thms, blast)
  qed
qed

end
