(* ===== verification/Cfe_Session.thy ===== *)
theory Cfe_Session
  imports Cfe_File_Typing
begin

text \<open>
  Clients of the library. A client makes calls one after another: it offers type objects to the six
  registries and takes them back, works with digest and cipher contexts, derives keys, asks for random
  bytes, and creates headers, writers and files. The contract of a call says what the caller has to
  know: objects it names are live or NULL, types it takes back are registered, a cipher reference it
  drops is one it took, and a header that belongs to a file is not closed behind its back. The main
  result is the soundness of this interface: in a well-typed world a call within its contract is
  defined, its pointer answers are NULL or objects of the right type, and the world stays well typed.
\<close>

subsection \<open>The calls\<close>

datatype hash_call =
    Hash_register addr | Hash_unregister addr | Hash_alloc_ctx string | Hash_init addr
  | Hash_update addr bytes size_t | Hash_finalize addr | Hash_digestsize addr | Hash_destroy addr

datatype cipher_call =
    Cipher_register addr | Cipher_unregister addr | Cipher_ref string | Cipher_put addr
  | Cipher_alloc_ctx string | Cipher_init addr int "bytes option" size_t "bytes option" size_t
  | Cipher_update addr bytes size_t size_t | Cipher_finalize addr size_t | Cipher_set_padding addr int
  | Cipher_set_aad addr bytes size_t | Cipher_set_tag addr bytes size_t | Cipher_get_tag addr size_t
  | Cipher_blocksize addr | Cipher_destroy addr

datatype pbkdf_call =
    Pbkdf_register addr | Pbkdf_unregister addr
  | Pbkdf_derive "string option" uint32 "bytes option" size_t bytes size_t size_t

datatype rand_call = Rand_register addr | Rand_unregister addr | Rand_get bool size_t

datatype header_call =
    Header_register addr | Header_unregister addr | Header_create int int size_t | Header_close addr

datatype writer_call = Writer_register addr | Writer_unregister addr | Writer_create int string uint32

datatype file_call =
    File_create int int uint32 "cfe_open_params option" | File_open int int uint32 "cfe_open_params option"

datatype api_call =
    Hash hash_call | Cipher cipher_call | Pbkdf pbkdf_call | Rand rand_call
  | Header header_call | Writer writer_call | File file_call

text \<open>What a call returns: nothing, an \<open>int\<close>, an \<open>int\<close> and what it wrote to its buffers, or a pointer.\<close>

datatype answer = A_none | A_int int | A_out int bytes | A_len int bytes size_t | A_ptr addr

primrec hash_exec :: "env \<Rightarrow> hash_call \<Rightarrow> world \<Rightarrow> (answer \<times> world) option" where
  "hash_exec E (Hash_register t) w = map_option (map_prod A_int id) (cfe_hash_register t w)"
| "hash_exec E (Hash_unregister t) w = map_option (map_prod A_int id) (cfe_hash_unregister t w)"
| "hash_exec E (Hash_alloc_ctx name) w = map_option (map_prod A_ptr id) (cfe_hash_alloc_ctx E name w)"
| "hash_exec E (Hash_init ctx) w = map_option (map_prod A_int id) (cfe_hash_ctx_init E ctx w)"
| "hash_exec E (Hash_update ctx b n) w = map_option (map_prod A_int id) (cfe_hash_ctx_update E ctx b n w)"
| "hash_exec E (Hash_finalize ctx) w = map_option (\<lambda>(r, out, w). (A_out r out, w)) (cfe_hash_ctx_finalize E ctx w)"
| "hash_exec E (Hash_digestsize ctx) w = map_option (map_prod A_int id) (cfe_hash_ctx_digestsize ctx w)"
| "hash_exec E (Hash_destroy ctx) w = map_option (Pair A_none) (cfe_hash_destroy_ctx E ctx w)"

primrec cipher_exec :: "env \<Rightarrow> cipher_call \<Rightarrow> world \<Rightarrow> (answer \<times> world) option" where
  "cipher_exec E (Cipher_register t) w = map_option (map_prod A_int id) (cfe_cipher_register t w)"
| "cipher_exec E (Cipher_unregister t) w = map_option (map_prod A_int id) (cfe_cipher_unregister t w)"
| "cipher_exec E (Cipher_ref name) w = map_option (map_prod A_ptr id) (cfe_cipher_ref name w)"
| "cipher_exec E (Cipher_put t) w = map_option (Pair A_none) (cfe_cipher_put t w)"
| "cipher_exec E (Cipher_alloc_ctx name) w = map_option (map_prod A_ptr id) (cfe_cipher_alloc_ctx E name w)"
| "cipher_exec E (Cipher_init ctx mode ky ksize iv isize) w =
     map_option (map_prod A_int id) (cfe_cipher_ctx_init E ctx mode ky ksize iv isize w)"
| "cipher_exec E (Cipher_update ctx b n olen) w =
     map_option (\<lambda>(r, out, m, w). (A_len r out m, w)) (cfe_cipher_ctx_update E ctx b n olen w)"
| "cipher_exec E (Cipher_finalize ctx olen) w =
     map_option (\<lambda>(r, out, m, w). (A_len r out m, w)) (cfe_cipher_ctx_finalize E ctx olen w)"
| "cipher_exec E (Cipher_set_padding ctx on) w = map_option (map_prod A_int id) (cfe_cipher_ctx_set_padding E ctx on w)"
| "cipher_exec E (Cipher_set_aad ctx b n) w = map_option (map_prod A_int id) (cfe_cipher_ctx_set_aad E ctx b n w)"
| "cipher_exec E (Cipher_set_tag ctx b n) w = map_option (map_prod A_int id) (cfe_cipher_ctx_set_tag E ctx b n w)"
| "cipher_exec E (Cipher_get_tag ctx n) w = map_option (\<lambda>(r, out, w). (A_out r out, w)) (cfe_cipher_ctx_get_tag E ctx n w)"
| "cipher_exec E (Cipher_blocksize ctx) w = map_option (map_prod A_int id) (cfe_cipher_ctx_blocksize ctx w)"
| "cipher_exec E (Cipher_destroy ctx) w = map_option (Pair A_none) (cfe_cipher_destroy_ctx E ctx w)"

primrec pbkdf_exec :: "env \<Rightarrow> pbkdf_call \<Rightarrow> world \<Rightarrow> (answer \<times> world) option" where
  "pbkdf_exec E (Pbkdf_register t) w = map_option (map_prod A_int id) (cfe_pbkdf_register t w)"
| "pbkdf_exec E (Pbkdf_unregister t) w = map_option (map_prod A_int id) (cfe_pbkdf_unregister t w)"
| "pbkdf_exec E (Pbkdf_derive algname rounds inp ilen salt slen olen) w =
     map_option (\<lambda>(r, out, w). (A_out r out, w)) (cfe_pbkdf_derive E algname rounds inp ilen salt slen olen w)"

primrec rand_exec :: "env \<Rightarrow> rand_call \<Rightarrow> world \<Rightarrow> (answer \<times> world) option" where
  "rand_exec E (Rand_register t) w = map_option (map_prod A_int id) (cfe_rand_register t w)"
| "rand_exec E (Rand_unregister t) w = map_option (map_prod A_int id) (cfe_rand_unregister t w)"
| "rand_exec E (Rand_get buffer_null sz) w =
     map_option (\<lambda>(r, out, w). (A_out r out, w)) (cfe_rand_get E buffer_null sz w)"

primrec header_exec :: "env \<Rightarrow> header_call \<Rightarrow> world \<Rightarrow> (answer \<times> world) option" where
  "header_exec E (Header_register t) w = map_option (map_prod A_int id) (cfe_header_register t w)"
| "header_exec E (Header_unregister t) w = map_option (map_prod A_int id) (cfe_header_unregister t w)"
| "header_exec E (Header_create version fd sz) w = map_option (map_prod A_ptr id) (cfe_header_create E version fd sz w)"
| "header_exec E (Header_close a) w = map_option (Pair A_none) (cfe_header_close E a w)"

primrec writer_exec :: "env \<Rightarrow> writer_call \<Rightarrow> world \<Rightarrow> (answer \<times> world) option" where
  "writer_exec E (Writer_register t) w = map_option (map_prod A_int id) (cfe_filewriter_register t w)"
| "writer_exec E (Writer_unregister t) w = map_option (map_prod A_int id) (cfe_filewriter_unregister t w)"
| "writer_exec E (Writer_create version name bs) w =
     map_option (map_prod A_ptr id) (cfe_filewriter_create E version name bs w)"

primrec file_exec :: "env \<Rightarrow> file_call \<Rightarrow> world \<Rightarrow> (answer \<times> world) option" where
  "file_exec E (File_create fd flags mode params) w =
     map_option (\<lambda>(p, q, w). (A_ptr p, w)) (cfe_create E fd flags mode params w)"
| "file_exec E (File_open fd flags mode params) w = map_option (map_prod A_ptr id) (cfe_open fd flags mode params w)"

primrec api_exec :: "env \<Rightarrow> api_call \<Rightarrow> world \<Rightarrow> (answer \<times> world) option" where
  "api_exec E (Hash c) w = hash_exec E c w"
| "api_exec E (Cipher c) w = cipher_exec E c w"
| "api_exec E (Pbkdf c) w = pbkdf_exec E c w"
| "api_exec E (Rand c) w = rand_exec E c w"
| "api_exec E (Header c) w = header_exec E c w"
| "api_exec E (Writer c) w = writer_exec E c w"
| "api_exec E (File c) w = file_exec E c w"

subsection \<open>The contract of a call\<close>

definition registered :: "('t, 'k, 'n) layout \<Rightarrow> world \<Rightarrow> addr set" where
  "registered L w = {t. \<exists>xs. tmpl_repr L w xs \<and> t \<in> set xs}"

text \<open>A counter has 32 bits: deregistration asks for fewer than \<open>2 ^ 31\<close> objects.\<close>

definition few :: "nat \<Rightarrow> bool" where
  "few n \<longleftrightarrow> Suc n < 2 ^ 31"

primrec hash_contract :: "env \<Rightarrow> world \<Rightarrow> hash_call \<Rightarrow> bool" where
  "hash_contract E w (Hash_register t) = (t \<in> dom (rg_types (w_hash w)))"
| "hash_contract E w (Hash_unregister t) = (t \<in> registered hash_layout w \<and> few (card (dom (w_hash_ctxs w))))"
| "hash_contract E w (Hash_alloc_ctx name) = hash_memory E w"
| "hash_contract E w (Hash_init ctx) = (ctx = NULL \<or> ctx \<in> dom (w_hash_ctxs w))"
| "hash_contract E w (Hash_update ctx b n) = (ctx = NULL \<or> ctx \<in> dom (w_hash_ctxs w))"
| "hash_contract E w (Hash_finalize ctx) = (ctx = NULL \<or> ctx \<in> dom (w_hash_ctxs w))"
| "hash_contract E w (Hash_digestsize ctx) = (ctx = NULL \<or> ctx \<in> dom (w_hash_ctxs w))"
| "hash_contract E w (Hash_destroy ctx) = (ctx = NULL \<or> ctx \<in> dom (w_hash_ctxs w))"

text \<open>\<open>own\<close> counts the cipher references that the client has taken and not dropped.\<close>

primrec cipher_contract :: "env \<Rightarrow> (addr \<Rightarrow> nat) \<Rightarrow> world \<Rightarrow> cipher_call \<Rightarrow> bool" where
  "cipher_contract E own w (Cipher_register t) = (t \<in> dom (rg_types (w_cipher w)))"
| "cipher_contract E own w (Cipher_unregister t) =
     (t \<in> registered cipher_layout w \<and> few (card (dom (w_cipher_ctxs w)) + card (dom (w_writers w)) + own t))"
| "cipher_contract E own w (Cipher_ref name) = True"
| "cipher_contract E own w (Cipher_put t) = (0 < own t)"
| "cipher_contract E own w (Cipher_alloc_ctx name) = cipher_memory E w"
| "cipher_contract E own w (Cipher_init ctx mode ky ksize iv isize) = (ctx = NULL \<or> ctx \<in> dom (w_cipher_ctxs w))"
| "cipher_contract E own w (Cipher_update ctx b n olen) = (ctx = NULL \<or> ctx \<in> dom (w_cipher_ctxs w))"
| "cipher_contract E own w (Cipher_finalize ctx olen) = (ctx = NULL \<or> ctx \<in> dom (w_cipher_ctxs w))"
| "cipher_contract E own w (Cipher_set_padding ctx on) = (ctx = NULL \<or> ctx \<in> dom (w_cipher_ctxs w))"
| "cipher_contract E own w (Cipher_set_aad ctx b n) = (ctx = NULL \<or> ctx \<in> dom (w_cipher_ctxs w))"
| "cipher_contract E own w (Cipher_set_tag ctx b n) = (ctx = NULL \<or> ctx \<in> dom (w_cipher_ctxs w))"
| "cipher_contract E own w (Cipher_get_tag ctx n) = (ctx = NULL \<or> ctx \<in> dom (w_cipher_ctxs w))"
| "cipher_contract E own w (Cipher_blocksize ctx) = (ctx = NULL \<or> ctx \<in> dom (w_cipher_ctxs w))"
| "cipher_contract E own w (Cipher_destroy ctx) = (ctx = NULL \<or> ctx \<in> dom (w_cipher_ctxs w))"

primrec api_contract :: "env \<Rightarrow> (addr \<Rightarrow> nat) \<Rightarrow> world \<Rightarrow> api_call \<Rightarrow> bool" where
  "api_contract E own w (Hash c) = hash_contract E w c"
| "api_contract E own w (Cipher c) = cipher_contract E own w c"
| "api_contract E own w (Pbkdf c) =
     (case c of Pbkdf_register t \<Rightarrow> t \<in> dom (rg_types (w_pbkdf w))
      | Pbkdf_unregister t \<Rightarrow> t \<in> registered pbkdf_layout w | _ \<Rightarrow> True)"
| "api_contract E own w (Rand c) =
     (case c of Rand_register t \<Rightarrow> t \<in> dom (rg_types (w_rand w))
      | Rand_unregister t \<Rightarrow> t \<in> registered rand_layout w | _ \<Rightarrow> True)"
| "api_contract E own w (Header c) =
     (case c of Header_register t \<Rightarrow> t \<in> dom (rg_types (w_header w))
      | Header_unregister t \<Rightarrow> t \<in> registered header_layout w \<and> few (card (dom (w_headers w)))
      | Header_close a \<Rightarrow> a = NULL \<or> a \<in> dom (w_headers w) \<and> a \<notin> f_header ` ran (w_files w)
      | _ \<Rightarrow> True)"
| "api_contract E own w (Writer c) =
     (case c of Writer_register t \<Rightarrow> t \<in> dom (rg_types (w_writer w))
      | Writer_unregister t \<Rightarrow> t \<in> registered writer_layout w \<and> few (card (dom (w_writers w)))
      | _ \<Rightarrow> True)"
| "api_contract E own w (File c) = True"

text \<open>What becomes of the references of the client.\<close>

definition own_after :: "api_call \<Rightarrow> answer \<Rightarrow> (addr \<Rightarrow> nat) \<Rightarrow> addr \<Rightarrow> nat" where
  "own_after c a own =
     (case c of
        Cipher (Cipher_ref name) \<Rightarrow> (case a of A_ptr t \<Rightarrow> if t = NULL then own else own(t := Suc (own t)) | _ \<Rightarrow> own)
      | Cipher (Cipher_put t) \<Rightarrow> own(t := own t - 1)
      | _ \<Rightarrow> own)"

text \<open>A pointer answer is NULL or an object of the type that the call returns.\<close>

primrec objects :: "api_call \<Rightarrow> world \<Rightarrow> addr set" where
  "objects (Hash c) w = dom (w_hash_ctxs w)"
| "objects (Cipher c) w = (case c of Cipher_ref name \<Rightarrow> registered cipher_layout w | _ \<Rightarrow> dom (w_cipher_ctxs w))"
| "objects (Pbkdf c) w = {}"
| "objects (Rand c) w = {}"
| "objects (Header c) w = dom (w_headers w)"
| "objects (Writer c) w = dom (w_writers w)"
| "objects (File c) w = dom (w_files w)"

definition ptr_ok :: "answer \<Rightarrow> addr set \<Rightarrow> bool" where
  "ptr_ok a X \<longleftrightarrow> (case a of A_ptr p \<Rightarrow> p = NULL \<or> p \<in> X | _ \<Rightarrow> True)"

lemma ptr_ok_simps [simp]: "ptr_ok A_none X" "ptr_ok (A_int r) X" "ptr_ok (A_out r out) X" "ptr_ok (A_len r out m) X"
  "ptr_ok (A_ptr p) X = (p = NULL \<or> p \<in> X)"
  by (simp_all add: ptr_ok_def)

definition answer_ok :: "api_call \<Rightarrow> answer \<Rightarrow> world \<Rightarrow> bool" where
  "answer_ok c a w \<longleftrightarrow> ptr_ok a (objects c w)"

subsection \<open>Well-typed worlds\<close>

text \<open>The references that the writers hold, when writer \<open>a\<close> holds one to cipher \<open>g a\<close>.\<close>

definition lent :: "(addr \<Rightarrow> addr) \<Rightarrow> world \<Rightarrow> addr \<Rightarrow> nat" where
  "lent g w t = card {a \<in> dom (w_writers w). g a = t}"

definition world_ok :: "env \<Rightarrow> (addr \<Rightarrow> nat) \<Rightarrow> world \<Rightarrow> bool" where
  "world_ok E own w \<longleftrightarrow> (\<exists>xs. hash_ok E xs w) \<and> (\<exists>xs g. cipher_ok E (\<lambda>t. own t + lent g w t) xs w) \<and>
     (\<exists>xs. pbkdf_ok E xs w) \<and> (\<exists>xs. rand_ok E xs w) \<and> (\<exists>xs. header_ok xs w) \<and> (\<exists>xs. writer_ok xs w) \<and> files_ok w"

lemma world_okI:
  assumes "hash_ok E hs w" and "cipher_ok E (\<lambda>t. own t + lent g w t) cs w" and "pbkdf_ok E ps w" and "rand_ok E rs w"
    and "header_ok ts w" and "writer_ok ws w" and "files_ok w"
  shows "world_ok E own w"
  using assms unfolding world_ok_def by blast

lemma world_okE:
  assumes "world_ok E own w"
  obtains hs cs g ps rs ts ws where "hash_ok E hs w" and "cipher_ok E (\<lambda>t. own t + lent g w t) cs w" and "pbkdf_ok E ps w"
    and "rand_ok E rs w" and "header_ok ts w" and "writer_ok ws w" and "files_ok w"
  using assms unfolding world_ok_def by blast

lemma lent_cong: "w_writers u = w_writers w \<Longrightarrow> lent g u = lent g w"
  by (simp add: lent_def [abs_def])

lemma files_ok_cong:
  "w_files u = w_files w \<Longrightarrow> w_headers u = w_headers w \<Longrightarrow> w_writers u = w_writers w \<Longrightarrow> files_ok u = files_ok w"
  by (simp add: files_ok_def file_object_ok_def)

text \<open>Changes to one part of the world leave the other parts well typed.\<close>

lemma world_ok_hash:
  assumes w: "world_ok E own w" and h: "hash_ok E ys u" "hash_part w u"
  shows "world_ok E own u"
proof -
  obtain R C oc e where u: "u = w\<lparr>w_hash := R, w_hash_ctxs := C, w_hash_octxs := oc, errno := e\<rparr>"
    using h(2) unfolding hash_part_def by blast
  have same: "cipher_ok E held cs u = cipher_ok E held cs w" "pbkdf_ok E ps u = pbkdf_ok E ps w"
      "rand_ok E rs u = rand_ok E rs w" "header_ok ts u = header_ok ts w" "writer_ok ws u = writer_ok ws w"
      "files_ok u = files_ok w" "lent g u = lent g w" for held cs ps rs ts ws g
    by (rule cipher_ok_cong pbkdf_ok_cong rand_ok_cong header_ok_cong writer_ok_cong files_ok_cong lent_cong; simp add: u)+
  show ?thesis using w h(1) by (auto simp: world_ok_def same)
qed

lemma world_ok_cipher:
  assumes w: "world_ok E own w" and h: "cipher_ok E (\<lambda>t. own' t + lent g u t) ys u" "cipher_part w u"
  shows "world_ok E own' u"
proof -
  obtain R C oc e where u: "u = w\<lparr>w_cipher := R, w_cipher_ctxs := C, w_cipher_octxs := oc, errno := e\<rparr>"
    using h(2) unfolding cipher_part_def by blast
  have same: "hash_ok E hs u = hash_ok E hs w" "pbkdf_ok E ps u = pbkdf_ok E ps w"
      "rand_ok E rs u = rand_ok E rs w" "header_ok ts u = header_ok ts w" "writer_ok ws u = writer_ok ws w"
      "files_ok u = files_ok w" for hs ps rs ts ws
    by (rule hash_ok_cong pbkdf_ok_cong rand_ok_cong header_ok_cong writer_ok_cong files_ok_cong; simp add: u)+
  show ?thesis using w h(1) unfolding world_ok_def same by blast
qed

lemma world_ok_pbkdf:
  assumes w: "world_ok E own w" and h: "pbkdf_ok E ys u" "pbkdf_part w u"
  shows "world_ok E own u"
proof -
  obtain R e where u: "u = w\<lparr>w_pbkdf := R, errno := e\<rparr>" using h(2) unfolding pbkdf_part_def by blast
  have same: "hash_ok E hs u = hash_ok E hs w" "cipher_ok E held cs u = cipher_ok E held cs w"
      "rand_ok E rs u = rand_ok E rs w" "header_ok ts u = header_ok ts w" "writer_ok ws u = writer_ok ws w"
      "files_ok u = files_ok w" "lent g u = lent g w" for hs held cs rs ts ws g
    by (rule hash_ok_cong cipher_ok_cong rand_ok_cong header_ok_cong writer_ok_cong files_ok_cong lent_cong; simp add: u)+
  show ?thesis using w h(1) by (auto simp: world_ok_def same)
qed

lemma world_ok_rand:
  assumes w: "world_ok E own w" and h: "rand_ok E ys u" "rand_part w u"
  shows "world_ok E own u"
proof -
  obtain R g e where u: "u = w\<lparr>w_rand := R, w_rng := g, errno := e\<rparr>" using h(2) unfolding rand_part_def by blast
  have same: "hash_ok E hs u = hash_ok E hs w" "cipher_ok E held cs u = cipher_ok E held cs w"
      "pbkdf_ok E ps u = pbkdf_ok E ps w" "header_ok ts u = header_ok ts w" "writer_ok ws u = writer_ok ws w"
      "files_ok u = files_ok w" "lent g u = lent g w" for hs held cs ps ts ws g
    by (rule hash_ok_cong cipher_ok_cong pbkdf_ok_cong header_ok_cong writer_ok_cong files_ok_cong lent_cong; simp add: u)+
  show ?thesis using w h(1) by (auto simp: world_ok_def same)
qed

lemma world_ok_header:
  assumes w: "world_ok E own w" and h: "header_ok ys u" "header_part w u"
    and o: "\<And>a f. w_files w a = Some f \<Longrightarrow> f_header f \<in> dom (w_headers w) \<Longrightarrow> f_header f \<in> dom (w_headers u)"
  shows "world_ok E own u"
proof -
  obtain R d H m s e where u: "u = w\<lparr>w_header := R, header_default := d, w_headers := H, w_maps := m, w_fsize := s, errno := e\<rparr>"
    using header_part_changes [OF h(2)] by blast
  have same: "hash_ok E hs u = hash_ok E hs w" "cipher_ok E held cs u = cipher_ok E held cs w"
      "pbkdf_ok E ps u = pbkdf_ok E ps w" "rand_ok E rs u = rand_ok E rs w" "writer_ok ws u = writer_ok ws w"
      "lent g u = lent g w" for hs held cs ps rs ws g
    by (rule hash_ok_cong cipher_ok_cong pbkdf_ok_cong rand_ok_cong writer_ok_cong lent_cong; simp add: u)+
  have "files_ok u" using w o files_ok_mono [of w u] by (auto simp: world_ok_def u)
  then show ?thesis using w h(1) by (auto simp: world_ok_def same)
qed

text \<open>A new writer, or a new file, takes one more reference to a cipher.\<close>

lemma lent_new:
  assumes "finite (dom (w_writers w))" and "w_writers w b = None" and "w_writers u = (w_writers w)(b \<mapsto> fw)"
  shows "lent (g(b := c)) u = (lent g w)(c := Suc (lent g w c))"
proof
  fix t
  have "{a \<in> dom (w_writers u). (g(b := c)) a = t} =
      (if t = c then insert b {a \<in> dom (w_writers w). g a = t} else {a \<in> dom (w_writers w). g a = t})"
    using assms(2,3) by auto
  moreover have "card (insert b {a \<in> dom (w_writers w). g a = t}) = Suc (card {a \<in> dom (w_writers w). g a = t})"
    using assms(1,2) by (intro card_insert_disjoint) auto
  ultimately show "lent (g(b := c)) u t = ((lent g w)(c := Suc (lent g w c))) t"
    by (cases "t = c") (simp_all add: lent_def)
qed

lemma world_ok_file:
  assumes w: "world_ok E own w" and ok: "header_ok ts u" "writer_ok ws u" "files_ok u" "file_part w u"
    and fin: "finite (dom (w_writers w))"
    and c: "cipher_ok E held' cs u"
    and held: "w_writers u = w_writers w \<and> held' = (\<lambda>t. own t + lent g w t) \<or>
      (\<exists>b fw c. w_writers w b = None \<and> w_writers u = (w_writers w)(b \<mapsto> fw) \<and>
        held' = (\<lambda>t. own t + lent g w t)(c := Suc (own c + lent g w c)))"
  shows "world_ok E own u"
proof -
  obtain R d H m s RW dw W F RC e where u: "u = w\<lparr>w_header := R, header_default := d, w_headers := H, w_maps := m, w_fsize := s,
      w_writer := RW, writer_default := dw, w_writers := W, w_files := F, w_cipher := RC, errno := e\<rparr>"
    using ok(4) unfolding file_part_def by blast
  have same: "hash_ok E hs u = hash_ok E hs w" "pbkdf_ok E ps u = pbkdf_ok E ps w" "rand_ok E rs u = rand_ok E rs w" for hs ps rs
    by (rule hash_ok_cong pbkdf_ok_cong rand_ok_cong; simp add: u)+
  have "\<exists>g. held' = (\<lambda>t. own t + lent g u t)"
    using held
  proof (elim disjE exE conjE)
    assume "w_writers u = w_writers w" "held' = (\<lambda>t. own t + lent g w t)"
    then show ?thesis using lent_cong [of u w g] by (intro exI [of _ g]) simp
  next
    fix b fw c
    assume "w_writers w b = None" "w_writers u = (w_writers w)(b \<mapsto> fw)"
      "held' = (\<lambda>t. own t + lent g w t)(c := Suc (own c + lent g w c))"
    then show ?thesis using lent_new [OF fin, of b u fw g c] by (intro exI [of _ "g(b := c)"]) (simp add: fun_eq_iff)
  qed
  then show ?thesis using w ok(1-3) c unfolding world_ok_def same by blast
qed

subsection \<open>Soundness, call by call\<close>

lemma registeredD: "t \<in> registered hash_layout w \<Longrightarrow> tmpl_repr hash_layout w xs \<Longrightarrow> t \<in> set xs"
  "s \<in> registered cipher_layout w \<Longrightarrow> tmpl_repr cipher_layout w ys \<Longrightarrow> s \<in> set ys"
  "p \<in> registered pbkdf_layout w \<Longrightarrow> tmpl_repr pbkdf_layout w ps \<Longrightarrow> p \<in> set ps"
  "r \<in> registered rand_layout w \<Longrightarrow> tmpl_repr rand_layout w rs \<Longrightarrow> r \<in> set rs"
  "a \<in> registered header_layout w \<Longrightarrow> tmpl_repr header_layout w as \<Longrightarrow> a \<in> set as"
  "b \<in> registered writer_layout w \<Longrightarrow> tmpl_repr writer_layout w bs \<Longrightarrow> b \<in> set bs"
  unfolding registered_def using hash.repr_unique cipher.repr_unique pbkdf.repr_unique rand.repr_unique
    header.repr_unique writer.repr_unique by blast+

lemma users_le: "finite (dom h) \<Longrightarrow> users h f t \<le> card (dom h)"
  unfolding users_def by (rule card_mono) auto

lemma lent_le: "finite (dom (w_writers w)) \<Longrightarrow> lent g w t \<le> card (dom (w_writers w))"
  unfolding lent_def by (rule card_mono) auto

lemma few_users: "few (card (dom h)) \<Longrightarrow> finite (dom h) \<Longrightarrow> Suc (users h f t) < 2 ^ 31"
  using users_le [of h f t] by (simp add: few_def)

text \<open>The answer of a sound call, with what it leaves.\<close>

definition sound_call :: "env \<Rightarrow> (addr \<Rightarrow> nat) \<Rightarrow> world \<Rightarrow> api_call \<Rightarrow> bool" where
  "sound_call E own w c \<longleftrightarrow> (\<exists>a u. api_exec E c w = Some (a, u) \<and> world_ok E (own_after c a own) u \<and> answer_ok c a u)"

lemma sound_hash:
  assumes w: "world_ok E own w"
    and h: "\<exists>a u ys. hash_exec E c w = Some (a, u) \<and> hash_ok E ys u \<and> hash_part w u \<and> ptr_ok a (dom (w_hash_ctxs u))"
  shows "sound_call E own w (Hash c)"
  using h world_ok_hash [OF w] by (auto simp: sound_call_def own_after_def answer_ok_def)

lemma hash_call_sound:
  assumes w: "world_ok E own w" and al: "calloc_ok E" and c: "hash_contract E w c"
  shows "sound_call E own w (Hash c)"
proof (rule sound_hash [OF w])
  from w obtain xs where ok: "hash_ok E xs w" unfolding world_ok_def by blast
  note r = countedD(1) [OF hash_okD(1) [OF ok]]
  show "\<exists>a u ys. hash_exec E c w = Some (a, u) \<and> hash_ok E ys u \<and> hash_part w u \<and> ptr_ok a (dom (w_hash_ctxs u))"
  proof (cases c)
    case (Hash_register t)
    then show ?thesis using hash_register_typed [OF ok, of t] c by auto
  next
    case (Hash_unregister t)
    then have "t \<in> set xs" "Suc (users (w_hash_ctxs w) hc_type t) < 2 ^ 31"
      using c registeredD(1) [OF _ r] few_users [OF _ hash_okD(2) [OF ok]] by auto
    from hash_unregister_typed [OF ok this] show ?thesis using Hash_unregister by auto
  next
    case (Hash_alloc_ctx name)
    then show ?thesis using hash_alloc_typed [OF ok _ al, of name] c by fastforce
  next
    case (Hash_destroy x)
    then show ?thesis using hash_destroy_typed [OF ok, of x] c by auto
  next
    case (Hash_init x)
    then show ?thesis using hash_ctx_typed [OF ok, of x "[]" 0] c by auto
  next
    case (Hash_update x b n)
    then show ?thesis using hash_ctx_typed [OF ok, of x b n] c by auto
  next
    case (Hash_finalize x)
    then show ?thesis using hash_ctx_typed [OF ok, of x "[]" 0] c by auto
  next
    case (Hash_digestsize x)
    then show ?thesis using hash_ctx_typed [OF ok, of x "[]" 0] c by auto
  qed
qed

lemma sound_cipher:
  assumes w: "world_ok E own w"
    and h: "\<exists>a u ys. cipher_exec E c w = Some (a, u) \<and> cipher_ok E (\<lambda>t. own_after (Cipher c) a own t + lent g w t) ys u \<and>
      cipher_part w u \<and> ptr_ok a (objects (Cipher c) u)"
  shows "sound_call E own w (Cipher c)"
proof -
  obtain a u ys where u: "cipher_exec E c w = Some (a, u)" "cipher_part w u" "ptr_ok a (objects (Cipher c) u)"
      "cipher_ok E (\<lambda>t. own_after (Cipher c) a own t + lent g w t) ys u"
    using h by blast
  have "w_writers u = w_writers w" using arg_cong [OF u(2) [unfolded cipher_part_def], of w_writers] by simp
  from world_ok_cipher [OF w u(4) [folded lent_cong [OF this]] u(2)]
  have "world_ok E (own_after (Cipher c) a own) u" .
  then show ?thesis using u(1,3) by (simp add: sound_call_def answer_ok_def)
qed

lemma cipher_ref_sound:
  assumes w: "world_ok E own w" and ok: "cipher_ok E (\<lambda>t. own t + lent g w t) xs w"
  shows "sound_call E own w (Cipher (Cipher_ref name))"
proof (rule sound_cipher [OF w])
  from cipher_ref_typed [OF ok, of name] show "\<exists>a u ys. cipher_exec E (Cipher_ref name) w = Some (a, u) \<and>
      cipher_ok E (\<lambda>t. own_after (Cipher (Cipher_ref name)) a own t + lent g w t) ys u \<and> cipher_part w u \<and>
      ptr_ok a (objects (Cipher (Cipher_ref name)) u)"
  proof (elim disjE exE conjE)
    assume "cfe_cipher_ref name w = Some (NULL, w)"
    then show ?thesis using ok
      by (intro exI [of _ "A_ptr NULL"] exI [of _ w] exI [of _ xs]) (simp add: own_after_def cipher_part_def)
  next
    fix t u R
    assume u: "cfe_cipher_ref name w = Some (t, u)" "t \<noteq> NULL" "t \<in> set xs"
      "cipher_ok E ((\<lambda>t. own t + lent g w t)(t := Suc (own t + lent g w t))) xs u" "cipher_part w u"
    have "(\<lambda>t. own t + lent g w t)(t := Suc (own t + lent g w t)) = (\<lambda>s. (own(t := Suc (own t))) s + lent g w s)"
      by (simp add: fun_eq_iff)
    then have "cipher_ok E (\<lambda>s. (own(t := Suc (own t))) s + lent g w s) xs u" using u(4) by simp
    moreover have "t \<in> registered cipher_layout u"
      using u(3) countedD(1) [OF cipher_okD(1) [OF u(4)]] by (auto simp: registered_def)
    ultimately show ?thesis using u(1,2,5)
      by (intro exI [of _ "A_ptr t"] exI [of _ u] exI [of _ xs]) (simp add: own_after_def)
  qed
qed

lemma cipher_put_sound:
  assumes w: "world_ok E own w" and ok: "cipher_ok E (\<lambda>t. own t + lent g w t) xs w" and o: "0 < own t"
  shows "sound_call E own w (Cipher (Cipher_put t))"
proof (rule sound_cipher [OF w])
  let ?h = "\<lambda>t. own t + lent g w t" and ?k = "own t - 1 + lent g w t"
  have "?h = ?h(t := Suc ?k)" using o by (simp add: fun_eq_iff)
  then have "cipher_ok E (?h(t := Suc ?k)) xs w" using ok by simp
  from cipher_put_typed [OF this] obtain u where u: "cfe_cipher_put t w = Some u" "cipher_ok E (?h(t := ?k)) xs u" "cipher_part w u"
    by blast
  have "?h(t := ?k) = (\<lambda>s. (own(t := own t - 1)) s + lent g w s)" by (simp add: fun_eq_iff)
  then show "\<exists>a u ys. cipher_exec E (Cipher_put t) w = Some (a, u) \<and>
      cipher_ok E (\<lambda>s. own_after (Cipher (Cipher_put t)) a own s + lent g w s) ys u \<and> cipher_part w u \<and>
      ptr_ok a (objects (Cipher (Cipher_put t)) u)"
    using u by (intro exI [of _ A_none] exI [of _ u] exI [of _ xs]) (simp add: own_after_def)
qed

text \<open>The calls that do not change the references of the client.\<close>

lemma cipher_calls_sound:
  assumes ok: "cipher_ok E held xs w" and al: "calloc_ok E" and c: "cipher_contract E own w c"
    and n: "\<And>t. c = Cipher_unregister t \<Longrightarrow> Suc (cipher_users held w t) < 2 ^ 31"
    and d: "\<And>name. c \<noteq> Cipher_ref name" "\<And>t. c \<noteq> Cipher_put t"
  shows "\<exists>a u ys. cipher_exec E c w = Some (a, u) \<and> cipher_ok E held ys u \<and> cipher_part w u \<and> ptr_ok a (dom (w_cipher_ctxs u))"
proof (cases c)
  case (Cipher_register t)
  then show ?thesis using cipher_register_typed [OF ok, of t] c by auto
next
  case (Cipher_unregister t)
  then have "t \<in> set xs" using c registeredD(2) [OF _ countedD(1) [OF cipher_okD(1) [OF ok]]] by auto
  from cipher_unregister_typed [OF ok this] n show ?thesis using Cipher_unregister by auto
next
  case (Cipher_alloc_ctx name)
  then show ?thesis using cipher_alloc_typed [OF ok _ al, of name] c by fastforce
next
  case (Cipher_init x mode ky ksize iv isize)
  then show ?thesis using cipher_init_typed [OF ok, of x mode ky ksize iv isize] c by auto
next
  case (Cipher_destroy x)
  then show ?thesis using cipher_destroy_typed [OF ok, of x] c by auto
next
  case (Cipher_update x b m olen)
  then show ?thesis using cipher_ctx_typed [OF ok, of x b m olen 0] c by auto
next
  case (Cipher_finalize x olen)
  then show ?thesis using cipher_ctx_typed [OF ok, of x "[]" 0 olen 0] c by auto
next
  case (Cipher_set_padding x on)
  then show ?thesis using cipher_ctx_typed [OF ok, of x "[]" 0 0 on] c by auto
next
  case (Cipher_set_aad x b m)
  then show ?thesis using cipher_ctx_typed [OF ok, of x b m 0 0] c by auto
next
  case (Cipher_set_tag x b m)
  then show ?thesis using cipher_ctx_typed [OF ok, of x b m 0 0] c by auto
next
  case (Cipher_get_tag x m)
  then show ?thesis using cipher_ctx_typed [OF ok, of x "[]" m 0 0] c by auto
next
  case (Cipher_blocksize x)
  then show ?thesis using cipher_ctx_typed [OF ok, of x "[]" 0 0 0] c by auto
qed (use d in simp_all)

lemma cipher_call_sound:
  assumes w: "world_ok E own w" and al: "calloc_ok E" and c: "cipher_contract E own w c"
  shows "sound_call E own w (Cipher c)"
proof -
  from w obtain xs g ws where ok: "cipher_ok E (\<lambda>t. own t + lent g w t) xs w" and wo: "writer_ok ws w" unfolding world_ok_def by blast
  have n: "Suc (cipher_users (\<lambda>t. own t + lent g w t) w t) < 2 ^ 31" if "c = Cipher_unregister t" for t
    using c that users_le [OF cipher_okD(2) [OF ok], of cc_type t] lent_le [OF writer_okD(2) [OF wo], of g t]
    by (simp add: few_def cipher_users_def)
  consider (ref) name where "c = Cipher_ref name" | (put) t where "c = Cipher_put t"
    | (other) "\<And>name. c \<noteq> Cipher_ref name" "\<And>t. c \<noteq> Cipher_put t" by blast
  then show ?thesis
  proof cases
    case other
    have "own_after (Cipher c) a own = own" "objects (Cipher c) u = dom (w_cipher_ctxs u)" for a u
      using other by (auto simp: own_after_def split: cipher_call.split)
    then show ?thesis using cipher_calls_sound [OF ok al c n other] by (intro sound_cipher [OF w, of c g]) simp
  qed (use cipher_ref_sound [OF w ok] cipher_put_sound [OF w ok] c in auto)
qed

lemma pbkdf_call_sound:
  assumes w: "world_ok E own w" and c: "api_contract E own w (Pbkdf c)"
  shows "sound_call E own w (Pbkdf c)"
proof -
  from w obtain xs where ok: "pbkdf_ok E xs w" unfolding world_ok_def by blast
  have "\<exists>a u ys. pbkdf_exec E c w = Some (a, u) \<and> pbkdf_ok E ys u \<and> pbkdf_part w u \<and> ptr_ok a {}"
  proof (cases c)
    case (Pbkdf_register t)
    then show ?thesis using pbkdf_register_typed [OF ok, of t] c by auto
  next
    case (Pbkdf_unregister t)
    then have "t \<in> set xs" using c registeredD(3) [OF _ countedD(1) [OF pbkdf_okD(1) [OF ok]]] by auto
    from pbkdf_unregister_typed [OF ok this] show ?thesis using Pbkdf_unregister by auto
  next
    case (Pbkdf_derive algname rounds inp ilen salt slen olen)
    then show ?thesis using pbkdf_derive_typed [OF ok, of algname rounds inp ilen salt slen olen] by auto
  qed
  then show ?thesis using world_ok_pbkdf [OF w] by (auto simp: sound_call_def own_after_def answer_ok_def)
qed

lemma rand_call_sound:
  assumes w: "world_ok E own w" and c: "api_contract E own w (Rand c)"
  shows "sound_call E own w (Rand c)"
proof -
  from w obtain xs where ok: "rand_ok E xs w" unfolding world_ok_def by blast
  have "\<exists>a u ys. rand_exec E c w = Some (a, u) \<and> rand_ok E ys u \<and> rand_part w u \<and> ptr_ok a {}"
  proof (cases c)
    case (Rand_register t)
    then show ?thesis using rand_register_typed [OF ok, of t] c by auto
  next
    case (Rand_unregister t)
    then have "t \<in> set xs" using c registeredD(4) [OF _ countedD(1) [OF rand_okD(1) [OF ok]]] by auto
    from rand_unregister_typed [OF ok this] show ?thesis using Rand_unregister by auto
  next
    case (Rand_get buffer_null sz)
    then show ?thesis using rand_get_typed [OF ok, of buffer_null sz] by auto
  qed
  then show ?thesis using world_ok_rand [OF w] by (auto simp: sound_call_def own_after_def answer_ok_def)
qed

lemma header_call_sound:
  assumes w: "world_ok E own w" and al: "calloc_ok E" and c: "api_contract E own w (Header c)"
  shows "sound_call E own w (Header c)"
proof -
  from w obtain xs where ok: "header_ok xs w" and fo: "files_ok w" unfolding world_ok_def by blast
  have "\<exists>a u ys. header_exec E c w = Some (a, u) \<and> header_ok ys u \<and> header_part w u \<and> ptr_ok a (dom (w_headers u)) \<and>
    (\<forall>b f. w_files w b = Some f \<longrightarrow> f_header f \<in> dom (w_headers w) \<longrightarrow> f_header f \<in> dom (w_headers u))"
  proof (cases c)
    case (Header_register t)
    then show ?thesis using header_register_typed [OF ok, of t] c by auto
  next
    case (Header_unregister t)
    then have "t \<in> set xs" "Suc (users (w_headers w) hd_type t) < 2 ^ 31"
      using c registeredD(5) [OF _ countedD(1) [OF header_okD(1) [OF ok]]] few_users [OF _ header_okD(2) [OF ok]] by auto
    from header_unregister_typed [OF ok this] show ?thesis using Header_unregister by auto
  next
    case (Header_create version fd sz)
    then show ?thesis using header_create_typed [OF ok al, of version fd sz] by fastforce
  next
    case (Header_close a)
    then have a: "a = NULL \<or> a \<in> dom (w_headers w)" and na: "a = NULL \<or> a \<notin> f_header ` ran (w_files w)"
      using c by auto
    have nn: "w_headers w NULL = None"
      using header_okD(3) [OF ok, of NULL] by (cases "w_headers w NULL") (auto simp: header_object_ok_def)
    obtain u where u: "cfe_header_close E a w = Some u" "header_ok xs u" "header_part w u" "w_headers u = (w_headers w)(a := None)"
      using header_close_typed [OF ok a] by blast
    have "f_header f \<in> dom (w_headers u)" if f: "w_files w b = Some f" "f_header f \<in> dom (w_headers w)" for b f
    proof -
      have "f_header f \<in> f_header ` ran (w_files w)" using f(1) by (intro imageI ranI)
      then have "f_header f \<noteq> a" using na f(2) nn by auto
      then show ?thesis using f(2) u(4) by auto
    qed
    then show ?thesis using u(1-3) Header_close by (intro exI [of _ A_none] exI [of _ u] exI [of _ xs]) simp
  qed
  then show ?thesis using world_ok_header [OF w] by (force simp: sound_call_def own_after_def answer_ok_def)
qed

lemma writer_call_sound:
  assumes w: "world_ok E own w" and al: "calloc_ok E" and c: "api_contract E own w (Writer c)"
  shows "sound_call E own w (Writer c)"
proof -
  from w obtain cs g ts xs where co: "cipher_ok E (\<lambda>t. own t + lent g w t) cs w" and ho: "header_ok ts w"
      and ok: "writer_ok xs w" and fo: "files_ok w" unfolding world_ok_def by blast
  let ?held = "\<lambda>t. own t + lent g w t"
  have same: "cipher_ok E ?held cs u" if "writer_part w u" "w_cipher u = w_cipher w" for u
  proof -
    have "w_cipher_ctxs u = w_cipher_ctxs w" "w_cipher_octxs u = w_cipher_octxs w"
      using arg_cong [OF that(1) [unfolded writer_part_def], of w_cipher_ctxs]
        arg_cong [OF that(1) [unfolded writer_part_def], of w_cipher_octxs] by simp_all
    then show ?thesis using co cipher_ok_cong [OF that(2)] by simp
  qed
  have "\<exists>a u ys held'. writer_exec E c w = Some (a, u) \<and> writer_ok ys u \<and> writer_part w u \<and> ptr_ok a (dom (w_writers u)) \<and>
    cipher_ok E held' cs u \<and> (w_writers u = w_writers w \<and> held' = ?held \<or>
      (\<exists>b fw c. w_writers w b = None \<and> w_writers u = (w_writers w)(b \<mapsto> fw) \<and> held' = ?held(c := Suc (?held c))))"
  proof (cases c)
    case (Writer_register t)
    then obtain r u ys where "cfe_filewriter_register t w = Some (r, u)" "writer_ok ys u" "writer_part w u"
        "w_writers u = w_writers w" "w_cipher u = w_cipher w"
      using writer_register_typed [OF ok, of t] c by auto
    then show ?thesis using Writer_register same [of u]
      by (intro exI [of _ "A_int r"] exI [of _ u] exI [of _ ys] exI [of _ ?held]) simp
  next
    case (Writer_unregister t)
    then have "t \<in> set xs" "Suc (users (w_writers w) fw_type t) < 2 ^ 31"
      using c registeredD(6) [OF _ countedD(1) [OF writer_okD(1) [OF ok]]] few_users [OF _ writer_okD(2) [OF ok]] by auto
    from writer_unregister_typed [OF ok this] obtain r u ys where "cfe_filewriter_unregister t w = Some (r, u)"
        "writer_ok ys u" "writer_part w u" "w_writers u = w_writers w" "w_cipher u = w_cipher w" by blast
    then show ?thesis using Writer_unregister same [of u]
      by (intro exI [of _ "A_int r"] exI [of _ u] exI [of _ ys] exI [of _ ?held]) simp
  next
    case (Writer_create version name bs)
    obtain p u held' where u: "cfe_filewriter_create E version name bs w = Some (p, u)" "writer_ok xs u" "cipher_ok E held' cs u"
        "writer_part w u"
        "p = NULL \<and> w_writers u = w_writers w \<and> held' = ?held \<or>
         p \<noteq> NULL \<and> w_writers w p = None \<and> (\<exists>fw. w_writers u = (w_writers w)(p \<mapsto> fw)) \<and>
           (\<exists>c. held' = ?held(c := Suc (?held c)))"
      using writer_create_typed [OF ok co al, of version name bs] by blast
    then have "w_writers u = w_writers w \<and> held' = ?held \<or>
      (\<exists>b fw c. w_writers w b = None \<and> w_writers u = (w_writers w)(b \<mapsto> fw) \<and> held' = ?held(c := Suc (?held c)))" by blast
    moreover have "ptr_ok (A_ptr p) (dom (w_writers u))" using u(5) by auto
    moreover have "writer_exec E c w = Some (A_ptr p, u)" using u(1) Writer_create by simp
    ultimately show ?thesis using u(2-4) by blast
  qed
  then obtain a u ys held' where u: "writer_exec E c w = Some (a, u)" "writer_ok ys u" "writer_part w u" "ptr_ok a (dom (w_writers u))"
      "cipher_ok E held' cs u" "w_writers u = w_writers w \<and> held' = ?held \<or>
      (\<exists>b fw c. w_writers w b = None \<and> w_writers u = (w_writers w)(b \<mapsto> fw) \<and> held' = ?held(c := Suc (?held c)))"
    by blast
  obtain RW dw W RC e where e: "u = w\<lparr>w_writer := RW, writer_default := dw, w_writers := W, w_cipher := RC, errno := e\<rparr>"
    using u(3) unfolding writer_part_def by blast
  have "header_ok ts u" using ho header_ok_cong [of u w] by (simp add: e)
  moreover have "dom (w_writers w) \<subseteq> dom (w_writers u)" using u(6) by (elim disjE exE conjE) auto
  then have "files_ok u" by (intro files_ok_mono [OF fo]) (simp_all add: e)
  moreover have "file_part w u" by (simp add: e file_part_def)
  ultimately have "world_ok E own u"
    using world_ok_file [OF w _ u(2) _ _ writer_okD(2) [OF ok] u(5,6)] by blast
  then show ?thesis using u(1,4) by (auto simp: sound_call_def own_after_def answer_ok_def)
qed

lemma file_call_sound:
  assumes w: "world_ok E own w" and al: "calloc_ok E"
  shows "sound_call E own w (File c)"
proof -
  from w obtain cs g ts xs where co: "cipher_ok E (\<lambda>t. own t + lent g w t) cs w" and ho: "header_ok ts w"
      and wo: "writer_ok xs w" and fo: "files_ok w" unfolding world_ok_def by blast
  let ?held = "\<lambda>t. own t + lent g w t"
  show ?thesis
  proof (cases c)
    case (File_open fd flags mode params)
    have "world_ok E own (w\<lparr>errno := ENOSYS\<rparr>)"
      using w by (elim world_okE) (rule world_ok_hash [OF w], auto dest: hash_ok_errno)
    then show ?thesis using File_open by (auto simp: sound_call_def own_after_def answer_ok_def cfe_open_def)
  next
    case (File_create fd flags mode params)
    obtain p q u held' where u: "cfe_create E fd flags mode params w = Some (p, q, u)" "header_ok ts u" "writer_ok xs u"
        "cipher_ok E held' cs u" "files_ok u" "file_part w u"
        "p = NULL \<and> w_files u = w_files w \<and> w_headers u = w_headers w \<and> w_writers u = w_writers w \<and> held' = ?held \<or>
         p \<in> dom (w_files u) \<and> (\<exists>b fw. w_writers w b = None \<and> w_writers u = (w_writers w)(b \<mapsto> fw)) \<and>
           (\<exists>c. held' = ?held(c := Suc (?held c)))"
      using cfe_create_typed [OF ho wo co fo al, of fd flags mode params] by blast
    have "w_writers u = w_writers w \<and> held' = ?held \<or>
      (\<exists>b fw c. w_writers w b = None \<and> w_writers u = (w_writers w)(b \<mapsto> fw) \<and> held' = ?held(c := Suc (?held c)))"
      using u(7) by blast
    then have "world_ok E own u"
      using world_ok_file [OF w u(2,3,5,6) writer_okD(2) [OF wo] u(4)] by blast
    moreover have "ptr_ok (A_ptr p) (dom (w_files u))" using u(7) by auto
    ultimately show ?thesis using u(1) File_create by (auto simp: sound_call_def own_after_def answer_ok_def)
  qed
qed

lemma api_call_is_sound:
  assumes w: "world_ok E own w" and al: "calloc_ok E" and c: "api_contract E own w c"
  shows "sound_call E own w c"
proof (cases c)
  case (Hash x)
  then show ?thesis using hash_call_sound [OF w al] c by simp
next
  case (Cipher x)
  then show ?thesis using cipher_call_sound [OF w al] c by simp
next
  case (Pbkdf x)
  then show ?thesis using pbkdf_call_sound [OF w] c by simp
next
  case (Rand x)
  then show ?thesis using rand_call_sound [OF w] c by simp
next
  case (Header x)
  then show ?thesis using header_call_sound [OF w al] c by simp
next
  case (Writer x)
  then show ?thesis using writer_call_sound [OF w al] c by simp
next
  case (File x)
  then show ?thesis using file_call_sound [OF w al] by simp
qed

end
