(* ===== verification/Cfe_Clients.thy ===== *)
theory Cfe_Clients
  imports Cfe_Session
begin

text \<open>
  From the load image to the clients. The constructors leave a well-typed world, whatever order the
  linker chose, and from there every sequence of calls in which each keeps its contract is defined to
  its end and leaves a well-typed world.
\<close>

subsection \<open>The world after the constructors\<close>

text \<open>No constructor changes a type but its counter.\<close>

definition bodies :: "world \<Rightarrow>
    (addr \<rightharpoonup> cfe_hash_type) \<times> (addr \<rightharpoonup> cfe_cipher_type) \<times> (addr \<rightharpoonup> cfe_pbkdf_type) \<times> (addr \<rightharpoonup> cfe_rand_type) \<times>
    (addr \<rightharpoonup> cfe_header_type) \<times> (addr \<rightharpoonup> cfe_filewriter_type)" where
  "bodies w = (tmpl_body hash_layout w, tmpl_body cipher_layout w, tmpl_body pbkdf_layout w, tmpl_body rand_layout w,
     tmpl_body header_layout w, tmpl_body writer_layout w)"

lemma layout_posts:
  "ly_post hash_layout t v = Some v' \<Longrightarrow> ly_get hash_layout v' = ly_get hash_layout v"
  "ly_post cipher_layout t v = Some v' \<Longrightarrow> ly_get cipher_layout v' = ly_get cipher_layout v"
  "ly_post pbkdf_layout t v = Some v' \<Longrightarrow> ly_get pbkdf_layout v' = ly_get pbkdf_layout v"
  "ly_post rand_layout t v = Some v' \<Longrightarrow> ly_get rand_layout v' = ly_get rand_layout v"
  "ly_post header_layout t v = Some v' \<Longrightarrow> ly_get header_layout v' = ly_get header_layout v"
  "ly_post writer_layout t v = Some v' \<Longrightarrow> ly_get writer_layout v' = ly_get writer_layout v"
  by (auto simp: hash_layout_def cipher_layout_def pbkdf_layout_def rand_layout_def header_layout_def header_set_default_def
      writer_layout_def writer_set_default_def bind_eq_Some_conv split: if_splits)

lemma tmpl_body_cong: "ly_get L u = ly_get L w \<Longrightarrow> tmpl_body L u = tmpl_body L w"
  by (simp add: tmpl_body_def fun_eq_iff)

text \<open>A constructor registers the types of its own registry \<dots>\<close>

lemma constructor_registers:
  assumes "run_constructor E c w = Some (b, u)"
  shows "(c = Init_hash \<longrightarrow> (\<exists>ts rs. register_each (tmpl_register hash_layout) ts w = Some (rs, u))) \<and>
    (c = Init_cipher \<longrightarrow> (\<exists>ts rs. register_each (tmpl_register cipher_layout) ts w = Some (rs, u))) \<and>
    (c = Init_pbkdf \<longrightarrow> (\<exists>ts rs. register_each (tmpl_register pbkdf_layout) ts w = Some (rs, u))) \<and>
    (c = Init_rand \<longrightarrow> (\<exists>v t r. w_rand v = w_rand w \<and> tmpl_register rand_layout t v = Some (r, u))) \<and>
    (c = Init_header \<longrightarrow> (\<exists>t r. tmpl_register header_layout t w = Some (r, u))) \<and>
    (c = Init_writer \<longrightarrow> (\<exists>t r. tmpl_register writer_layout t w = Some (r, u)))"
  using assms
proof (cases c)
  case Init_rand
  let ?v = "if rand_openssl_init_rdrand E \<noteq> 0 then cfe_log_notice E
           ''No hardware random number generator available. Using default'' [] w else w"
  obtain r where "tmpl_register rand_layout (sym E ''openssl_type_rand'') ?v = Some (r, u)"
    using assms Init_rand by (auto simp: rand_openssl_init_def cfe_rand_register_eq Let_def bind_eq_Some_conv)
  moreover have "w_rand ?v = w_rand w" by (simp add: cfe_log_notice_def cfe_log_message_frame)
  ultimately show ?thesis using Init_rand by blast
qed (auto simp: hash_openssl_init_eq cfe_hash_register_eq cipher_openssl_init_eq cfe_cipher_register_eq
    pbkdf_openssl_init_eq cfe_pbkdf_register_eq header_v1_init_def cfe_header_register_eq writer_v1_init_def
    cfe_filewriter_register_eq bind_eq_Some_conv)

text \<open>\<dots> and touches no other.\<close>

lemma constructor_bodies:
  assumes r: "run_constructor E c w = Some (b, u)" and t: "touches c w u"
  shows "bodies u = bodies w"
proof -
  note parts = touches_parts [OF t] and own = constructor_registers [OF r]
  have "tmpl_body hash_layout u = tmpl_body hash_layout w"
    using parts own hash_lay.register_each_body [OF _ layout_posts(1)] tmpl_body_cong [of hash_layout u w]
    by (cases "c = Init_hash") (auto simp: layout_parts)
  moreover have "tmpl_body cipher_layout u = tmpl_body cipher_layout w"
    using parts own cipher_lay.register_each_body [OF _ layout_posts(2)] tmpl_body_cong [of cipher_layout u w]
    by (cases "c = Init_cipher") (auto simp: layout_parts)
  moreover have "tmpl_body pbkdf_layout u = tmpl_body pbkdf_layout w"
    using parts own pbkdf_lay.register_each_body [OF _ layout_posts(3)] tmpl_body_cong [of pbkdf_layout u w]
    by (cases "c = Init_pbkdf") (auto simp: layout_parts)
  moreover have "tmpl_body rand_layout u = tmpl_body rand_layout w"
  proof (cases "c = Init_rand")
    case True
    then obtain x t r where x: "w_rand x = w_rand w" "tmpl_register rand_layout t x = Some (r, u)" using own by blast
    then show ?thesis
      using rand_lay.register_body [OF x(2) layout_posts(4)] tmpl_body_cong [of rand_layout x w] by (simp add: layout_parts)
  qed (use parts tmpl_body_cong [of rand_layout u w] in \<open>simp add: layout_parts\<close>)
  moreover have "tmpl_body header_layout u = tmpl_body header_layout w"
    using parts own header_lay.register_body [OF _ layout_posts(5)] tmpl_body_cong [of header_layout u w]
    by (cases "c = Init_header") (auto simp: layout_parts)
  moreover have "tmpl_body writer_layout u = tmpl_body writer_layout w"
    using parts own writer_lay.register_body [OF _ layout_posts(6)] tmpl_body_cong [of writer_layout u w]
    by (cases "c = Init_writer") (auto simp: layout_parts)
  ultimately show ?thesis by (simp add: bodies_def)
qed

lemma constructors_bodies:
  assumes "distinct cs" and "\<forall>c \<in> set cs. unloaded E c w" and "run_constructors E cs w = Some (False, v)"
  shows "bodies v = bodies w"
  using assms
proof (induction cs arbitrary: w)
  case (Cons c cs)
  obtain u where u: "run_constructor E c w = Some (False, u)" "touches c w u"
    using run_constructor_ok [of E c w] Cons.prems(2) by auto
  have "unloaded E d u" if d: "d \<in> set cs" for d
  proof -
    have "d \<noteq> c" using Cons.prems(1) d by auto
    then show ?thesis using other_constructor(1) [OF u(2), of d E] Cons.prems(2) d by simp
  qed
  then have "bodies v = bodies u" using Cons.IH [of u] Cons.prems(1,3) u(1) by simp
  then show ?case using constructor_bodies [OF u] by simp
qed simp

text \<open>Before the constructors run there are no objects.\<close>

definition no_objects :: "world \<Rightarrow> bool" where
  "no_objects w \<longleftrightarrow> w_hash_ctxs w = Map.empty \<and> w_cipher_ctxs w = Map.empty \<and> w_headers w = Map.empty \<and>
     w_writers w = Map.empty \<and> w_files w = Map.empty"

lemma registries_only_objects:
  assumes "registries_only w v"
  shows "no_objects v = no_objects w"
proof -
  have e: "w_hash_ctxs (registries_of w v) = w_hash_ctxs v" "w_cipher_ctxs (registries_of w v) = w_cipher_ctxs v"
    "w_headers (registries_of w v) = w_headers v" "w_writers (registries_of w v) = w_writers v"
    "w_files (registries_of w v) = w_files v"
    by (simp_all add: registries_of_def)
  show ?thesis using e assms by (simp add: registries_only_def no_objects_def)
qed

lemma counted_ones:
  "P w xs \<Longrightarrow> (\<And>t. t \<in> set xs \<Longrightarrow> N w t = Some 1) \<Longrightarrow> counted P N (\<lambda>_. 0) w xs"
  by (simp add: counted_def)

lemma static_bodies:
  "(t, ty) \<in> set (hash_statics E) \<Longrightarrow> \<exists>f. ht_alloc_ctx ty = Some f \<and> hash_alloc_args E f \<noteq> None"
  "(s, cty) \<in> set (cipher_statics E) \<Longrightarrow> \<exists>f. ct_alloc_ctx cty = Some f \<and> cipher_alloc_args E f \<noteq> None"
  "(p, pty) \<in> set (pbkdf_statics E) \<Longrightarrow> \<exists>f. pt_derive pty = Some f \<and> stateless E f"
proof -
  show "(t, ty) \<in> set (hash_statics E) \<Longrightarrow> \<exists>f. ht_alloc_ctx ty = Some f \<and> hash_alloc_args E f \<noteq> None"
    by (auto simp: hash_statics_def openssl_type_sha1_def openssl_type_sha224_def openssl_type_sha256_def
        openssl_type_sha384_def openssl_type_sha512_def)
  show "(s, cty) \<in> set (cipher_statics E) \<Longrightarrow> \<exists>f. ct_alloc_ctx cty = Some f \<and> cipher_alloc_args E f \<noteq> None"
    by (auto simp: cipher_statics_def cipher_statics_defs)
  show "(p, pty) \<in> set (pbkdf_statics E) \<Longrightarrow> \<exists>f. pt_derive pty = Some f \<and> stateless E f"
    by (auto simp: pbkdf_statics_def openssl_type_kdf_sha1_def openssl_type_kdf_sha224_def openssl_type_kdf_sha256_def
        openssl_type_kdf_sha384_def openssl_type_kdf_sha512_def intro!: openssl_stateless)
qed

lemma load_world_ok:
  assumes u: "\<And>c. unloaded E c w" and n: "no_objects w" and cs: "distinct cs" "set cs = UNIV"
  shows "\<exists>v. run_constructors E cs w = Some (False, v) \<and> world_ok E (\<lambda>_. 0) v \<and> no_objects v \<and> registries_only w v"
proof -
  obtain v where v: "run_constructors E cs w = Some (False, v)" "\<And>c. loaded E c v" "registries_only w v"
    using run_constructors_ok [OF cs(1), of E w] u cs(2) by auto
  have b: "bodies v = bodies w" using constructors_bodies [OF cs(1) _ v(1)] u by simp
  have no: "no_objects v" using n registries_only_objects [OF v(3)] by simp
  note o = no [unfolded no_objects_def]
  have "hash_ok E (map fst (hash_statics E)) v"
  proof -
    have "counted (tmpl_repr hash_layout) (tmpl_refs hash_layout) (\<lambda>_. 0) v (map fst (hash_statics E))"
      using v(2) [of Init_hash] by (intro counted_ones) (force simp: tmpl_refs_def layout_parts, force simp: tmpl_refs_def hash_layout_def)
    moreover have "hash_bodies_ok E v"
      using b u [of Init_hash] static_bodies(1) [of _ _ E]
      by (force simp: bodies_def hash_bodies_ok_def tmpl_body_def hash_layout_def dest!: map_of_SomeD)
    ultimately show ?thesis by (simp add: hash_ok_def o)
  qed
  moreover have "cipher_ok E (\<lambda>t. 0 + lent id v t) (map fst (cipher_statics E)) v"
  proof -
    have "counted (tmpl_repr cipher_layout) (tmpl_refs cipher_layout) (\<lambda>_. 0) v (map fst (cipher_statics E))"
      using v(2) [of Init_cipher] by (intro counted_ones) (force simp: tmpl_refs_def layout_parts, force simp: tmpl_refs_def cipher_layout_def)
    moreover have "cipher_bodies_ok E v"
      using b u [of Init_cipher] static_bodies(2) [of _ _ E]
      by (force simp: bodies_def cipher_bodies_ok_def tmpl_body_def cipher_layout_def dest!: map_of_SomeD)
    ultimately show ?thesis by (simp add: cipher_ok_def cipher_users_def [abs_def] lent_def o)
  qed
  moreover have "pbkdf_ok E (map fst (pbkdf_statics E)) v"
  proof -
    have "counted (tmpl_repr pbkdf_layout) (tmpl_refs pbkdf_layout) (\<lambda>_. 0) v (map fst (pbkdf_statics E))"
      using v(2) [of Init_pbkdf] by (intro counted_ones) (force simp: tmpl_refs_def layout_parts, force simp: tmpl_refs_def pbkdf_layout_def)
    then show ?thesis
      using b u [of Init_pbkdf] static_bodies(3) [of _ _ E]
      by (force simp: bodies_def pbkdf_ok_def tmpl_body_def pbkdf_layout_def dest!: map_of_SomeD)
  qed
  moreover have "rand_ok E [sym E ''openssl_type_rand''] v"
  proof -
    have "counted (tmpl_repr rand_layout) (tmpl_refs rand_layout) (\<lambda>_. 0) v [sym E ''openssl_type_rand'']"
      using v(2) [of Init_rand] by (intro counted_ones) (force simp: tmpl_refs_def layout_parts, force simp: tmpl_refs_def rand_layout_def)
    then show ?thesis
      using b u [of Init_rand]
      by (auto simp: bodies_def rand_ok_def tmpl_body_def rand_layout_def openssl_type_rand_def split: if_splits)
  qed
  moreover have "header_ok [sym E ''header_v1_type''] v"
  proof -
    have "counted (tmpl_repr header_layout) (tmpl_refs header_layout) (\<lambda>_. 0) v [sym E ''header_v1_type'']"
      using v(2) [of Init_header] by (intro counted_ones) (force simp: tmpl_refs_def layout_parts, force simp: tmpl_refs_def header_layout_def)
    then show ?thesis
      using b u [of Init_header]
      by (auto simp: o bodies_def header_ok_def tmpl_body_def header_layout_def header_v1_type_def split: if_splits)
  qed
  moreover have "writer_ok [sym E ''writer_v1_type''] v"
  proof -
    have "counted (tmpl_repr writer_layout) (tmpl_refs writer_layout) (\<lambda>_. 0) v [sym E ''writer_v1_type'']"
      using v(2) [of Init_writer] by (intro counted_ones) (force simp: tmpl_refs_def layout_parts, force simp: tmpl_refs_def writer_layout_def)
    then show ?thesis
      using b u [of Init_writer]
      by (auto simp: o bodies_def writer_ok_def tmpl_body_def writer_layout_def writer_v1_type_def split: if_splits)
  qed
  moreover have "files_ok v" by (simp add: files_ok_def o)
  ultimately have "world_ok E (\<lambda>_. 0) v" unfolding world_ok_def by blast
  then show ?thesis using v(1,3) no by blast
qed

subsection \<open>Sessions\<close>

primrec run_calls :: "env \<Rightarrow> api_call list \<Rightarrow> world \<Rightarrow> (answer list \<times> world) option" where
  "run_calls E [] w = Some ([], w)"
| "run_calls E (c # cs) w = do {
     (a, w) \<leftarrow> api_exec E c w;
     (as, w) \<leftarrow> run_calls E cs w;
     Some (a # as, w)
   }"

text \<open>Every call keeps its contract in the world it finds; nothing is asked of what follows an undefined call.\<close>

primrec session_contract :: "env \<Rightarrow> api_call list \<Rightarrow> (addr \<Rightarrow> nat) \<Rightarrow> world \<Rightarrow> bool" where
  "session_contract E [] own w = True"
| "session_contract E (c # cs) own w = (api_contract E own w c \<and>
     (case api_exec E c w of None \<Rightarrow> True | Some (a, u) \<Rightarrow> session_contract E cs (own_after c a own) u))"

lemma run_calls_sound:
  assumes "world_ok E own w" and "calloc_ok E" and "session_contract E cs own w"
  shows "\<exists>as u own'. run_calls E cs w = Some (as, u) \<and> length as = length cs \<and> world_ok E own' u"
  using assms
proof (induction cs arbitrary: own w)
  case Nil
  then show ?case by auto
next
  case (Cons c cs)
  obtain a u where u: "api_exec E c w = Some (a, u)" "world_ok E (own_after c a own) u"
    using api_call_is_sound [OF Cons.prems(1,2), of c] Cons.prems(3) by (auto simp: sound_call_def)
  then show ?case using Cons.IH [OF u(2) Cons.prems(2)] Cons.prems(3) by fastforce
qed

subsection \<open>The concrete environment\<close>

text \<open>
  An allocator that keeps the promise of \<open>calloc\<close> in every world: it has one block, and no memory when
  something lives there.
\<close>

definition session_env :: env where
  "session_env = demo_env\<lparr>libc := demo_libc\<lparr>e_calloc := \<lambda>n w. if fresh w 262144 n then 262144 else NULL\<rparr>\<rparr>"

lemma session_env_simps [simp]:
  "libc session_env = demo_libc\<lparr>e_calloc := \<lambda>n w. if fresh w 262144 n then 262144 else NULL\<rparr>"
  "evp session_env = demo_evp" "sym session_env = sym demo_env"
  by (simp_all add: session_env_def)

lemma session_calloc_ok: "calloc_ok session_env"
  by (simp add: calloc_ok_def)

lemma session_unloaded: "unloaded session_env c library_demo"
proof -
  have "hash_statics session_env = hash_statics demo_env" "cipher_statics session_env = cipher_statics demo_env"
    "pbkdf_statics session_env = pbkdf_statics demo_env"
    by (simp_all add: hash_statics_def cipher_statics_def pbkdf_statics_def)
  then have "unloaded session_env c library_demo = unloaded demo_env c library_demo" by (cases c) simp_all
  then show ?thesis using library_demo_unloaded by simp
qed

lemma library_demo_objects: "no_objects library_demo"
  by (simp add: no_objects_def library_demo_def blank_world_def)

lemma demo_order_all: "distinct demo_order" "set demo_order = UNIV"
  by (auto simp: demo_order_def constructor_UNIV)

text \<open>A digest, a cipher reference and a file: every call is within its contract, whatever the world.\<close>

definition session_demo :: "api_call list" where
  "session_demo =
     [Cipher (Cipher_ref ''aes-cbc-128''), Pbkdf (Pbkdf_derive (Some ''pbkdf-sha1'') 1000 (Some [1]) 1 [2] 1 20),
      Rand (Rand_get False 16), Header (Header_create (- 1) 3 100), Writer (Writer_create (- 1) ''aes-gcm-256'' 512),
      File (File_create 3 0 0 (Some \<lparr>op_header_size = 100, op_key_ident = Some ''cfe:key'', op_cipher = ''aes-cbc-128'',
        op_blocksize = 512\<rparr>))]"

lemma session_demo_contract: "session_contract E session_demo own w"
  by (auto simp: session_demo_def split: option.splits)

text \<open>The world that the constructors leave.\<close>

definition session_up :: world where
  "session_up = snd (the (run_constructors session_env demo_order library_demo))"

lemma session_up:
  "run_constructors session_env demo_order library_demo = Some (False, session_up)"
  "world_ok session_env (\<lambda>_. 0) session_up" "no_objects session_up" "registries_only library_demo session_up"
proof -
  obtain v where v: "run_constructors session_env demo_order library_demo = Some (False, v)"
      "world_ok session_env (\<lambda>_. 0) v" "no_objects v" "registries_only library_demo v"
    using load_world_ok [OF session_unloaded library_demo_objects demo_order_all] by blast
  then have "v = session_up" by (simp add: session_up_def)
  then show "run_constructors session_env demo_order library_demo = Some (False, session_up)"
    "world_ok session_env (\<lambda>_. 0) session_up" "no_objects session_up" "registries_only library_demo session_up"
    using v by simp_all
qed

lemma session_up_memory: "hash_memory session_env session_up"
proof -
  note r = session_up(4) [unfolded registries_only_def]
  have "w_hash_octxs session_up = Map.empty" "w_cipher_octxs session_up = Map.empty" "w_blocks session_up = Map.empty"
    using arg_cong [OF r, of w_hash_octxs] arg_cong [OF r, of w_cipher_octxs] arg_cong [OF r, of w_blocks]
    by (simp_all add: registries_of_def library_demo_def blank_world_def)
  then have "fresh (session_up\<lparr>w_hash := R\<rparr>) 262144 (OCTX_SIZE_hash session_env)" for R
    using session_up(3) by (simp add: fresh_def block_free_def no_objects_def OCTX_SIZE_hash_def demo_evp_def)
  then show ?thesis by (simp add: hash_memory_def demo_evp_def)
qed

subsection \<open>Properties\<close>

text \<open>C2: The interface is type sound. A well-typed world is one where every registry is well formed, every counter is
  the number of references to its type, every live object points at a registered type and carries its
  functions, every file has a header and a writer of its own, and every type object, registered or not, has
  the allocation or generator function of the library (a derivation of the application may be there if it
  leaves the world alone). In such a world a call that keeps its contract is defined, whatever the
  kernel and OpenSSL answer, and with or without memory for headers, writers and files; the
  world it leaves is well typed; and a pointer it returns is NULL or an object of the type the call returns.
  The contract asks that objects are live, that references are balanced and few, and that there is memory when
  a digest or cipher context is allocated.\<close>

theorem api_call_sound:
  assumes "world_ok E own w" and "calloc_ok E" and "api_contract E own w c"
  shows "\<exists>a u. api_exec E c w = Some (a, u) \<and> world_ok E (own_after c a own) u \<and> answer_ok c a u"
  using api_call_is_sound [OF assms] by (simp add: sound_call_def)

theorem api_call_sound_witness:
  "\<exists>a u. api_exec session_env (Hash (Hash_alloc_ctx ''sha256'')) session_up = Some (a, u) \<and>
    world_ok session_env (\<lambda>_. 0) u \<and> answer_ok (Hash (Hash_alloc_ctx ''sha256'')) a u"
  using api_call_sound [OF session_up(2) session_calloc_ok, of "Hash (Hash_alloc_ctx ''sha256'')"] session_up_memory
  by (simp add: own_after_def)

text \<open>C1: No session goes wrong. The constructors, run in any order from a load image in which nothing has been created,
  leave a well-typed world without aborting; and from there every sequence of calls, each within its
  contract in the world it finds (memory for a context included), is defined to its end: every call has an answer, and the world at the
  end is well typed.\<close>

theorem library_session:
  assumes "\<And>c. unloaded E c w" and "no_objects w" and "distinct cs" and "set cs = UNIV" and "calloc_ok E"
    and "session_contract E calls (\<lambda>_. 0) (snd (the (run_constructors E cs w)))"
  shows "\<exists>v as u own. run_constructors E cs w = Some (False, v) \<and> world_ok E (\<lambda>_. 0) v \<and>
    run_calls E calls v = Some (as, u) \<and> length as = length calls \<and> world_ok E own u"
proof -
  obtain v where v: "run_constructors E cs w = Some (False, v)" "world_ok E (\<lambda>_. 0) v"
    using load_world_ok [OF assms(1-4)] by blast
  then show ?thesis using run_calls_sound [OF v(2) assms(5)] assms(6) by fastforce
qed

theorem library_session_witness:
  "\<exists>v as u own. run_constructors session_env demo_order library_demo = Some (False, v) \<and>
    run_calls session_env session_demo v = Some (as, u) \<and> length as = 6 \<and> world_ok session_env own u"
  using library_session [OF session_unloaded library_demo_objects demo_order_all session_calloc_ok
      session_demo_contract]
  by (force simp: session_demo_def)

end
