(* ===== verification/Spec2Isabelle.thy ===== *)
theory Spec2Isabelle
  imports Cfe_Library Cfe_Hlist Cfe_Linear Cfe_Shared_Library Cfe_Keystore_Threads Cfe_Clients
begin

text \<open>
  \<^bold>\<open>libcfe\<close>, a C library for encrypted files, as definitions of HOL, and what makes it correct.

  \<^bold>\<open>The program.\<close> Six registries hold the algorithms and formats that the library knows: key
  derivations (\<^verbatim>\<open>src/crypto/pbkdf.c\<close>), random generators (\<^verbatim>\<open>rand.c\<close>), digests (\<^verbatim>\<open>hash.c\<close>), ciphers
  (\<^verbatim>\<open>cipher.c\<close>), header formats (\<^verbatim>\<open>src/fs/header.c\<close>) and writer formats (\<^verbatim>\<open>filewriter.c\<close>). Each is a circular
  list of type objects under a lock, with a reference count per type; the file formats also have a default,
  the newest. Beside every registry there is the one implementation that the library brings
  (\<^verbatim>\<open>*-openssl.c\<close>, \<^verbatim>\<open>header-v1.c\<close>, \<^verbatim>\<open>filewriter-v1.c\<close>); its constructor registers it when the library
  is loaded. A digest or cipher context holds a reference to its type and calls the implementation through a
  table of functions. \<^verbatim>\<open>open.c\<close> creates a file: it makes a header, which preallocates and maps the first pages
  of the file, and a writer, which takes a reference to a cipher. \<^verbatim>\<open>keystore.c\<close> passes calls on to the one key
  store of the process, the kernel's key ring (\<^verbatim>\<open>keystore-linux.c\<close>) or a Core Foundation dictionary
  (\<^verbatim>\<open>keystore-darwin.c\<close>).

  \<^bold>\<open>The theories\<close>, in the order of their imports. A definition has the name of the C function it models,
  with the file's subject added where C has the same static name in several files
  (\<open>find_alg_hash\<close>, \<open>openssl_alloc_ctx_cipher\<close>).
  \<^item> \<open>Cfe_Prelude\<close>: words, bytes, C strings, association lists; the collections of simplification rules.
  \<^item> \<open>Cfe_Atomic\<close>: \<^verbatim>\<open>include/cfe/atomic.h\<close> and \<^verbatim>\<open>ref.h\<close>. \<open>Cfe_List\<close>: the \<open>list_head\<close> half of \<^verbatim>\<open>list.h\<close>
    on a heap of nodes, with the relation \<open>dlist\<close> between the heap and the sequence of nodes.
    \<open>Cfe_Hlist\<close>: its \<open>hlist\<close> half, with the relation \<open>hlist\<close>. \<open>Cfe_Utils\<close>: \<^verbatim>\<open>utils.h\<close>, \<^verbatim>\<open>macros.h\<close>.
  \<^item> \<open>Cfe_World\<close>: every struct as a record, the global state as the record \<open>world\<close>, and the functions
    of the C library, the kernel and OpenSSL as the record \<open>env\<close>, a parameter of what calls them.
    \<open>Cfe_Libc\<close>: \<^verbatim>\<open>malloc.h\<close>, \<^verbatim>\<open>types.h\<close>, \<^verbatim>\<open>fcntl.c\<close>, \<^verbatim>\<open>log.c\<close>. \<open>Cfe_Demo\<close>: a concrete environment, for witnesses.
  \<^item> \<open>Cfe_Registry\<close>: the locale \<open>type_registry\<close>, the contract between a registry and its clients, and
    \<open>type_layout\<close>, what a struct has to provide for the common shape of the six registries to satisfy it.
    \<open>Cfe_Regspec\<close>: a registry as a list of types and a number of references to each, and the locale
    \<open>counted_registry\<close>, in which sequences of calls refine it. \<open>Cfe_Counted\<close>: the counters of a registry
    against the objects that point at its types (\<open>counted\<close>, \<open>users\<close>).
  \<^item> \<open>Cfe_Pbkdf\<close>, \<open>Cfe_Rand\<close>, \<open>Cfe_Hash\<close>, \<open>Cfe_Cipher\<close>, \<open>Cfe_Header\<close>, \<open>Cfe_Filewriter\<close>: a
    registry each and its implementation. The functions are written out from the source, shown equal to the common shape
    and interpreted in the contracts. \<open>Cfe_Open\<close>: \<^verbatim>\<open>open.c\<close>. \<open>Cfe_Keystore\<close>: the three key store files.
  \<^item> \<open>Cfe_Shared\<close>: the operations of the common shape of the registries cut into steps (\<open>shared_step\<close>), for
    any \<open>layout\<close>, and the invariant of the threads that interleave them. \<open>Cfe_Shared_Run\<close>: any number of threads
    with any number of calls, what they observe (\<open>shared_history\<close>), threads whose calls take effect at one
    instant (\<open>instant_op\<close>, \<open>instant_history\<close>), and the simulation between them. \<open>Cfe_Shared_Library\<close>: the six
    registries as instances, the default of the file formats being the newest of the list.
  \<^item> \<open>Cfe_Threads\<close>: the functions of \<^verbatim>\<open>pbkdf.c\<close> cut into steps (\<open>pc_step\<close>), and any number of threads that
    interleave them (\<open>sys_step\<close>, \<open>reachable\<close>). \<open>Cfe_Linear\<close>: what the threads observe (\<open>history\<close>), threads
    whose operations are atomic (\<open>atomic_step\<close>, \<open>atomic_history\<close>), and the simulation between them.
  \<^item> \<open>Cfe_Keystore_Threads\<close>: the functions of \<^verbatim>\<open>keystore-darwin.c\<close> cut into steps (\<open>store_step\<close>), threads that
    interleave them (\<open>store_history\<close>), and a map whose operations take one instant (\<open>map_op\<close>, \<open>map_history\<close>).
  \<^item> \<open>Cfe_Library\<close>: the constructors and the loaded library.
  \<^item> \<open>Cfe_Typing\<close>, \<open>Cfe_Cipher_Typing\<close>, \<open>Cfe_Header_Typing\<close>, \<open>Cfe_File_Typing\<close>: what it means that the part
    of the world that a component owns is well typed (\<open>hash_ok\<close>, \<open>cipher_ok\<close>, \<open>pbkdf_ok\<close>, \<open>rand_ok\<close>, \<open>header_ok\<close>,
    \<open>writer_ok\<close>, \<open>files_ok\<close>), and that each operation of the component is defined there and keeps it so.
    \<open>Cfe_Session\<close>: the calls of the interface as a datatype (\<open>api_call\<close>), their contracts, and the
    well-typed world (\<open>world_ok\<close>). \<open>Cfe_Clients\<close>: sequences of calls, from the load image on.
    This theory: properties that span components.

  \<^bold>\<open>How C is modelled.\<close> The result of an operation is an option: \<open>None\<close> is undefined behaviour (an access to
  an object that is not there, an arithmetic shift out of range, a call of a NULL function, a lock taken twice), and
  a theorem that an operation answers \<open>Some\<close> says in particular that it is defined. Pointers are
  64-bit addresses into one map per kind of object; an embedded object has its own address, that of the object around
  it plus the offset of the field. Integers have their C width, conversions between widths are written out
  (\<open>ucast\<close>), and the lengths that the code passes through an \<open>int\<close> are cut there. \<open>errno\<close> is a field of the
  world. The loops over lists follow the pointers of the heap; they are partial functions, and the lemmas say that
  on a well-formed list they return. There is no fuel anywhere.

  \<^bold>\<open>What is shown.\<close> The interface is type sound: from the load image, through the constructors, no sequence of
  calls that keep their contracts reaches an undefined operation, whatever the kernel and OpenSSL answer,
  and at every point each counter is one more than the number of references to its type (\<open>library_session\<close>,
  \<open>api_call_sound\<close>). The contract asks that named objects are live, that a reference that is dropped was taken, that a
  header of a file is not closed separately, that there are fewer than \<open>2 ^ 31\<close> objects, and that there is memory for
  a context (headers, writers and files may lack it). Well typed means also that every type object of the process,
  registered or not, has the functions of the library: implementations that an application brings are in the
  model of each function, as parameters, and not in these two theorems. The constructors load the library in any order (\<open>library_loads\<close>); a registry refines its
  specification (\<open>cipher_registry_refines\<close>), its default is the newest format
  (\<open>header_default_newest\<close>); sessions of digests and ciphers under any registered name are the OpenSSL
  function of that name and leave the world as it was (\<open>hash_library_sessions\<close>, \<open>cipher_library_sessions\<close>), with
  the additional data, the tag and any length of the initialisation vector for GCM, and what was sealed is opened
  again, under another tag refused (\<open>cipher_roundtrip\<close>); a context pins its type (\<open>hash_context_pins_type\<close>); creating a file succeeds, or fails and gives back what it took
  (\<open>cfe_create_ok\<close>, \<open>cfe_create_refusals\<close>, \<open>header_create_nospace\<close>); the process has one key store (\<open>keystore_set_once\<close>), and both kinds keep
  what they are given (\<open>keystore_linux_roundtrip\<close>, \<open>keystore_darwin_roundtrip\<close>, \<open>keystore_darwin_errors\<close>); the lists refine
  sequences. Threads that share the registry of key derivations never reach an undefined step, never see a type
  they use taken off the list, and never block each other for good (\<open>threads_safe\<close>, \<open>threads_progress\<close>); the
  calls and answers they observe are those of threads whose operations are atomic on a plain list
  (\<open>threads_linearize\<close>). The same is proved once for the registering, deregistering, taking and dropping of
  references of all six registries, where references live on between calls, and stated for the ciphers
  (\<open>cipher_threads_safe\<close>), the digests (\<open>hash_threads_progress\<close>) and the headers with their default
  (\<open>header_threads_linearize\<close>); that the steps of a thread alone are the functions of the component is a check of the
  cutting, not a property of the code (\<open>threads_alone\<close>, \<open>registry_steps_alone\<close>). Threads that share the Core Foundation store observe a map
  (\<open>keystore_threads_linearize\<close>). Some properties state what goes wrong: the writer that is never freed
  (\<open>cfe_file_free_leaks_writer\<close>), the file that stays preallocated (\<open>cfe_create_unknown_cipher\<close>), the error
  number that is lost (\<open>header_create_nomap\<close>), the context that is not NULL without memory
  (\<open>cfe_hash_alloc_ctx_oom\<close>), the 16-bit power of two (\<open>next_pow2_16_broken\<close>).

  \<^bold>\<open>What the properties assume of the environment.\<close> OpenSSL's digests consume their input in
  pieces (\<open>evp_digest_ok\<close>); its ciphers go through the stages that its manual describes, where GCM has a length of
  the initialisation vector that is 12 unless it was set, and takes the tag before the end or gives it after
  (\<open>evp_cipher_ok\<close>), and decryption inverts encryption (\<open>evp_inverse\<close>). The user's key ring, while the process
  searches it, holds what was added, where adding may fail and has the limits of keyutils (\<open>keyutils_ok\<close>). Core
  Foundation dictionaries are maps (\<open>cf_ok\<close>). \<open>calloc\<close> answers NULL or a block that is not in use (\<open>calloc_ok\<close>).
  That there is memory, space in the file or a mapping is asked of the very call that the code makes, in the world
  in which it makes it (\<open>create_ready\<close>, \<open>header_room\<close>). Each is shown to hold of a concrete environment
  (\<open>Cfe_Demo\<close>, whose allocator and kernel give no memory that is in use) by the witness of the property.

  \<^bold>\<open>Not modelled.\<close> Threads outside the registries and the Core Foundation store: what a call does between taking
  and dropping a reference (the operations of a context, the allocation of a header or writer, the system calls
  of the other key store) is one step, and no context, header, writer or file is shared between threads: no function
  takes a lock for them, those inside a header and a writer are only initialised and destroyed. The order in
  which a lock lets the waiting threads in. The attribute macros of
  \<^verbatim>\<open>compiler*.h\<close> and \<^verbatim>\<open>bug.h\<close>, the generated \<^verbatim>\<open>config.h\<close>, and the tests. Of the formats of \<^verbatim>\<open>log.c\<close>, those the
  library does not use: the log of the world is the text on the standard error output, written with \<open>%s\<close> and \<open>%m\<close>.
\<close>

section \<open>Properties that span components\<close>

text \<open>C16: Loading: whatever order the linker gives the seven constructors (of a Linux build), from the load image none
  of them aborts, and at the end every type of the library is registered in its registry with one
  reference, the version 1 formats are the defaults, the key store is the kernel's key ring, and nothing
  but the registries, the key store and the log has changed.\<close>

theorem library_loads:
  assumes "distinct cs" and "set cs = UNIV" and "\<forall>c. unloaded E c w"
  shows "\<exists>w'. run_constructors E cs w = Some (False, w') \<and> (\<forall>c. loaded E c w') \<and> registries_only w w'"
  using run_constructors_ok [OF assms(1), of E w] assms(2,3) by auto

theorem library_loads_witness:
  "\<exists>w'. run_constructors demo_env [Init_header, Init_writer, Init_pbkdf, Init_hash, Init_rand, Init_cipher, Init_keystore]
    library_demo = Some (False, w') \<and> (\<forall>c. loaded demo_env c w')"
proof -
  have "\<forall>c. unloaded demo_env c library_demo" using library_demo_unloaded by simp
  then show ?thesis
    using library_loads [of "[Init_header, Init_writer, Init_pbkdf, Init_hash, Init_rand, Init_cipher, Init_keystore]" demo_env library_demo]
    by (auto simp: constructor_UNIV)
qed

text \<open>C3: Creating an encrypted file on an empty regular file, with a registered cipher, an allocator that conforms
  to the C standard and has memory for the three objects, and a kernel that grants space and a mapping (each
  asked in the world in which the code makes the call), succeeds: the result is a file object that holds a mapped header of the
  normalised size and a writer, each of the three types has one reference more, all three registries stay
  well-formed, errno is untouched and the caller's key identifier is advanced past its prefix.\<close>

theorem cfe_create_ok:
  assumes c: "create_ready E fd n a b m w hs hty ws wty"
    and n: "n = ucast (normalize_headersize E (op_header_size p))"
    and d: "e_calloc (libc E) SIZEOF_FILEWRITER_V1
        (cipher_inc ct cty (writer_inc (writer_default w) wty (half_file a b n m E fd hty w))) = d" "d \<noteq> NULL"
    and ci: "tmpl_repr cipher_layout w cs" "ct \<in> set cs"
      "tmpl_key cipher_layout w ct = Some (cstr (op_cipher p))" "rg_types (w_cipher w) ct = Some cty"
    and arg: "0 \<le> fd" "op_key_ident p = Some ident" "strncmp ident ''cfe:'' 4 = 0"
    and st: "e_fstat (libc E) fd w = 0" "e_isreg (libc E) fd w" "w_fsize w fd = 0"
  shows "\<exists>w'. cfe_create E fd flags mode (Some p) w =
      Some (a, Some (p\<lparr>op_key_ident := Some (drop 4 ident)\<rparr>), w') \<and>
    w_files w' = (w_files w)(a \<mapsto> \<lparr>f_header = b, f_writer = d, f_refcnt = 1\<rparr>) \<and>
    w_headers w' = (w_headers w)(b \<mapsto> header_v1 m n (header_default w)) \<and>
    w_maps w' = (w_maps w)(m \<mapsto> n) \<and> w_fsize w' = fsize_after E fd n (w_fsize w) \<and>
    w_writers w' = (w_writers w)(d \<mapsto> zero_writer\<lparr>fw_lock := Some Unlocked,
      fw_ops := Some Cfe_filewriter_v1_ops, fw_type := writer_default w\<rparr>) \<and>
    tmpl_repr header_layout w' hs \<and> tmpl_repr writer_layout w' ws \<and> tmpl_repr cipher_layout w' cs \<and>
    tmpl_refs header_layout w' = (tmpl_refs header_layout w)(header_default w \<mapsto> hdt_refcnt hty + 1) \<and>
    tmpl_refs writer_layout w' = (tmpl_refs writer_layout w)(writer_default w \<mapsto> fwt_refcnt wty + 1) \<and>
    tmpl_refs cipher_layout w' = (tmpl_refs cipher_layout w)(ct \<mapsto> ct_refcnt cty + 1) \<and>
    errno w' = errno w"
proof -
  let ?p = "p\<lparr>op_key_ident := Some (drop 4 ident)\<rparr>"
  have n': "n = ucast (normalize_headersize E (op_header_size ?p))" and k': "op_cipher ?p = op_cipher p"
    by (simp_all add: n)
  have "cfe_create E fd flags mode (Some p) w = map_option (\<lambda>(file, w). (file, Some ?p, w)) (do_create E fd flags mode ?p w)"
    by (rule cfe_create_checked [OF arg st])
  then show ?thesis
    using do_create_ok [OF c n' d ci(1,2) _ ci(4), of flags mode] ci(3) by auto
qed

definition demo_params :: cfe_open_params where
  "demo_params = \<lparr>op_header_size = 100, op_key_ident = Some ''cfe:secret'', op_cipher = ''aes-cbc-128'',
     op_blocksize = 4096\<rparr>"

lemma demo_size: "4096 = ucast (normalize_headersize demo_env (op_header_size demo_params))"
  by (simp add: normalize_headersize_def demo_libc_def demo_params_def)

theorem cfe_create_ok_witness:
  "\<exists>w'. cfe_create demo_env 3 0 0 (Some demo_params) library_up =
      Some (65536, Some (demo_params\<lparr>op_key_ident := Some ''secret''\<rparr>), w') \<and>
    w_files w' 65536 = Some \<lparr>f_header = 131072, f_writer = 196608, f_refcnt = 1\<rparr>"
proof -
  have r: "create_ready demo_env 3 4096 65536 131072 1048576 library_up [20480] (header_v1_type\<lparr>hdt_refcnt := 1\<rparr>)
    [24576] (writer_v1_type\<lparr>fwt_refcnt := 1\<rparr>)" by (rule library_up_ready) simp
  have k: "tmpl_key cipher_layout library_up 8192 = Some (cstr (op_cipher demo_params))"
    by (simp add: library_up_ciphers(2) demo_params_def)
  have i: "op_key_ident demo_params = Some ''cfe:secret''" "strncmp ''cfe:secret'' ''cfe:'' 4 = 0"
    by (simp add: demo_params_def) (simp add: strncmp_eq_0_iff cstr_def)
  have "\<exists>w'. cfe_create demo_env 3 0 0 (Some demo_params) library_up =
      Some (65536, Some (demo_params\<lparr>op_key_ident := Some (drop 4 ''cfe:secret'')\<rparr>), w') \<and>
    w_files w' = (w_files library_up)(65536 \<mapsto> \<lparr>f_header = 131072, f_writer = 196608, f_refcnt = 1\<rparr>)"
    using cfe_create_ok [OF r demo_size _ _ library_up_ciphers(1) _ k library_up_ciphers(3) _ i, of 196608 0 0]
    by (simp add: SIZEOF_FILEWRITER_V1_def library_up_writer_fresh) (simp add: demo_libc_def, blast)
  then show ?thesis by auto
qed




text \<open>C28: cfe_create refuses with EINVAL, touching neither the parameters nor anything but errno, a negative
  descriptor, absent parameters and a key identifier that is absent or does not begin with cfe:; with
  good arguments it answers the error of fstat when that fails and EINVAL for a file that is not regular
  or not empty, but by then it has advanced the caller's key identifier, so that the caller who tries
  again with the same parameters is refused unless the rest begins with the prefix once more.\<close>

theorem cfe_create_refusals:
  shows "(if \<not> create_args_ok fd params
      then cfe_create E fd flags mode params w = Some (NULL, params, w\<lparr>errno := EINVAL\<rparr>)
      else e_fstat (libc E) fd w \<noteq> 0 \<or> \<not> e_isreg (libc E) fd w \<or> w_fsize w fd \<noteq> 0 \<longrightarrow>
        (\<exists>p ident. params = Some p \<and> op_key_ident p = Some ident \<and> cstr ident = ''cfe:'' @ cstr (drop 4 ident) \<and>
          cfe_create E fd flags mode params w = Some (NULL, Some (p\<lparr>op_key_ident := Some (drop 4 ident)\<rparr>),
            w\<lparr>errno := (if e_fstat (libc E) fd w \<noteq> 0 then e_fstat (libc E) fd w else EINVAL)\<rparr>) \<and>
          (strncmp (drop 4 ident) ''cfe:'' 4 \<noteq> 0 \<longrightarrow>
            \<not> create_args_ok fd (Some (p\<lparr>op_key_ident := Some (drop 4 ident)\<rparr>)))))"
proof (cases "create_args_ok fd params")
  case False
  then show ?thesis by (simp add: cfe_create_einval)
next
  case True
  then obtain p ident where p: "params = Some p" "op_key_ident p = Some ident" "strncmp ident ''cfe:'' 4 = 0" "0 \<le> fd"
    by (auto simp: create_args_ok_def)
  show ?thesis
    using True p strncmp_cfe [OF p(3)] cfe_create_statted [OF p(4,2,3) refl]
    by (auto simp: create_args_ok_def)
qed

theorem cfe_create_refusals_witness:
  "cfe_create demo_env 3 0 0 None library_up = Some (NULL, None, library_up\<lparr>errno := EINVAL\<rparr>)"
  using cfe_create_refusals [of 3 None demo_env 0 0 library_up] by (simp add: create_args_ok_def)

text \<open>C24: Freeing a file object closes its header (the mapping, the header object and the reference to the
  header type are given back) but forgets its writer: the writer object stays allocated, the types of the
  writer and of the cipher keep the reference that the file took, and deregistering the cipher is then
  refused with EBUSY. As in the property of cfe_create, memory, space and the mapping are granted in the
  worlds in which the code asks for them.\<close>

theorem cfe_file_free_leaks_writer:
  assumes c: "create_ready E fd n a b m w hs hty ws wty"
    and n: "n = ucast (normalize_headersize E (op_header_size p))"
    and d: "e_calloc (libc E) SIZEOF_FILEWRITER_V1
        (cipher_inc ct cty (writer_inc (writer_default w) wty (half_file a b n m E fd hty w))) = d" "d \<noteq> NULL"
    and ci: "tmpl_repr cipher_layout w cs" "ct \<in> set cs"
      "tmpl_key cipher_layout w ct = Some (cstr (op_cipher p))" "rg_types (w_cipher w) ct = Some cty"
    and one: "cfe_atomic_get (ct_refcnt cty + 1) \<noteq> 1"
  shows "\<exists>w' w''. do_create E fd flags mode p w = Some (a, w') \<and> cfe_file_free E a w' = Some w'' \<and>
    w_files w'' = w_files w \<and> w_headers w'' = w_headers w \<and> w_maps w'' = w_maps w \<and>
    tmpl_refs header_layout w'' = tmpl_refs header_layout w \<and>
    w_writers w'' d \<noteq> None \<and>
    tmpl_refs writer_layout w'' = (tmpl_refs writer_layout w)(writer_default w \<mapsto> fwt_refcnt wty + 1) \<and>
    tmpl_refs cipher_layout w'' = (tmpl_refs cipher_layout w)(ct \<mapsto> ct_refcnt cty + 1) \<and>
    cfe_cipher_unregister ct w'' = Some (1, w''\<lparr>errno := EBUSY\<rparr>)"
proof -
  let ?t = "header_default w"
  obtain w' where w': "do_create E fd flags mode p w = Some (a, w')"
    "w_files w' = (w_files w)(a \<mapsto> \<lparr>f_header = b, f_writer = d, f_refcnt = 1\<rparr>)"
    "w_headers w' = (w_headers w)(b \<mapsto> header_v1 m n ?t)" "w_maps w' = (w_maps w)(m \<mapsto> n)"
    "w_writers w' d \<noteq> None" "tmpl_repr cipher_layout w' cs"
    "tmpl_refs header_layout w' = (tmpl_refs header_layout w)(?t \<mapsto> hdt_refcnt hty + 1)"
    "tmpl_refs writer_layout w' = (tmpl_refs writer_layout w)(writer_default w \<mapsto> fwt_refcnt wty + 1)"
    "tmpl_refs cipher_layout w' = (tmpl_refs cipher_layout w)(ct \<mapsto> ct_refcnt cty + 1)"
    using do_create_ok [OF c n d ci, of flags mode] by auto
  note ab = create_readyD(2-5) [OF c]
  have r: "tmpl_refs header_layout w ?t = Some (hdt_refcnt hty)" "w_maps w m = None" "m \<noteq> NULL"
      "\<And>v. w_maps v m = Some n \<Longrightarrow> e_munmap (libc E) m n v = 0"
    using c by (simp_all add: create_ready_def tmpl_refs_def header_layout_def)
  have "tmpl_refs header_layout w' ?t = Some (hdt_refcnt hty + 1)" using w'(7) by simp
  then obtain ty where ty: "rg_types (w_header w') ?t = Some ty" "hdt_refcnt ty = hdt_refcnt hty + 1"
    by (auto simp: tmpl_refs_def header_layout_def)
  define w'' where "w'' = header_type_put ?t (hdt_refcnt_update cfe_atomic_dec ty)
    (w'\<lparr>w_maps := (w_maps w')(m := None), w_headers := (w_headers w')(b := None), w_files := (w_files w')(a := None)\<rparr>)"
  have free: "cfe_file_free E a w' = Some w''"
    unfolding w''_def by (rule cfe_file_free_v1 [OF _ ab(1,3) _ r(3) _ r(4) ty(1)]) (simp_all add: w'(2,3,4))
  have parts: "w_files w'' = w_files w" "w_headers w'' = w_headers w" "w_maps w'' = w_maps w"
      "w_writers w'' = w_writers w'" "w_writer w'' = w_writer w'" "writer_default w'' = writer_default w'"
      "w_cipher w'' = w_cipher w'"
    using ab(2,4) r(2) by (simp_all add: w''_def header_type_put_def w'(2,3,4) fun_upd_idem)
  have "tmpl_refs header_layout w'' = (tmpl_refs header_layout w')(?t \<mapsto> hdt_refcnt ty - 1)"
    by (auto simp: w''_def header_type_put_def tmpl_refs_def header_layout_def fun_eq_iff)
  then have "tmpl_refs header_layout w'' = tmpl_refs header_layout w"
    using w'(7) ty(2) r(1) by (simp add: fun_upd_idem)
  moreover have "cfe_cipher_unregister ct w'' = Some (1, w''\<lparr>errno := EBUSY\<rparr>)"
    using cipher.unregister_busy [of w'' cs ct "ct_refcnt cty + 1"] cipher_repr_cong [OF parts(7)] w'(6,9) one by simp
  ultimately show ?thesis
    using w' free parts writer_repr_cong [OF parts(5,6)] cipher_repr_cong [OF parts(7)]
    by (intro exI [of _ w'] exI [of _ w'']) simp
qed

theorem cfe_file_free_leaks_writer_witness:
  "\<exists>w' w''. do_create demo_env 3 0 0 demo_params library_up = Some (65536, w') \<and>
    cfe_file_free demo_env 65536 w' = Some w'' \<and> w_writers w'' 196608 \<noteq> None \<and>
    cfe_cipher_unregister 8192 w'' = Some (1, w''\<lparr>errno := EBUSY\<rparr>)"
proof -
  have r: "create_ready demo_env 3 4096 65536 131072 1048576 library_up [20480] (header_v1_type\<lparr>hdt_refcnt := 1\<rparr>)
    [24576] (writer_v1_type\<lparr>fwt_refcnt := 1\<rparr>)" by (rule library_up_ready) simp
  have k: "tmpl_key cipher_layout library_up 8192 = Some (cstr (op_cipher demo_params))"
    by (simp add: library_up_ciphers(2) demo_params_def)
  have "\<exists>w' w''. do_create demo_env 3 0 0 demo_params library_up = Some (65536, w') \<and>
    cfe_file_free demo_env 65536 w' = Some w'' \<and>
    w_files w'' = w_files library_up \<and> w_headers w'' = w_headers library_up \<and> w_maps w'' = w_maps library_up \<and>
    tmpl_refs header_layout w'' = tmpl_refs header_layout library_up \<and>
    w_writers w'' 196608 \<noteq> None \<and>
    tmpl_refs writer_layout w'' = (tmpl_refs writer_layout library_up)
      (writer_default library_up \<mapsto> fwt_refcnt (writer_v1_type\<lparr>fwt_refcnt := 1\<rparr>) + 1) \<and>
    tmpl_refs cipher_layout w'' = (tmpl_refs cipher_layout library_up)
      (8192 \<mapsto> ct_refcnt (openssl_type_aes_cbc128\<lparr>ct_refcnt := 1\<rparr>) + 1) \<and>
    cfe_cipher_unregister 8192 w'' = Some (1, w''\<lparr>errno := EBUSY\<rparr>)"
    by (rule cfe_file_free_leaks_writer [OF r demo_size _ _ library_up_ciphers(1) _ k library_up_ciphers(3)])
      (simp_all add: SIZEOF_FILEWRITER_V1_def library_up_writer_fresh demo_cbc128(2) cfe_atomic_get_def)
  then show ?thesis by blast
qed

end
